(* ===== verification/Media_Prelude.thy ===== *)
theory Media_Prelude
  imports Main "HOL-Library.Word" "HOL-Library.Monad_Syntax" "HOL-Library.Multiset"
begin

text \<open>
  What the components share: the Go types of the program, the Go operations on slices that can
  panic, and the generic lemmas on lists and words.

  Conventions.  A Go value that may panic at run time (an index out of range, a slice bound out of
  range, an integer division by zero, a nil dereference, an explicit \<open>panic\<close>) is an
  \<open>option\<close>: \<open>None\<close> is the panic, and the do-notation of \<open>Monad_Syntax\<close> passes it on.  A Go
  \<open>error\<close> is a value of its own, \<open>None\<close> (nil) or \<open>Some e\<close>.  A w-bit integer is a
  \<open>w word\<close>; a Go \<open>int\<close> that only indexes or counts is a \<open>nat\<close>, any other one an \<open>int\<close>.
  A point in time and a duration are \<open>int\<close>s of nanoseconds.
\<close>

section \<open>Types\<close>

type_synonym u8 = "8 word"
type_synonym u16 = "16 word"
type_synonym u32 = "32 word"
type_synonym u64 = "64 word"

text \<open>A signed sample is the same word; \<open>sint\<close> reads it.\<close>
type_synonym i16 = "16 word"
type_synonym i32 = "32 word"
type_synonym pcm16 = "i16 list"

type_synonym bytes = "u8 list"
type_synonym ns = int

text \<open>The error values of the standard library and of the program that the model distinguishes.\<close>

datatype go_error =
    EOF | ErrClosedPipe | ErrShortBuffer | ErrUnexpectedEOF | ErrOther string

section \<open>Go slices\<close>

text \<open>\<open>xs[i]\<close>, \<open>xs[i] = v\<close>, \<open>xs[i:j]\<close> and \<open>a % n\<close>, with their panics.\<close>

definition go_index :: "'a list \<Rightarrow> nat \<Rightarrow> 'a option" where
  "go_index xs i = (if i < length xs then Some (xs ! i) else None)"

definition go_update :: "'a list \<Rightarrow> nat \<Rightarrow> 'a \<Rightarrow> 'a list option" where
  "go_update xs i v = (if i < length xs then Some (xs[i := v]) else None)"

definition go_slice :: "'a list \<Rightarrow> nat \<Rightarrow> nat \<Rightarrow> 'a list option" where
  "go_slice xs i j = (if i \<le> j \<and> j \<le> length xs then Some (take (j - i) (drop i xs)) else None)"

definition go_mod :: "nat \<Rightarrow> nat \<Rightarrow> nat option" where
  "go_mod a n = (if n = 0 then None else Some (a mod n))"

text \<open>\<open>n := copy(dst, src)\<close>: the count and the new contents of \<open>dst\<close>.\<close>

definition go_copy :: "'a list \<Rightarrow> 'a list \<Rightarrow> nat \<times> 'a list" where
  "go_copy dst src =
     (let n = min (length dst) (length src) in (n, take n src @ drop n dst))"

text \<open>\<open>n := copy(dst[i:], src)\<close>: the count and the new contents of the whole of \<open>dst\<close>.\<close>

definition go_copy_at :: "'a list \<Rightarrow> nat \<Rightarrow> 'a list \<Rightarrow> (nat \<times> 'a list) option" where
  "go_copy_at dst i src =
     (if i \<le> length dst
      then (let (n, seg) = go_copy (drop i dst) src in Some (n, take i dst @ seg))
      else None)"

text \<open>\<open>a / b\<close> on signed integers truncates towards zero, and panics when \<open>b\<close> is 0.\<close>

definition go_quot :: "int \<Rightarrow> int \<Rightarrow> int" where
  "go_quot a b = sgn a * sgn b * (\<bar>a\<bar> div \<bar>b\<bar>)"

definition go_div :: "int \<Rightarrow> int \<Rightarrow> int option" where
  "go_div a b = (if b = 0 then None else Some (go_quot a b))"

text \<open>The conversion to \<open>int32\<close>, and an \<open>int\<close> or \<open>Duration\<close> result wrapped to 64 bits.\<close>

definition go_int32 :: "int \<Rightarrow> int" where
  "go_int32 x = sint (word_of_int x :: 32 word)"

definition go_int64 :: "int \<Rightarrow> int" where
  "go_int64 x = sint (word_of_int x :: 64 word)"

lemma go_int32_id: "- 2147483648 \<le> x \<Longrightarrow> x < 2147483648 \<Longrightarrow> go_int32 x = x"
  by (simp add: go_int32_def int_word_sint)

lemma go_int64_id: "- 9223372036854775808 \<le> x \<Longrightarrow> x < 9223372036854775808 \<Longrightarrow> go_int64 x = x"
  by (simp add: go_int64_def int_word_sint)

lemma go_quot_nonneg [simp]: "0 \<le> a \<Longrightarrow> 0 < b \<Longrightarrow> go_quot a b = a div b"
  by (cases "a = 0") (simp_all add: go_quot_def)

named_theorems go_defs \<open>the Go operations on slices\<close>
declare go_index_def [go_defs] go_update_def [go_defs] go_slice_def [go_defs]
  go_mod_def [go_defs] go_copy_def [go_defs] go_copy_at_def [go_defs]

lemma go_copy_length [simp]: "length (snd (go_copy dst src)) = length dst"
  by (simp add: go_copy_def Let_def)

lemma fst_go_copy: "fst (go_copy dst src) = min (length dst) (length src)"
  by (simp add: go_copy_def Let_def)

section \<open>Lists\<close>

text \<open>The last \<open>n\<close> elements of a list: what a bounded buffer keeps.\<close>

definition last_n :: "nat \<Rightarrow> 'a list \<Rightarrow> 'a list" where
  "last_n n xs = drop (length xs - n) xs"

lemma length_last_n [simp]: "length (last_n n xs) = min n (length xs)"
  by (simp add: last_n_def)

lemma last_n_all [simp]: "length xs \<le> n \<Longrightarrow> last_n n xs = xs"
  by (simp add: last_n_def)

lemma last_n_append_right: "n \<le> length ys \<Longrightarrow> last_n n (xs @ ys) = last_n n ys"
  by (simp add: last_n_def)

lemma last_n_append: "length ys \<le> n \<Longrightarrow> last_n n (xs @ ys) = last_n (n - length ys) xs @ ys"
  by (simp add: last_n_def)

lemma last_n_last_n_append: "last_n n (last_n n xs @ ys) = last_n n (xs @ ys)"
  by (cases "length xs \<le> n") (auto simp: last_n_def add.commute)

section \<open>Signed words\<close>

lemma sint_of_int_i16: "- 32768 \<le> x \<Longrightarrow> x < 32768 \<Longrightarrow> sint (word_of_int x :: i16) = x"
  by (simp add: int_word_sint)

lemma sint_of_int_i32:
  "- 2147483648 \<le> x \<Longrightarrow> x < 2147483648 \<Longrightarrow> sint (word_of_int x :: i32) = x"
  by (simp add: int_word_sint)

lemma sint_scast_i16: "- 32768 \<le> sint w \<Longrightarrow> sint w < 32768 \<Longrightarrow> sint (scast (w :: i32) :: i16) = sint w"
  unfolding scast_eq by (rule sint_of_int_i16)

lemma unat_u8_less: "unat (a :: u8) < 256"
  using unsigned_less [of a, where ?'a = nat] by simp

lemma word_of_int_of_sint: "sint w = x \<Longrightarrow> w = word_of_int x"
  by auto

end
