(* ===== verification/Ring_Buffer.thy ===== *)
theory Ring_Buffer
  imports Media_Prelude
begin

text \<open>
  The generic ring buffer of \<open>ring/buffer.go\<close>: a slice with a write index, a read index and a
  flag that tells the full buffer from the empty one.  The abstract view is the list of the buffered
  elements, oldest first; every operation is shown to be an operation on that list.
\<close>

section \<open>State and operations\<close>

record 'a ring =
  rb_buf :: "'a list"
  rb_write :: nat
  rb_read :: nat
  rb_full :: bool

text \<open>\<open>make([]T, sz)\<close> panics on a negative size; \<open>zero\<close> is the zero value of \<open>T\<close>.\<close>

definition ring_NewBuffer :: "'a \<Rightarrow> int \<Rightarrow> 'a ring option" where
  "ring_NewBuffer zero sz =
     (if sz < 0 then None
      else Some \<lparr>rb_buf = replicate (nat sz) zero, rb_write = 0, rb_read = 0, rb_full = False\<rparr>)"

definition ring_Size :: "'a ring \<Rightarrow> nat" where
  "ring_Size b = length (rb_buf b)"

definition ring_Len :: "'a ring \<Rightarrow> nat" where
  "ring_Len b =
     (if rb_read b = rb_write b then (if rb_full b then length (rb_buf b) else 0)
      else if rb_read b < rb_write b then rb_write b - rb_read b
      else nat (int (rb_write b) - int (rb_read b) + int (length (rb_buf b))))"

definition ring_TryPeek :: "'a \<Rightarrow> 'a ring \<Rightarrow> ('a \<times> bool) option" where
  "ring_TryPeek zero b =
     (if \<not> rb_full b \<and> rb_read b = rb_write b then Some (zero, False)
      else do { v \<leftarrow> go_index (rb_buf b) (rb_read b); Some (v, True) })"

definition ring_Peek :: "'a \<Rightarrow> 'a ring \<Rightarrow> 'a option" where
  "ring_Peek zero b = do { (v, _) \<leftarrow> ring_TryPeek zero b; Some v }"

definition ring_TryPop :: "'a \<Rightarrow> 'a ring \<Rightarrow> (('a \<times> bool) \<times> 'a ring) option" where
  "ring_TryPop zero b =
     (if \<not> rb_full b \<and> rb_read b = rb_write b then Some ((zero, False), b)
      else do {
        v \<leftarrow> go_index (rb_buf b) (rb_read b);
        r \<leftarrow> go_mod (rb_read b + 1) (length (rb_buf b));
        Some ((v, True), b\<lparr>rb_full := False, rb_read := r\<rparr>) })"

definition ring_Pop :: "'a \<Rightarrow> 'a ring \<Rightarrow> ('a \<times> 'a ring) option" where
  "ring_Pop zero b = do { ((v, _), b') \<leftarrow> ring_TryPop zero b; Some (v, b') }"

definition ring_TryPush :: "'a \<Rightarrow> 'a ring \<Rightarrow> (bool \<times> 'a ring) option" where
  "ring_TryPush v b =
     (if rb_full b then Some (False, b)
      else do {
        xs \<leftarrow> go_update (rb_buf b) (rb_write b) v;
        w \<leftarrow> go_mod (rb_write b + 1) (length xs);
        Some (True, b\<lparr>rb_buf := xs, rb_write := w, rb_full := (w = rb_read b)\<rparr>) })"

definition ring_Push :: "'a \<Rightarrow> 'a ring \<Rightarrow> 'a ring option" where
  "ring_Push v b = do {
     r \<leftarrow> (if rb_full b then go_mod (rb_read b + 1) (length (rb_buf b)) else Some (rb_read b));
     xs \<leftarrow> go_update (rb_buf b) (rb_write b) v;
     w \<leftarrow> go_mod (rb_write b + 1) (length xs);
     Some (b\<lparr>rb_read := r, rb_buf := xs, rb_write := w, rb_full := (w = r)\<rparr>) }"

text \<open>\<open>Read(p)\<close>: the count, the error, the caller's slice after the call, and the buffer.\<close>

definition ring_Read ::
  "'a list \<Rightarrow> 'a ring \<Rightarrow> ((nat \<times> go_error option) \<times> 'a list \<times> 'a ring) option" where
  "ring_Read p b =
     (if length p = 0 then Some ((0, None), p, b)
      else if ring_Len b = 0 then Some ((0, Some EOF), p, b)
      else do {
        let b0 = b\<lparr>rb_full := False\<rparr>;
        let end = (if rb_read b0 < rb_write b0 then rb_write b0 else length (rb_buf b0));
        seg \<leftarrow> go_slice (rb_buf b0) (rb_read b0) end;
        let (dn, p1) = go_copy p seg;
        r1 \<leftarrow> go_mod (rb_read b0 + dn) (length (rb_buf b0));
        let b1 = b0\<lparr>rb_read := r1\<rparr>;
        let rest = drop dn p1;
        (if length rest = 0 \<or> rb_read b1 = rb_write b1 then Some ((dn, None), p1, b1)
         else do {
           seg2 \<leftarrow> go_slice (rb_buf b1) (rb_read b1) (rb_write b1);
           let (dn2, rest2) = go_copy rest seg2;
           r2 \<leftarrow> go_mod (rb_read b1 + dn2) (length (rb_buf b1));
           Some ((dn + dn2, None), take dn p1 @ rest2, b1\<lparr>rb_read := r2\<rparr>) }) })"

text \<open>
  \<open>Write(p)\<close>, in the code's three parts: \<open>p\<close> shortened to the buffer's size (\<open>n\<close> counts what was
  cut off), the oldest elements dropped (or the whole buffer overwritten at once), and the copy in
  one or two segments.
\<close>

definition ring_write_copy ::
  "nat \<Rightarrow> 'a list \<Rightarrow> 'a ring \<Rightarrow> ((nat \<times> go_error option) \<times> 'a ring) option" where
  "ring_write_copy n p b = do {
     (dn, xs) \<leftarrow> go_copy_at (rb_buf b) (rb_write b) p;
     w \<leftarrow> go_mod (rb_write b + dn) (length xs);
     let b1 = b\<lparr>rb_buf := xs, rb_write := w\<rparr>;
     let p1 = drop dn p;
     (n2, b2) \<leftarrow>
       (if length p1 > 0
        then do {
          (dn2, ys) \<leftarrow> go_copy_at (rb_buf b1) (rb_write b1) p1;
          w2 \<leftarrow> go_mod (rb_write b1 + dn2) (length ys);
          Some (n + dn + dn2, b1\<lparr>rb_buf := ys, rb_write := w2\<rparr>) }
        else Some (n + dn, b1));
     Some ((n2, None), b2\<lparr>rb_full := (rb_write b2 = rb_read b2)\<rparr>) }"

definition ring_Write :: "'a list \<Rightarrow> 'a ring \<Rightarrow> ((nat \<times> go_error option) \<times> 'a ring) option" where
  "ring_Write p0 b =
     (if length p0 = 0 then Some ((0, None), b)
      else
        let n = length p0 - length (rb_buf b); p = drop n p0 in
        if ring_Len b + length p \<ge> ring_Size b then
          (if length p = length (rb_buf b)
           then (let (dn, xs) = go_copy (rb_buf b) p in
                 Some ((n + dn, None),
                       b\<lparr>rb_buf := xs, rb_read := 0, rb_write := 0, rb_full := True\<rparr>))
           else do {
             r \<leftarrow> go_mod (rb_read b + (ring_Len b + length p - ring_Size b)) (length (rb_buf b));
             ring_write_copy n p (b\<lparr>rb_read := r\<rparr>) })
        else ring_write_copy n p b)"

section \<open>Invariant and abstract view\<close>

text \<open>Both indices are in range, and only equal indices are marked full.\<close>

definition ring_ok :: "'a ring \<Rightarrow> bool" where
  "ring_ok b \<longleftrightarrow>
     (rb_full b \<longrightarrow> rb_read b = rb_write b) \<and>
     (if rb_buf b = [] then rb_read b = 0 \<and> rb_write b = 0
      else rb_read b < length (rb_buf b) \<and> rb_write b < length (rb_buf b))"

definition ring_contents :: "'a ring \<Rightarrow> 'a list" where
  "ring_contents b =
     (if rb_read b = rb_write b \<and> \<not> rb_full b then []
      else if rb_read b < rb_write b
        then take (rb_write b - rb_read b) (drop (rb_read b) (rb_buf b))
      else drop (rb_read b) (rb_buf b) @ take (rb_write b) (rb_buf b))"

lemma ring_Len_contents: "ring_ok b \<Longrightarrow> ring_Len b = length (ring_contents b)"
  by (auto simp: ring_ok_def ring_Len_def ring_contents_def split: if_splits)

lemma ring_contents_bound: "ring_ok b \<Longrightarrow> length (ring_contents b) \<le> ring_Size b"
  by (auto simp: ring_ok_def ring_Size_def ring_contents_def split: if_splits)

section \<open>The operations on the abstract view\<close>

lemma ring_NewBuffer_spec:
  "ring_NewBuffer zero sz = Some b \<Longrightarrow>
     ring_ok b \<and> ring_contents b = [] \<and> ring_Size b = nat sz"
  by (auto simp: ring_NewBuffer_def ring_ok_def ring_contents_def ring_Size_def split: if_splits)

lemma ring_empty_iff:
  "ring_ok b \<Longrightarrow> 0 < ring_Size b \<Longrightarrow>
     (\<not> rb_full b \<and> rb_read b = rb_write b) \<longleftrightarrow> ring_contents b = []"
  by (auto simp: ring_ok_def ring_contents_def ring_Size_def split: if_splits)

lemma ring_full_iff:
  "ring_ok b \<Longrightarrow> 0 < ring_Size b \<Longrightarrow> rb_full b \<longleftrightarrow> length (ring_contents b) = ring_Size b"
  by (auto simp: ring_ok_def ring_contents_def ring_Size_def split: if_splits)

lemma ring_contents_hd:
  "ring_ok b \<Longrightarrow> ring_contents b \<noteq> [] \<Longrightarrow>
     rb_read b < length (rb_buf b) \<and> hd (ring_contents b) = rb_buf b ! rb_read b"
  by (auto simp: ring_ok_def ring_contents_def hd_drop_conv_nth hd_append split: if_splits)

lemma ring_TryPeek_spec:
  assumes "ring_ok b" "0 < ring_Size b"
  shows "ring_TryPeek zero b =
    Some (case ring_contents b of [] \<Rightarrow> (zero, False) | v # _ \<Rightarrow> (v, True))"
  using assms ring_empty_iff [OF assms] ring_contents_hd [OF assms(1)]
  by (auto simp: ring_TryPeek_def go_defs split: list.splits)

lemma ring_pop_contents:
  assumes "ring_ok b" "ring_contents b \<noteq> []"
  defines "b' \<equiv> b\<lparr>rb_full := False, rb_read := (rb_read b + 1) mod length (rb_buf b)\<rparr>"
  shows "ring_ok b' \<and> ring_contents b' = tl (ring_contents b) \<and> ring_Size b' = ring_Size b"
proof (cases "rb_read b < rb_write b")
  case True
  then show ?thesis using assms
    by (auto simp: ring_ok_def ring_contents_def ring_Size_def tl_take tl_drop drop_Suc)
next
  case False
  note nlt = False
  have r: "rb_read b < length (rb_buf b)" using ring_contents_hd assms by blast
  then have "drop (rb_read b) (rb_buf b) = rb_buf b ! rb_read b # drop (Suc (rb_read b)) (rb_buf b)"
    by (simp add: Cons_nth_drop_Suc)
  with False assms have c: "ring_contents b =
      rb_buf b ! rb_read b # drop (Suc (rb_read b)) (rb_buf b) @ take (rb_write b) (rb_buf b)"
    by (auto simp: ring_contents_def split: if_splits)
  show ?thesis
  proof (cases "Suc (rb_read b) = length (rb_buf b)")
    case True
    with c nlt assms r show ?thesis
      by (auto simp: ring_ok_def ring_contents_def ring_Size_def)
  next
    case False
    with r have "Suc (rb_read b) < length (rb_buf b)" by simp
    with c nlt assms r show ?thesis
      by (auto simp: ring_ok_def ring_contents_def ring_Size_def)
  qed
qed

lemma ring_TryPop_spec:
  assumes "ring_ok b" "0 < ring_Size b"
  shows "\<exists>b'. ring_ok b' \<and> ring_Size b' = ring_Size b \<and> ring_contents b' = tl (ring_contents b) \<and>
    ring_TryPop zero b =
      Some (case ring_contents b of [] \<Rightarrow> (zero, False) | v # _ \<Rightarrow> (v, True), b')"
proof (cases "ring_contents b")
  case Nil
  then show ?thesis using assms ring_empty_iff [OF assms] by (auto simp: ring_TryPop_def)
next
  case (Cons v vs)
  with assms ring_pop_contents [OF assms(1)] ring_contents_hd [OF assms(1)] ring_empty_iff [OF assms]
  show ?thesis by (auto simp: ring_TryPop_def go_defs ring_Size_def)
qed

lemma ring_put_contents:
  fixes v :: 'a and b :: "'a ring"
  assumes "ring_ok b" "0 < ring_Size b" "length (ring_contents b) < ring_Size b"
  defines "w \<equiv> (rb_write b + 1) mod length (rb_buf b)"
  defines "b' \<equiv> b\<lparr>rb_buf := (rb_buf b)[rb_write b := v], rb_write := w, rb_full := (w = rb_read b)\<rparr>"
  shows "ring_ok b' \<and> ring_contents b' = ring_contents b @ [v] \<and> ring_Size b' = ring_Size b"
proof -
  have w: "rb_write b < length (rb_buf b)" and r: "rb_read b < length (rb_buf b)"
    and nf: "\<not> rb_full b"
    using assms ring_full_iff [OF assms(1,2)] by (auto simp: ring_ok_def ring_Size_def split: if_splits)
  have upd: "(rb_buf b)[rb_write b := v] =
      take (rb_write b) (rb_buf b) @ v # drop (Suc (rb_write b)) (rb_buf b)"
    using w by (simp add: upd_conv_take_nth_drop)
  show ?thesis
  proof (cases "Suc (rb_write b) = length (rb_buf b)")
    case True
    then have "w = 0" by (simp add: w_def)
    with True w r nf upd assms(1,2) show ?thesis
      by (auto simp: b'_def ring_ok_def ring_contents_def ring_Size_def min_def drop_take)
  next
    case False
    with w have "w = Suc (rb_write b)" by (simp add: w_def)
    with False w r nf upd assms(1,2) show ?thesis
      by (auto simp: b'_def ring_ok_def ring_contents_def ring_Size_def min_def not_less drop_take
          take_Suc_conv_app_nth Suc_diff_le drop_Cons')
  qed
qed

lemma ring_TryPush_spec:
  assumes "ring_ok b" "0 < ring_Size b"
  shows "\<exists>b'. ring_ok b' \<and> ring_Size b' = ring_Size b \<and>
    ring_contents b' =
      (if length (ring_contents b) < ring_Size b then ring_contents b @ [v] else ring_contents b) \<and>
    ring_TryPush v b = Some (length (ring_contents b) < ring_Size b, b')"
proof (cases "rb_full b")
  case True
  then show ?thesis using assms ring_full_iff [OF assms] by (auto simp: ring_TryPush_def)
next
  case False
  then have lt: "length (ring_contents b) < ring_Size b"
    using assms ring_full_iff [OF assms] ring_contents_bound [OF assms(1)] by linarith
  have "rb_write b < length (rb_buf b)" using assms by (auto simp: ring_ok_def ring_Size_def)
  with False lt ring_put_contents [OF assms lt] assms(2) show ?thesis
    by (auto simp: ring_TryPush_def go_defs ring_Size_def)
qed

lemma ring_Push_spec:
  assumes "ring_ok b" "0 < ring_Size b"
  shows "\<exists>b'. ring_ok b' \<and> ring_Size b' = ring_Size b \<and>
    ring_contents b' = last_n (ring_Size b) (ring_contents b @ [v]) \<and> ring_Push v b = Some b'"
proof (cases "rb_full b")
  case True
  let ?b0 = "b\<lparr>rb_full := False, rb_read := (rb_read b + 1) mod length (rb_buf b)\<rparr>"
  have full: "length (ring_contents b) = ring_Size b" using True ring_full_iff [OF assms] by simp
  then have ne: "ring_contents b \<noteq> []" using assms(2) by auto
  have b0: "ring_ok ?b0" "ring_contents ?b0 = tl (ring_contents b)" "ring_Size ?b0 = ring_Size b"
    using ring_pop_contents [OF assms(1) ne] by auto
  have lt: "length (ring_contents ?b0) < ring_Size ?b0" using b0 full assms(2) by simp
  have "last_n (ring_Size b) (ring_contents b @ [v]) = tl (ring_contents b) @ [v]"
    using full ne assms(2) by (cases "ring_contents b") (auto simp: last_n_def)
  moreover have "rb_write b < length (rb_buf b)" using assms by (auto simp: ring_ok_def ring_Size_def)
  ultimately show ?thesis
    using True ring_put_contents [OF b0(1) _ lt] b0 assms(2)
    by (auto simp: ring_Push_def go_defs ring_Size_def)
next
  case False
  then have lt: "length (ring_contents b) < ring_Size b"
    using assms ring_full_iff [OF assms] ring_contents_bound [OF assms(1)] by linarith
  have "rb_write b < length (rb_buf b)" using assms by (auto simp: ring_ok_def ring_Size_def)
  with False lt ring_put_contents [OF assms lt] assms(2) show ?thesis
    by (auto simp: ring_Push_def go_defs ring_Size_def)
qed

text \<open>The copy of \<open>Write\<close>, on a buffer with room for all of \<open>p\<close>.\<close>

lemma ring_write_copy_spec:
  fixes b :: "'a ring" and p :: "'a list"
  defines "xs \<equiv> ring_contents (b\<lparr>rb_full := False\<rparr>)"
  assumes idx: "rb_read b < length (rb_buf b)" "rb_write b < length (rb_buf b)"
    and len: "0 < length p" "length xs + length p \<le> length (rb_buf b)"
  shows "\<exists>b'. ring_ok b' \<and> ring_Size b' = ring_Size b \<and> ring_contents b' = xs @ p \<and>
    ring_write_copy n p b = Some ((n + length p, None), b')"
proof (cases "rb_write b + length p \<le> length (rb_buf b)")
  case True
  let ?ys = "take (rb_write b) (rb_buf b) @ p @ drop (rb_write b + length p) (rb_buf b)"
  let ?w = "(rb_write b + length p) mod length (rb_buf b)"
  let ?b' = "b\<lparr>rb_buf := ?ys, rb_write := ?w, rb_full := (?w = rb_read b)\<rparr>"
  have eq: "ring_write_copy n p b = Some ((n + length p, None), ?b')"
    using True idx len by (simp add: ring_write_copy_def go_defs Let_def min_def add.commute)
  have "ring_ok ?b' \<and> ring_contents ?b' = xs @ p"
  proof (cases "rb_write b + length p = length (rb_buf b)")
    case True
    then have w: "?w = 0" by simp
    have r: "rb_read b \<le> rb_write b" using True idx len
      by (auto simp: xs_def ring_contents_def split: if_splits)
    then have xs: "xs = drop (rb_read b) (take (rb_write b) (rb_buf b))"
      by (simp add: xs_def ring_contents_def drop_take)
    have "ring_contents ?b' = drop (rb_read b) ?ys"
      unfolding w by (auto simp: ring_contents_def)
    also have "\<dots> = xs @ p" unfolding xs using True r idx by simp
    finally show ?thesis using True idx w by (auto simp: ring_ok_def)
  next
    case False
    with True have lt: "rb_write b + length p < length (rb_buf b)" by simp
    then have w: "?w = rb_write b + length p" by simp
    have t: "take ?w ?ys = take (rb_write b) (rb_buf b) @ p" using idx by (simp add: w min_def)
    define ys where "ys = ?ys"
    have d: "drop (rb_read b) ys = drop (rb_read b) (rb_buf b)" if "rb_write b + length p \<le> rb_read b"
      using that idx by (simp add: ys_def min_def)
    note t = t [folded ys_def]
    let ?c = "b\<lparr>rb_buf := ys, rb_write := ?w, rb_full := (?w = rb_read b)\<rparr>"
    have "ring_contents ?c = xs @ p"
    proof (cases "rb_read b \<le> rb_write b")
      case True
      with len(1) have "ring_contents ?c = drop (rb_read b) (take ?w ys)"
        unfolding w by (cases p) (simp_all add: ring_contents_def drop_take)
      also have "\<dots> = drop (rb_read b) (take (rb_write b) (rb_buf b)) @ p"
        unfolding t using idx True by simp
      also have "drop (rb_read b) (take (rb_write b) (rb_buf b)) = xs"
        using True by (simp add: xs_def ring_contents_def drop_take)
      finally show ?thesis .
    next
      case False
      then have xs: "xs = drop (rb_read b) (rb_buf b) @ take (rb_write b) (rb_buf b)"
        by (simp add: xs_def ring_contents_def)
      with len(2) idx have r: "rb_write b + length p \<le> rb_read b" by simp
      then have "ring_contents ?c = drop (rb_read b) ys @ take ?w ys"
        unfolding w by (auto simp: ring_contents_def)
      then show ?thesis unfolding t d [OF r] xs by simp
    qed
    then have "ring_contents ?b' = xs @ p" by (simp add: ys_def)
    moreover have "ring_ok ?b'" using lt idx len by (auto simp: ring_ok_def)
    ultimately show ?thesis by blast
  qed
  with eq True show ?thesis by (auto simp: ring_Size_def)
next
  case False
  let ?k = "length (rb_buf b) - rb_write b"
  let ?l = "length p - ?k"
  let ?ys = "drop ?k p @ drop ?l (take (rb_write b) (rb_buf b)) @ take ?k p"
  let ?b' = "b\<lparr>rb_buf := ?ys, rb_write := ?l, rb_full := (?l = rb_read b)\<rparr>"
  have rw: "rb_read b \<le> rb_write b" using False idx len
    by (auto simp: xs_def ring_contents_def split: if_splits)
  then have l: "?l \<le> rb_read b" "?l < length (rb_buf b)" using False idx len
    by (auto simp: xs_def ring_contents_def split: if_splits)
  have eq: "ring_write_copy n p b = Some ((n + length p, None), ?b')"
    using False idx len l rw by (cases "rb_buf b") (auto simp: ring_write_copy_def go_defs Let_def min_def)
  have lys: "length ?ys = length (rb_buf b)" and k: "?k \<le> length p" and lp: "length (drop ?k p) = ?l"
    using False idx len l rw by auto
  have "xs = take (rb_write b - rb_read b) (drop (rb_read b) (rb_buf b))"
    using rw by (auto simp: xs_def ring_contents_def)
  then have xs: "xs = drop (rb_read b) (take (rb_write b) (rb_buf b))" by (simp add: drop_take)
  have "ring_contents ?b' = drop (rb_read b) ?ys @ take ?l ?ys"
    using l(1) by (auto simp: ring_contents_def)
  also have "take ?l ?ys = drop ?k p" using lp by simp
  also have "drop (rb_read b) ?ys = drop (rb_read b) (take (rb_write b) (rb_buf b)) @ take ?k p"
    using l(1) lp idx rw by simp
  finally have "ring_contents ?b' = xs @ p" using xs by simp
  moreover have "ring_ok ?b'" using l idx lys by (auto simp: ring_ok_def)
  moreover have "ring_Size ?b' = ring_Size b" 
    using False idx len l rw by (auto simp: ring_Size_def)
  ultimately show ?thesis using eq by blast
qed

lemma ring_drop_contents:
  assumes "ring_ok b" "d < ring_Size b" "d \<le> length (ring_contents b)"
    and "d = 0 \<Longrightarrow> \<not> rb_full b"
  shows "ring_contents (b\<lparr>rb_read := (rb_read b + d) mod length (rb_buf b), rb_full := False\<rparr>) =
    drop d (ring_contents b)"
proof (cases "rb_read b + d < length (rb_buf b)")
  case True
  then have m: "(rb_read b + d) mod length (rb_buf b) = rb_read b + d" by simp
  show ?thesis
  proof (cases "rb_read b < rb_write b")
    case True
    with assms m show ?thesis
      by (auto simp: ring_contents_def ring_ok_def drop_take add.commute split: if_splits)
  next
    case False
    with assms True m show ?thesis
      by (auto simp: ring_contents_def ring_ok_def add.commute split: if_splits)
  qed
next
  case False
  moreover have "rb_read b < length (rb_buf b)" "d < length (rb_buf b)"
    using assms by (auto simp: ring_ok_def ring_Size_def split: if_splits)
  ultimately have m: "(rb_read b + d) mod length (rb_buf b) = rb_read b + d - length (rb_buf b)"
    by (simp add: le_mod_geq)
  have nlt: "\<not> rb_read b < rb_write b" and ne: "ring_contents b \<noteq> []"
    using False assms by (auto simp: ring_ok_def ring_contents_def ring_Size_def split: if_splits)
  then have c: "ring_contents b = drop (rb_read b) (rb_buf b) @ take (rb_write b) (rb_buf b)"
    by (auto simp: ring_contents_def split: if_splits)
  let ?r = "rb_read b + d - length (rb_buf b)"
  have r: "?r \<le> rb_write b" "length (drop (rb_read b) (rb_buf b)) + ?r = d"
    using assms(1,3) False nlt c by (auto simp: ring_ok_def split: if_splits)
  have "ring_contents (b\<lparr>rb_read := ?r, rb_full := False\<rparr>) = drop ?r (take (rb_write b) (rb_buf b))"
    using r(1) by (auto simp: ring_contents_def drop_take)
  also have "\<dots> = drop d (ring_contents b)"
    unfolding c using r(2) by (simp only: drop_append) (simp add: add.commute)
  finally show ?thesis unfolding m .
qed

lemma ring_Write_spec:
  assumes "ring_ok b"
  shows "\<exists>b'. ring_ok b' \<and> ring_Size b' = ring_Size b \<and>
    ring_contents b' = last_n (ring_Size b) (ring_contents b @ p0) \<and>
    ring_Write p0 b = Some ((length p0, None), b')"
proof -
  let ?n = "length p0 - length (rb_buf b)"
  let ?p = "drop ?n p0"
  consider "p0 = []" | "p0 \<noteq> []" "ring_Size b \<le> length p0"
    | "p0 \<noteq> []" "length p0 < ring_Size b" "ring_Len b + length p0 < ring_Size b"
    | "p0 \<noteq> []" "length p0 < ring_Size b" "ring_Size b \<le> ring_Len b + length p0" by linarith
  then show ?thesis
  proof cases
    case 1
    then show ?thesis using assms ring_contents_bound [OF assms] by (auto simp: ring_Write_def)
  next
    case 2
    let ?b' = "b\<lparr>rb_buf := ?p, rb_read := 0, rb_write := 0, rb_full := True\<rparr>"
    have "ring_ok ?b'" "ring_contents ?b' = ?p" "ring_Size ?b' = ring_Size b"
      using 2 by (auto simp: ring_ok_def ring_contents_def ring_Size_def)
    moreover have "last_n (ring_Size b) (ring_contents b @ p0) = ?p"
      using 2 by (simp add: last_n_append_right) (simp add: last_n_def ring_Size_def)
    moreover have "ring_Write p0 b = Some ((length p0, None), ?b')"
      using 2 by (simp add: ring_Write_def Let_def go_defs ring_Size_def)
    ultimately show ?thesis by (intro exI [of _ ?b']) simp
  next
    case 3
    then have "0 < ring_Size b" by simp
    with 3 have nf: "\<not> rb_full b" and eq: "ring_Write p0 b = ring_write_copy 0 p0 b"
      using assms ring_full_iff [OF assms] ring_Len_contents [OF assms]
      by (auto simp: ring_Write_def Let_def ring_Size_def)
    have c: "b\<lparr>rb_full := False\<rparr> = b" using nf by simp
    have "rb_read b < length (rb_buf b)" "rb_write b < length (rb_buf b)"
      using assms 3 by (auto simp: ring_ok_def ring_Size_def split: if_splits)
    from ring_write_copy_spec [OF this, of p0 0] 3 eq show ?thesis
      unfolding c using ring_Len_contents [OF assms] by (auto simp: ring_Size_def)
  next
    case 4
    define d where "d = ring_Len b + length p0 - ring_Size b"
    let ?b0 = "b\<lparr>rb_read := (rb_read b + d) mod length (rb_buf b)\<rparr>"
    have d: "d < ring_Size b" "d \<le> length (ring_contents b)" "ring_Len b + length p0 = ring_Size b + d"
      using 4 ring_contents_bound [OF assms] ring_Len_contents [OF assms] by (auto simp: d_def)
    have "d = 0 \<Longrightarrow> \<not> rb_full b" using 4 d ring_full_iff [OF assms] ring_Len_contents [OF assms] by auto
    note c = ring_drop_contents [OF assms d(1,2) this]
    have idx: "rb_read ?b0 < length (rb_buf ?b0)" "rb_write ?b0 < length (rb_buf ?b0)"
      using assms 4 by (auto simp: ring_ok_def ring_Size_def split: if_splits)
    have eq: "ring_Write p0 b = ring_write_copy 0 p0 ?b0"
      using 4 d idx by (auto simp: ring_Write_def Let_def go_defs ring_Size_def)
    have len: "length (ring_contents (?b0\<lparr>rb_full := False\<rparr>)) + length p0 \<le> length (rb_buf ?b0)"
      using c d ring_Len_contents [OF assms] by (simp add: ring_Size_def)
    have "last_n (ring_Size b) (ring_contents b @ p0) = drop d (ring_contents b) @ p0"
      using d ring_Len_contents [OF assms] by (simp add: last_n_def)
    with ring_write_copy_spec [OF idx _ len, of 0] 4 c eq show ?thesis
      by (auto simp: ring_Size_def)
  qed
qed

lemma ring_advance_contents:
  assumes "ring_ok b" "d \<le> length (ring_contents b)" "0 < d"
  defines "b' \<equiv> b\<lparr>rb_full := False, rb_read := (rb_read b + d) mod length (rb_buf b)\<rparr>"
  shows "ring_ok b' \<and> ring_contents b' = drop d (ring_contents b)"
proof -
  have ne: "rb_buf b \<noteq> []" using assms by (auto simp: ring_ok_def ring_contents_def split: if_splits)
  have comm: "b' = b\<lparr>rb_read := (rb_read b + d) mod length (rb_buf b), rb_full := False\<rparr>"
    by (simp add: b'_def)
  have "ring_contents b' = drop d (ring_contents b)"
  proof (cases "d < ring_Size b")
    case True
    then show ?thesis unfolding comm using ring_drop_contents [OF assms(1) True assms(2)] assms(3) by simp
  next
    case False
    then have d: "d = ring_Size b" "length (ring_contents b) = ring_Size b"
      using assms(2) ring_contents_bound [OF assms(1)] by auto
    then have "rb_full b" using ring_full_iff [OF assms(1)] ne by (simp add: ring_Size_def)
    with assms(1) d ne show ?thesis by (auto simp: ring_ok_def ring_contents_def ring_Size_def b'_def)
  qed
  moreover have "ring_ok b'" using assms(1) ne by (auto simp: ring_ok_def b'_def)
  ultimately show ?thesis by simp
qed

text \<open>The two shapes of \<open>Read\<close>: one copy when it satisfies the caller or drains the buffer, else two.\<close>

lemma ring_Read_one:
  assumes "p \<noteq> []" "ring_Len b \<noteq> 0" "rb_buf b \<noteq> []"
    and "go_slice (rb_buf b) (rb_read b)
      (if rb_read b < rb_write b then rb_write b else length (rb_buf b)) = Some seg"
    and "n = min (length p) (length seg)"
    and "n = length p \<or> (rb_read b + n) mod length (rb_buf b) = rb_write b"
  shows "ring_Read p b = Some ((n, None), take n seg @ drop n p,
    b\<lparr>rb_full := False, rb_read := (rb_read b + n) mod length (rb_buf b)\<rparr>)"
  using assms by (auto simp: ring_Read_def go_copy_def go_mod_def Let_def)

lemma ring_Read_two:
  assumes "p \<noteq> []" "ring_Len b \<noteq> 0" "rb_buf b \<noteq> []" "\<not> rb_read b < rb_write b"
    and "rb_read b + k = length (rb_buf b)" "k < length p" "rb_write b \<noteq> 0"
    and "n2 = min (length p - k) (rb_write b)" "rb_write b < length (rb_buf b)"
  shows "ring_Read p b = Some ((k + n2, None),
    drop (rb_read b) (rb_buf b) @ take n2 (take (rb_write b) (rb_buf b)) @ drop (k + n2) p,
    b\<lparr>rb_full := False, rb_read := n2\<rparr>)"
proof -
  have "length (rb_buf b) - rb_read b = k" "rb_read b \<le> length (rb_buf b)" using assms by auto
  then show ?thesis using assms
    by (simp add: ring_Read_def go_defs Let_def min_def add.commute)
qed

lemma ring_Read_spec:
  fixes b :: "'a ring" and p :: "'a list"
  assumes "ring_ok b"
  defines "xs \<equiv> ring_contents b"
  defines "n \<equiv> min (length p) (length xs)"
  shows "\<exists>b'. ring_ok b' \<and> ring_Size b' = ring_Size b \<and> ring_contents b' = drop n xs \<and>
    ring_Read p b =
      Some ((n, if p \<noteq> [] \<and> xs = [] then Some EOF else None), take n xs @ drop n p, b')"
proof (cases "p = [] \<or> xs = []")
  case True
  then show ?thesis using assms(1) ring_Len_contents [OF assms(1)]
    by (auto simp: ring_Read_def xs_def n_def)
next
  case False
  let ?b' = "b\<lparr>rb_full := False, rb_read := (rb_read b + n) mod length (rb_buf b)\<rparr>"
  have idx: "rb_buf b \<noteq> []" "rb_read b < length (rb_buf b)" "rb_write b < length (rb_buf b)"
    using False assms(1) by (auto simp: ring_ok_def xs_def ring_contents_def split: if_splits)
  have len: "ring_Len b \<noteq> 0" using False ring_Len_contents [OF assms(1)] by (simp add: xs_def)
  have n: "0 < n" "n \<le> length xs" using False by (auto simp: n_def)
  have b': "ring_ok ?b'" "ring_contents ?b' = drop n xs" "ring_Size ?b' = ring_Size b"
    using ring_advance_contents [OF assms(1), of n] n by (auto simp: xs_def ring_Size_def)
  have "ring_Read p b = Some ((n, None), take n xs @ drop n p, ?b')"
  proof (cases "rb_read b < rb_write b")
    case True
    then have xs: "xs = take (rb_write b - rb_read b) (drop (rb_read b) (rb_buf b))"
      by (simp add: xs_def ring_contents_def)
    with True idx have "rb_read b + length xs = rb_write b" by simp
    then have "n = length p \<or> (rb_read b + n) mod length (rb_buf b) = rb_write b"
      using idx by (auto simp: n_def min_def)
    with True False idx len show ?thesis
      by (intro ring_Read_one) (auto simp: go_slice_def xs n_def)
  next
    case nlt: False
    then have xs: "xs = drop (rb_read b) (rb_buf b) @ take (rb_write b) (rb_buf b)"
      using False by (auto simp: xs_def ring_contents_def)
    define k where "k = length (rb_buf b) - rb_read b"
    have k: "rb_read b + k = length (rb_buf b)" "0 < k" using idx by (auto simp: k_def)
    show ?thesis
    proof (cases "k < length p \<and> rb_write b \<noteq> 0")
      case True
      have n2: "n = k + min (length p - k) (rb_write b)" using xs k True idx by (auto simp: n_def min_def)
      then have "(rb_read b + n) mod length (rb_buf b) = min (length p - k) (rb_write b)"
        using k idx by (simp add: add.assoc [symmetric])
      moreover have "k + m + rb_read b - length (rb_buf b) = m" for m using k by simp
      ultimately show ?thesis
        using ring_Read_two [OF _ len idx(1) nlt k(1) _ _ refl idx(3)] True False n2 xs k
        by simp
    next
      case one: False
      have "n = min (length p) k" using one xs k idx by (auto simp: n_def)
      then have "n = length p \<or> (rb_read b + n) mod length (rb_buf b) = rb_write b"
        using one k by (auto simp: min_def)
      with nlt one False idx len k \<open>n = min (length p) k\<close> show ?thesis
        using ring_Read_one [of p b "drop (rb_read b) (rb_buf b)" n] by (simp add: go_slice_def xs k_def [symmetric])
    qed
  qed
  with b' False show ?thesis by (intro exI [of _ ?b']) simp
qed

section \<open>The interface its clients rely on\<close>

text \<open>
  A bounded FIFO of samples as the mixer uses it: \<open>view\<close> is what is buffered, oldest first, \<open>cap\<close>
  the most it holds.  A write never fails and keeps the newest elements; a read never blocks and
  takes the oldest ones.
\<close>

locale bounded_fifo =
  fixes ok :: "'b \<Rightarrow> bool" and view :: "'b \<Rightarrow> 'a list" and cap :: "'b \<Rightarrow> nat"
    and len :: "'b \<Rightarrow> nat"
    and rd :: "'a list \<Rightarrow> 'b \<Rightarrow> ((nat \<times> go_error option) \<times> 'a list \<times> 'b) option"
    and wr :: "'a list \<Rightarrow> 'b \<Rightarrow> ((nat \<times> go_error option) \<times> 'b) option"
  assumes view_bound: "ok b \<Longrightarrow> length (view b) \<le> cap b"
    and len_view: "ok b \<Longrightarrow> len b = length (view b)"
    and rd_spec: "ok b \<Longrightarrow> \<exists>b'. ok b' \<and> cap b' = cap b \<and>
      view b' = drop (min (length p) (length (view b))) (view b) \<and>
      rd p b = Some ((min (length p) (length (view b)),
                      if p \<noteq> [] \<and> view b = [] then Some EOF else None),
                     take (min (length p) (length (view b))) (view b) @
                     drop (min (length p) (length (view b))) p, b')"
    and wr_spec: "ok b \<Longrightarrow> \<exists>b'. ok b' \<and> cap b' = cap b \<and>
      view b' = last_n (cap b) (view b @ p) \<and> wr p b = Some ((length p, None), b')"
begin

lemma wrE:
  assumes "ok b"
  obtains b' where "ok b'" "cap b' = cap b" "view b' = last_n (cap b) (view b @ p)"
    "wr p b = Some ((length p, None), b')"
  using wr_spec [OF assms, of p] by blast

lemma rdE:
  assumes "ok b"
  obtains b' where "ok b'" "cap b' = cap b"
    "view b' = drop (min (length p) (length (view b))) (view b)"
    "rd p b = Some ((min (length p) (length (view b)),
                      if p \<noteq> [] \<and> view b = [] then Some EOF else None),
                     take (min (length p) (length (view b))) (view b) @
                     drop (min (length p) (length (view b))) p, b')"
  using rd_spec [OF assms, of p] by blast

text \<open>What was read and what is left are together what was there.\<close>

lemma rd_split:
  assumes "ok b" "rd p b = Some ((n, e), out, b')"
  shows "take n out @ view b' = view b"
proof -
  have n: "min (length p) (length (view b)) \<le> length (view b)" by simp
  from rdE [OF assms(1), of p] assms(2) n show ?thesis
    by (metis (no_types, lifting) Pair_inject append_take_drop_id append_eq_conv_conj
        length_take min.absorb2 option.inject)
qed

text \<open>A write that overflows keeps a suffix: it drops the oldest elements only.\<close>

lemma wr_suffix:
  assumes "ok b" "wr p b = Some (r, b')"
  shows "\<exists>old. view b @ p = old @ view b' \<and> length old = length (view b) + length p - cap b"
proof -
  from wrE [OF assms(1), of p] assms(2) have "view b' = last_n (cap b) (view b @ p)" by auto
  then show ?thesis
    using append_take_drop_id [of "length (view b @ p) - cap b" "view b @ p"]
    by (intro exI [of _ "take (length (view b @ p) - cap b) (view b @ p)"])
      (simp add: last_n_def del: take_append drop_append)
qed

lemma wr_no_overflow:
  assumes "ok b" "length (view b) + length p \<le> cap b" "wr p b = Some (r, b')"
  shows "view b' = view b @ p"
  using wrE [OF assms(1), of p] assms(2,3) by (metis Pair_inject last_n_all length_append option.inject)

end

interpretation ring: bounded_fifo ring_ok ring_contents ring_Size ring_Len ring_Read ring_Write
  by unfold_locales
    (fact ring_contents_bound ring_Len_contents ring_Read_spec ring_Write_spec)+

section \<open>Refinement: a bounded queue\<close>

text \<open>
  Calls of the exported methods and what each lets its caller observe; \<open>ring_step\<close> performs one on
  the buffer, \<open>fifo_step\<close> is the specification on a list of at most \<open>c\<close> elements.
\<close>

datatype 'a ring_op =
    OpTryPeek | OpTryPop | OpTryPush 'a | OpPush 'a | OpRead "'a list" | OpWrite "'a list"

datatype 'a ring_obs =
    ObsValue 'a bool | ObsDone bool | ObsRead nat "go_error option" "'a list"
  | ObsWrite nat "go_error option"

fun ring_step :: "'a \<Rightarrow> 'a ring_op \<Rightarrow> 'a ring \<Rightarrow> ('a ring_obs \<times> 'a ring) option" where
  "ring_step zero OpTryPeek b = do { (v, k) \<leftarrow> ring_TryPeek zero b; Some (ObsValue v k, b) }"
| "ring_step zero OpTryPop b = do { ((v, k), b') \<leftarrow> ring_TryPop zero b; Some (ObsValue v k, b') }"
| "ring_step zero (OpTryPush v) b = do { (k, b') \<leftarrow> ring_TryPush v b; Some (ObsDone k, b') }"
| "ring_step zero (OpPush v) b = do { b' \<leftarrow> ring_Push v b; Some (ObsDone True, b') }"
| "ring_step zero (OpRead p) b =
     do { ((n, e), out, b') \<leftarrow> ring_Read p b; Some (ObsRead n e out, b') }"
| "ring_step zero (OpWrite p) b = do { ((n, e), b') \<leftarrow> ring_Write p b; Some (ObsWrite n e, b') }"

fun fifo_step :: "'a \<Rightarrow> nat \<Rightarrow> 'a ring_op \<Rightarrow> 'a list \<Rightarrow> 'a ring_obs \<times> 'a list" where
  "fifo_step zero c OpTryPeek q =
     (case q of [] \<Rightarrow> ObsValue zero False | v # _ \<Rightarrow> ObsValue v True, q)"
| "fifo_step zero c OpTryPop q =
     (case q of [] \<Rightarrow> ObsValue zero False | v # _ \<Rightarrow> ObsValue v True, tl q)"
| "fifo_step zero c (OpTryPush v) q =
     (ObsDone (length q < c), if length q < c then q @ [v] else q)"
| "fifo_step zero c (OpPush v) q = (ObsDone True, last_n c (q @ [v]))"
| "fifo_step zero c (OpRead p) q =
     (let n = min (length p) (length q)
      in (ObsRead n (if p \<noteq> [] \<and> q = [] then Some EOF else None) (take n q @ drop n p), drop n q))"
| "fifo_step zero c (OpWrite p) q = (ObsWrite (length p) None, last_n c (q @ p))"

fun ring_run :: "'a \<Rightarrow> 'a ring_op list \<Rightarrow> 'a ring \<Rightarrow> ('a ring_obs list \<times> 'a ring) option" where
  "ring_run zero [] b = Some ([], b)"
| "ring_run zero (x # xs) b =
     do { (ob, b1) \<leftarrow> ring_step zero x b; (obs, b2) \<leftarrow> ring_run zero xs b1; Some (ob # obs, b2) }"

fun fifo_run :: "'a \<Rightarrow> nat \<Rightarrow> 'a ring_op list \<Rightarrow> 'a list \<Rightarrow> 'a ring_obs list \<times> 'a list" where
  "fifo_run zero c [] q = ([], q)"
| "fifo_run zero c (x # xs) q =
     (let (ob, q1) = fifo_step zero c x q; (obs, q2) = fifo_run zero c xs q1 in (ob # obs, q2))"

lemma ring_step_refines:
  assumes "ring_ok b" "0 < ring_Size b"
  shows "\<exists>b'. ring_ok b' \<and> ring_Size b' = ring_Size b \<and>
    ring_step zero x b =
      Some (fst (fifo_step zero (ring_Size b) x (ring_contents b)), b') \<and>
    ring_contents b' = snd (fifo_step zero (ring_Size b) x (ring_contents b))"
proof (cases x)
  case OpTryPeek
  then show ?thesis using ring_TryPeek_spec [OF assms, of zero] assms by (auto split: list.splits)
next
  case OpTryPop
  then show ?thesis using ring_TryPop_spec [OF assms, of zero] by (auto split: list.splits)
next
  case (OpTryPush v)
  then show ?thesis using ring_TryPush_spec [OF assms, of v] by auto
next
  case (OpPush v)
  then show ?thesis using ring_Push_spec [OF assms, of v] by auto
next
  case (OpRead p)
  from ring_Read_spec [OF assms(1), of p] show ?thesis
    unfolding OpRead ring_step.simps fifo_step.simps by (fastforce simp: Let_def)
next
  case (OpWrite p)
  from ring_Write_spec [OF assms(1), of p] show ?thesis
    unfolding OpWrite ring_step.simps fifo_step.simps by fastforce
qed

lemma ring_run_refines:
  "ring_ok b \<Longrightarrow> 0 < ring_Size b \<Longrightarrow>
    \<exists>b'. ring_ok b' \<and> ring_Size b' = ring_Size b \<and>
      ring_run zero xs b = Some (fst (fifo_run zero (ring_Size b) xs (ring_contents b)), b') \<and>
      ring_contents b' = snd (fifo_run zero (ring_Size b) xs (ring_contents b))"
proof (induction xs arbitrary: b)
  case Nil
  then show ?case by auto
next
  case (Cons x xs)
  from ring_step_refines [OF Cons.prems, of zero x] obtain b1 where
    b1: "ring_ok b1" "ring_Size b1 = ring_Size b"
      "ring_step zero x b = Some (fst (fifo_step zero (ring_Size b) x (ring_contents b)), b1)"
      "ring_contents b1 = snd (fifo_step zero (ring_Size b) x (ring_contents b))" by blast
  with Cons.prems Cons.IH [of b1] show ?case by (auto simp: Let_def split_beta)
qed

section \<open>Properties\<close>

text \<open>
  C3: a buffer of positive size refines a bounded queue.  From \<open>NewBuffer\<close>, no sequence of calls
  panics, every call observes exactly what the queue of the newest elements would show it (values,
  counts, EOF, refused pushes), and the buffer's contents are the queue's.
\<close>

theorem ring_refines_fifo:
  assumes "0 < sz"
  shows "\<exists>b0 b. ring_NewBuffer zero sz = Some b0 \<and> ring_ok b \<and>
    ring_run zero ops b0 = Some (fst (fifo_run zero (nat sz) ops []), b) \<and>
    ring_contents b = snd (fifo_run zero (nat sz) ops [])"
proof -
  obtain b0 where b0: "ring_NewBuffer zero sz = Some b0" using assms by (auto simp: ring_NewBuffer_def)
  with ring_NewBuffer_spec [OF b0] assms ring_run_refines [of b0 zero ops] show ?thesis by auto
qed

theorem ring_refines_fifo_witness:
  "\<exists>b0 b. ring_NewBuffer (0::int) 2 = Some b0 \<and> ring_ok b \<and>
    ring_run 0 [OpWrite [1, 2, 3], OpTryPush 4, OpRead [0], OpTryPop] b0 =
      Some ([ObsWrite 3 None, ObsDone False, ObsRead 1 None [2], ObsValue 3 True], b) \<and>
    ring_contents b = []"
  using ring_refines_fifo [of 2 "0::int" "[OpWrite [1, 2, 3], OpTryPush 4, OpRead [0], OpTryPop]"]
  by (simp add: last_n_def eval_nat_numeral del: ring_run.simps)

fun ring_pushes :: "'a list \<Rightarrow> 'a ring \<Rightarrow> 'a ring option" where
  "ring_pushes [] b = Some b"
| "ring_pushes (v # vs) b = do { b' \<leftarrow> ring_Push v b; ring_pushes vs b' }"

lemma ring_pushes_spec:
  "ring_ok b \<Longrightarrow> 0 < ring_Size b \<Longrightarrow>
    \<exists>b'. ring_pushes vs b = Some b' \<and> ring_contents b' = last_n (ring_Size b) (ring_contents b @ vs)"
proof (induction vs arbitrary: b)
  case Nil
  then show ?case by (simp add: ring_contents_bound)
next
  case (Cons v vs)
  from ring_Push_spec [OF Cons.prems, of v] obtain b1 where
    "ring_ok b1" "ring_Size b1 = ring_Size b" "ring_Push v b = Some b1"
    "ring_contents b1 = last_n (ring_Size b) (ring_contents b @ [v])" by blast
  with Cons.prems Cons.IH [of b1] show ?case by (auto simp: last_n_last_n_append)
qed

text \<open>
  \<open>Write\<close> is the bulk form of \<open>Push\<close>: on every well-formed buffer of positive size it reports all
  of \<open>p\<close> written and leaves the contents that pushing the elements one by one leaves.
\<close>

theorem ring_Write_is_pushes:
  assumes "ring_ok b" "0 < ring_Size b"
  shows "\<exists>b1 b2. ring_Write p b = Some ((length p, None), b1) \<and> ring_pushes p b = Some b2 \<and>
    ring_contents b1 = ring_contents b2"
  using ring.wrE [OF assms(1), of p] ring_pushes_spec [OF assms, of p] by metis

definition ring_sample :: "int ring" where
  "ring_sample = \<lparr>rb_buf = [7, 8, 9], rb_write = 1, rb_read = 2, rb_full = False\<rparr>"

theorem ring_Write_is_pushes_witness:
  "ring_ok ring_sample \<and> (\<exists>b1 b2. ring_Write [1, 2] ring_sample = Some ((2, None), b1) \<and>
    ring_pushes [1, 2] ring_sample = Some b2 \<and> ring_contents b1 = ring_contents b2)"
proof -
  have ok: "ring_ok ring_sample" "0 < ring_Size ring_sample"
    by (simp_all add: ring_sample_def ring_ok_def ring_Size_def)
  from ring_Write_is_pushes [OF ok, of "[1, 2]"] ok show ?thesis by (simp add: eval_nat_numeral)
qed

end
