(* ===== verification/Mixer.thy ===== *)
theory Mixer
  imports Ring_Buffer
begin

text \<open>
  The audio mixer of \<open>mixer/mixer.go\<close>: inputs with a ring buffer each, the mix of one frame, the
  ticker's catch-up rule, and the optional output channel.  An \<open>Input\<close> is a pointer into a store, so
  that an input removed from the mixer is still the object its owner writes to.
\<close>

section \<open>State\<close>

record mixer_stats =
  st_Tracks :: u64
  st_TracksTotal :: u64
  st_Restarts :: u64
  st_TimingResets :: u64
  st_Mixes :: u64
  st_TimedMixes :: u64
  st_JumpMixes :: u64
  st_ZeroMixes :: u64
  st_NegativeMixes :: u64
  st_InputSamples :: u64
  st_InputFrames :: u64
  st_InputSamplesDropped :: u64
  st_InputFramesDropped :: u64
  st_MixedSamples :: u64
  st_MixedFrames :: u64
  st_OutputSamples :: u64
  st_OutputFrames :: u64
  st_WriteErrors :: u64
  st_BlockedMixes :: u64

definition no_stats :: mixer_stats where
  "no_stats = \<lparr>st_Tracks = 0, st_TracksTotal = 0, st_Restarts = 0, st_TimingResets = 0,
     st_Mixes = 0, st_TimedMixes = 0, st_JumpMixes = 0, st_ZeroMixes = 0, st_NegativeMixes = 0,
     st_InputSamples = 0, st_InputFrames = 0, st_InputSamplesDropped = 0,
     st_InputFramesDropped = 0, st_MixedSamples = 0, st_MixedFrames = 0, st_OutputSamples = 0,
     st_OutputFrames = 0, st_WriteErrors = 0, st_BlockedMixes = 0\<rparr>"

record mixer_input =
  in_sampleRate :: int
  in_buf :: "i16 ring"
  in_buffering :: bool

text \<open>
  \<open>mx_outchan\<close> is nil or the channel's capacity with the frames in it; \<open>mx_pending\<close> is the frame a
  blocked \<open>m.outchan <- out\<close> still holds.  \<open>mx_written\<close> records the calls of \<open>out.WriteSample\<close>, the
  mixer's output.  \<open>mx_mixTmp\<close> is the backing array of the code's slice, which is resliced to its
  full length before every use.
\<close>

record mixer =
  mx_sampleRate :: int
  mx_inputs :: "nat list"
  mx_store :: "nat \<Rightarrow> mixer_input option"
  mx_next :: nat
  mx_tickerDur :: ns
  mx_mixBuf :: "i32 list"
  mx_mixTmp :: pcm16
  mx_lastMixEndTs :: "ns option"
  mx_stopped :: bool
  mx_mixCnt :: u64
  mx_inputBufferFrames :: int
  mx_inputBufferMin :: int
  mx_stats :: mixer_stats
  mx_outchan :: "(nat \<times> pcm16 list) option"
  mx_pending :: "pcm16 option"
  mx_written :: "pcm16 list"

definition mixer_SampleRate :: "mixer \<Rightarrow> int" where
  "mixer_SampleRate m = mx_sampleRate m"

definition input_SampleRate :: "mixer_input \<Rightarrow> int" where
  "input_SampleRate i = in_sampleRate i"

abbreviation upd_stats :: "(mixer_stats \<Rightarrow> mixer_stats) \<Rightarrow> mixer \<Rightarrow> mixer" where
  "upd_stats f m \<equiv> m\<lparr>mx_stats := f (mx_stats m)\<rparr>"

section \<open>Construction\<close>

definition DefaultInputBufferFrames :: int where
  "DefaultInputBufferFrames = 5"

definition DefaultInputBufferMin :: int where
  "DefaultInputBufferMin = go_quot DefaultInputBufferFrames 2 + 1"

datatype mixer_option =
    WithOutputChannelSize int | WithInputBufferFrames int | WithStats mixer_stats

abbreviation WithOutputChannel :: mixer_option where
  "WithOutputChannel \<equiv> WithOutputChannelSize 1"

fun apply_option :: "mixer_option \<Rightarrow> mixer \<Rightarrow> mixer" where
  "apply_option (WithOutputChannelSize sz) m =
     m\<lparr>mx_outchan := Some (nat (if sz \<le> 0 then 1 else sz), [])\<rparr>"
| "apply_option (WithInputBufferFrames frames) m =
     (let f = (if frames \<le> 0 then DefaultInputBufferFrames else frames)
      in m\<lparr>mx_inputBufferFrames := f, mx_inputBufferMin := go_quot f 2 + 1\<rparr>)"
| "apply_option (WithStats st) m = m\<lparr>mx_stats := st\<rparr>"

definition newMixer :: "int \<Rightarrow> int \<Rightarrow> mixer_option list \<Rightarrow> mixer option" where
  "newMixer rate mixSize options =
     (if mixSize < 0 then None
      else Some (fold apply_option options
        \<lparr>mx_sampleRate = rate, mx_inputs = [], mx_store = Map.empty, mx_next = 0,
         mx_tickerDur = 0, mx_mixBuf = replicate (nat mixSize) 0,
         mx_mixTmp = replicate (nat mixSize) 0, mx_lastMixEndTs = None, mx_stopped = False,
         mx_mixCnt = 0, mx_inputBufferFrames = DefaultInputBufferFrames,
         mx_inputBufferMin = DefaultInputBufferMin, mx_stats = no_stats, mx_outchan = None,
         mx_pending = None, mx_written = []\<rparr>))"

text \<open>
  \<open>NewMixer\<close>: an error for more than one channel; \<open>time.NewTicker\<close> panics on a duration that is not
  positive.  \<open>rate\<close> is \<open>out.SampleRate()\<close>; its product with the duration wraps at 64 bits.
\<close>

definition NewMixer :: "int \<Rightarrow> ns \<Rightarrow> int \<Rightarrow> mixer_option list \<Rightarrow> (go_error + mixer) option" where
  "NewMixer rate bufferDur channels options =
     (if channels \<noteq> 1 then Some (Inl (ErrOther ''only mono mixing is supported''))
      else do {
        m \<leftarrow> newMixer rate (go_quot (go_int64 (rate * bufferDur)) 1000000000) options;
        (if bufferDur \<le> 0 then None else Some (Inr (m\<lparr>mx_tickerDur := bufferDur\<rparr>))) })"

section \<open>Inputs\<close>

definition NewInput :: "mixer \<Rightarrow> (nat option \<times> mixer) option" where
  "NewInput m =
     (if mx_stopped m then Some (None, m)
      else do {
        buf \<leftarrow> ring_NewBuffer 0 (int (length (mx_mixBuf m)) * mx_inputBufferFrames m);
        let inp = \<lparr>in_sampleRate = mx_sampleRate m, in_buf = buf, in_buffering = True\<rparr>;
        let m1 = upd_stats (\<lambda>s. s\<lparr>st_Tracks := st_Tracks s + 1,
                                   st_TracksTotal := st_TracksTotal s + 1\<rparr>) m;
        Some (Some (mx_next m),
          m1\<lparr>mx_store := (mx_store m)(mx_next m \<mapsto> inp), mx_inputs := mx_inputs m @ [mx_next m],
             mx_next := Suc (mx_next m)\<rparr>) })"

text \<open>\<open>slices.Index\<close> and \<open>slices.Delete\<close> remove the first occurrence of the pointer, if any.\<close>

definition RemoveInput :: "nat \<Rightarrow> mixer \<Rightarrow> mixer" where
  "RemoveInput inp m =
     (if inp \<notin> set (mx_inputs m) then m
      else upd_stats (\<lambda>s. s\<lparr>st_Tracks := st_Tracks s - 1\<rparr>)
             (m\<lparr>mx_inputs := remove1 inp (mx_inputs m)\<rparr>))"

definition Input_Close :: "nat \<Rightarrow> mixer \<Rightarrow> mixer" where
  "Input_Close inp m = RemoveInput inp m"

definition Stop :: "mixer \<Rightarrow> mixer" where
  "Stop m = m\<lparr>mx_stopped := True\<rparr>"

text \<open>\<open>Input.WriteSample\<close>; a pointer that is not in the store is a nil dereference.\<close>

definition Input_WriteSample :: "nat \<Rightarrow> pcm16 \<Rightarrow> mixer \<Rightarrow> (go_error option \<times> mixer) option" where
  "Input_WriteSample i sample m = do {
     inp \<leftarrow> mx_store m i;
     let m1 = upd_stats (\<lambda>s. s\<lparr>st_InputFrames := st_InputFrames s + 1,
                                st_InputSamples := st_InputSamples s + of_nat (length sample)\<rparr>) m;
     let discarded = int (ring_Len (in_buf inp)) + int (length sample) - int (ring_Size (in_buf inp));
     let m2 = (if discarded > 0
               then upd_stats (\<lambda>s. s\<lparr>st_InputFramesDropped := st_InputFramesDropped s + 1,
                      st_InputSamplesDropped := st_InputSamplesDropped s + of_int discarded\<rparr>) m1
               else m1);
     ((_, err), buf) \<leftarrow> ring_Write sample (in_buf inp);
     Some (err, m2\<lparr>mx_store := (mx_store m2)(i \<mapsto> inp\<lparr>in_buf := buf\<rparr>)\<rparr>) }"

text \<open>
  \<open>Input.readSample\<close>: the count and error, the slice after the call, the input, and whether the
  input starved (the code then adds one to the mixer's restarts).
\<close>

definition readSample ::
  "int \<Rightarrow> pcm16 \<Rightarrow> mixer_input \<Rightarrow> ((nat \<times> go_error option) \<times> pcm16 \<times> mixer_input \<times> bool) option" where
  "readSample bufMin out i =
     (if in_buffering i \<and> int (ring_Len (in_buf i)) < bufMin then Some ((0, None), out, i, False)
      else do {
        let i1 = i\<lparr>in_buffering := False\<rparr>;
        ((n, err), out1, buf) \<leftarrow> ring_Read out (in_buf i1);
        let i2 = i1\<lparr>in_buf := buf\<rparr>;
        (if n = 0 then Some ((n, err), out1, i2\<lparr>in_buffering := True\<rparr>, True)
         else Some ((n, err), out1, i2, False)) })"

section \<open>Mixing a frame\<close>

text \<open>\<open>m.mixBuf[j] += int32(v)\<close> for the samples read, on 32 bits.\<close>

fun mix_add :: "i32 list \<Rightarrow> pcm16 \<Rightarrow> i32 list option" where
  "mix_add acc [] = Some acc"
| "mix_add [] (v # vs) = None"
| "mix_add (a # acc) (v # vs) = do { r \<leftarrow> mix_add acc vs; Some ((a + scast v) # r) }"

fun mix_loop :: "int \<Rightarrow> nat list \<Rightarrow> mixer \<Rightarrow> mixer option" where
  "mix_loop bufMin [] m = Some m"
| "mix_loop bufMin (i # is) m = do {
     inp \<leftarrow> mx_store m i;
     ((n, _), tmp, inp', starved) \<leftarrow> readSample bufMin (mx_mixTmp m) inp;
     let m1 = m\<lparr>mx_mixTmp := tmp, mx_store := (mx_store m)(i \<mapsto> inp')\<rparr>;
     let m2 = (if starved then upd_stats (\<lambda>s. s\<lparr>st_Restarts := st_Restarts s + 1\<rparr>) m1 else m1);
     (if n = 0 then mix_loop bufMin is m2
      else do {
        let m3 = upd_stats (\<lambda>s. s\<lparr>st_MixedFrames := st_MixedFrames s + 1,
                                   st_MixedSamples := st_MixedSamples s + of_nat n\<rparr>) m2;
        acc \<leftarrow> mix_add (mx_mixBuf m3) (take n tmp);
        mix_loop bufMin is (m3\<lparr>mx_mixBuf := acc\<rparr>) }) }"

definition mixInputs :: "mixer \<Rightarrow> mixer option" where
  "mixInputs m = mix_loop (mx_inputBufferMin m * int (length (mx_mixBuf m))) (mx_inputs m) m"

definition mix_reset :: "mixer \<Rightarrow> mixer" where
  "mix_reset m = m\<lparr>mx_mixBuf := map (\<lambda>_. 0) (mx_mixBuf m)\<rparr>"

definition clamp_sample :: "i32 \<Rightarrow> i16" where
  "clamp_sample v0 =
     (let v1 = (if sint v0 > 0x7FFF then 0x7FFF else v0);
          v2 = (if sint v1 < - 0x7FFF then - 0x7FFF else v1)
      in scast v2)"

text \<open>
  \<open>mixOnce\<close>: the frame is handed to the writer, or sent to the channel.  \<open>fails k\<close> says whether the
  \<open>k\<close>th call of \<open>out.WriteSample\<close> returns an error.  A send on a full channel leaves the frame
  pending.
\<close>

definition out_WriteSample :: "(nat \<Rightarrow> bool) \<Rightarrow> pcm16 \<Rightarrow> mixer \<Rightarrow> mixer" where
  "out_WriteSample fails out m =
     (let m1 = m\<lparr>mx_written := mx_written m @ [out]\<rparr>
      in if fails (length (mx_written m))
         then upd_stats (\<lambda>s. s\<lparr>st_WriteErrors := st_WriteErrors s + 1\<rparr>) m1 else m1)"

definition mix_emit :: "(nat \<Rightarrow> bool) \<Rightarrow> pcm16 \<Rightarrow> mixer \<Rightarrow> mixer" where
  "mix_emit fails out m =
     (case mx_outchan m of
        None \<Rightarrow> out_WriteSample fails out m
      | Some (c, q) \<Rightarrow>
          if length q < c then m\<lparr>mx_outchan := Some (c, q @ [out])\<rparr>
          else upd_stats (\<lambda>s. s\<lparr>st_BlockedMixes := st_BlockedMixes s + 1\<rparr>)
                 (m\<lparr>mx_pending := Some out\<rparr>))"

definition mixOnce :: "(nat \<Rightarrow> bool) \<Rightarrow> mixer \<Rightarrow> mixer option" where
  "mixOnce fails m = do {
     let m1 = upd_stats (\<lambda>s. s\<lparr>st_Mixes := st_Mixes s + 1\<rparr>) (m\<lparr>mx_mixCnt := mx_mixCnt m + 1\<rparr>);
     m2 \<leftarrow> mixInputs (mix_reset m1);
     let out = map clamp_sample (mx_mixBuf m2);
     let m3 = upd_stats (\<lambda>s. s\<lparr>st_OutputFrames := st_OutputFrames s + 1,
                                st_OutputSamples := st_OutputSamples s + of_nat (length out)\<rparr>) m2;
     Some (mix_emit fails out m3) }"

text \<open>One turn of the \<open>writer\<close> goroutine: receive a frame, which lets a blocked send proceed.\<close>

definition writer_step :: "(nat \<Rightarrow> bool) \<Rightarrow> mixer \<Rightarrow> mixer" where
  "writer_step fails m =
     (case mx_outchan m of
        Some (c, frame # q) \<Rightarrow>
          (case mx_pending m of
             None \<Rightarrow> out_WriteSample fails frame (m\<lparr>mx_outchan := Some (c, q)\<rparr>)
           | Some p \<Rightarrow>
               out_WriteSample fails frame (m\<lparr>mx_outchan := Some (c, q @ [p]), mx_pending := None\<rparr>))
      | _ \<Rightarrow> m)"

section \<open>The ticker\<close>

text \<open>\<open>mixUpdate\<close> up to its loop: how many frames are due at \<open>now\<close>.\<close>

definition mix_due :: "ns \<Rightarrow> mixer \<Rightarrow> (nat \<times> mixer) option" where
  "mix_due now m = do {
     (n, m1) \<leftarrow>
       (case mx_lastMixEndTs m of
          None \<Rightarrow>
            Some (Some 1, upd_stats (\<lambda>s. s\<lparr>st_TimedMixes := st_TimedMixes s + 1\<rparr>)
                            (m\<lparr>mx_lastMixEndTs := Some now\<rparr>))
        | Some lastEnd \<Rightarrow>
            let dt = now - lastEnd in
            if dt < 0
            then Some (None, upd_stats (\<lambda>s. s\<lparr>st_NegativeMixes := st_NegativeMixes s + 1\<rparr>) m)
            else do {
              n \<leftarrow> go_div (dt + go_quot (mx_tickerDur m) 4) (mx_tickerDur m);
              let m1 = m\<lparr>mx_lastMixEndTs := Some (lastEnd + n * mx_tickerDur m)\<rparr>;
              Some (Some n,
                if n = 0 then upd_stats (\<lambda>s. s\<lparr>st_ZeroMixes := st_ZeroMixes s + 1\<rparr>) m1
                else if n = 1 then upd_stats (\<lambda>s. s\<lparr>st_TimedMixes := st_TimedMixes s + 1\<rparr>) m1
                else upd_stats (\<lambda>s. s\<lparr>st_JumpMixes := st_JumpMixes s + of_int n\<rparr>) m1) });
     Some (case n of
         None \<Rightarrow> (0, m1)
       | Some n \<Rightarrow>
           if n > mx_inputBufferFrames m1
           then (nat (mx_inputBufferFrames m1),
                 upd_stats (\<lambda>s. s\<lparr>st_TimingResets :=
                     st_TimingResets s + of_int (mx_inputBufferFrames m1)\<rparr>)
                   (m1\<lparr>mx_lastMixEndTs := Some now\<rparr>))
           else (nat n, m1)) }"

text \<open>The loop of \<open>mixUpdate\<close> with direct output; with a channel the mixes are single steps below.\<close>

fun mix_times :: "(nat \<Rightarrow> bool) \<Rightarrow> nat \<Rightarrow> mixer \<Rightarrow> mixer option" where
  "mix_times fails 0 m = Some m"
| "mix_times fails (Suc n) m = do { m' \<leftarrow> mixOnce fails m; mix_times fails n m' }"

definition mixUpdate :: "(nat \<Rightarrow> bool) \<Rightarrow> ns \<Rightarrow> mixer \<Rightarrow> mixer option" where
  "mixUpdate fails now m = do { (n, m1) \<leftarrow> mix_due now m; mix_times fails n m1 }"

section \<open>One input\<close>

text \<open>What a mix takes from an input: nothing while it buffers, else the oldest samples of one frame.\<close>

definition taken :: "int \<Rightarrow> nat \<Rightarrow> mixer_input \<Rightarrow> pcm16" where
  "taken bufMin sz i =
     (if in_buffering i \<and> int (length (ring_contents (in_buf i))) < bufMin then []
      else take sz (ring_contents (in_buf i)))"

definition playing :: "int \<Rightarrow> mixer_input \<Rightarrow> bool" where
  "playing bufMin i \<longleftrightarrow>
     \<not> (in_buffering i \<and> int (length (ring_contents (in_buf i))) < bufMin)"

text \<open>The input after the mix: the samples taken are gone, and it buffers again iff none were taken.\<close>

definition in_after :: "int \<Rightarrow> nat \<Rightarrow> mixer_input \<Rightarrow> mixer_input \<Rightarrow> bool" where
  "in_after bufMin sz i i' \<longleftrightarrow>
     ring_ok (in_buf i') \<and> ring_Size (in_buf i') = ring_Size (in_buf i) \<and>
     ring_contents (in_buf i') = drop (length (taken bufMin sz i)) (ring_contents (in_buf i)) \<and>
     in_buffering i' = (taken bufMin sz i = []) \<and> in_sampleRate i' = in_sampleRate i"

lemma readSample_playing:
  assumes "\<not> (in_buffering i \<and> int (ring_Len (in_buf i)) < bufMin)"
    and "ring_Read out (in_buf i) = Some ((n, err), tmp, b')"
  shows "readSample bufMin out i =
    Some ((n, err), tmp, i\<lparr>in_buf := b', in_buffering := (n = 0)\<rparr>, n = 0)"
  using assms by (cases i) (simp add: readSample_def Let_def)

lemma readSample_spec:
  assumes "ring_ok (in_buf i)"
  shows "\<exists>i' err tmp. readSample bufMin out i =
      Some ((length (taken bufMin (length out) i), err), tmp, i',
            playing bufMin i \<and> taken bufMin (length out) i = []) \<and>
    length tmp = length out \<and>
    take (length (taken bufMin (length out) i)) tmp = taken bufMin (length out) i \<and>
    in_after bufMin (length out) i i'"
proof (cases "playing bufMin i")
  case False
  then show ?thesis using assms
    by (auto simp: playing_def readSample_def taken_def ring.len_view in_after_def)
next
  case True
  let ?xs = "ring_contents (in_buf i)"
  from ring.rdE [OF assms, of out] obtain b' where
    b': "ring_ok b'" "ring_Size b' = ring_Size (in_buf i)"
      "ring_contents b' = drop (min (length out) (length ?xs)) ?xs"
      "ring_Read out (in_buf i) = Some ((min (length out) (length ?xs),
         if out \<noteq> [] \<and> ?xs = [] then Some EOF else None),
         take (min (length out) (length ?xs)) ?xs @ drop (min (length out) (length ?xs)) out, b')"
    by blast
  have t: "taken bufMin (length out) i = take (min (length out) (length ?xs)) ?xs"
    using True by (auto simp: playing_def taken_def min_def)
  then have lt: "length (taken bufMin (length out) i) = min (length out) (length ?xs)" by simp
  have "\<not> (in_buffering i \<and> int (ring_Len (in_buf i)) < bufMin)"
    using True assms by (simp add: playing_def ring.len_view)
  note rs = readSample_playing [OF this b'(4)]
  show ?thesis unfolding rs using True b' lt t
    by (auto simp: in_after_def min_def)
qed

definition sample_at :: "pcm16 \<Rightarrow> nat \<Rightarrow> int" where
  "sample_at xs j = (if j < length xs then sint (xs ! j) else 0)"

lemma sample_at_bounds: "- 32768 \<le> sample_at xs j" "sample_at xs j \<le> 32767"
  using sint_ge [of "xs ! j"] sint_lt [of "xs ! j"] by (auto simp: sample_at_def)

lemma mix_add_spec:
  "length vs \<le> length acc \<Longrightarrow>
    \<exists>r. mix_add acc vs = Some r \<and> length r = length acc \<and>
      (\<forall>j < length acc. r ! j = acc ! j + of_int (sample_at vs j))"
proof (induction acc vs rule: mix_add.induct)
  case (3 a acc v vs)
  then obtain r where "mix_add acc vs = Some r" "length r = length acc"
    "\<forall>j < length acc. r ! j = acc ! j + of_int (sample_at vs j)" by auto
  moreover have "((a + scast v) # r) ! j = (a # acc) ! j + of_int (sample_at (v # vs) j)"
    if "j < length (a # acc)" for j
    using that calculation by (cases j) (simp_all add: sample_at_def)
  ultimately show ?case by simp
qed (auto simp: sample_at_def)

section \<open>One frame\<close>

lemma mix_loop_spec:
  assumes "distinct is" "\<forall>i \<in> set is. \<exists>inp. mx_store m i = Some inp \<and> ring_ok (in_buf inp)"
    and "length (mx_mixBuf m) = sz" "length (mx_mixTmp m) = sz"
  shows "\<exists>buf tmp st stats.
    mix_loop bufMin is m =
      Some (m\<lparr>mx_mixBuf := buf, mx_mixTmp := tmp, mx_store := st, mx_stats := stats\<rparr>) \<and>
    length buf = sz \<and> length tmp = sz \<and> st_Tracks stats = st_Tracks (mx_stats m) \<and>
    (\<forall>j < sz. buf ! j = mx_mixBuf m ! j +
      of_int (\<Sum>i\<leftarrow>is. sample_at (taken bufMin sz (the (mx_store m i))) j)) \<and>
    (\<forall>i. i \<notin> set is \<longrightarrow> st i = mx_store m i) \<and>
    (\<forall>i \<in> set is. \<exists>i'. st i = Some i' \<and> in_after bufMin sz (the (mx_store m i)) i')"
  using assms
proof (induction "is" arbitrary: m)
  case Nil
  show ?case
    by (rule exI [of _ "mx_mixBuf m"], rule exI [of _ "mx_mixTmp m"],
        rule exI [of _ "mx_store m"], rule exI [of _ "mx_stats m"]) (use Nil in simp)
next
  case (Cons i "is")
  from Cons.prems obtain inp where inp: "mx_store m i = Some inp" "ring_ok (in_buf inp)" by auto
  let ?xs = "taken bufMin sz inp"
  from readSample_spec [OF inp(2), of bufMin "mx_mixTmp m"] Cons.prems(4) obtain i' err tmp where
    rd: "readSample bufMin (mx_mixTmp m) inp =
          Some ((length ?xs, err), tmp, i', playing bufMin inp \<and> ?xs = [])"
      "length tmp = sz" "take (length ?xs) tmp = ?xs" "in_after bufMin sz inp i'" by auto
  have xs: "length ?xs \<le> sz" by (simp add: taken_def)
  have "\<exists>acc. mix_add (mx_mixBuf m) ?xs = Some acc \<and> length acc = sz \<and>
      (\<forall>j < sz. acc ! j = mx_mixBuf m ! j + of_int (sample_at ?xs j))"
    using mix_add_spec [of ?xs "mx_mixBuf m"] xs Cons.prems(3) by simp
  then obtain acc where
    acc: "mix_add (mx_mixBuf m) ?xs = Some acc" "length acc = sz"
      "\<forall>j < sz. acc ! j = mx_mixBuf m ! j + of_int (sample_at ?xs j)" by blast
  define m' where "m' = m\<lparr>mx_mixTmp := tmp, mx_store := (mx_store m)(i \<mapsto> i')\<rparr>"
  obtain stats where st: "st_Tracks stats = st_Tracks (mx_stats m)"
    and eq: "mix_loop bufMin (i # is) m =
      mix_loop bufMin is (m'\<lparr>mx_stats := stats, mx_mixBuf := acc\<rparr>)"
  proof (cases "?xs = []")
    case True
    with acc(1) have "m'\<lparr>mx_stats := S, mx_mixBuf := acc\<rparr> = m'\<lparr>mx_stats := S\<rparr>" for S
      by (simp add: m'_def)
    with True rd(1) inp(1) show ?thesis
      by (intro that [of "if playing bufMin inp
            then (mx_stats m)\<lparr>st_Restarts := st_Restarts (mx_stats m) + 1\<rparr> else mx_stats m"])
        (simp_all add: m'_def)
  next
    case False
    let ?S = "(mx_stats m)\<lparr>st_MixedFrames := st_MixedFrames (mx_stats m) + 1,
      st_MixedSamples := st_MixedSamples (mx_stats m) + of_nat (length ?xs)\<rparr>"
    from False rd(1,3) inp(1) acc(1) show ?thesis
      by (intro that [of ?S]) (simp_all add: m'_def Let_def)
  qed
  let ?m = "m'\<lparr>mx_stats := stats, mx_mixBuf := acc\<rparr>"
  have "distinct is" "i \<notin> set is" using Cons.prems(1) by auto
  moreover have "\<forall>k \<in> set is. \<exists>inp. mx_store ?m k = Some inp \<and> ring_ok (in_buf inp)"
    using Cons.prems(2) \<open>i \<notin> set is\<close> by (auto simp: m'_def)
  moreover have "length (mx_mixBuf ?m) = sz" "length (mx_mixTmp ?m) = sz"
    using acc(2) rd(2) by (simp_all add: m'_def)
  ultimately obtain buf tmp' sto stats' where
    IH: "mix_loop bufMin is ?m =
           Some (?m\<lparr>mx_mixBuf := buf, mx_mixTmp := tmp', mx_store := sto, mx_stats := stats'\<rparr>)"
      "length buf = sz" "length tmp' = sz" "st_Tracks stats' = st_Tracks (mx_stats ?m)"
      "\<forall>j < sz. buf ! j = mx_mixBuf ?m ! j +
        of_int (\<Sum>k\<leftarrow>is. sample_at (taken bufMin sz (the (mx_store ?m k))) j)"
      "\<forall>k. k \<notin> set is \<longrightarrow> sto k = mx_store ?m k"
      "\<forall>k \<in> set is. \<exists>i'. sto k = Some i' \<and> in_after bufMin sz (the (mx_store ?m k)) i'"
    using Cons.IH [of ?m] by blast
  have same: "mx_store ?m k = mx_store m k" if "k \<in> set is" for k
    using that \<open>i \<notin> set is\<close> by (auto simp: m'_def)
  have sums: "(\<Sum>k\<leftarrow>is. sample_at (taken bufMin sz (the (mx_store ?m k))) j) =
      (\<Sum>k\<leftarrow>is. sample_at (taken bufMin sz (the (mx_store m k))) j)" for j
    using same by (intro arg_cong [where f = sum_list] map_cong) auto
  show ?case
  proof (intro exI conjI)
    show "mix_loop bufMin (i # is) m = Some (m\<lparr>mx_mixBuf := buf, mx_mixTmp := tmp',
        mx_store := sto, mx_stats := stats'\<rparr>)"
      unfolding eq IH(1) by (simp add: m'_def)
    show "st_Tracks stats' = st_Tracks (mx_stats m)" using IH(4) st by simp
    show "\<forall>j < sz. buf ! j = mx_mixBuf m ! j +
        of_int (\<Sum>k\<leftarrow>i # is. sample_at (taken bufMin sz (the (mx_store m k))) j)"
      using IH(5) acc(3) inp(1) unfolding sums by simp
    show "\<forall>k. k \<notin> set (i # is) \<longrightarrow> sto k = mx_store m k" using IH(6) by (simp add: m'_def)
    show "\<forall>k \<in> set (i # is). \<exists>i'. sto k = Some i' \<and>
        in_after bufMin sz (the (mx_store m k)) i'"
      using IH(6,7) rd(4) inp(1) \<open>i \<notin> set is\<close> same by (auto simp: m'_def)
  qed (fact IH)+
qed

section \<open>The mix as arithmetic on the inputs\<close>

text \<open>
  The frame a mix of \<open>m\<close> must produce: sample by sample the sum over the inputs, as integers, clipped
  to [-32767, 32767].
\<close>

definition mixed_at :: "mixer \<Rightarrow> nat \<Rightarrow> int" where
  "mixed_at m j =
     (\<Sum>i\<leftarrow>mx_inputs m. sample_at
        (taken (mx_inputBufferMin m * int (length (mx_mixBuf m))) (length (mx_mixBuf m))
               (the (mx_store m i))) j)"

definition mix_frame :: "mixer \<Rightarrow> pcm16" where
  "mix_frame m =
     map (\<lambda>j. of_int (max (- 32767) (min 32767 (mixed_at m j)))) [0..<length (mx_mixBuf m)]"

lemma clamp_sample_eq: "clamp_sample v = of_int (max (- 32767) (min 32767 (sint v)))"
proof -
  have "sint (clamp_sample v) = max (- 32767) (min 32767 (sint v))"
    using sint_scast_i16 [of v] by (simp add: clamp_sample_def Let_def min_def max_def)
  then show ?thesis by (rule word_of_int_of_sint)
qed

lemma sum_sample_bounds:
  "- 32768 * int (length ss) \<le> (\<Sum>s\<leftarrow>ss. sample_at s j) \<and>
   (\<Sum>s\<leftarrow>ss. sample_at s j) \<le> 32767 * int (length ss)"
proof (induction ss)
  case (Cons s ss)
  then show ?case using sample_at_bounds [of s j] by simp
qed simp

lemma mixed_at_no_overflow:
  assumes "length (mx_inputs m) \<le> 65535"
  shows "sint (of_int (mixed_at m j) :: i32) = mixed_at m j"
proof -
  let ?ss = "map (\<lambda>i. taken (mx_inputBufferMin m * int (length (mx_mixBuf m)))
    (length (mx_mixBuf m)) (the (mx_store m i))) (mx_inputs m)"
  have "mixed_at m j = (\<Sum>s\<leftarrow>?ss. sample_at s j)" by (simp add: mixed_at_def comp_def)
  with sum_sample_bounds [of ?ss j] assms
  have "- 2147483648 \<le> mixed_at m j" "mixed_at m j < 2147483648" by simp_all
  then show ?thesis using sint_of_int_i32 by simp
qed

section \<open>Invariant\<close>

fun chan_ok :: "(nat \<times> pcm16 list) option \<Rightarrow> pcm16 option \<Rightarrow> bool" where
  "chan_ok None p \<longleftrightarrow> p = None"
| "chan_ok (Some (c, q)) p \<longleftrightarrow> 0 < c \<and> length q \<le> c \<and> (p \<noteq> None \<longrightarrow> length q = c)"

definition mixer_ok :: "mixer \<Rightarrow> bool" where
  "mixer_ok m \<longleftrightarrow>
     distinct (mx_inputs m) \<and>
     (\<forall>i \<in> set (mx_inputs m). mx_store m i \<noteq> None) \<and>
     (\<forall>i inp. mx_store m i = Some inp \<longrightarrow> i < mx_next m \<and> ring_ok (in_buf inp) \<and>
        ring_Size (in_buf inp) = length (mx_mixBuf m) * nat (mx_inputBufferFrames m)) \<and>
     length (mx_mixTmp m) = length (mx_mixBuf m) \<and>
     1 \<le> mx_inputBufferFrames m \<and> mx_inputBufferMin m = mx_inputBufferFrames m div 2 + 1 \<and>
     chan_ok (mx_outchan m) (mx_pending m)"

text \<open>Everything on its way to the output, in order: written, in the channel, waiting to be sent.\<close>

definition mx_stream :: "mixer \<Rightarrow> pcm16 list" where
  "mx_stream m =
     mx_written m @ (case mx_outchan m of None \<Rightarrow> [] | Some (c, q) \<Rightarrow> q) @
     (case mx_pending m of None \<Rightarrow> [] | Some p \<Rightarrow> [p])"

lemma mixInputs_spec:
  assumes "mixer_ok m" "length (mx_inputs m) \<le> 65535"
  defines "sz \<equiv> length (mx_mixBuf m)"
  shows "\<exists>buf tmp st stats.
    mixInputs (mix_reset m) =
      Some (m\<lparr>mx_mixBuf := buf, mx_mixTmp := tmp, mx_store := st, mx_stats := stats\<rparr>) \<and>
    length buf = sz \<and> length tmp = sz \<and> st_Tracks stats = st_Tracks (mx_stats m) \<and>
    map clamp_sample buf = mix_frame m \<and>
    (\<forall>i. i \<notin> set (mx_inputs m) \<longrightarrow> st i = mx_store m i) \<and>
    (\<forall>i \<in> set (mx_inputs m). \<exists>i'. st i = Some i' \<and>
       in_after (mx_inputBufferMin m * int sz) sz (the (mx_store m i)) i')"
proof -
  let ?m = "mix_reset m" and ?min = "mx_inputBufferMin m * int sz"
  have st: "mx_store ?m = mx_store m" "mx_stats ?m = mx_stats m" "length (mx_mixBuf ?m) = sz"
    "mx_inputs ?m = mx_inputs m" "mx_inputBufferMin ?m = mx_inputBufferMin m"
    "length (mx_mixTmp ?m) = sz"
    using assms(1) by (auto simp: mix_reset_def mixer_ok_def sz_def)
  have "\<forall>i \<in> set (mx_inputs m). \<exists>inp. mx_store ?m i = Some inp \<and> ring_ok (in_buf inp)"
    using assms(1) unfolding st by (fastforce simp: mixer_ok_def)
  moreover have "distinct (mx_inputs m)" using assms(1) by (simp add: mixer_ok_def)
  ultimately obtain buf tmp sto stats where
    L: "mix_loop ?min (mx_inputs m) ?m =
          Some (?m\<lparr>mx_mixBuf := buf, mx_mixTmp := tmp, mx_store := sto, mx_stats := stats\<rparr>)"
      "length buf = sz" "length tmp = sz" "st_Tracks stats = st_Tracks (mx_stats m)"
      "\<forall>j < sz. buf ! j = mx_mixBuf ?m ! j + of_int (mixed_at m j)"
      "\<forall>i. i \<notin> set (mx_inputs m) \<longrightarrow> sto i = mx_store m i"
      "\<forall>i \<in> set (mx_inputs m). \<exists>i'. sto i = Some i' \<and> in_after ?min sz (the (mx_store m i)) i'"
    using mix_loop_spec [of "mx_inputs m" ?m sz ?min] st
    unfolding mixed_at_def sz_def [symmetric] by auto
  have "buf ! j = of_int (mixed_at m j)" if "j < sz" for j
    using L(5) that by (simp add: mix_reset_def sz_def)
  then have "map clamp_sample buf = mix_frame m"
    using L(2) mixed_at_no_overflow [OF assms(2)]
    by (intro nth_equalityI) (simp_all add: mix_frame_def clamp_sample_eq sz_def)
  moreover have "?m\<lparr>mx_mixBuf := buf, mx_mixTmp := tmp, mx_store := sto, mx_stats := stats\<rparr> =
      m\<lparr>mx_mixBuf := buf, mx_mixTmp := tmp, mx_store := sto, mx_stats := stats\<rparr>"
    by (simp add: mix_reset_def)
  moreover have "mixInputs ?m = mix_loop ?min (mx_inputs m) ?m"
    unfolding mixInputs_def st by simp
  ultimately show ?thesis using L by metis
qed

lemma mixer_ok_after_mix:
  assumes "mixer_ok m" "length buf = length (mx_mixBuf m)" "length tmp = length (mx_mixBuf m)"
    and "\<forall>i. i \<notin> set (mx_inputs m) \<longrightarrow> st i = mx_store m i"
    and "\<forall>i \<in> set (mx_inputs m). \<exists>i'. st i = Some i' \<and> in_after mn sz (the (mx_store m i)) i'"
  shows "mixer_ok (m\<lparr>mx_mixBuf := buf, mx_mixTmp := tmp, mx_store := st, mx_stats := stats\<rparr>)"
proof -
  have "i < mx_next m \<and> ring_ok (in_buf inp) \<and>
      ring_Size (in_buf inp) = length (mx_mixBuf m) * nat (mx_inputBufferFrames m)"
    if "st i = Some inp" for i inp
  proof (cases "i \<in> set (mx_inputs m)")
    case True
    moreover obtain old where "mx_store m i = Some old"
      using True assms(1) by (auto simp: mixer_ok_def)
    ultimately show ?thesis using that assms(1,5) by (fastforce simp: mixer_ok_def in_after_def)
  next
    case False
    with that assms(1,4) show ?thesis by (simp add: mixer_ok_def)
  qed
  moreover have "\<forall>i \<in> set (mx_inputs m). st i \<noteq> None" using assms(5) by fastforce
  ultimately show ?thesis using assms(1-3) by (simp add: mixer_ok_def)
qed

text \<open>Fields that the invariant and the stream do not mention.\<close>

lemma mixer_ok_frame [simp]:
  "mixer_ok (m\<lparr>mx_stats := s\<rparr>) = mixer_ok m"
  "mixer_ok (m\<lparr>mx_mixCnt := c\<rparr>) = mixer_ok m"
  "mixer_ok (m\<lparr>mx_written := w\<rparr>) = mixer_ok m"
  "mixer_ok (m\<lparr>mx_stopped := b\<rparr>) = mixer_ok m"
  "mixer_ok (m\<lparr>mx_lastMixEndTs := t\<rparr>) = mixer_ok m"
  by (simp_all add: mixer_ok_def)

lemma mix_frame_frame [simp]:
  "mix_frame (m\<lparr>mx_stats := s\<rparr>) = mix_frame m"
  "mix_frame (m\<lparr>mx_mixCnt := c\<rparr>) = mix_frame m"
  by (simp_all add: mix_frame_def mixed_at_def)

lemma out_WriteSample_spec:
  "mixer_ok (out_WriteSample fails out m) = mixer_ok m"
  "mx_written (out_WriteSample fails out m) = mx_written m @ [out]"
  "mx_outchan (out_WriteSample fails out m) = mx_outchan m"
  "mx_pending (out_WriteSample fails out m) = mx_pending m"
  "mx_inputs (out_WriteSample fails out m) = mx_inputs m"
  "mx_store (out_WriteSample fails out m) = mx_store m"
  "st_Tracks (mx_stats (out_WriteSample fails out m)) = st_Tracks (mx_stats m)"
  by (simp_all add: out_WriteSample_def Let_def)

lemma mix_emit_ok:
  assumes "mixer_ok m" "mx_pending m = None"
  shows "mixer_ok (mix_emit fails out m)"
proof (cases "mx_outchan m")
  case None
  then show ?thesis using assms by (simp add: mix_emit_def out_WriteSample_spec)
next
  case (Some cq)
  then show ?thesis using assms by (cases cq) (simp add: mix_emit_def mixer_ok_def)
qed

lemma mix_emit_spec:
  assumes "mx_pending m = None"
  shows "mx_stream (mix_emit fails out m) = mx_stream m @ [out]"
    and "mx_inputs (mix_emit fails out m) = mx_inputs m"
    and "mx_store (mix_emit fails out m) = mx_store m"
    and "st_Tracks (mx_stats (mix_emit fails out m)) = st_Tracks (mx_stats m)"
    and "mx_outchan m = None \<Longrightarrow>
      mx_pending (mix_emit fails out m) = None \<and> mx_outchan (mix_emit fails out m) = None"
  using assms
  by (auto simp: mix_emit_def mx_stream_def out_WriteSample_spec split: option.splits)

lemma mixOnce_spec:
  assumes "mixer_ok m" "length (mx_inputs m) \<le> 65535" "mx_pending m = None"
  shows "\<exists>m'. mixOnce fails m = Some m' \<and> mixer_ok m' \<and>
    mx_stream m' = mx_stream m @ [mix_frame m] \<and> mx_inputs m' = mx_inputs m \<and>
    st_Tracks (mx_stats m') = st_Tracks (mx_stats m) \<and>
    (mx_outchan m = None \<longrightarrow> mx_pending m' = None \<and> mx_outchan m' = None) \<and>
    (\<forall>i. i \<notin> set (mx_inputs m) \<longrightarrow> mx_store m' i = mx_store m i) \<and>
    (\<forall>i \<in> set (mx_inputs m). \<exists>i'. mx_store m' i = Some i' \<and>
       in_after (mx_inputBufferMin m * int (length (mx_mixBuf m))) (length (mx_mixBuf m))
         (the (mx_store m i)) i')"
proof -
  let ?m1 = "upd_stats (\<lambda>s. s\<lparr>st_Mixes := st_Mixes s + 1\<rparr>) (m\<lparr>mx_mixCnt := mx_mixCnt m + 1\<rparr>)"
  let ?sz = "length (mx_mixBuf m)" and ?mn = "mx_inputBufferMin m * int (length (mx_mixBuf m))"
  have ok1: "mixer_ok ?m1" "length (mx_inputs ?m1) \<le> 65535" using assms by simp_all
  have f1: "mix_frame ?m1 = mix_frame m" by simp
  from mixInputs_spec [OF ok1] obtain buf tmp st stats where
    mi: "mixInputs (mix_reset ?m1) =
        Some (?m1\<lparr>mx_mixBuf := buf, mx_mixTmp := tmp, mx_store := st, mx_stats := stats\<rparr>)"
      "length buf = ?sz" "length tmp = ?sz" "st_Tracks stats = st_Tracks (mx_stats m)"
      "map clamp_sample buf = mix_frame m"
      "\<forall>i. i \<notin> set (mx_inputs m) \<longrightarrow> st i = mx_store m i"
      "\<forall>i \<in> set (mx_inputs m). \<exists>i'. st i = Some i' \<and> in_after ?mn ?sz (the (mx_store m i)) i'"
    unfolding f1 by auto
  define m2 where
    "m2 = ?m1\<lparr>mx_mixBuf := buf, mx_mixTmp := tmp, mx_store := st, mx_stats := stats\<rparr>"
  define m3 where "m3 = upd_stats (\<lambda>s. s\<lparr>st_OutputFrames := st_OutputFrames s + 1,
      st_OutputSamples := st_OutputSamples s + of_nat (length buf)\<rparr>) m2"
  have ok3: "mixer_ok m3"
    using mixer_ok_after_mix [OF ok1(1), of buf tmp st] mi by (simp add: m2_def m3_def)
  have m3: "mx_outchan m3 = mx_outchan m" "mx_pending m3 = None" "mx_written m3 = mx_written m"
    "mx_inputs m3 = mx_inputs m" "mx_store m3 = st" "st_Tracks (mx_stats m3) = st_Tracks (mx_stats m)"
    using assms(3) mi(4) by (simp_all add: m2_def m3_def)
  have buf: "mx_mixBuf m2 = buf" by (simp add: m2_def)
  have eq: "mixOnce fails m = Some (mix_emit fails (mix_frame m) m3)"
    unfolding mixOnce_def Let_def mi(1) m2_def [symmetric] using buf mi(5) by (simp add: m3_def)
  show ?thesis
    unfolding eq using mix_emit_ok [OF ok3 m3(2)] mix_emit_spec [OF m3(2), of fails "mix_frame m"] m3 mi(6,7) assms(3)
    by (simp add: mx_stream_def)
qed

section \<open>Every operation keeps the invariant and the stream\<close>

lemma apply_option_fresh:
  assumes "mixer_ok m" "mx_inputs m = []" "mx_store m = Map.empty" "mx_stream m = []"
    "mx_pending m = None"
  shows "mixer_ok (apply_option x m) \<and> mx_inputs (apply_option x m) = [] \<and>
    mx_store (apply_option x m) = Map.empty \<and> mx_stream (apply_option x m) = [] \<and>
    mx_pending (apply_option x m) = None"
proof (cases x)
  case (WithInputBufferFrames frames)
  then show ?thesis using assms
    by (simp add: mixer_ok_def mx_stream_def Let_def DefaultInputBufferFrames_def)
qed (use assms in \<open>auto simp: mixer_ok_def mx_stream_def\<close>)

lemma newMixer_fresh:
  assumes "newMixer rate sz options = Some m"
  shows "mixer_ok m \<and> mx_stream m = []"
proof -
  have "mixer_ok (fold apply_option options m) \<and> mx_stream (fold apply_option options m) = []"
    if "mixer_ok m" "mx_inputs m = []" "mx_store m = Map.empty" "mx_stream m = []" "mx_pending m = None"
    for m
    using that by (induction options arbitrary: m) (use apply_option_fresh in auto)
  note fold_ok = this
  from assms obtain m0 where "m = fold apply_option options m0" "mixer_ok m0" "mx_inputs m0 = []"
    "mx_store m0 = Map.empty" "mx_stream m0 = []" "mx_pending m0 = None"
    by (auto simp: newMixer_def mixer_ok_def mx_stream_def DefaultInputBufferFrames_def
        DefaultInputBufferMin_def split: if_splits intro!: that)
  with fold_ok show ?thesis by simp
qed

lemma NewMixer_fresh:
  "NewMixer rate dur channels options = Some (Inr m) \<Longrightarrow>
    mixer_ok m \<and> mx_stream m = [] \<and> 0 < mx_tickerDur m"
  using newMixer_fresh
  by (fastforce simp: NewMixer_def mixer_ok_def mx_stream_def split: if_splits Option.bind_splits)

lemma NewInput_ok:
  assumes "mixer_ok m"
  shows "\<exists>r m'. NewInput m = Some (r, m') \<and> mixer_ok m' \<and> mx_stream m' = mx_stream m"
proof (cases "mx_stopped m")
  case False
  let ?sz = "int (length (mx_mixBuf m)) * mx_inputBufferFrames m"
  have sz: "0 \<le> ?sz" "nat ?sz = length (mx_mixBuf m) * nat (mx_inputBufferFrames m)"
    using assms by (simp_all add: mixer_ok_def nat_mult_distrib)
  then obtain b where b: "ring_NewBuffer (0::i16) ?sz = Some b" by (auto simp: ring_NewBuffer_def)
  from ring_NewBuffer_spec [OF b] have "ring_ok b" "ring_Size b = nat ?sz" by auto
  moreover have "mx_next m \<notin> set (mx_inputs m)" using assms by (fastforce simp: mixer_ok_def)
  ultimately have "mixer_ok (m\<lparr>mx_stats := st,
      mx_store := (mx_store m)(mx_next m \<mapsto> \<lparr>in_sampleRate = mx_sampleRate m, in_buf = b, in_buffering = True\<rparr>),
      mx_inputs := mx_inputs m @ [mx_next m], mx_next := Suc (mx_next m)\<rparr>)" for st
    using assms sz(2) by (auto simp: mixer_ok_def less_Suc_eq)
  with b show ?thesis using False by (simp add: NewInput_def mx_stream_def Let_def)
qed (use assms in \<open>simp add: NewInput_def\<close>)

lemma RemoveInput_ok:
  "mixer_ok m \<Longrightarrow> mixer_ok (RemoveInput i m) \<and> mx_stream (RemoveInput i m) = mx_stream m"
  by (auto simp: RemoveInput_def mixer_ok_def mx_stream_def dest: notin_set_remove1)

lemma Input_WriteSample_spec:
  assumes "mixer_ok m" "mx_store m i = Some inp"
  shows "\<exists>m' buf stats. Input_WriteSample i sample m = Some (None, m') \<and>
    m' = m\<lparr>mx_stats := stats, mx_store := (mx_store m)(i \<mapsto> inp\<lparr>in_buf := buf\<rparr>)\<rparr> \<and>
    ring_ok buf \<and> ring_Size buf = ring_Size (in_buf inp) \<and>
    ring_contents buf = last_n (ring_Size (in_buf inp)) (ring_contents (in_buf inp) @ sample) \<and>
    stats = (mx_stats m)
      \<lparr>st_InputFrames := st_InputFrames (mx_stats m) + 1,
       st_InputSamples := st_InputSamples (mx_stats m) + of_nat (length sample),
       st_InputFramesDropped := st_InputFramesDropped (mx_stats m) +
         (if length (ring_contents (in_buf inp)) + length sample > ring_Size (in_buf inp) then 1 else 0),
       st_InputSamplesDropped := st_InputSamplesDropped (mx_stats m) +
         of_nat (length (ring_contents (in_buf inp)) + length sample - ring_Size (in_buf inp))\<rparr>"
proof -
  have ok: "ring_ok (in_buf inp)" using assms by (auto simp: mixer_ok_def)
  from ring.wrE [OF ok, of sample] obtain b where
    b: "ring_ok b" "ring_Size b = ring_Size (in_buf inp)"
      "ring_contents b = last_n (ring_Size (in_buf inp)) (ring_contents (in_buf inp) @ sample)"
      "ring_Write sample (in_buf inp) = Some ((length sample, None), b)" by blast
  let ?d = "int (length (ring_contents (in_buf inp))) + int (length sample) - int (ring_Size (in_buf inp))"
  show ?thesis
  proof (cases "?d > 0")
    case True
    then have "(of_int ?d :: u64) =
        of_nat (length (ring_contents (in_buf inp)) + length sample - ring_Size (in_buf inp))"
      by (metis (no_types, lifting) of_int_of_nat_eq of_nat_add of_nat_diff order_less_imp_le
          zero_less_diff diff_gt_0_iff_gt of_nat_less_iff)
    with True assms(2) b ok show ?thesis
      by (auto simp: Input_WriteSample_def ring.len_view Let_def)
  next
    case False
    with assms(2) b ok show ?thesis
      by (auto simp: Input_WriteSample_def ring.len_view Let_def)
  qed
qed

lemma Input_WriteSample_ok:
  assumes "mixer_ok m" "Input_WriteSample i sample m = Some (e, m')"
  shows "mixer_ok m' \<and> mx_stream m' = mx_stream m"
proof -
  from assms(2) obtain inp where inp: "mx_store m i = Some inp"
    by (auto simp: Input_WriteSample_def split: Option.bind_splits)
  from Input_WriteSample_spec [OF assms(1) this, of sample] assms(2) obtain buf stats where
    "m' = m\<lparr>mx_stats := stats, mx_store := (mx_store m)(i \<mapsto> inp\<lparr>in_buf := buf\<rparr>)\<rparr>"
    "ring_ok buf" "ring_Size buf = ring_Size (in_buf inp)" by auto
  with assms(1) inp show ?thesis by (auto simp: mixer_ok_def mx_stream_def)
qed

lemma writer_step_ok:
  assumes "mixer_ok m"
  shows "mixer_ok (writer_step fails m) \<and> mx_stream (writer_step fails m) = mx_stream m"
proof (cases "mx_outchan m")
  case None
  then show ?thesis using assms by (simp add: writer_step_def)
next
  case (Some cq)
  obtain c q where cq: "cq = (c, q)" by (cases cq)
  show ?thesis
  proof (cases q)
    case Nil
    then show ?thesis using Some cq assms by (simp add: writer_step_def)
  next
    case (Cons frame rest)
    have "mixer_ok (m\<lparr>mx_outchan := Some (c, rest)\<rparr>)" if "mx_pending m = None"
      using assms Some cq Cons that by (simp add: mixer_ok_def)
    moreover have "mixer_ok (m\<lparr>mx_outchan := Some (c, rest @ [p]), mx_pending := None\<rparr>)"
      if "mx_pending m = Some p" for p
      using assms Some cq Cons that by (simp add: mixer_ok_def)
    ultimately show ?thesis using Some cq Cons
      by (auto simp: writer_step_def out_WriteSample_spec mx_stream_def split: option.split)
  qed
qed

section \<open>The ticker's catch-up\<close>

lemma mix_loop_frame:
  "mix_loop b is m = Some m' \<Longrightarrow>
    mx_lastMixEndTs m' = mx_lastMixEndTs m \<and> mx_tickerDur m' = mx_tickerDur m \<and>
    mx_inputBufferFrames m' = mx_inputBufferFrames m \<and> mx_inputs m' = mx_inputs m"
proof (induction "is" arbitrary: m)
  case (Cons i "is")
  then show ?case by (fastforce simp: Let_def split: Option.bind_splits if_splits prod.splits)
qed simp

lemma mixOnce_frame:
  "mixOnce fails m = Some m' \<Longrightarrow>
    mx_lastMixEndTs m' = mx_lastMixEndTs m \<and> mx_tickerDur m' = mx_tickerDur m \<and>
    mx_inputBufferFrames m' = mx_inputBufferFrames m \<and> mx_inputs m' = mx_inputs m"
  unfolding mixOnce_def mixInputs_def
  by (fastforce simp: mix_reset_def mix_emit_def out_WriteSample_def Let_def
      split: Option.bind_splits option.splits if_splits dest: mix_loop_frame)

lemma mix_times_direct:
  assumes "mixer_ok m" "length (mx_inputs m) \<le> 65535" "mx_outchan m = None"
  shows "\<exists>m' frames. mix_times fails n m = Some m' \<and> mixer_ok m' \<and> mx_outchan m' = None \<and>
    mx_written m' = mx_written m @ frames \<and> length frames = n \<and>
    mx_lastMixEndTs m' = mx_lastMixEndTs m \<and> mx_tickerDur m' = mx_tickerDur m"
  using assms
proof (induction n arbitrary: m)
  case (Suc n)
  have p: "mx_pending m = None" using Suc.prems(1,3) by (simp add: mixer_ok_def)
  from mixOnce_spec [OF Suc.prems(1,2) p, of fails] Suc.prems(3) p obtain m1 where
    m1: "mixOnce fails m = Some m1" "mixer_ok m1" "mx_inputs m1 = mx_inputs m"
      "mx_outchan m1 = None" "mx_written m1 = mx_written m @ [mix_frame m]"
    by (auto simp: mx_stream_def)
  from Suc.IH [of m1] m1 Suc.prems(2) obtain m2 frames where
    "mix_times fails n m1 = Some m2" "mixer_ok m2" "mx_outchan m2 = None"
    "mx_written m2 = mx_written m @ mix_frame m # frames" "length frames = n"
    "mx_lastMixEndTs m2 = mx_lastMixEndTs m1" "mx_tickerDur m2 = mx_tickerDur m1" by auto
  with m1(1) mixOnce_frame [OF m1(1)] show ?case by auto
qed simp

lemma mix_due_eq:
  assumes "mx_lastMixEndTs m = Some t" "t \<le> now" "mx_tickerDur m \<noteq> 0"
    and "go_quot (now - t + go_quot (mx_tickerDur m) 4) (mx_tickerDur m) = q"
  shows "\<exists>stats. mix_due now m =
    (if q > mx_inputBufferFrames m
     then Some (nat (mx_inputBufferFrames m), m\<lparr>mx_lastMixEndTs := Some now, mx_stats := stats\<rparr>)
     else Some (nat q, m\<lparr>mx_lastMixEndTs := Some (t + q * mx_tickerDur m), mx_stats := stats\<rparr>))"
  using assms
  by (intro exI [of _ "mx_stats (snd (the (mix_due now m)))"], cases m)
    (simp add: mix_due_def go_div_def Let_def)

lemma mix_due_some:
  assumes "mx_lastMixEndTs m = Some t" "t \<le> now" "0 < mx_tickerDur m" "1 \<le> mx_inputBufferFrames m"
  shows "\<exists>n t' stats. mix_due now m = Some (n, m\<lparr>mx_lastMixEndTs := Some t', mx_stats := stats\<rparr>) \<and>
    int n \<le> mx_inputBufferFrames m \<and>
    now + mx_tickerDur m div 4 - mx_tickerDur m < t' \<and> t' \<le> now + mx_tickerDur m div 4 \<and>
    (t' = t + int n * mx_tickerDur m \<or> int n = mx_inputBufferFrames m \<and> t' = now)"
proof -
  let ?D = "mx_tickerDur m"
  define q where "q = (now - t + ?D div 4) div ?D"
  have q: "0 \<le> q" using assms by (simp add: q_def pos_imp_zdiv_nonneg_iff)
  have "now - t + ?D div 4 = q * ?D + (now - t + ?D div 4) mod ?D" by (simp add: q_def)
  moreover have "0 \<le> (now - t + ?D div 4) mod ?D" "(now - t + ?D div 4) mod ?D < ?D"
    using assms(3) by simp_all
  ultimately have b: "now + ?D div 4 - ?D < t + q * ?D" "t + q * ?D \<le> now + ?D div 4" by linarith+
  have d: "go_quot (now - t + go_quot ?D 4) ?D = q" "0 \<le> ?D div 4" "?D div 4 < ?D"
    using assms by (simp_all add: q_def)
  then have n: "now + ?D div 4 - ?D < now" "now \<le> now + ?D div 4" by simp_all
  from mix_due_eq [OF assms(1,2) _ d(1)] assms(3) obtain stats where
    eq: "mix_due now m = (if q > mx_inputBufferFrames m
     then Some (nat (mx_inputBufferFrames m), m\<lparr>mx_lastMixEndTs := Some now, mx_stats := stats\<rparr>)
     else Some (nat q, m\<lparr>mx_lastMixEndTs := Some (t + q * ?D), mx_stats := stats\<rparr>))" by auto
  show ?thesis
  proof (cases "q > mx_inputBufferFrames m")
    case True
    moreover have "int (nat (mx_inputBufferFrames m)) = mx_inputBufferFrames m" using assms(4) by simp
    ultimately show ?thesis using eq n by (intro exI [of _ "nat (mx_inputBufferFrames m)"] exI [of _ now]) auto
  next
    case False
    moreover have "int (nat q) = q" using q by simp
    ultimately show ?thesis using eq b by (intro exI [of _ "nat q"] exI [of _ "t + q * ?D"]) auto
  qed
qed

section \<open>Every run of a mixer\<close>

text \<open>
  The events of a mixer's life after \<open>NewMixer\<close>: a tick, one mix of the frames the tick made due, a
  turn of the writer goroutine, and the calls of its clients.  \<open>mixer_run log todo m\<close>: the mixer can
  be in state \<open>m\<close>, with \<open>todo\<close> frames left in \<open>mixUpdate\<close>'s loop, after it mixed the frames
  \<open>log\<close>.  The mixing goroutine is blocked while a frame is pending, so it takes no step then.  The
  32-bit accumulators are exact up to 65535 inputs, which is the bound of the rule \<open>mix\<close>.
\<close>

inductive mixer_run :: "(nat \<Rightarrow> bool) \<Rightarrow> pcm16 list \<Rightarrow> nat \<Rightarrow> mixer \<Rightarrow> bool" for fails where
  start: "NewMixer rate dur channels options = Some (Inr m) \<Longrightarrow> mixer_run fails [] 0 m"
| tick: "mixer_run fails log 0 m \<Longrightarrow> mx_pending m = None \<Longrightarrow> mix_due now m = Some (n, m') \<Longrightarrow>
    mixer_run fails log n m'"
| mix: "mixer_run fails log (Suc n) m \<Longrightarrow> mx_pending m = None \<Longrightarrow>
    length (mx_inputs m) \<le> 65535 \<Longrightarrow> mixOnce fails m = Some m' \<Longrightarrow>
    mixer_run fails (log @ [mix_frame m]) n m'"
| writer: "mixer_run fails log n m \<Longrightarrow> mixer_run fails log n (writer_step fails m)"
| new_input: "mixer_run fails log n m \<Longrightarrow> NewInput m = Some (r, m') \<Longrightarrow> mixer_run fails log n m'"
| close_input: "mixer_run fails log n m \<Longrightarrow> mixer_run fails log n (Input_Close i m)"
| write_input: "mixer_run fails log n m \<Longrightarrow> Input_WriteSample i sample m = Some (e, m') \<Longrightarrow>
    mixer_run fails log n m'"
| stop: "mixer_run fails log n m \<Longrightarrow> mixer_run fails log n (Stop m)"

inductive_cases mixer_run_todo: "mixer_run fails log (Suc n) m"

lemma mix_due_frame:
  assumes "mixer_ok m" "mix_due now m = Some (n, m')"
  shows "mixer_ok m' \<and> mx_stream m' = mx_stream m"
proof -
  from assms(2) obtain t stats where "m' = m\<lparr>mx_lastMixEndTs := t, mx_stats := stats\<rparr>"
    unfolding mix_due_def
    by (cases m) (auto simp: Let_def split: option.splits Option.bind_splits if_splits)
  with assms(1) show ?thesis by (simp add: mx_stream_def)
qed

lemma mixer_run_inv: "mixer_run fails log n m \<Longrightarrow> mixer_ok m \<and> mx_stream m = log"
proof (induction rule: mixer_run.induct)
  case (start rate dur channels options m)
  then show ?case using NewMixer_fresh by blast
next
  case (tick log m now n m')
  then show ?case using mix_due_frame by metis
next
  case (mix log n m m')
  with mixOnce_spec [of m fails] show ?case by auto
next
  case (writer log n m)
  then show ?case using writer_step_ok by metis
next
  case (new_input log n m r m')
  with NewInput_ok [of m] show ?case by auto
next
  case (close_input log n m i)
  then show ?case unfolding Input_Close_def using RemoveInput_ok by metis
next
  case (write_input log n m i sample e m')
  then show ?case using Input_WriteSample_ok by metis
next
  case (stop log n m)
  then show ?case by (simp add: Stop_def mx_stream_def)
qed

section \<open>Properties\<close>

definition mixer_sample_input :: "pcm16 \<Rightarrow> mixer_input" where
  "mixer_sample_input xs = \<lparr>in_sampleRate = 8000,
     in_buf = \<lparr>rb_buf = xs @ [0, 0], rb_write = 2, rb_read = 0, rb_full = False\<rparr>,
     in_buffering = False\<rparr>"

text \<open>Two inputs with two samples each, frames of two samples, direct output.\<close>

definition mixer_sample :: mixer where
  "mixer_sample = \<lparr>mx_sampleRate = 8000, mx_inputs = [0, 1],
     mx_store = [0 \<mapsto> mixer_sample_input [30000, 5], 1 \<mapsto> mixer_sample_input [20000, - 7]],
     mx_next = 2, mx_tickerDur = 20, mx_mixBuf = [0, 0], mx_mixTmp = [0, 0],
     mx_lastMixEndTs = Some 100, mx_stopped = False, mx_mixCnt = 0, mx_inputBufferFrames = 2,
     mx_inputBufferMin = 2, mx_stats = no_stats, mx_outchan = None, mx_pending = None,
     mx_written = []\<rparr>"

lemma mixer_sample_ok:
  "mixer_ok mixer_sample" "length (mx_inputs mixer_sample) \<le> 65535"
  "mx_pending mixer_sample = None" "mx_outchan mixer_sample = None"
  "mx_store mixer_sample 0 = Some (mixer_sample_input [30000, 5])"
  by (auto simp: mixer_ok_def mixer_sample_def mixer_sample_input_def ring_ok_def ring_Size_def
      split: if_splits)

text \<open>
  C4: \<open>mixOnce\<close> is the clipped integer sum.  On a well-formed mixer it does not panic and puts out one
  frame: each sample is the exact sum of the samples taken from the inputs at that position (no
  wrap-around in the 32-bit accumulator), clipped to [-32767, 32767], and exactly the samples mixed
  leave the inputs' buffers.
\<close>

theorem mixOnce_clipped_sum:
  assumes "mixer_ok m" "length (mx_inputs m) \<le> 65535" "mx_pending m = None"
  defines "sz \<equiv> length (mx_mixBuf m)"
  defines "mn \<equiv> mx_inputBufferMin m * int sz"
  shows "\<exists>m' frame. mixOnce fails m = Some m' \<and> mx_stream m' = mx_stream m @ [frame] \<and>
    length frame = sz \<and>
    (\<forall>j < sz. sint (frame ! j) = max (- 32767) (min 32767
       (\<Sum>i\<leftarrow>mx_inputs m. sample_at (taken mn sz (the (mx_store m i))) j))) \<and>
    (\<forall>i \<in> set (mx_inputs m).
       ring_contents (in_buf (the (mx_store m' i))) =
       drop (length (taken mn sz (the (mx_store m i)))) (ring_contents (in_buf (the (mx_store m i)))))"
proof -
  have "sint (mix_frame m ! j) = max (- 32767) (min 32767
       (\<Sum>i\<leftarrow>mx_inputs m. sample_at (taken mn sz (the (mx_store m i))) j))" if "j < sz" for j
    using that unfolding mix_frame_def mixed_at_def mn_def sz_def
    by (simp add: sint_of_int_i16 max_def min_def)
  moreover have "length (mix_frame m) = sz" by (simp add: mix_frame_def sz_def)
  ultimately show ?thesis
    using mixOnce_spec [OF assms(1-3), of fails] unfolding mn_def sz_def in_after_def by fastforce
qed

theorem mixOnce_clipped_sum_witness:
  "\<exists>m'. mixOnce (\<lambda>k. False) mixer_sample = Some m' \<and>
    map sint (last (mx_stream m')) = [32767, - 2]"
proof -
  from mixOnce_clipped_sum [OF mixer_sample_ok(1-3), of "\<lambda>k. False"] obtain m' frame where
    m': "mixOnce (\<lambda>k. False) mixer_sample = Some m'" "mx_stream m' = mx_stream mixer_sample @ [frame]"
      "length frame = 2" "sint (frame ! 0) = 32767" "sint (frame ! 1) = - 2"
    by (fastforce simp: mixer_sample_def mixer_sample_input_def taken_def ring_contents_def
        sample_at_def)
  then have "frame = [frame ! 0, frame ! 1]" by (cases frame; cases "tl frame") auto
  with m' show ?thesis by (metis last_snoc list.map(1,2))
qed

text \<open>
  C14: nothing is lost, duplicated or reordered between the mix and the writer.  In every reachable
  state of a mixer, with or without the output channel and however the ticker, the writer and the
  clients interleave, the frames written, queued and blocked are together exactly the frames mixed so
  far, in order; with direct output all of them are written.
\<close>

theorem mixer_output_in_order:
  assumes "mixer_run fails log n m"
  shows "mx_written m @ (case mx_outchan m of None \<Rightarrow> [] | Some (c, q) \<Rightarrow> q) @
           (case mx_pending m of None \<Rightarrow> [] | Some p \<Rightarrow> [p]) = log \<and>
         (mx_outchan m = None \<longrightarrow> mx_written m = log)"
  using mixer_run_inv [OF assms] by (auto simp: mx_stream_def mixer_ok_def)

lemma mixOnce_no_inputs:
  assumes "mx_inputs m = []" "mx_mixBuf m = [0, 0]" "mx_outchan m = Some (1, q)"
  shows "\<exists>m'. mixOnce fails m = Some m' \<and> mx_inputs m' = [] \<and> mx_mixBuf m' = [0, 0] \<and>
      mx_written m' = mx_written m \<and> mx_lastMixEndTs m' = mx_lastMixEndTs m \<and>
      mx_inputBufferFrames m' = mx_inputBufferFrames m \<and> mx_tickerDur m' = mx_tickerDur m \<and>
      mx_outchan m' = Some (1, q @ (if q = [] then [[0, 0]] else [])) \<and>
      mx_pending m' = (if q = [] then mx_pending m else Some [0, 0])" "mix_frame m = [0, 0]"
proof -
  have "clamp_sample 0 = 0" by (simp add: clamp_sample_def)
  then show "\<exists>m'. mixOnce fails m = Some m' \<and> mx_inputs m' = [] \<and> mx_mixBuf m' = [0, 0] \<and>
      mx_written m' = mx_written m \<and> mx_lastMixEndTs m' = mx_lastMixEndTs m \<and>
      mx_inputBufferFrames m' = mx_inputBufferFrames m \<and> mx_tickerDur m' = mx_tickerDur m \<and>
      mx_outchan m' = Some (1, q @ (if q = [] then [[0, 0]] else [])) \<and>
      mx_pending m' = (if q = [] then mx_pending m else Some [0, 0])"
    using assms by (simp add: mixOnce_def mix_reset_def mixInputs_def mix_emit_def Let_def)
  have "[0..<2] = [0, 1::nat]" by (simp add: eval_nat_numeral)
  then show "mix_frame m = [0, 0]" using assms by (simp add: mix_frame_def mixed_at_def)
qed

lemma mixer_sample_run:
  "\<exists>m. mixer_run (\<lambda>k. False) [[0, 0], [0, 0]] 0 m \<and> mx_outchan m = Some (1, [[0, 0]]) \<and>
    mx_written m = [] \<and> mx_pending m = Some [0, 0]"
proof -
  let ?f = "\<lambda>k::nat. False"
  define m0 where "m0 = projr (the (NewMixer 100 20000000 1 [WithOutputChannel]))"
  have m0: "NewMixer 100 20000000 1 [WithOutputChannel] = Some (Inr m0)"
    "mx_lastMixEndTs m0 = None" "mx_inputBufferFrames m0 = 5" "mx_inputs m0 = []"
    "mx_mixBuf m0 = [0, 0]" "mx_outchan m0 = Some (1, [])" "mx_pending m0 = None" "mx_written m0 = []"
    "mx_tickerDur m0 = 20000000"
    by (simp_all add: m0_def NewMixer_def newMixer_def DefaultInputBufferFrames_def numeral_2_eq_2 go_int64_id)
  define m1 where "m1 = snd (the (mix_due 0 m0))"
  have m1: "mix_due 0 m0 = Some (1, m1)" using m0 by (simp add: m1_def mix_due_def)
  have f1: "mx_inputs m1 = []" "mx_mixBuf m1 = [0, 0]" "mx_outchan m1 = Some (1, [])"
    "mx_pending m1 = None" "mx_written m1 = []" "mx_lastMixEndTs m1 = Some 0"
    "mx_inputBufferFrames m1 = 5" "mx_tickerDur m1 = 20000000"
    using m0 by (simp_all add: m1_def mix_due_def)
  note mix = mixOnce_no_inputs
  from mix(1) [OF f1(1-3), where fails = ?f] f1 obtain m2 where m2: "mixOnce ?f m1 = Some m2" "mx_inputs m2 = []"
    "mx_mixBuf m2 = [0, 0]" "mx_outchan m2 = Some (1, [[0, 0]])" "mx_pending m2 = None"
    "mx_written m2 = []" "mx_lastMixEndTs m2 = Some 0" "mx_inputBufferFrames m2 = 5"
    "mx_tickerDur m2 = 20000000" by auto
  have "mixer_run ?f [] 0 m0" using m0(1) by (rule mixer_run.start)
  then have "mixer_run ?f [] (Suc 0) m1" using m0(7) m1 by (auto intro: mixer_run.tick)
  then have r2: "mixer_run ?f [[0, 0]] 0 m2"
    using mixer_run.mix [of ?f "[]" 0 m1 m2] f1 m2(1) mix(2) [OF f1(1-3)] by simp
  define m3 where "m3 = snd (the (mix_due 20000000 m2))"
  have m3: "mix_due 20000000 m2 = Some (1, m3)"
    using m2 by (simp add: m3_def mix_due_def go_div_def Let_def)
  have f3: "mx_inputs m3 = []" "mx_mixBuf m3 = [0, 0]" "mx_outchan m3 = Some (1, [[0, 0]])"
    "mx_pending m3 = None" "mx_written m3 = []"
    using m2 by (simp_all add: m3_def mix_due_def go_div_def Let_def)
  from mix(1) [OF f3(1-3), where fails = ?f] f3 obtain m4 where m4: "mixOnce ?f m3 = Some m4"
    "mx_outchan m4 = Some (1, [[0, 0]])" "mx_pending m4 = Some [0, 0]" "mx_written m4 = []" by auto
  have "mixer_run ?f [[0, 0]] (Suc 0) m3" using r2 m2(5) m3 by (auto intro: mixer_run.tick)
  then have "mixer_run ?f [[0, 0], [0, 0]] 0 m4"
    using mixer_run.mix [of ?f "[[0, 0]]" 0 m3 m4] f3 m4(1) mix(2) [OF f3(1-3)] by simp
  with m4 show ?thesis by blast
qed

theorem mixer_output_in_order_witness:
  "\<exists>m. mixer_run (\<lambda>k. False) [[0, 0], [0, 0]] 0 m \<and> mx_pending m = Some [0, 0] \<and>
    mx_written m @ [[0, 0]] @ [[0, 0]] = [[0, 0], [0, 0]]"
proof -
  from mixer_sample_run obtain m where m: "mixer_run (\<lambda>k. False) [[0, 0], [0, 0]] 0 m"
    "mx_outchan m = Some (1, [[0, 0]])" "mx_pending m = Some [0, 0]" by blast
  from mixer_output_in_order [OF m(1)] m show ?thesis by auto
qed

text \<open>
  C25: the ticker catches up without drift.  When a tick of a direct-output mixer comes at or after the
  end of the last mix, \<open>mixUpdate\<close> returns having written at most \<open>inputBufferFrames\<close> frames, and the
  new end of mix lies within one tick of \<open>now\<close>: at most a quarter tick ahead and less than three
  quarters behind.  Either it advanced by exactly the duration of the frames written, so no time is
  lost to rounding, or the cap was hit and the clock is reset to \<open>now\<close>.
\<close>

theorem mixUpdate_catches_up:
  assumes "mixer_ok m" "length (mx_inputs m) \<le> 65535" "mx_outchan m = None"
    and "mx_lastMixEndTs m = Some t" "t \<le> now" "0 < mx_tickerDur m"
  shows "\<exists>m' frames t'. mixUpdate fails now m = Some m' \<and> mx_written m' = mx_written m @ frames \<and>
    int (length frames) \<le> mx_inputBufferFrames m \<and> mx_lastMixEndTs m' = Some t' \<and>
    now + mx_tickerDur m div 4 - mx_tickerDur m < t' \<and> t' \<le> now + mx_tickerDur m div 4 \<and>
    (t' = t + int (length frames) * mx_tickerDur m \<or>
     int (length frames) = mx_inputBufferFrames m \<and> t' = now)"
proof -
  have "1 \<le> mx_inputBufferFrames m" using assms(1) by (simp add: mixer_ok_def)
  from mix_due_some [OF assms(4-6) this] obtain n t' stats where
    due: "mix_due now m = Some (n, m\<lparr>mx_lastMixEndTs := Some t', mx_stats := stats\<rparr>)"
      "int n \<le> mx_inputBufferFrames m"
      "now + mx_tickerDur m div 4 - mx_tickerDur m < t'" "t' \<le> now + mx_tickerDur m div 4"
      "t' = t + int n * mx_tickerDur m \<or> int n = mx_inputBufferFrames m \<and> t' = now" by blast
  from mix_times_direct [of "m\<lparr>mx_lastMixEndTs := Some t', mx_stats := stats\<rparr>" fails n] assms(1-3)
  obtain m' frames where "mix_times fails n (m\<lparr>mx_lastMixEndTs := Some t', mx_stats := stats\<rparr>) = Some m'"
    "mx_written m' = mx_written m @ frames" "length frames = n" "mx_lastMixEndTs m' = Some t'"
    by auto
  with due show ?thesis
    by (intro exI [of _ m'] exI [of _ frames] exI [of _ t']) (simp add: mixUpdate_def)
qed

theorem mixUpdate_catches_up_witness:
  "\<exists>m' t'. mixUpdate (\<lambda>k. False) 118 mixer_sample = Some m' \<and> mx_lastMixEndTs m' = Some t' \<and>
    103 < t' \<and> t' \<le> 123"
proof -
  have "mx_lastMixEndTs mixer_sample = Some 100" "mx_tickerDur mixer_sample = 20"
    by (simp_all add: mixer_sample_def)
  with mixUpdate_catches_up [OF mixer_sample_ok(1,2,4), of 100 118 "\<lambda>k. False"] show ?thesis by auto
qed

text \<open>
  An input never fails and never blocks its writer: \<open>Input.WriteSample\<close> keeps the newest samples
  that fit, and the two dropped counters grow by exactly the samples that left the buffer unread.
\<close>

theorem Input_WriteSample_keeps_newest:
  assumes "mixer_ok m" "mx_store m i = Some inp"
  shows "\<exists>m' old kept. Input_WriteSample i sample m = Some (None, m') \<and> mixer_ok m' \<and>
    ring_contents (in_buf inp) @ sample = old @ kept \<and>
    ring_contents (in_buf (the (mx_store m' i))) = kept \<and>
    (old \<noteq> [] \<longrightarrow> length kept = ring_Size (in_buf inp)) \<and>
    st_InputSamplesDropped (mx_stats m') = st_InputSamplesDropped (mx_stats m) + of_nat (length old) \<and>
    st_InputFramesDropped (mx_stats m') =
      st_InputFramesDropped (mx_stats m) + (if old = [] then 0 else 1) \<and>
    (\<forall>k. k \<noteq> i \<longrightarrow> mx_store m' k = mx_store m k)"
proof -
  let ?xs = "ring_contents (in_buf inp) @ sample" and ?c = "ring_Size (in_buf inp)"
  from Input_WriteSample_spec [OF assms, of sample] obtain m' buf stats where
    w: "Input_WriteSample i sample m = Some (None, m')"
      "m' = m\<lparr>mx_stats := stats, mx_store := (mx_store m)(i \<mapsto> inp\<lparr>in_buf := buf\<rparr>)\<rparr>"
      "ring_contents buf = last_n ?c ?xs"
      "st_InputSamplesDropped stats = st_InputSamplesDropped (mx_stats m) + of_nat (length ?xs - ?c)"
      "st_InputFramesDropped stats =
        st_InputFramesDropped (mx_stats m) + (if length ?xs > ?c then 1 else 0)" by fastforce
  have "?xs = take (length ?xs - ?c) ?xs @ last_n ?c ?xs"
    unfolding last_n_def by (simp only: append_take_drop_id)
  moreover have "length (take (length ?xs - ?c) ?xs) = length ?xs - ?c" by simp
  ultimately show ?thesis using w Input_WriteSample_ok [OF assms(1) w(1)]
    by (intro exI [of _ m'] exI [of _ "take (length ?xs - ?c) ?xs"] exI [of _ "last_n ?c ?xs"])
      (auto simp del: take_append length_append)
qed

theorem Input_WriteSample_keeps_newest_witness:
  "\<exists>m'. Input_WriteSample 0 [1, 2, 3] mixer_sample = Some (None, m') \<and> mixer_ok m'"
  using Input_WriteSample_keeps_newest [OF mixer_sample_ok(1,5), of "[1, 2, 3]"] by auto

end
