(* ===== verification/Seq_Number.thy ===== *)
theory Seq_Number
  imports Media_Prelude
begin

text \<open>
  Sequence number arithmetic of \<open>jitter/buffer.go\<close> on 16 bits: \<open>before\<close>, \<open>withinRange\<close> and
  \<open>missingBetween\<close>, and the facts on wrapping differences the jitter buffer rests on.
\<close>

unbundle bit_operations_syntax

definition before :: "u16 \<Rightarrow> u16 \<Rightarrow> bool" where
  "before a b \<longleftrightarrow> (b - a) AND 0x8000 = 0"

definition withinRange :: "u16 \<Rightarrow> u16 \<Rightarrow> bool" where
  "withinRange a b \<longleftrightarrow> a - b < 3000 \<or> b - a < 3000"

definition missingBetween :: "u16 \<Rightarrow> u16 \<Rightarrow> u64" where
  "missingBetween sn prevSN = ucast (sn - prevSN - 1)"

text \<open>How far \<open>b\<close> is ahead of \<open>a\<close>, going forward round the circle.\<close>

definition ahead :: "u16 \<Rightarrow> u16 \<Rightarrow> nat" where
  "ahead a b = unat (b - a)"

lemma word_u16_top_bit: "(w :: u16) AND 0x8000 = 0 \<longleftrightarrow> unat w < 32768"
proof -
  have "w AND 0x8000 = 0 \<longleftrightarrow> \<not> bit w 15"
    using and_exp_eq_0_iff_not_bit [of w 15] by simp
  also have "\<dots> \<longleftrightarrow> unat w < 32768"
  proof -
    have "bit w 15 \<longleftrightarrow> odd (unat w div 2 ^ 15)" by (simp only: bit_iff_odd [symmetric]) (simp add: bit_unsigned_iff)
    moreover have "unat w div 32768 < 2" using unsigned_less [of w, where ?'a = nat] by simp
    ultimately show ?thesis by (auto simp: less_2_cases_iff)
  qed
  finally show ?thesis .
qed

lemma before_ahead: "before a b \<longleftrightarrow> ahead a b < 32768"
  by (simp add: before_def ahead_def word_u16_top_bit)

lemma withinRange_ahead: "withinRange a b \<longleftrightarrow> ahead b a < 3000 \<or> ahead a b < 3000"
  by (simp add: withinRange_def ahead_def word_less_nat_alt)

lemma missingBetween_ahead:
  "a \<noteq> b \<Longrightarrow> unat (missingBetween b a) = ahead a b - 1"
proof -
  assume "a \<noteq> b"
  then have "b - a \<noteq> 0" by simp
  then have "unat (b - a - 1) = unat (b - a) - 1" by (simp add: unat_minus_one)
  then show ?thesis using unsigned_less [of "b - a", where ?'a = nat]
    by (simp add: missingBetween_def ahead_def unsigned_ucast_eq take_bit_nat_eq_self)
qed

lemma ahead_less: "ahead a b < 65536"
  using unsigned_less [of "b - a", where ?'a = nat] by (simp add: ahead_def)

lemma ahead_self [simp]: "ahead a a = 0"
  by (simp add: ahead_def)

lemma ahead_0_iff [simp]: "ahead a b = 0 \<longleftrightarrow> a = b"
  by (auto simp: ahead_def unat_eq_0)

lemma ahead_swap: "a \<noteq> b \<Longrightarrow> ahead b a = 65536 - ahead a b"
proof -
  assume "a \<noteq> b"
  then have ne: "unat a \<noteq> unat b" by (metis unsigned_word_eqI)
  have l: "unat a < 65536" "unat b < 65536"
    using unsigned_less [of a, where ?'a = nat] unsigned_less [of b, where ?'a = nat] by simp_all
  have "unat (x - y) = (if unat y \<le> unat x then unat x - unat y else unat x + 65536 - unat y)"
    for x y :: u16
    by (simp add: unat_sub_if')
  then show ?thesis using ne l unfolding ahead_def by auto
qed

lemma ahead_add: "ahead a c = (ahead a b + ahead b c) mod 65536"
proof -
  have "c - a = (b - a) + (c - b)" by simp
  then show ?thesis by (simp only: ahead_def unat_word_ariths) simp
qed

lemma ahead_plus: "n < 65536 \<Longrightarrow> ahead a (a + of_nat n) = n"
  by (simp add: ahead_def unat_of_nat)

lemma ahead_inverse: "a + of_nat (ahead a b) = b"
  by (simp add: ahead_def)

lemma ahead_1_iff: "ahead a b = 1 \<longleftrightarrow> b = a + 1"
  by (metis ahead_inverse ahead_plus of_nat_1 one_less_numeral_iff semiring_norm(76))

text \<open>
  \<open>follows a b\<close>: \<open>b\<close> comes after \<open>a\<close> within the range the buffer takes for one stream.
\<close>

definition follows :: "u16 \<Rightarrow> u16 \<Rightarrow> bool" where
  "follows a b \<longleftrightarrow> 0 < ahead a b \<and> ahead a b < 3000"

lemma follows_before:
  "a \<noteq> b \<Longrightarrow> before a b \<Longrightarrow> withinRange a b \<Longrightarrow> follows a b"
  "a \<noteq> b \<Longrightarrow> \<not> before b a \<Longrightarrow> withinRange b a \<Longrightarrow> follows a b"
  "a \<noteq> b \<Longrightarrow> before a b \<Longrightarrow> withinRange b a \<Longrightarrow> follows a b"
  "a \<noteq> b \<Longrightarrow> \<not> before b a \<Longrightarrow> withinRange a b \<Longrightarrow> follows a b"
  using ahead_less [of a b] ahead_swap [of a b]
  by (auto simp: follows_def before_ahead withinRange_ahead neq0_conv [symmetric] simp del: neq0_conv)

lemma follows_common:
  assumes "follows a b" "follows a c"
  shows "withinRange b c" "ahead a b < ahead a c \<Longrightarrow> follows b c"
    "b \<noteq> c \<Longrightarrow> before b c \<longleftrightarrow> ahead a b < ahead a c"
proof -
  have e: "ahead a c = (ahead a b + ahead b c) mod 65536" by (rule ahead_add)
  have l: "ahead b c < 65536" "ahead c b < 65536" by (rule ahead_less)+
  have *: "ahead b c = (if ahead a b \<le> ahead a c then ahead a c - ahead a b
      else 65536 + ahead a c - ahead a b)"
  proof (cases "ahead a b + ahead b c < 65536")
    case True
    then show ?thesis using e by simp
  next
    case False
    then have "(ahead a b + ahead b c) mod 65536 = ahead a b + ahead b c - 65536"
      using assms l by (simp add: follows_def le_mod_geq)
    then show ?thesis using e False l by auto
  qed
  have s: "b \<noteq> c \<Longrightarrow> ahead c b = 65536 - ahead b c" by (rule ahead_swap)
  show "withinRange b c"
    using * s assms by (cases "b = c") (auto simp: withinRange_ahead follows_def split: if_splits)
  show "ahead a b < ahead a c \<Longrightarrow> follows b c"
    using * assms by (auto simp: follows_def)
  show "b \<noteq> c \<Longrightarrow> before b c \<longleftrightarrow> ahead a b < ahead a c"
    using * assms l ahead_0_iff [of b c]
    by (auto simp: before_ahead follows_def simp del: ahead_0_iff split: if_splits)
qed

lemma follows_neq: "follows a b \<Longrightarrow> a \<noteq> b"
  by (auto simp: follows_def)

lemma follows_asym: "follows a b \<Longrightarrow> \<not> before b a"
  using ahead_swap [of a b] follows_neq [of a b] by (auto simp: follows_def before_ahead)

end
