(* ===== verification/Jitter_Packet.thy ===== *)
theory Jitter_Packet
  imports Seq_Number
begin

text \<open>
  The packets the jitter buffer queues: \<open>jitter/packet.go\<close>.  The code's doubly linked list from
  \<open>head\<close> to \<open>tail\<close> is the list of its nodes; the free list of recycled nodes has no counterpart,
  as a node's fields are all written when it is taken from it.
\<close>

text \<open>The fields of \<open>rtp.Packet\<close> (the RTP library's type) that the program reads or writes.\<close>

record rtp_packet =
  pk_Marker :: bool
  pk_Padding :: bool
  pk_PayloadType :: u8
  pk_SequenceNumber :: u16
  pk_Timestamp :: u32
  pk_SSRC :: u32
  pk_Payload :: bytes

record ext_packet =
  ep_ReceivedAt :: ns
  ep_Packet :: rtp_packet

abbreviation ep_SN :: "ext_packet \<Rightarrow> u16" where
  "ep_SN e \<equiv> pk_SequenceNumber (ep_Packet e)"

text \<open>
  \<open>rtp.Depacketizer\<close>, the interface of the RTP library that the buffer is given: only the two
  predicates on partitions are used.
\<close>

record depacketizer =
  IsPartitionHead :: "bytes \<Rightarrow> bool"
  IsPartitionTail :: "bool \<Rightarrow> bytes \<Rightarrow> bool"

record jnode =
  nd_ext :: ext_packet
  nd_start :: bool
  nd_end :: bool
  nd_discont :: bool

abbreviation nd_SN :: "jnode \<Rightarrow> u16" where
  "nd_SN n \<equiv> ep_SN (nd_ext n)"

abbreviation nd_Padding :: "jnode \<Rightarrow> bool" where
  "nd_Padding n \<equiv> pk_Padding (ep_Packet (nd_ext n))"

text \<open>\<open>newPacket\<close>; the buffer's size counter is updated by the caller.\<close>

definition newPacket :: "depacketizer \<Rightarrow> rtp_packet \<Rightarrow> ns \<Rightarrow> jnode" where
  "newPacket d pkt receivedAt =
     \<lparr>nd_ext = \<lparr>ep_ReceivedAt = receivedAt, ep_Packet = pkt\<rparr>,
      nd_start = IsPartitionHead d (pk_Payload pkt),
      nd_end = IsPartitionTail d (pk_Marker pkt) (pk_Payload pkt),
      nd_discont = False\<rparr>"

text \<open>\<open>isComplete\<close> on the node and the nodes after it.\<close>

fun complete_from :: "jnode \<Rightarrow> jnode list \<Rightarrow> bool" where
  "complete_from c [] = False"
| "complete_from c (n # ns) =
     (if nd_SN n \<noteq> nd_SN c + 1 then False
      else if nd_end n then True
      else complete_from n ns)"

fun isComplete :: "jnode list \<Rightarrow> bool" where
  "isComplete [] = False"
| "isComplete (p # ns) =
     (if \<not> nd_start p then False else if nd_end p then True else complete_from p ns)"

section \<open>Complete samples\<close>

text \<open>Packets whose sequence numbers follow each other without a gap.\<close>

fun contiguous :: "u16 list \<Rightarrow> bool" where
  "contiguous (a # b # xs) \<longleftrightarrow> b = a + 1 \<and> contiguous (b # xs)"
| "contiguous _ \<longleftrightarrow> True"

text \<open>
  The nodes of one sample: a partition's head, its tail as the only one, and every packet between.
\<close>

definition sample_nodes :: "jnode list \<Rightarrow> bool" where
  "sample_nodes ns \<longleftrightarrow>
     ns \<noteq> [] \<and> nd_start (hd ns) \<and> nd_end (last ns) \<and> (\<forall>n \<in> set (butlast ns). \<not> nd_end n) \<and>
     contiguous (map nd_SN ns)"

lemma complete_from_split:
  "complete_from c ns \<Longrightarrow> \<not> nd_end c \<Longrightarrow>
    \<exists>xs e ys. ns = xs @ e # ys \<and> nd_end e \<and> (\<forall>n \<in> set xs. \<not> nd_end n) \<and>
      contiguous (nd_SN c # map nd_SN (xs @ [e]))"
proof (induction c ns rule: complete_from.induct)
  case (2 c n ns)
  show ?case
  proof (cases "nd_end n")
    case True
    with 2 show ?thesis by (intro exI [of _ "[]"] exI [of _ n] exI [of _ ns]) (auto split: if_splits)
  next
    case False
    with 2 obtain xs e ys where "ns = xs @ e # ys" "nd_end e" "\<forall>n \<in> set xs. \<not> nd_end n"
      "contiguous (nd_SN n # map nd_SN (xs @ [e]))" by (auto split: if_splits)
    with 2 False show ?thesis
      by (intro exI [of _ "n # xs"] exI [of _ e] exI [of _ ys]) (auto split: if_splits)
  qed
qed simp

lemma isComplete_split:
  assumes "isComplete q"
  obtains xs e ys where "q = xs @ e # ys" "nd_end e" "\<forall>n \<in> set xs. \<not> nd_end n"
    "sample_nodes (xs @ [e])"
proof -
  from assms obtain p ns where q: "q = p # ns" "nd_start p" "nd_end p \<or> complete_from p ns"
    by (cases q) (auto split: if_splits)
  show thesis
  proof (cases "nd_end p")
    case True
    with q that [of "[]" p ns] show thesis by (simp add: sample_nodes_def)
  next
    case False
    with q complete_from_split [of p ns] obtain xs e ys where
      "ns = xs @ e # ys" "nd_end e" "\<forall>n \<in> set xs. \<not> nd_end n"
      "contiguous (nd_SN p # map nd_SN (xs @ [e]))" by auto
    with q False that [of "p # xs" e ys] show thesis by (auto simp: sample_nodes_def)
  qed
qed

lemma isComplete_single [simp]: "nd_start p \<Longrightarrow> nd_end p \<Longrightarrow> isComplete (p # ns)"
  by simp

lemma isComplete_start: "isComplete q \<Longrightarrow> q \<noteq> [] \<and> nd_start (hd q)"
  by (cases q) (auto split: if_splits)

declare isComplete.simps(2) [simp del]

end
