(* ===== verification/Jitter_Line.thy ===== *)
theory Jitter_Line
  imports Seq_Number
begin

text \<open>
  Sequence lines of \<open>jitter/lines.go\<close>: a line is a run of sequence numbers with its recent arrivals;
  the buffer keeps the playing line and one alternate.
\<close>

definition lineAhead :: u16 where "lineAhead = 50"
definition lineBehind :: u16 where "lineBehind = 100"
definition lineQuiet :: ns where "lineQuiet = 60 * 1000000"
definition lineWindow :: ns where "lineWindow = 300 * 1000000"
definition lineMinPackets :: nat where "lineMinPackets = 5"
definition lineParallel :: ns where "lineParallel = 1000000000"

named_theorems line_consts \<open>the thresholds of \<open>lines.go\<close>\<close>
declare lineAhead_def [line_consts] lineBehind_def [line_consts] lineQuiet_def [line_consts]
  lineWindow_def [line_consts] lineMinPackets_def [line_consts] lineParallel_def [line_consts]

text \<open>A zero \<open>time.Time\<close> is only read here after \<open>add\<close> has set it; it is 0.\<close>

record seqLine =
  sl_ok :: bool
  sl_high :: u16
  sl_first :: ns
  sl_lastAt :: ns
  sl_at :: "ns list"

definition no_line :: seqLine where
  "no_line = \<lparr>sl_ok = False, sl_high = 0, sl_first = 0, sl_lastAt = 0, sl_at = []\<rparr>"

definition line_fits :: "seqLine \<Rightarrow> u16 \<Rightarrow> bool" where
  "line_fits l sn \<longleftrightarrow> sl_ok l \<and> (sn - sl_high l \<le> lineAhead \<or> sl_high l - sn \<le> lineBehind)"

definition line_continues :: "seqLine \<Rightarrow> u16 \<Rightarrow> u16 \<Rightarrow> bool" where
  "line_continues l sn high \<longleftrightarrow>
     (let step = sn - sl_high l; jump = sn - high
      in sl_ok l \<and> step \<ge> 1 \<and> step < jump \<and> jump \<le> lineAhead)"

definition line_add :: "u16 \<Rightarrow> ns \<Rightarrow> seqLine \<Rightarrow> seqLine" where
  "line_add sn at l =
     (let l1 = (if \<not> sl_ok l then l\<lparr>sl_first := at\<rparr> else l);
          l2 = (if \<not> sl_ok l1 \<or> before (sl_high l1) sn then l1\<lparr>sl_high := sn\<rparr> else l1)
      in l2\<lparr>sl_ok := True, sl_lastAt := at, sl_at := sl_at l2 @ [at]\<rparr>)"

text \<open>\<open>count\<close>: the arrivals within the window, after forgetting those older than \<open>lineParallel\<close>.\<close>

definition line_count :: "ns \<Rightarrow> ns \<Rightarrow> seqLine \<Rightarrow> nat \<times> seqLine" where
  "line_count now window l =
     (let at = dropWhile (\<lambda>t. now - t > lineParallel) (sl_at l)
      in (length at - length (takeWhile (\<lambda>t. now - t > window) at), l\<lparr>sl_at := at\<rparr>))"

definition line_reset :: "seqLine \<Rightarrow> seqLine" where
  "line_reset l = no_line"

record lineVote =
  lv_cur :: seqLine
  lv_alt :: seqLine

definition no_lines :: lineVote where
  "no_lines = \<lparr>lv_cur = no_line, lv_alt = no_line\<rparr>"

section \<open>Facts on lines\<close>

lemma line_add_simps [simp]:
  "sl_ok (line_add sn at l)"
  "sl_lastAt (line_add sn at l) = at"
  "sl_at (line_add sn at l) = sl_at l @ [at]"
  "sl_first (line_add sn at l) = (if sl_ok l then sl_first l else at)"
  "sl_high (line_add sn at l) = (if sl_ok l \<and> \<not> before (sl_high l) sn then sl_high l else sn)"
  by (auto simp: line_add_def Let_def)

lemma line_reset_simps [simp]: "\<not> sl_ok (line_reset l)" "sl_at (line_reset l) = []"
  by (simp_all add: line_reset_def no_line_def)

lemma line_count_simps [simp]:
  "sl_ok (snd (line_count now w l)) = sl_ok l"
  "sl_high (snd (line_count now w l)) = sl_high l"
  "sl_first (snd (line_count now w l)) = sl_first l"
  "sl_lastAt (snd (line_count now w l)) = sl_lastAt l"
  by (simp_all add: line_count_def Let_def)

lemma line_fits_ahead:
  "line_fits l sn \<longleftrightarrow> sl_ok l \<and> (ahead (sl_high l) sn \<le> 50 \<or> ahead sn (sl_high l) \<le> 100)"
  by (simp add: line_fits_def line_consts ahead_def word_le_nat_alt)

lemma line_continues_ahead:
  "line_continues l sn high \<longleftrightarrow>
     sl_ok l \<and> 1 \<le> ahead (sl_high l) sn \<and> ahead (sl_high l) sn < ahead high sn \<and> ahead high sn \<le> 50"
  by (simp add: line_continues_def line_consts ahead_def Let_def word_le_nat_alt word_less_nat_alt)

text \<open>With arrivals in order, \<open>count\<close> is the number of arrivals within the window.\<close>

lemma dropWhile_filter_sorted:
  "sorted xs \<Longrightarrow> dropWhile (\<lambda>t. t < (c :: int)) xs = filter (\<lambda>t. c \<le> t) xs"
proof (induction xs)
  case (Cons x xs)
  then show ?case by (cases "x < c") (auto intro!: filter_True [symmetric])
qed simp

lemma line_count_window:
  assumes "sorted (sl_at l)" "window \<le> lineParallel"
  shows "fst (line_count now window l) = length (filter (\<lambda>t. now - t \<le> window) (sl_at l))"
proof -
  have d: "dropWhile (\<lambda>t. now - t > w) xs = filter (\<lambda>t. now - w \<le> t) xs" if "sorted xs" for w xs
  proof -
    have "(\<lambda>t. now - t > w) = (\<lambda>t. t < now - w)" by auto
    then show ?thesis using dropWhile_filter_sorted [OF that] by simp
  qed
  let ?at = "dropWhile (\<lambda>t. now - t > lineParallel) (sl_at l)"
  have at: "?at = filter (\<lambda>t. now - lineParallel \<le> t) (sl_at l)" using assms(1) by (rule d)
  then have s: "sorted ?at" using assms(1) by (simp add: sorted_wrt_filter)
  have "length ?at - length (takeWhile (\<lambda>t. now - t > window) ?at)
      = length (dropWhile (\<lambda>t. now - t > window) ?at)"
    by (metis (no_types, lifting) add_diff_cancel_left' length_append takeWhile_dropWhile_id)
  also have "\<dots> = length (filter (\<lambda>t. now - window \<le> t) ?at)" unfolding d [OF s] ..
  also have "filter (\<lambda>t. now - window \<le> t) ?at = filter (\<lambda>t. now - t \<le> window) (sl_at l)"
    unfolding at using assms(2) by (auto simp: filter_filter intro: filter_cong)
  finally show ?thesis by (simp add: line_count_def Let_def)
qed

end
