(* ===== verification/Jitter_Buffer.thy ===== *)
theory Jitter_Buffer
  imports Jitter_Packet Jitter_Line
begin

text \<open>
  The jitter buffer of \<open>jitter/buffer.go\<close> with the line vote of \<open>jitter/lines.go\<close>: its state and every
  operation that changes it.  Calls of the three handlers are recorded in order in \<open>jb_log\<close>.  A
  method runs under the buffer's mutex, so an operation is one step; \<open>now\<close> is its reading of the
  monotonic clock.
\<close>

section \<open>State\<close>

record jb_stats_rec =
  js_PacketsPushed :: u64
  js_PaddingPushed :: u64
  js_PacketsLost :: u64
  js_PacketsDropped :: u64
  js_PacketsPopped :: u64
  js_SamplesPopped :: u64
  js_SSRCSwitches :: u64
  js_PacketsReordered :: u64
  js_SequenceRestarts :: u64
  js_PacketsStray :: u64
  js_PacketsDuplicate :: u64

definition no_jb_stats :: jb_stats_rec where
  "no_jb_stats = \<lparr>js_PacketsPushed = 0, js_PaddingPushed = 0, js_PacketsLost = 0,
     js_PacketsDropped = 0, js_PacketsPopped = 0, js_SamplesPopped = 0, js_SSRCSwitches = 0,
     js_PacketsReordered = 0, js_SequenceRestarts = 0, js_PacketsStray = 0,
     js_PacketsDuplicate = 0\<rparr>"

datatype jb_event =
    OnPacket "ext_packet list" | OnPacketLoss u64 u64 | OnStats jb_stats_rec

text \<open>
  \<open>jb_timer\<close> is the time the timer fires at: \<open>Reset(t.Sub(mono.Now()))\<close> sets it to \<open>t\<close>, and \<open>None\<close>
  is a stopped timer.  \<open>jb_loop\<close> is the goroutine of \<open>NewBuffer\<close>: blocked in its \<open>select\<close>, woken by the
  timer and on its way to the lock, or returned.
\<close>

datatype goroutine = Waiting | Woken | Returned

record jbuf =
  jb_depacketizer :: depacketizer
  jb_latency :: ns
  jb_onPacketLoss :: bool
  jb_onStats :: bool
  jb_closed :: bool
  jb_initialized :: bool
  jb_prevSN :: u16
  jb_ssrc :: u32
  jb_hasSSRC :: bool
  jb_detectRestarts :: bool
  jb_lines :: lineVote
  jb_queue :: "jnode list"
  jb_stats :: jb_stats_rec
  jb_timer :: "ns option"
  jb_loop :: goroutine
  jb_size :: int
  jb_log :: "jb_event list"

abbreviation upd_js :: "(jb_stats_rec \<Rightarrow> jb_stats_rec) \<Rightarrow> jbuf \<Rightarrow> jbuf" where
  "upd_js f b \<equiv> b\<lparr>jb_stats := f (jb_stats b)\<rparr>"

datatype jb_option =
    WithPacketLossHandler | WithStatsHandler | WithSequenceRestartDetection

fun jb_apply_option :: "jb_option \<Rightarrow> jbuf \<Rightarrow> jbuf" where
  "jb_apply_option WithPacketLossHandler b = b\<lparr>jb_onPacketLoss := True\<rparr>"
| "jb_apply_option WithStatsHandler b = b\<lparr>jb_onStats := True\<rparr>"
| "jb_apply_option WithSequenceRestartDetection b = b\<lparr>jb_detectRestarts := True\<rparr>"

definition jb_NewBuffer :: "depacketizer \<Rightarrow> ns \<Rightarrow> jb_option list \<Rightarrow> ns \<Rightarrow> jbuf" where
  "jb_NewBuffer d latency opts now = fold jb_apply_option opts
     \<lparr>jb_depacketizer = d, jb_latency = latency, jb_onPacketLoss = False, jb_onStats = False,
      jb_closed = False, jb_initialized = False, jb_prevSN = 0, jb_ssrc = 0, jb_hasSSRC = False,
      jb_detectRestarts = False, jb_lines = no_lines, jb_queue = [], jb_stats = no_jb_stats,
      jb_timer = Some (now + latency), jb_loop = Waiting, jb_size = 0, jb_log = []\<rparr>"

section \<open>Handlers\<close>

definition jb_emit :: "jb_event \<Rightarrow> jbuf \<Rightarrow> jbuf" where
  "jb_emit e b = b\<lparr>jb_log := jb_log b @ [e]\<rparr>"

text \<open>A snapshot of the counters: a copy, field by field.\<close>

definition statsLocked :: "jbuf \<Rightarrow> jb_stats_rec" where
  "statsLocked b =
     \<lparr>js_PacketsPushed = js_PacketsPushed (jb_stats b), js_PaddingPushed = js_PaddingPushed (jb_stats b),
      js_PacketsLost = js_PacketsLost (jb_stats b), js_PacketsDropped = js_PacketsDropped (jb_stats b),
      js_PacketsPopped = js_PacketsPopped (jb_stats b), js_SamplesPopped = js_SamplesPopped (jb_stats b),
      js_SSRCSwitches = js_SSRCSwitches (jb_stats b), js_PacketsReordered = js_PacketsReordered (jb_stats b),
      js_SequenceRestarts = js_SequenceRestarts (jb_stats b), js_PacketsStray = js_PacketsStray (jb_stats b),
      js_PacketsDuplicate = js_PacketsDuplicate (jb_stats b)\<rparr>"

lemma statsLocked_eq [simp]: "statsLocked b = jb_stats b"
  by (simp add: statsLocked_def)

definition notifyStats :: "jbuf \<Rightarrow> jbuf" where
  "notifyStats b = (if jb_onStats b then jb_emit (OnStats (statsLocked b)) b else b)"

text \<open>\<open>if b.onPacketLoss != nil { b.onPacketLoss(...) }\<close>\<close>

definition notifyLoss :: "jbuf \<Rightarrow> jbuf" where
  "notifyLoss b =
     (if jb_onPacketLoss b
      then jb_emit (OnPacketLoss (js_PacketsLost (jb_stats b)) (js_PacketsDropped (jb_stats b))) b
      else b)"

definition reordered :: "jbuf \<Rightarrow> jbuf" where
  "reordered b =
     notifyStats (upd_js (\<lambda>s. s\<lparr>js_PacketsReordered := js_PacketsReordered s + 1\<rparr>) b)"

definition duplicate :: "rtp_packet \<Rightarrow> jbuf \<Rightarrow> jbuf" where
  "duplicate pkt b =
     (if pk_Padding pkt then b
      else notifyStats (upd_js (\<lambda>s. s\<lparr>js_PacketsDuplicate := js_PacketsDuplicate s + 1\<rparr>) b))"

definition resetTimer :: "jbuf \<Rightarrow> jbuf" where
  "resetTimer b =
     (case jb_queue b of [] \<Rightarrow> b
      | h # _ \<Rightarrow> b\<lparr>jb_timer := Some (ep_ReceivedAt (nd_ext h) + jb_latency b)\<rparr>)"

section \<open>Popping\<close>

text \<open>\<open>popHead\<close> and the \<open>free\<close> of the node its callers do next.\<close>

definition popHead :: "jbuf \<Rightarrow> (jnode \<times> jbuf) option" where
  "popHead b =
     (case jb_queue b of [] \<Rightarrow> None
      | c # q \<Rightarrow> Some (c, b\<lparr>jb_prevSN := nd_SN c, jb_queue := q\<rparr>))"

definition free :: "jbuf \<Rightarrow> jbuf" where
  "free b = b\<lparr>jb_size := jb_size b - 1\<rparr>"

lemma popHead_length: "popHead b = Some (c, b') \<Longrightarrow> length (jb_queue b') < length (jb_queue b)"
  by (auto simp: popHead_def split: list.splits)

function popSample_loop :: "ext_packet list \<Rightarrow> jbuf \<Rightarrow> (ext_packet list \<times> jbuf) option" where
  "popSample_loop sample b =
     (case popHead b of None \<Rightarrow> None
      | Some (c, b1) \<Rightarrow>
          let sample1 = (if nd_Padding c then sample else sample @ [nd_ext c]);
              b2 = free (upd_js (\<lambda>s. s\<lparr>js_PacketsPopped := js_PacketsPopped s + 1\<rparr>) b1)
          in if nd_end c then Some (sample1, b2) else popSample_loop sample1 b2)"
  by pat_completeness auto

termination
  by (relation "measure (\<lambda>(sample, b). length (jb_queue b))")
    (auto simp: free_def dest: popHead_length)

declare popSample_loop.simps [simp del]

definition popSample :: "jbuf \<Rightarrow> (ext_packet list \<times> jbuf) option" where
  "popSample b = do {
     (sample, b1) \<leftarrow> popSample_loop [] b;
     Some (sample, upd_js (\<lambda>s. s\<lparr>js_SamplesPopped := js_SamplesPopped s + 1\<rparr>)
                     (b1\<lparr>jb_initialized := True\<rparr>)) }"

text \<open>\<open>dropIncomplete\<close>: whether a packet was dropped, and the buffer.\<close>

function dropIncomplete :: "ns \<Rightarrow> bool \<Rightarrow> jbuf \<Rightarrow> bool \<times> jbuf" where
  "dropIncomplete expiry force b =
     (case jb_queue b of [] \<Rightarrow> (False, b)
      | h # q \<Rightarrow>
          if \<not> isComplete (h # q) \<and> (force \<or> ep_ReceivedAt (nd_ext h) < expiry) then
            let b1 = (if jb_initialized b \<and> \<not> nd_discont h
                      then upd_js (\<lambda>s. s\<lparr>js_PacketsLost :=
                               js_PacketsLost s + missingBetween (nd_SN h) (jb_prevSN b)\<rparr>) b
                      else b);
                b2 = free (b1\<lparr>jb_prevSN := nd_SN h, jb_queue := q\<rparr>);
                b3 = upd_js (\<lambda>s. s\<lparr>js_PacketsDropped := js_PacketsDropped s + 1\<rparr>) b2
            in (True, snd (dropIncomplete expiry force b3))
          else (False, b))"
  by pat_completeness auto

termination
  by (relation "measure (\<lambda>(expiry, force, b). length (jb_queue b))") (auto simp: free_def)

declare dropIncomplete.simps [simp del]

definition dropIncompleteExpired :: "ns \<Rightarrow> jbuf \<Rightarrow> jbuf" where
  "dropIncompleteExpired expiry b =
     (let (dropped, b1) = dropIncomplete expiry False b
      in if dropped then notifyLoss b1 else b1)"

text \<open>\<open>if sample := b.popSample(); len(sample) > 0 { b.onPacket(sample) }\<close>\<close>

definition deliver :: "jbuf \<Rightarrow> jbuf option" where
  "deliver b = do {
     (sample, b1) \<leftarrow> popSample b;
     Some (if length sample > 0 then jb_emit (OnPacket sample) b1 else b1) }"

lemma popSample_loop_length:
  "popSample_loop sample b = Some (sample', b') \<Longrightarrow> length (jb_queue b') < length (jb_queue b)"
proof (induction sample b rule: popSample_loop.induct)
  case (1 sample b)
  from "1.prems" obtain c b1 where c: "popHead b = Some (c, b1)"
    by (subst (asm) popSample_loop.simps) (auto split: option.splits)
  note IH = "1.IH" [OF c refl refl refl]
  from "1.prems" IH popHead_length [OF c] c show ?case
    by (subst (asm) popSample_loop.simps) (auto simp: free_def Let_def split: if_splits)
qed

lemma deliver_length: "deliver b = Some b' \<Longrightarrow> length (jb_queue b') < length (jb_queue b)"
  by (auto simp: deliver_def popSample_def jb_emit_def dest: popSample_loop_length
      split: Option.bind_splits)

text \<open>The head is next in sequence, opens a new stream, or is the first packet.\<close>

definition head_normal :: "jnode \<Rightarrow> jbuf \<Rightarrow> bool" where
  "head_normal h b \<longleftrightarrow> nd_SN h = jb_prevSN b + 1 \<or> nd_discont h \<or> \<not> jb_initialized b"

definition count_missing :: "jnode \<Rightarrow> jbuf \<Rightarrow> jbuf" where
  "count_missing h b =
     upd_js (\<lambda>s. s\<lparr>js_PacketsLost := js_PacketsLost s + missingBetween (nd_SN h) (jb_prevSN b)\<rparr>) b"

text \<open>The loop of \<open>popReady\<close>: whether a loss was counted, and the buffer.\<close>

lemma count_missing_queue [simp]: "jb_queue (count_missing h b) = jb_queue b"
  by (simp add: count_missing_def)

function popReady_loop :: "ns \<Rightarrow> bool \<Rightarrow> jbuf \<Rightarrow> (bool \<times> jbuf) option" where
  "popReady_loop expiry loss b =
     (case jb_queue b of [] \<Rightarrow> Some (loss, b)
      | h # q \<Rightarrow>
          if \<not> isComplete (h # q) then Some (loss, b)
          else if head_normal h b then
            (case deliver b of None \<Rightarrow> None
             | Some b1 \<Rightarrow> popReady_loop expiry loss b1)
          else if \<not> expiry < ep_ReceivedAt (nd_ext h) then
            (case deliver (count_missing h b) of None \<Rightarrow> None
             | Some b1 \<Rightarrow> popReady_loop expiry True b1)
          else Some (loss, b))"
  by pat_completeness auto

termination
  by (relation "measure (\<lambda>(expiry, loss, b). length (jb_queue b))") (auto dest!: deliver_length)

declare popReady_loop.simps [simp del]

definition popReady :: "ns \<Rightarrow> jbuf \<Rightarrow> jbuf option" where
  "popReady now b = do {
     let expiry = now - jb_latency b;
     (loss, b1) \<leftarrow> popReady_loop expiry False (dropIncompleteExpired expiry b);
     Some (resetTimer (if loss then notifyLoss b1 else b1)) }"

text \<open>The loop of \<open>flushLocked\<close>: whether a loss and a drop were counted, and the buffer.\<close>

lemma dropIncomplete_length: "length (jb_queue (snd (dropIncomplete expiry force b))) \<le> length (jb_queue b)"
proof (induction expiry force b rule: dropIncomplete.induct)
  case (1 expiry force b)
  then show ?case
    by (subst dropIncomplete.simps)
      (fastforce simp: free_def Let_def split: list.split)
qed

function flush_loop :: "bool \<Rightarrow> bool \<Rightarrow> jbuf \<Rightarrow> ((bool \<times> bool) \<times> jbuf) option" where
  "flush_loop loss dropped b =
     (case jb_queue b of [] \<Rightarrow> Some ((loss, dropped), b)
      | h # q \<Rightarrow>
          if \<not> isComplete (h # q) then Some ((loss, dropped), b)
          else
            let norm = head_normal h b
            in (case deliver (if norm then b else count_missing h b) of None \<Rightarrow> None
                | Some b1 \<Rightarrow>
                    flush_loop (loss \<or> \<not> norm) (dropped \<or> fst (dropIncomplete 0 True b1))
                      (snd (dropIncomplete 0 True b1))))"
  by pat_completeness auto

termination
proof (relation "measure (\<lambda>(loss, dropped, b). length (jb_queue b))", goal_cases)
  case (2 loss dropped b h q x b1)
  then have "length (jb_queue b1) < length (jb_queue b)"
    by (auto dest!: deliver_length split: if_splits)
  with dropIncomplete_length [of 0 True b1] show ?case by simp
qed simp

declare flush_loop.simps [simp del]

definition flushLocked :: "jbuf \<Rightarrow> jbuf option" where
  "flushLocked b = do {
     let (dropped, b1) = dropIncomplete 0 True b;
     ((loss, dropped1), b2) \<leftarrow> flush_loop False dropped b1;
     Some (if loss \<or> dropped1 then notifyLoss b2 else b2) }"

definition resetStream :: "jbuf \<Rightarrow> jbuf option" where
  "resetStream b = do {
     b1 \<leftarrow> flushLocked b;
     Some (b1\<lparr>jb_initialized := False, jb_prevSN := 0\<rparr>) }"

definition switchStream :: "u32 \<Rightarrow> jbuf \<Rightarrow> jbuf option" where
  "switchStream ssrc b = do {
     b1 \<leftarrow> resetStream b;
     Some (notifyStats (upd_js (\<lambda>s. s\<lparr>js_SSRCSwitches := js_SSRCSwitches s + 1\<rparr>)
             (b1\<lparr>jb_ssrc := ssrc, jb_lines := no_lines\<rparr>))) }"

section \<open>The line vote\<close>

text \<open>
  Whether the alternate line, with the packet added, takes over; \<open>count\<close> forgets old arrivals of the
  lines it looks at.
\<close>

definition line_takeover :: "ns \<Rightarrow> lineVote \<Rightarrow> (bool \<times> bool) \<times> lineVote" where
  "line_takeover at v =
     (let parallel = sl_lastAt (lv_cur v) - sl_first (lv_alt v) \<ge> lineParallel;
          quiet = (\<not> parallel \<and> at - sl_lastAt (lv_cur v) \<ge> lineQuiet)
      in if quiet then ((True, quiet), v)
         else
           let window = (if parallel then lineParallel else lineWindow);
               (nalt, alt) = line_count at window (lv_alt v);
               v1 = v\<lparr>lv_alt := alt\<rparr>
           in if nalt < lineMinPackets then ((False, quiet), v1)
              else
                let (ncur, cur) = line_count at window (lv_cur v1)
                in ((\<not> nalt < 2 * ncur, quiet), v1\<lparr>lv_cur := cur\<rparr>))"

definition acceptLine :: "u16 \<Rightarrow> ns \<Rightarrow> jbuf \<Rightarrow> (bool \<times> jbuf) option" where
  "acceptLine sn at b =
     (let v = jb_lines b in
      if \<not> sl_ok (lv_cur v) \<or> (line_fits (lv_cur v) sn \<and> \<not> line_continues (lv_alt v) sn (sl_high (lv_cur v)))
      then Some (True, b\<lparr>jb_lines := v\<lparr>lv_cur := line_add sn at (lv_cur v)\<rparr>\<rparr>)
      else
        let alt0 = (if \<not> line_fits (lv_alt v) sn then line_reset (lv_alt v) else lv_alt v);
            ((take, quiet), v1) = line_takeover at (v\<lparr>lv_alt := line_add sn at alt0\<rparr>)
        in if \<not> take then Some (False, b\<lparr>jb_lines := v1\<rparr>)
           else do {
             let isahead = (before (sl_high (lv_cur v1)) sn \<and> withinRange sn (sl_high (lv_cur v1)));
             b1 \<leftarrow> (if \<not> isahead then resetStream b else Some b);
             let b2 = (if \<not> quiet \<or> \<not> isahead
                       then notifyStats (upd_js (\<lambda>s. s\<lparr>js_SequenceRestarts := js_SequenceRestarts s + 1\<rparr>) b1)
                       else b1);
             Some (True, b2\<lparr>jb_lines := \<lparr>lv_cur = lv_alt v1, lv_alt = line_reset (lv_cur v1)\<rparr>\<rparr>) })"

section \<open>Pushing\<close>

text \<open>
  The two searches for the place of \<open>p\<close>.  From the tail: \<open>cs\<close> is what precedes \<open>suf\<close>, nearest first;
  from the head: \<open>pre\<close> is what was passed, nearest first.  \<open>NotFound\<close> is a search that falls off the
  queue: the code would return with the new node in no list.
\<close>

datatype insertion = Duplicate | Inserted "jnode list" | NotFound

fun search_tail :: "jnode \<Rightarrow> jnode list \<Rightarrow> jnode list \<Rightarrow> insertion" where
  "search_tail p [] suf = NotFound"
| "search_tail p (c # cs) suf =
     (if nd_SN p = nd_SN c then Duplicate
      else
        let discont = (\<not> withinRange (nd_SN p) (nd_SN c))
        in if \<not> before (nd_SN p) (nd_SN c) \<or> discont
           then Inserted (rev (c # cs) @ p\<lparr>nd_discont := discont \<and> nd_start p\<rparr> # suf)
           else search_tail p cs (c # suf))"

fun search_head :: "jnode \<Rightarrow> jnode list \<Rightarrow> jnode list \<Rightarrow> insertion" where
  "search_head p pre [] = NotFound"
| "search_head p pre (c # cs) =
     (if nd_SN p = nd_SN c then Duplicate
      else
        let discont = (\<not> withinRange (nd_SN p) (nd_SN c))
        in if before (nd_SN p) (nd_SN c) \<or> discont
           then Inserted (rev pre @ p # c # cs)
           else search_head p (c # pre) cs)"

definition search_result :: "insertion \<Rightarrow> rtp_packet \<Rightarrow> jbuf \<Rightarrow> jbuf" where
  "search_result r pkt b =
     (case r of
        Duplicate \<Rightarrow> duplicate pkt (free b)
      | Inserted q \<Rightarrow> (reordered b)\<lparr>jb_queue := q\<rparr>
      | NotFound \<Rightarrow> b)"

text \<open>\<open>push\<close> from \<open>newPacket\<close> on: the new node enters the queue.\<close>

definition enqueue :: "rtp_packet \<Rightarrow> ns \<Rightarrow> jbuf \<Rightarrow> jbuf" where
  "enqueue pkt receivedAt b0 =
     (let p = newPacket (jb_depacketizer b0) pkt receivedAt;
          sn = pk_SequenceNumber pkt;
          b = b0\<lparr>jb_size := jb_size b0 + 1\<rparr>;
          discont = (\<not> jb_initialized b \<or> \<not> withinRange sn (jb_prevSN b));
          q = jb_queue b
      in if q = [] then b\<lparr>jb_queue := [p\<lparr>nd_discont := discont \<and> nd_start p\<rparr>]\<rparr>
         else
           let beforeHead = before sn (nd_SN (hd q));
               afterTail = (\<not> before sn (nd_SN (last q)));
               withinHeadRange = withinRange sn (nd_SN (hd q));
               withinTailRange = withinRange sn (nd_SN (last q))
           in if beforeHead \<and> withinHeadRange
              then (reordered b)\<lparr>jb_queue := p\<lparr>nd_discont := discont \<and> nd_start p\<rparr> # q\<rparr>
              else if afterTail \<and> withinTailRange then b\<lparr>jb_queue := q @ [p]\<rparr>
              else if withinTailRange
              then search_result (search_tail p (rev (butlast q)) [last q]) pkt b
              else if withinHeadRange
              then search_result (search_head p [hd q] (tl q)) pkt b
              else b\<lparr>jb_queue := q @ [p\<lparr>nd_discont := nd_start p\<rparr>]\<rparr>)"

definition count_stray :: "jbuf \<Rightarrow> jbuf" where
  "count_stray b =
     notifyStats (notifyLoss (upd_js (\<lambda>s. s\<lparr>js_PacketsStray := js_PacketsStray s + 1,
                                            js_PacketsDropped := js_PacketsDropped s + 1\<rparr>) b))"

definition count_expired :: "jbuf \<Rightarrow> jbuf" where
  "count_expired b = notifyLoss (upd_js (\<lambda>s. s\<lparr>js_PacketsDropped := js_PacketsDropped s + 1\<rparr>) b)"

definition shouldSwitch :: "rtp_packet \<Rightarrow> bool" where
  "shouldSwitch pkt = True"

text \<open>\<open>push\<close> after the SSRC and the line were accepted.\<close>

definition push_accepted :: "rtp_packet \<Rightarrow> ns \<Rightarrow> jbuf \<Rightarrow> jbuf" where
  "push_accepted pkt receivedAt b =
     (let sn = pk_SequenceNumber pkt; q = jb_queue b in
      if jb_initialized b \<and> before sn (jb_prevSN b)
      then (if pk_Padding pkt then b else count_expired b)
      else if q \<noteq> [] \<and> (sn = nd_SN (hd q) \<or> sn = nd_SN (last q)) then duplicate pkt b
      else enqueue pkt receivedAt b)"

definition push_ssrc :: "rtp_packet \<Rightarrow> jbuf \<Rightarrow> jbuf option" where
  "push_ssrc pkt b =
     (if \<not> jb_hasSSRC b then Some (b\<lparr>jb_ssrc := pk_SSRC pkt, jb_hasSSRC := True\<rparr>)
      else if pk_SSRC pkt \<noteq> jb_ssrc b \<and> shouldSwitch pkt then switchStream (pk_SSRC pkt) b
      else Some b)"

definition push_line :: "rtp_packet \<Rightarrow> ns \<Rightarrow> jbuf \<Rightarrow> (bool \<times> jbuf) option" where
  "push_line pkt receivedAt b =
     (if jb_detectRestarts b then acceptLine (pk_SequenceNumber pkt) receivedAt b else Some (True, b))"

definition jb_push :: "rtp_packet \<Rightarrow> ns \<Rightarrow> jbuf \<Rightarrow> jbuf option" where
  "jb_push pkt receivedAt b =
     (let b1 = upd_js (\<lambda>s. s\<lparr>js_PacketsPushed := js_PacketsPushed s + 1\<rparr>) b;
          b2 = (if pk_Padding pkt
                then upd_js (\<lambda>s. s\<lparr>js_PaddingPushed := js_PaddingPushed s + 1\<rparr>) b1 else b1)
      in if pk_Padding pkt \<and> \<not> jb_initialized b2 then Some b2
         else do {
           b3 \<leftarrow> push_ssrc pkt b2;
           (accepted, b4) \<leftarrow> push_line pkt receivedAt b3;
           Some (if \<not> accepted then (if pk_Padding pkt then b4 else count_stray b4)
                 else push_accepted pkt receivedAt b4) })"

section \<open>The exported methods\<close>

definition PushAt :: "rtp_packet \<Rightarrow> ns \<Rightarrow> ns \<Rightarrow> jbuf \<Rightarrow> jbuf option" where
  "PushAt pkt receivedAt now b = do {
     b1 \<leftarrow> jb_push pkt receivedAt b;
     (if jb_queue b1 = [] then Some b1 else popReady now b1) }"

text \<open>\<open>Push\<close> reads the clock for the arrival, \<open>PushAt\<close> reads it again.\<close>

definition jb_Push :: "rtp_packet \<Rightarrow> ns \<Rightarrow> ns \<Rightarrow> jbuf \<Rightarrow> jbuf option" where
  "jb_Push pkt arrival now b = PushAt pkt arrival now b"

definition PushExtPacket :: "ext_packet \<Rightarrow> ns \<Rightarrow> jbuf \<Rightarrow> jbuf option" where
  "PushExtPacket e now b = PushAt (ep_Packet e) (ep_ReceivedAt e) now b"

text \<open>\<open>PushExtPacketBatch\<close>, with the clock readings of its calls.\<close>

fun PushExtPacketBatch :: "(ext_packet \<times> ns) list \<Rightarrow> jbuf \<Rightarrow> jbuf option" where
  "PushExtPacketBatch [] b = Some b"
| "PushExtPacketBatch ((e, now) # es) b =
     do { b1 \<leftarrow> PushExtPacket e now b; PushExtPacketBatch es b1 }"

definition UpdateLatency :: "ns \<Rightarrow> jbuf \<Rightarrow> jbuf" where
  "UpdateLatency latency b = resetTimer (b\<lparr>jb_latency := latency\<rparr>)"

definition jb_Size :: "jbuf \<Rightarrow> int" where
  "jb_Size b = jb_size b"

definition jb_Stats :: "jbuf \<Rightarrow> jb_stats_rec" where
  "jb_Stats b = statsLocked b"

definition jb_Flush :: "jbuf \<Rightarrow> jbuf option" where
  "jb_Flush b = flushLocked b"

text \<open>
  \<open>Close\<close> holds the lock only during \<open>Flush\<close>: other calls may come between its three steps.
  \<open>jb_Close\<close> is the call with nothing in between.
\<close>

definition timer_Stop :: "jbuf \<Rightarrow> jbuf" where
  "timer_Stop b = b\<lparr>jb_timer := None\<rparr>"

definition closed_Break :: "jbuf \<Rightarrow> jbuf" where
  "closed_Break b = b\<lparr>jb_closed := True\<rparr>"

definition jb_Close :: "jbuf \<Rightarrow> jbuf option" where
  "jb_Close b = do { b1 \<leftarrow> jb_Flush b; Some (closed_Break (timer_Stop b1)) }"

text \<open>
  The goroutine of \<open>NewBuffer\<close>.  In its \<open>select\<close> it receives from the timer's channel once the timer is
  due, or returns once the buffer is closed, whichever it picks when both are possible.  Woken, it takes
  the lock, pops and goes back to the \<open>select\<close>: \<open>loop_pop\<close>.  Other calls may come between the receive
  and the lock.  A step that is not possible changes nothing.
\<close>

definition loop_receive :: "ns \<Rightarrow> jbuf \<Rightarrow> jbuf" where
  "loop_receive now b =
     (case jb_timer b of None \<Rightarrow> b
      | Some t \<Rightarrow> (if jb_loop b = Waiting \<and> t \<le> now then b\<lparr>jb_timer := None, jb_loop := Woken\<rparr> else b))"

definition loop_pop :: "ns \<Rightarrow> jbuf \<Rightarrow> jbuf option" where
  "loop_pop now b =
     (if jb_loop b = Woken then do { b1 \<leftarrow> popReady now b; Some (b1\<lparr>jb_loop := Waiting\<rparr>) } else Some b)"

definition loop_return :: "jbuf \<Rightarrow> jbuf" where
  "loop_return b = (if jb_loop b = Waiting \<and> jb_closed b then b\<lparr>jb_loop := Returned\<rparr> else b)"

text \<open>One iteration with nothing in between.\<close>

definition timer_fired :: "ns \<Rightarrow> jbuf \<Rightarrow> jbuf option" where
  "timer_fired now b = loop_pop now (loop_receive now b)"

end
