(* ===== verification/Jitter_Invariant.thy ===== *)
theory Jitter_Invariant
  imports Jitter_Buffer
begin

text \<open>
  What each operation of the jitter buffer does to its state, and the invariant all of them keep: the
  size counter is the queue's length, queued packets are linked in sequence, and every sample handed
  to the handler is a whole one.
\<close>

section \<open>Frames of the handlers\<close>

lemma emit_simps [simp]:
  "jb_log (jb_emit e b) = jb_log b @ [e]" "jb_stats (jb_emit e b) = jb_stats b"
  "jb_queue (jb_emit e b) = jb_queue b" "jb_size (jb_emit e b) = jb_size b"
  "jb_initialized (jb_emit e b) = jb_initialized b" "jb_prevSN (jb_emit e b) = jb_prevSN b"
  "jb_depacketizer (jb_emit e b) = jb_depacketizer b" "jb_latency (jb_emit e b) = jb_latency b"
  "jb_ssrc (jb_emit e b) = jb_ssrc b" "jb_hasSSRC (jb_emit e b) = jb_hasSSRC b"
  "jb_detectRestarts (jb_emit e b) = jb_detectRestarts b" "jb_timer (jb_emit e b) = jb_timer b"
  "jb_lines (jb_emit e b) = jb_lines b" "jb_closed (jb_emit e b) = jb_closed b"
  "jb_loop (jb_emit e b) = jb_loop b"
  by (simp_all add: jb_emit_def)

text \<open>\<open>same_core b b'\<close>: the calls of handlers and counters apart, nothing changed.\<close>

definition same_core :: "jbuf \<Rightarrow> jbuf \<Rightarrow> bool" where
  "same_core b b' \<longleftrightarrow>
     jb_queue b' = jb_queue b \<and> jb_size b' = jb_size b \<and> jb_initialized b' = jb_initialized b \<and>
     jb_prevSN b' = jb_prevSN b \<and> jb_depacketizer b' = jb_depacketizer b \<and>
     jb_latency b' = jb_latency b \<and> jb_ssrc b' = jb_ssrc b \<and> jb_hasSSRC b' = jb_hasSSRC b \<and>
     jb_detectRestarts b' = jb_detectRestarts b \<and> jb_timer b' = jb_timer b \<and>
     jb_lines b' = jb_lines b \<and> jb_closed b' = jb_closed b \<and> jb_loop b' = jb_loop b"

text \<open>The events of a log that are samples.\<close>

fun samples_of :: "jb_event list \<Rightarrow> ext_packet list list" where
  "samples_of [] = []"
| "samples_of (OnPacket s # es) = s # samples_of es"
| "samples_of (_ # es) = samples_of es"

lemma samples_of_append [simp]: "samples_of (xs @ ys) = samples_of xs @ samples_of ys"
  by (induction xs rule: samples_of.induct) auto

abbreviation jb_samples :: "jbuf \<Rightarrow> ext_packet list list" where
  "jb_samples b \<equiv> samples_of (jb_log b)"

lemma notify_core [simp]:
  "same_core b (notifyStats b)" "same_core b (notifyLoss b)" "same_core b (upd_js f b)"
  "same_core b (reordered b)" "same_core b (duplicate pkt b)" "same_core b (count_stray b)"
  "same_core b (count_expired b)" "same_core b (count_missing h b)"
  by (auto simp: same_core_def notifyStats_def notifyLoss_def reordered_def duplicate_def
      count_stray_def count_expired_def count_missing_def)

lemma notify_samples [simp]:
  "jb_samples (notifyStats b) = jb_samples b" "jb_samples (notifyLoss b) = jb_samples b"
  "jb_samples (upd_js f b) = jb_samples b" "jb_samples (reordered b) = jb_samples b"
  "jb_samples (duplicate pkt b) = jb_samples b" "jb_samples (count_stray b) = jb_samples b"
  "jb_samples (count_expired b) = jb_samples b" "jb_samples (count_missing h b) = jb_samples b"
  by (auto simp: notifyStats_def notifyLoss_def reordered_def duplicate_def
      count_stray_def count_expired_def count_missing_def)

lemma notify_stats [simp]:
  "jb_stats (notifyStats b) = jb_stats b" "jb_stats (notifyLoss b) = jb_stats b"
  "jb_stats (reordered b) =
     (jb_stats b)\<lparr>js_PacketsReordered := js_PacketsReordered (jb_stats b) + 1\<rparr>"
  "jb_stats (duplicate pkt b) = (if pk_Padding pkt then jb_stats b
     else (jb_stats b)\<lparr>js_PacketsDuplicate := js_PacketsDuplicate (jb_stats b) + 1\<rparr>)"
  "jb_stats (count_expired b) =
     (jb_stats b)\<lparr>js_PacketsDropped := js_PacketsDropped (jb_stats b) + 1\<rparr>"
  "jb_stats (count_stray b) = (jb_stats b)\<lparr>js_PacketsStray := js_PacketsStray (jb_stats b) + 1,
     js_PacketsDropped := js_PacketsDropped (jb_stats b) + 1\<rparr>"
  "jb_stats (count_missing h b) = (jb_stats b)\<lparr>js_PacketsLost :=
     js_PacketsLost (jb_stats b) + missingBetween (nd_SN h) (jb_prevSN b)\<rparr>"
  by (simp_all add: notifyStats_def notifyLoss_def reordered_def duplicate_def
      count_stray_def count_expired_def count_missing_def)

lemma same_coreD:
  assumes "same_core b b'"
  shows "jb_queue b' = jb_queue b" "jb_size b' = jb_size b" "jb_initialized b' = jb_initialized b"
    "jb_prevSN b' = jb_prevSN b" "jb_depacketizer b' = jb_depacketizer b"
    "jb_latency b' = jb_latency b" "jb_ssrc b' = jb_ssrc b" "jb_hasSSRC b' = jb_hasSSRC b"
    "jb_detectRestarts b' = jb_detectRestarts b" "jb_timer b' = jb_timer b" "jb_lines b' = jb_lines b"
    "jb_closed b' = jb_closed b" "jb_loop b' = jb_loop b"
  using assms by (auto simp: same_core_def)

lemmas notify_frame [simp] =
  notify_core(1,2,4,5,6,7) [THEN same_coreD(1)] notify_core(1,2,4,5,6,7) [THEN same_coreD(2)]
  notify_core(1,2,4,5,6,7) [THEN same_coreD(3)] notify_core(1,2,4,5,6,7) [THEN same_coreD(4)]
  notify_core(1,2,4,5,6,7) [THEN same_coreD(5)] notify_core(1,2,4,5,6,7) [THEN same_coreD(6)]
  notify_core(1,2,4,5,6,7) [THEN same_coreD(12)] notify_core(1,2,4,5,6,7) [THEN same_coreD(13)]
  notify_core(8) [THEN same_coreD(2)]
  notify_core(8) [THEN same_coreD(3)] notify_core(8) [THEN same_coreD(4)]
  notify_core(8) [THEN same_coreD(5)] notify_core(8) [THEN same_coreD(6)]
  notify_core(8) [THEN same_coreD(12)] notify_core(8) [THEN same_coreD(13)]

section \<open>What popping does\<close>

definition played :: "jnode list \<Rightarrow> ext_packet list" where
  "played ns = map nd_ext (filter (\<lambda>n. \<not> nd_Padding n) ns)"

lemma played_simps [simp]:
  "played [] = []"
  "played (n # ns) = (if nd_Padding n then played ns else nd_ext n # played ns)"
  by (simp_all add: played_def)

lemma popSample_loop_eq:
  assumes "jb_queue b = xs @ e # ys" "nd_end e" "\<forall>n \<in> set xs. \<not> nd_end n"
  shows "popSample_loop sample b = Some (sample @ played (xs @ [e]),
    b\<lparr>jb_queue := ys, jb_prevSN := nd_SN e, jb_size := jb_size b - int (Suc (length xs)),
      jb_stats := (jb_stats b)\<lparr>js_PacketsPopped :=
        js_PacketsPopped (jb_stats b) + of_nat (Suc (length xs))\<rparr>\<rparr>)"
  using assms
proof (induction xs arbitrary: b sample)
  case Nil
  then show ?case
    by (subst popSample_loop.simps) (simp add: popHead_def free_def add.commute)
next
  case (Cons x xs)
  let ?b = "free (upd_js (\<lambda>s. s\<lparr>js_PacketsPopped := js_PacketsPopped s + 1\<rparr>)
    (b\<lparr>jb_prevSN := nd_SN x, jb_queue := xs @ e # ys\<rparr>))"
  have "popSample_loop sample b =
      popSample_loop (if nd_Padding x then sample else sample @ [nd_ext x]) ?b"
    using Cons.prems by (subst popSample_loop.simps) (simp add: popHead_def Let_def)
  also have "\<dots> = Some ((if nd_Padding x then sample else sample @ [nd_ext x]) @ played (xs @ [e]),
    ?b\<lparr>jb_queue := ys, jb_prevSN := nd_SN e, jb_size := jb_size ?b - int (Suc (length xs)),
      jb_stats := (jb_stats ?b)\<lparr>js_PacketsPopped :=
        js_PacketsPopped (jb_stats ?b) + of_nat (Suc (length xs))\<rparr>\<rparr>)"
    using Cons.prems by (intro Cons.IH) (simp_all add: free_def)
  finally show ?case by (simp add: free_def algebra_simps)
qed

text \<open>The state after the sample \<open>ns\<close> was delivered and \<open>ys\<close> is left.\<close>

definition after_deliver :: "jnode list \<Rightarrow> jnode list \<Rightarrow> jbuf \<Rightarrow> jbuf" where
  "after_deliver ns ys b =
     b\<lparr>jb_queue := ys, jb_prevSN := nd_SN (last ns), jb_size := jb_size b - int (length ns),
       jb_initialized := True,
       jb_stats := (jb_stats b)\<lparr>js_PacketsPopped := js_PacketsPopped (jb_stats b) + of_nat (length ns),
         js_SamplesPopped := js_SamplesPopped (jb_stats b) + 1\<rparr>,
       jb_log := jb_log b @ (if played ns = [] then [] else [OnPacket (played ns)])\<rparr>"

lemma deliver_eq:
  assumes "isComplete (jb_queue b)"
  obtains ns ys where "jb_queue b = ns @ ys" "sample_nodes ns" "deliver b = Some (after_deliver ns ys b)"
proof -
  from isComplete_split [OF assms] obtain xs e ys where
    q: "jb_queue b = xs @ e # ys" "nd_end e" "\<forall>n \<in> set xs. \<not> nd_end n" "sample_nodes (xs @ [e])" .
  have "deliver b = Some (after_deliver (xs @ [e]) ys b)"
    using popSample_loop_eq [OF q(1-3), of "[]"]
    by (simp add: deliver_def popSample_def after_deliver_def jb_emit_def algebra_simps)
  with q that [of "xs @ [e]" ys] show thesis by simp
qed

lemma after_deliver_simps [simp]:
  "jb_queue (after_deliver ns ys b) = ys" "jb_prevSN (after_deliver ns ys b) = nd_SN (last ns)"
  "jb_size (after_deliver ns ys b) = jb_size b - int (length ns)"
  "jb_initialized (after_deliver ns ys b)"
  "jb_depacketizer (after_deliver ns ys b) = jb_depacketizer b"
  "jb_latency (after_deliver ns ys b) = jb_latency b"
  "jb_closed (after_deliver ns ys b) = jb_closed b" "jb_loop (after_deliver ns ys b) = jb_loop b"
  "jb_samples (after_deliver ns ys b) = jb_samples b @ (if played ns = [] then [] else [played ns])"
  "jb_stats (after_deliver ns ys b) =
     (jb_stats b)\<lparr>js_PacketsPopped := js_PacketsPopped (jb_stats b) + of_nat (length ns),
       js_SamplesPopped := js_SamplesPopped (jb_stats b) + 1\<rparr>"
  by (simp_all add: after_deliver_def)

text \<open>One packet dropped from the front.\<close>

definition after_drop :: "jnode \<Rightarrow> jnode list \<Rightarrow> jbuf \<Rightarrow> jbuf" where
  "after_drop h q b =
     (let b1 = (if jb_initialized b \<and> \<not> nd_discont h then count_missing h b else b)
      in upd_js (\<lambda>s. s\<lparr>js_PacketsDropped := js_PacketsDropped s + 1\<rparr>)
           (free (b1\<lparr>jb_prevSN := nd_SN h, jb_queue := q\<rparr>)))"

lemma after_drop_simps [simp]:
  "jb_queue (after_drop h q b) = q" "jb_prevSN (after_drop h q b) = nd_SN h"
  "jb_size (after_drop h q b) = jb_size b - 1"
  "jb_initialized (after_drop h q b) = jb_initialized b"
  "jb_depacketizer (after_drop h q b) = jb_depacketizer b"
  "jb_latency (after_drop h q b) = jb_latency b"
  "jb_closed (after_drop h q b) = jb_closed b" "jb_loop (after_drop h q b) = jb_loop b"
  "jb_log (after_drop h q b) = jb_log b"
  "js_PacketsPushed (jb_stats (after_drop h q b)) = js_PacketsPushed (jb_stats b)"
  "js_PaddingPushed (jb_stats (after_drop h q b)) = js_PaddingPushed (jb_stats b)"
  "js_PacketsPopped (jb_stats (after_drop h q b)) = js_PacketsPopped (jb_stats b)"
  "js_PacketsDuplicate (jb_stats (after_drop h q b)) = js_PacketsDuplicate (jb_stats b)"
  "js_PacketsDropped (jb_stats (after_drop h q b)) = js_PacketsDropped (jb_stats b) + 1"
  by (simp_all add: after_drop_def free_def Let_def count_missing_def)

lemma dropIncomplete_unfold:
  "dropIncomplete expiry force b =
     (case jb_queue b of [] \<Rightarrow> (False, b)
      | h # q \<Rightarrow>
          if \<not> isComplete (h # q) \<and> (force \<or> ep_ReceivedAt (nd_ext h) < expiry)
          then (True, snd (dropIncomplete expiry force (after_drop h q b)))
          else (False, b))"
proof (cases "jb_queue b")
  case (Cons h q)
  have e: "after_drop h q b = upd_js (\<lambda>s. s\<lparr>js_PacketsDropped := js_PacketsDropped s + 1\<rparr>)
      (free ((if jb_initialized b \<and> \<not> nd_discont h
                      then upd_js (\<lambda>s. s\<lparr>js_PacketsLost :=
                               js_PacketsLost s + missingBetween (nd_SN h) (jb_prevSN b)\<rparr>) b
                      else b)\<lparr>jb_prevSN := nd_SN h, jb_queue := q\<rparr>))"
    by (simp add: after_drop_def count_missing_def Let_def)
  show ?thesis
    by (subst dropIncomplete.simps) (simp only: Cons list.case Let_def e)
qed (subst dropIncomplete.simps, simp)

lemma drop_induct [case_names 1]:
  assumes "\<And>b. (\<And>h q. jb_queue b = h # q \<Longrightarrow> P (after_drop h q b)) \<Longrightarrow> P b"
  shows "P b"
proof (induction "length (jb_queue b)" arbitrary: b)
  case 0
  show ?case by (rule assms) (use 0 in simp)
next
  case (Suc n)
  show ?case by (rule assms) (use Suc in simp)
qed

section \<open>Invariants of the popping operations\<close>

text \<open>What an invariant may speak of: everything but the timer, lines and the other handlers' calls.\<close>

definition jb_view :: "jbuf \<Rightarrow> (jnode list \<times> int \<times> bool \<times> u16) \<times> depacketizer \<times> ext_packet list list \<times>
    (u64 \<times> u64 \<times> u64 \<times> u64 \<times> u64) \<times> bool \<times> goroutine" where
  "jb_view b = ((jb_queue b, jb_size b, jb_initialized b, jb_prevSN b), jb_depacketizer b, jb_samples b,
     (js_PacketsPushed (jb_stats b), js_PacketsPopped (jb_stats b), js_PacketsDropped (jb_stats b),
      js_PacketsDuplicate (jb_stats b), js_PacketsLost (jb_stats b)), jb_closed b, jb_loop b)"

text \<open>
  The contract of the three ways packets leave a buffer: whatever survives them survives \<open>popReady\<close>,
  \<open>flushLocked\<close> and the operations built from them, none of which panics.
\<close>

locale jb_popping =
  fixes I :: "jbuf \<Rightarrow> bool"
  assumes view: "I b \<Longrightarrow> jb_view b' = jb_view b \<Longrightarrow> I b'"
    and sample_normal: "I b \<Longrightarrow> jb_queue b = ns @ ys \<Longrightarrow> sample_nodes ns \<Longrightarrow> head_normal (hd ns) b \<Longrightarrow>
      I (after_deliver ns ys b)"
    and sample_late: "I b \<Longrightarrow> jb_queue b = ns @ ys \<Longrightarrow> sample_nodes ns \<Longrightarrow> \<not> head_normal (hd ns) b \<Longrightarrow>
      I (after_deliver ns ys (count_missing (hd ns) b))"
    and drop: "I b \<Longrightarrow> jb_queue b = h # q \<Longrightarrow> \<not> isComplete (h # q) \<Longrightarrow> I (after_drop h q b)"
begin

lemma keeps_view:
  "I b \<Longrightarrow> I (notifyStats b)" "I b \<Longrightarrow> I (notifyLoss b)" "I b \<Longrightarrow> I (resetTimer b)"
  "I b \<Longrightarrow> I (reordered b)" "I b \<Longrightarrow> I (b\<lparr>jb_timer := t\<rparr>)" "I b \<Longrightarrow> I (b\<lparr>jb_lines := l\<rparr>)"
  "I b \<Longrightarrow> I (b\<lparr>jb_ssrc := s, jb_lines := l\<rparr>)" "I b \<Longrightarrow> I (b\<lparr>jb_ssrc := s, jb_hasSSRC := h\<rparr>)"
  "I b \<Longrightarrow> I (b\<lparr>jb_latency := n\<rparr>)"
  "I b \<Longrightarrow> I (upd_js (\<lambda>s. s\<lparr>js_SSRCSwitches := js_SSRCSwitches s + 1\<rparr>) b)"
  "I b \<Longrightarrow> I (upd_js (\<lambda>s. s\<lparr>js_SequenceRestarts := js_SequenceRestarts s + 1\<rparr>) b)"
  "I b \<Longrightarrow> I (upd_js (\<lambda>s. s\<lparr>js_PaddingPushed := js_PaddingPushed s + 1\<rparr>) b)"
  by (erule view, simp add: jb_view_def resetTimer_def split: list.split)+

lemma dropIncomplete_keeps: "I b \<Longrightarrow> I (snd (dropIncomplete expiry force b))"
proof (induction b rule: drop_induct)
  case (1 b)
  then show ?case
    by (subst dropIncomplete_unfold) (auto simp: drop split: list.split)
qed

text \<open>The head of a complete queue is delivered, after its gap was counted if there is one.\<close>

lemma deliver_keeps:
  assumes "I b" "jb_queue b = h # q" "isComplete (h # q)"
  shows "head_normal h b \<Longrightarrow> \<exists>b'. deliver b = Some b' \<and> I b'"
    and "\<not> head_normal h b \<Longrightarrow> \<exists>b'. deliver (count_missing h b) = Some b' \<and> I b'"
proof -
  have "isComplete (jb_queue b)" using assms(2,3) by simp
  then obtain ns ys where d: "jb_queue b = ns @ ys" "sample_nodes ns" "deliver b = Some (after_deliver ns ys b)"
    by (rule deliver_eq)
  then have "h = hd ns" using assms(2) by (cases ns) (auto simp: sample_nodes_def)
  with d sample_normal [OF assms(1) d(1,2)] show "head_normal h b \<Longrightarrow> \<exists>b'. deliver b = Some b' \<and> I b'"
    by auto
next
  have "isComplete (jb_queue (count_missing h b))" using assms(2,3) by simp
  then obtain ns ys where d: "jb_queue b = ns @ ys" "sample_nodes ns"
    "deliver (count_missing h b) = Some (after_deliver ns ys (count_missing h b))"
    by (rule deliver_eq) auto
  then have "h = hd ns" using assms(2) by (cases ns) (auto simp: sample_nodes_def)
  with d sample_late [OF assms(1) d(1,2)]
  show "\<not> head_normal h b \<Longrightarrow> \<exists>b'. deliver (count_missing h b) = Some b' \<and> I b'" by auto
qed

lemma popReady_loop_keeps: "I b \<Longrightarrow> \<exists>loss' b'. popReady_loop expiry loss b = Some (loss', b') \<and> I b'"
proof (induction expiry loss b rule: popReady_loop.induct)
  case (1 expiry loss b)
  show ?case
  proof (cases "jb_queue b")
    case Nil
    with "1.prems" show ?thesis by (subst popReady_loop.simps) simp
  next
    case (Cons h q)
    show ?thesis
    proof (cases "isComplete (h # q)")
      case False
      with "1.prems" Cons show ?thesis by (subst popReady_loop.simps) simp
    next
      case c: True
      note dk = deliver_keeps [OF "1.prems" Cons c]
      consider "head_normal h b" | "\<not> head_normal h b" "\<not> expiry < ep_ReceivedAt (nd_ext h)"
        | "\<not> head_normal h b" "expiry < ep_ReceivedAt (nd_ext h)" by blast
      then show ?thesis
      proof cases
        case 1
        with dk(1) obtain b' where b': "deliver b = Some b'" "I b'" by blast
        show ?thesis using "1.IH"(1) [OF Cons _ 1 b'(1,2)] c 1 Cons b'(1)
          by (subst popReady_loop.simps) simp
      next
        case 2
        with dk(2) obtain b' where b': "deliver (count_missing h b) = Some b'" "I b'" by blast
        show ?thesis using "1.IH"(2) [OF Cons _ 2 b'(1,2)] c 2 Cons b'(1)
          by (subst popReady_loop.simps) simp
      next
        case 3
        with "1.prems" Cons show ?thesis by (subst popReady_loop.simps) simp
      qed
    qed
  qed
qed

lemma popReady_keeps: "I b \<Longrightarrow> \<exists>b'. popReady now b = Some b' \<and> I b'"
proof -
  assume "I b"
  then have "I (dropIncompleteExpired (now - jb_latency b) b)"
    using dropIncomplete_keeps [of b] by (auto simp: dropIncompleteExpired_def split_beta keeps_view)
  then obtain loss b1 where
    "popReady_loop (now - jb_latency b) False (dropIncompleteExpired (now - jb_latency b) b) = Some (loss, b1)"
    "I b1" using popReady_loop_keeps by blast
  then show ?thesis by (auto simp: popReady_def keeps_view)
qed

lemma flush_loop_keeps: "I b \<Longrightarrow> \<exists>r b'. flush_loop loss dropped b = Some (r, b') \<and> I b'"
proof (induction loss dropped b rule: flush_loop.induct)
  case (1 loss dropped b)
  show ?case
  proof (cases "jb_queue b")
    case Nil
    with "1.prems" show ?thesis by (subst flush_loop.simps) simp
  next
    case (Cons h q)
    show ?thesis
    proof (cases "isComplete (h # q)")
      case False
      with "1.prems" Cons show ?thesis by (subst flush_loop.simps) simp
    next
      case c: True
      from deliver_keeps [OF "1.prems" Cons c] obtain b' where
        b': "deliver (if head_normal h b then b else count_missing h b) = Some b'" "I b'"
        by (cases "head_normal h b") auto
      then have "I (snd (dropIncomplete 0 True b'))" by (simp add: dropIncomplete_keeps)
      with "1.IH" [OF Cons _ refl b'(1)] c Cons b'(1) show ?thesis
        by (subst flush_loop.simps) (simp add: Let_def)
    qed
  qed
qed

lemma flushLocked_keeps: "I b \<Longrightarrow> \<exists>b'. flushLocked b = Some b' \<and> I b'"
proof -
  assume "I b"
  then have "I (snd (dropIncomplete 0 True b))" by (rule dropIncomplete_keeps)
  from flush_loop_keeps [OF this, of False "fst (dropIncomplete 0 True b)"] show ?thesis
    by (auto simp: flushLocked_def split_beta keeps_view)
qed

end

text \<open>The invariants that also survive a restart of the stream.\<close>

locale jb_invariant = jb_popping +
  assumes forget: "I b \<Longrightarrow> jb_queue b = [] \<Longrightarrow> I (b\<lparr>jb_initialized := False, jb_prevSN := 0\<rparr>)"

text \<open>The invariants that also survive \<open>Close\<close> and the steps of the goroutine.\<close>

locale jb_calls = jb_popping +
  assumes closes: "I b \<Longrightarrow> I (b\<lparr>jb_closed := c\<rparr>)"
    and loops: "I b \<Longrightarrow> I (b\<lparr>jb_loop := g\<rparr>)"

locale jb_stable = jb_invariant + jb_calls

end
