(* ===== verification/Jitter_Queue.thy ===== *)
theory Jitter_Queue
  imports Jitter_Invariant
begin

text \<open>
  Insertion into the queue: a pushed packet that is not a duplicate always finds exactly one place, the
  rest of the queue stays as it is, and packets that open a partition stay linked to what precedes
  them.
\<close>

section \<open>Links\<close>

text \<open>
  Every partition head that is not marked as a discontinuity comes after its predecessor, which for
  the queue's head is the last packet popped, by less than 3000.
\<close>

fun linked :: "u16 option \<Rightarrow> jnode list \<Rightarrow> bool" where
  "linked prev [] = True"
| "linked prev (n # ns) =
     ((nd_start n \<and> \<not> nd_discont n \<longrightarrow>
        (case prev of None \<Rightarrow> True | Some s \<Rightarrow> follows s (nd_SN n))) \<and>
      linked (Some (nd_SN n)) ns)"

abbreviation link_ok :: "u16 option \<Rightarrow> jnode \<Rightarrow> bool" where
  "link_ok prev n \<equiv> nd_start n \<and> \<not> nd_discont n \<longrightarrow>
     (case prev of None \<Rightarrow> True | Some s \<Rightarrow> follows s (nd_SN n))"

lemma linked_append:
  "linked prev (xs @ ys) \<longleftrightarrow>
     linked prev xs \<and> linked (if xs = [] then prev else Some (nd_SN (last xs))) ys"
  by (induction xs arbitrary: prev) auto

lemma linked_None: "linked prev ns \<Longrightarrow> linked None ns"
  by (cases ns) auto

lemma linked_insert:
  assumes "linked prev (pre @ suf)"
    and "link_ok (if pre = [] then prev else Some (nd_SN (last pre))) p"
    and "suf \<noteq> [] \<Longrightarrow> link_ok (Some (nd_SN p)) (hd suf)"
  shows "linked prev (pre @ p # suf)"
  using assms by (cases suf) (auto simp: linked_append)

section \<open>The searches\<close>

lemma search_tail_spec:
  assumes "cs \<noteq> []" "suf \<noteq> []" "follows (nd_SN p) (nd_SN (hd suf))"
    and "\<not> (before (nd_SN p) (nd_SN (last cs)) \<and> withinRange (nd_SN p) (nd_SN (last cs)))"
  shows "search_tail p cs suf = Duplicate \<and> nd_SN p \<in> nd_SN ` set cs \<or>
    (\<exists>pre suf' dc. search_tail p cs suf = Inserted (pre @ p\<lparr>nd_discont := dc\<rparr> # suf') \<and>
       rev cs @ suf = pre @ suf' \<and> pre \<noteq> [] \<and> suf' \<noteq> [] \<and> follows (nd_SN p) (nd_SN (hd suf')) \<and>
       (dc \<longleftrightarrow> nd_start p \<and> \<not> withinRange (nd_SN p) (nd_SN (last pre))) \<and>
       (withinRange (nd_SN p) (nd_SN (last pre)) \<longrightarrow> follows (nd_SN (last pre)) (nd_SN p)))"
  using assms
proof (induction cs arbitrary: suf)
  case (Cons c cs)
  let ?w = "withinRange (nd_SN p) (nd_SN c)"
  consider "nd_SN p = nd_SN c" | "nd_SN p \<noteq> nd_SN c" "\<not> before (nd_SN p) (nd_SN c) \<or> \<not> ?w"
    | "nd_SN p \<noteq> nd_SN c" "before (nd_SN p) (nd_SN c)" ?w by blast
  then show ?case
  proof cases
    case 2
    then have "search_tail p (c # cs) suf =
        Inserted ((rev cs @ [c]) @ p\<lparr>nd_discont := \<not> ?w \<and> nd_start p\<rparr> # suf)"
      by (auto simp: Let_def)
    moreover have "?w \<Longrightarrow> follows (nd_SN c) (nd_SN p)"
      using 2 follows_before(4) [of "nd_SN c" "nd_SN p"] by (auto simp: withinRange_def)
    ultimately show ?thesis using Cons.prems(2,3)
      by (intro disjI2 exI [of _ "rev cs @ [c]"] exI [of _ suf] exI [of _ "\<not> ?w \<and> nd_start p"]) auto
  next
    case 3
    then have f: "follows (nd_SN p) (nd_SN c)" using follows_before(1) by blast
    have "cs \<noteq> []" using Cons.prems(4) 3 by auto
    with Cons.IH [of "c # suf"] f Cons.prems(4) 3 show ?thesis by auto
  qed simp
qed simp

lemma search_head_spec:
  assumes "pre \<noteq> []" "cs \<noteq> []" "follows (nd_SN (hd pre)) (nd_SN p)"
    and "\<not> withinRange (nd_SN p) (nd_SN (last cs))"
  shows "search_head p pre cs = Duplicate \<and> nd_SN p \<in> nd_SN ` set cs \<or>
    (\<exists>pre' suf. search_head p pre cs = Inserted (pre' @ p # suf) \<and> rev pre @ cs = pre' @ suf \<and>
       pre' \<noteq> [] \<and> suf \<noteq> [] \<and> follows (nd_SN (last pre')) (nd_SN p) \<and>
       (follows (nd_SN p) (nd_SN (hd suf)) \<or> \<not> withinRange (nd_SN p) (nd_SN (hd suf))))"
  using assms
proof (induction cs arbitrary: pre)
  case (Cons c cs)
  let ?w = "withinRange (nd_SN p) (nd_SN c)"
  consider "nd_SN p = nd_SN c" | "nd_SN p \<noteq> nd_SN c" "before (nd_SN p) (nd_SN c) \<or> \<not> ?w"
    | "nd_SN p \<noteq> nd_SN c" "\<not> before (nd_SN p) (nd_SN c)" ?w by blast
  then show ?case
  proof cases
    case 2
    then have "search_head p pre (c # cs) = Inserted (rev pre @ p # c # cs)" by (auto simp: Let_def)
    moreover have "follows (nd_SN p) (nd_SN c) \<or> \<not> ?w" using 2 follows_before(1) by blast
    ultimately show ?thesis using Cons.prems(1,3)
      by (intro disjI2 exI [of _ "rev pre"] exI [of _ "c # cs"]) (simp add: last_rev)
  next
    case 3
    then have "follows (nd_SN c) (nd_SN p)"
      using follows_before(4) [of "nd_SN c" "nd_SN p"] by (auto simp: withinRange_def)
    moreover have "cs \<noteq> []" using Cons.prems(4) 3 by auto
    ultimately show ?thesis using Cons.IH [of "c # pre"] 3 Cons.prems(4) by auto
  qed simp
qed simp

section \<open>Enqueueing\<close>

text \<open>
  What \<open>enqueue\<close> does: the packet is a duplicate of a queued one, or it is inserted between \<open>pre\<close>
  and \<open>suf\<close>.
\<close>

definition prev_of :: "jbuf \<Rightarrow> u16 option" where
  "prev_of b = (if jb_initialized b then Some (jb_prevSN b) else None)"

definition unchanged :: "jbuf \<Rightarrow> jbuf \<Rightarrow> bool" where
  "unchanged b b' \<longleftrightarrow>
     jb_initialized b' = jb_initialized b \<and> jb_prevSN b' = jb_prevSN b \<and>
     jb_depacketizer b' = jb_depacketizer b \<and> jb_latency b' = jb_latency b \<and>
     jb_samples b' = jb_samples b \<and>
     js_PacketsPushed (jb_stats b') = js_PacketsPushed (jb_stats b) \<and>
     js_PacketsPopped (jb_stats b') = js_PacketsPopped (jb_stats b) \<and>
     js_PacketsDropped (jb_stats b') = js_PacketsDropped (jb_stats b) \<and>
     js_PacketsLost (jb_stats b') = js_PacketsLost (jb_stats b)"

lemma enqueue_spec:
  fixes at :: ns
  assumes "linked (prev_of b) (jb_queue b)"
    and "\<not> (jb_initialized b \<and> before (pk_SequenceNumber pkt) (jb_prevSN b))"
    and "jb_queue b \<noteq> [] \<longrightarrow> pk_SequenceNumber pkt \<noteq> nd_SN (hd (jb_queue b)) \<and>
      pk_SequenceNumber pkt \<noteq> nd_SN (last (jb_queue b))"
  defines "p \<equiv> newPacket (jb_depacketizer b) pkt at"
  defines "b' \<equiv> enqueue pkt at b"
  shows "unchanged b b' \<and>
    (jb_queue b' = jb_queue b \<and> jb_size b' = jb_size b \<and> nd_SN p \<in> nd_SN ` set (jb_queue b) \<and>
       js_PacketsDuplicate (jb_stats b') = js_PacketsDuplicate (jb_stats b) + (if pk_Padding pkt then 0 else 1) \<or>
     (\<exists>pre suf dc. jb_queue b = pre @ suf \<and> jb_queue b' = pre @ p\<lparr>nd_discont := dc\<rparr> # suf \<and>
        jb_size b' = jb_size b + 1 \<and> linked (prev_of b) (jb_queue b') \<and>
        js_PacketsDuplicate (jb_stats b') = js_PacketsDuplicate (jb_stats b)))"
proof -
  let ?q = "jb_queue b" and ?sn = "nd_SN p"
  have sn: "pk_SequenceNumber pkt = ?sn" by (simp add: p_def newPacket_def)
  note defs = b'_def enqueue_def Let_def p_def [symmetric] sn unchanged_def
  have prev: "withinRange ?sn (jb_prevSN b) \<Longrightarrow> jb_initialized b \<Longrightarrow> follows (jb_prevSN b) ?sn"
    using assms(2) follows_before(4) [of "jb_prevSN b" ?sn] unfolding sn
    by (cases "jb_prevSN b = ?sn") (auto simp: before_ahead withinRange_def)
  define dc where "dc = ((\<not> jb_initialized b \<or> \<not> withinRange ?sn (jb_prevSN b)) \<and> nd_start p)"
  then have lp: "link_ok (prev_of b) (p\<lparr>nd_discont := dc\<rparr>)"
    using prev by (auto simp: prev_of_def)
  show ?thesis
  proof (cases "?q = []")
    case True
    then have b': "b' = b\<lparr>jb_size := jb_size b + 1, jb_queue := [p\<lparr>nd_discont := dc\<rparr>]\<rparr>"
      by (simp add: defs dc_def)
    have "linked (prev_of b) ([] @ p\<lparr>nd_discont := dc\<rparr> # [])"
      using lp by (intro linked_insert) auto
    then show ?thesis unfolding b' using True
      by (intro conjI disjI2 exI [of _ "[]"] exI [of _ dc]) (simp_all add: unchanged_def)
  next
    case ne: False
    have neq: "?sn \<noteq> nd_SN (hd ?q)" "?sn \<noteq> nd_SN (last ?q)" using assms(3) ne sn by auto
    consider (prepend) "before ?sn (nd_SN (hd ?q))" "withinRange ?sn (nd_SN (hd ?q))"
      | (append) "\<not> (before ?sn (nd_SN (hd ?q)) \<and> withinRange ?sn (nd_SN (hd ?q)))"
          "\<not> before ?sn (nd_SN (last ?q))" "withinRange ?sn (nd_SN (last ?q))"
      | (tail) "\<not> (before ?sn (nd_SN (hd ?q)) \<and> withinRange ?sn (nd_SN (hd ?q)))"
          "before ?sn (nd_SN (last ?q))" "withinRange ?sn (nd_SN (last ?q))"
      | (head) "\<not> (before ?sn (nd_SN (hd ?q)) \<and> withinRange ?sn (nd_SN (hd ?q)))"
          "\<not> withinRange ?sn (nd_SN (last ?q))" "withinRange ?sn (nd_SN (hd ?q))"
      | (discont) "\<not> withinRange ?sn (nd_SN (hd ?q))" "\<not> withinRange ?sn (nd_SN (last ?q))"
      by blast
    then show ?thesis
    proof cases
      case prepend
      have b': "b' = (reordered (b\<lparr>jb_size := jb_size b + 1\<rparr>))\<lparr>jb_queue := p\<lparr>nd_discont := dc\<rparr> # ?q\<rparr>"
        using prepend ne by (simp add: defs dc_def)
      have "follows ?sn (nd_SN (hd ?q))" using prepend neq follows_before(1) by blast
      then have "linked (prev_of b) ([] @ p\<lparr>nd_discont := dc\<rparr> # ?q)"
        using assms(1) lp by (intro linked_insert) auto
      then show ?thesis unfolding b'
        by (intro conjI disjI2 exI [of _ "[]"] exI [of _ ?q] exI [of _ dc]) (simp_all add: unchanged_def)
    next
      case append
      have "follows (nd_SN (last ?q)) ?sn"
        using append neq follows_before(4) [of "nd_SN (last ?q)" ?sn] by (auto simp: withinRange_def)
      then have "linked (prev_of b) (?q @ p # [])"
        using assms(1) ne by (intro linked_insert) auto
      moreover have "p\<lparr>nd_discont := False\<rparr> = p" by (simp add: p_def newPacket_def)
      ultimately show ?thesis using append ne
        by (intro conjI disjI2 exI [of _ ?q] exI [of _ "[]"] exI [of _ False]) (auto simp: defs)
    next
      case tail
      let ?r = "search_tail p (rev (butlast ?q)) [last ?q]"
      have b': "b' = search_result ?r pkt (b\<lparr>jb_size := jb_size b + 1\<rparr>)"
        using tail ne by (auto simp: defs)
      have f: "follows ?sn (nd_SN (last ?q))" using tail neq follows_before(1) by blast
      have "length ?q \<noteq> 1" using tail neq by (cases ?q) auto
      then have bl: "butlast ?q \<noteq> []" "hd (butlast ?q) = hd ?q" using ne by (cases ?q, auto)+
      have c: "rev (butlast ?q) \<noteq> []" "[last ?q] \<noteq> []" "follows ?sn (nd_SN (hd [last ?q]))"
        "\<not> (before ?sn (nd_SN (last (rev (butlast ?q)))) \<and> withinRange ?sn (nd_SN (last (rev (butlast ?q)))))"
        using bl f tail(1) by (simp_all add: last_rev)
      from search_tail_spec [OF c] show ?thesis
      proof (elim disjE conjE exE)
        assume "?r = Duplicate" "?sn \<in> nd_SN ` set (rev (butlast ?q))"
        then show ?thesis unfolding b'
          by (auto simp: search_result_def free_def unchanged_def dest: in_set_butlastD)
      next
        fix pre suf dc
        assume i: "?r = Inserted (pre @ p\<lparr>nd_discont := dc\<rparr> # suf)"
          "rev (rev (butlast ?q)) @ [last ?q] = pre @ suf"
          "pre \<noteq> []" "suf \<noteq> []" "follows ?sn (nd_SN (hd suf))"
          "dc \<longleftrightarrow> nd_start p \<and> \<not> withinRange ?sn (nd_SN (last pre))"
          "withinRange ?sn (nd_SN (last pre)) \<longrightarrow> follows (nd_SN (last pre)) ?sn"
        have q: "?q = pre @ suf" using i(2) ne by simp
        have "linked (prev_of b) (pre @ p\<lparr>nd_discont := dc\<rparr> # suf)"
          using assms(1) i(3-7) unfolding q by (intro linked_insert) auto
        with i(1) q show ?thesis unfolding b'
          by (intro conjI disjI2 exI [of _ pre] exI [of _ suf] exI [of _ dc])
            (simp_all add: search_result_def unchanged_def)
      qed
    next
      case head
      let ?r = "search_head p [hd ?q] (tl ?q)"
      have b': "b' = search_result ?r pkt (b\<lparr>jb_size := jb_size b + 1\<rparr>)"
        using head ne by (auto simp: defs)
      have f: "follows (nd_SN (hd ?q)) ?sn"
        using head neq follows_before(4) [of "nd_SN (hd ?q)" ?sn] by (auto simp: withinRange_def)
      have tl: "tl ?q \<noteq> []" using head ne by (cases ?q) auto
      then have "last (tl ?q) = last ?q" by (cases ?q) auto
      then have c: "[hd ?q] \<noteq> []" "tl ?q \<noteq> []" "follows (nd_SN (hd [hd ?q])) ?sn"
        "\<not> withinRange ?sn (nd_SN (last (tl ?q)))"
        using tl f head(2) by simp_all
      from search_head_spec [OF c] show ?thesis
      proof (rule disjE, elim conjE)
        assume "?r = Duplicate" "?sn \<in> nd_SN ` set (tl ?q)"
        then show ?thesis unfolding b' using ne
          by (auto simp: search_result_def free_def unchanged_def dest: list.set_sel(2))
      next
        assume "\<exists>pre suf. ?r = Inserted (pre @ p # suf) \<and> rev [hd ?q] @ tl ?q = pre @ suf \<and>
          pre \<noteq> [] \<and> suf \<noteq> [] \<and> follows (nd_SN (last pre)) ?sn \<and>
          (follows ?sn (nd_SN (hd suf)) \<or> \<not> withinRange ?sn (nd_SN (hd suf)))"
        then obtain pre suf where i: "?r = Inserted (pre @ p # suf)" "rev [hd ?q] @ tl ?q = pre @ suf"
          "pre \<noteq> []" "suf \<noteq> []" "follows (nd_SN (last pre)) ?sn"
          and j: "follows ?sn (nd_SN (hd suf)) \<or> \<not> withinRange ?sn (nd_SN (hd suf))"
          by (elim exE conjE)
        have q: "?q = pre @ suf" using i(2) ne by simp
        have "link_ok (Some (nd_SN (last pre))) (hd suf)"
          using assms(1) i(3,4) unfolding q by (cases suf) (auto simp: linked_append)
        then have "link_ok (Some ?sn) (hd suf)"
          using i(5) j follows_common(1) [of "nd_SN (last pre)" ?sn "nd_SN (hd suf)"] by auto
        then have "linked (prev_of b) (pre @ p # suf)"
          using assms(1) i(3-5) unfolding q by (intro linked_insert) auto
        moreover have "p\<lparr>nd_discont := False\<rparr> = p" by (simp add: p_def newPacket_def)
        ultimately show ?thesis unfolding b' using i(1) q
          by (intro conjI disjI2 exI [of _ pre] exI [of _ suf] exI [of _ False])
            (simp_all add: search_result_def unchanged_def)
      qed
    next
      case discont
      have "linked (prev_of b) (?q @ p\<lparr>nd_discont := nd_start p\<rparr> # [])"
        using assms(1) by (intro linked_insert) auto
      with discont ne show ?thesis
        by (intro conjI disjI2 exI [of _ ?q] exI [of _ "[]"] exI [of _ "nd_start p"]) (auto simp: defs)
    qed
  qed
qed

end
