(* ===== verification/Jitter_Account.thy ===== *)
theory Jitter_Account
  imports Jitter_Queue
begin

text \<open>
  Accounting of the jitter buffer over every sequence of calls: no call panics, a flush empties the
  queue, every packet pushed is popped, dropped, a duplicate or still queued, and the handler only gets
  whole samples.
\<close>

section \<open>Flushing\<close>

lemma dropIncomplete_force:
  "jb_queue (snd (dropIncomplete e True b)) = [] \<or> isComplete (jb_queue (snd (dropIncomplete e True b)))"
proof (induction b rule: drop_induct)
  case (1 b)
  then show ?case by (subst (1 2) dropIncomplete_unfold) (auto split: list.split)
qed

lemma flush_loop_empties:
  "jb_queue b = [] \<or> isComplete (jb_queue b) \<Longrightarrow> flush_loop loss dropped b = Some (r, b') \<Longrightarrow>
    jb_queue b' = []"
proof (induction loss dropped b arbitrary: r b' rule: flush_loop.induct)
  case (1 loss dropped b)
  show ?case
  proof (cases "jb_queue b")
    case Nil
    with "1.prems" show ?thesis by (subst (asm) flush_loop.simps) simp
  next
    case (Cons h q)
    with "1.prems"(1) have c: "isComplete (h # q)" by simp
    with "1.prems"(2) Cons obtain b1 where
      b1: "deliver (if head_normal h b then b else count_missing h b) = Some b1"
        "flush_loop (loss \<or> \<not> head_normal h b) (dropped \<or> fst (dropIncomplete 0 True b1))
          (snd (dropIncomplete 0 True b1)) = Some (r, b')"
      by (subst (asm) flush_loop.simps) (auto simp: Let_def split: option.splits)
    have nc: "\<not> \<not> isComplete (h # q)" using c by simp
    from "1.IH" [OF Cons nc refl b1(1) dropIncomplete_force b1(2)] show ?thesis .
  qed
qed

lemma flushLocked_empties: "flushLocked b = Some b' \<Longrightarrow> jb_queue b' = []"
  using flush_loop_empties [OF dropIncomplete_force]
  by (auto simp: flushLocked_def split_beta split: Option.bind_splits if_splits)

context jb_invariant
begin

lemma resetStream_keeps: "I b \<Longrightarrow> \<exists>b'. resetStream b = Some b' \<and> I b' \<and> jb_queue b' = []"
  using flushLocked_keeps [of b] forget flushLocked_empties [of b] by (auto simp: resetStream_def)

lemma switchStream_keeps: "I b \<Longrightarrow> \<exists>b'. switchStream ssrc b = Some b' \<and> I b'"
  using resetStream_keeps [of b] keeps_view(1) [OF keeps_view(10) [OF keeps_view(7)]]
  by (auto simp: switchStream_def)

lemma acceptLine_keeps: "I b \<Longrightarrow> \<exists>r b'. acceptLine sn at b = Some (r, b') \<and> I b'"
  using resetStream_keeps [of b]
  by (auto simp: acceptLine_def Let_def split_beta keeps_view)

lemma push_ssrc_keeps: "I b \<Longrightarrow> \<exists>b'. push_ssrc pkt b = Some b' \<and> I b'"
  using switchStream_keeps [of b] by (auto simp: push_ssrc_def keeps_view)

lemma push_line_keeps: "I b \<Longrightarrow> \<exists>r b'. push_line pkt at b = Some (r, b') \<and> I b'"
  using acceptLine_keeps [of b] by (auto simp: push_line_def)

text \<open>The packet that is pushed is counted first, and meets one of three ends.\<close>

lemma push_cases:
  assumes "I (upd_js (\<lambda>s. s\<lparr>js_PacketsPushed := js_PacketsPushed s + 1\<rparr>) b)"
  shows "\<exists>b' c. jb_push pkt at b = Some b' \<and> I c \<and>
    (b' = c \<and> pk_Padding pkt \<or> b' = count_stray c \<and> \<not> pk_Padding pkt \<or> b' = push_accepted pkt at c)"
proof -
  define b1 where "b1 = upd_js (\<lambda>s. s\<lparr>js_PacketsPushed := js_PacketsPushed s + 1\<rparr>) b"
  define b2 where "b2 = (if pk_Padding pkt
    then upd_js (\<lambda>s. s\<lparr>js_PaddingPushed := js_PaddingPushed s + 1\<rparr>) b1 else b1)"
  have eq: "jb_push pkt at b =
    (if pk_Padding pkt \<and> \<not> jb_initialized b2 then Some b2
     else do {
       b3 \<leftarrow> push_ssrc pkt b2;
       (accepted, b4) \<leftarrow> push_line pkt at b3;
       Some (if \<not> accepted then (if pk_Padding pkt then b4 else count_stray b4)
             else push_accepted pkt at b4) })"
    by (simp only: jb_push_def Let_def b2_def b1_def)
  have b2: "I b2" using assms keeps_view(12) [of b1] unfolding b2_def b1_def by simp
  show ?thesis
  proof (cases "pk_Padding pkt \<and> \<not> jb_initialized b2")
    case True
    with b2 show ?thesis unfolding eq by auto
  next
    case False
    from push_ssrc_keeps [OF b2] obtain b3 where b3: "push_ssrc pkt b2 = Some b3" "I b3" by blast
    from push_line_keeps [OF b3(2)] obtain acc b4 where
      b4: "push_line pkt at b3 = Some (acc, b4)" "I b4" by blast
    have "jb_push pkt at b = Some (if \<not> acc then (if pk_Padding pkt then b4 else count_stray b4)
                 else push_accepted pkt at b4)"
      unfolding eq using False b3(1) b4(1) by auto
    with b4(2) show ?thesis by (cases acc; cases "pk_Padding pkt") auto
  qed
qed

end

context jb_calls
begin

lemma rest_keeps:
  "I b \<Longrightarrow> I (UpdateLatency l b)"
  "I b \<Longrightarrow> \<exists>b'. jb_Flush b = Some b' \<and> I b'"
  "I b \<Longrightarrow> \<exists>b'. jb_Close b = Some b' \<and> I b'"
  "I b \<Longrightarrow> \<exists>b'. timer_fired now b = Some b' \<and> I b'"
  "I b \<Longrightarrow> I (timer_Stop b)" "I b \<Longrightarrow> I (closed_Break b)"
  "I b \<Longrightarrow> I (loop_receive now b)"
  "I b \<Longrightarrow> \<exists>b'. loop_pop now b = Some b' \<and> I b'"
  "I b \<Longrightarrow> I (loop_return b)"
proof -
  show r: "I b \<Longrightarrow> I (loop_receive now b)" "I b \<Longrightarrow> I (loop_return b)" for b
    using loops [OF keeps_view(5)] by (auto simp: loop_receive_def loop_return_def loops split: option.split)
  show p: "I b \<Longrightarrow> \<exists>b'. loop_pop now b = Some b' \<and> I b'" for b
    using popReady_keeps [of b now] by (auto simp: loop_pop_def loops)
  show "I b \<Longrightarrow> \<exists>b'. timer_fired now b = Some b' \<and> I b'"
    using r(1) p by (simp add: timer_fired_def)
qed (use flushLocked_keeps [of b] in
  \<open>auto simp: UpdateLatency_def keeps_view closes jb_Flush_def jb_Close_def timer_Stop_def closed_Break_def\<close>)

end

section \<open>The invariant\<close>

definition flags_ok :: "depacketizer \<Rightarrow> jnode \<Rightarrow> bool" where
  "flags_ok d n \<longleftrightarrow>
     nd_start n = IsPartitionHead d (pk_Payload (ep_Packet (nd_ext n))) \<and>
     nd_end n = IsPartitionTail d (pk_Marker (ep_Packet (nd_ext n))) (pk_Payload (ep_Packet (nd_ext n)))"

abbreviation ep_head :: "depacketizer \<Rightarrow> ext_packet \<Rightarrow> bool" where
  "ep_head d e \<equiv> IsPartitionHead d (pk_Payload (ep_Packet e))"

abbreviation ep_tail :: "depacketizer \<Rightarrow> ext_packet \<Rightarrow> bool" where
  "ep_tail d e \<equiv> IsPartitionTail d (pk_Marker (ep_Packet e)) (pk_Payload (ep_Packet e))"

text \<open>
  A whole sample: all that is not padding of a gapless run of packets from a partition's head to the
  first partition tail.
\<close>

definition whole_sample :: "depacketizer \<Rightarrow> ext_packet list \<Rightarrow> bool" where
  "whole_sample d s \<longleftrightarrow> s \<noteq> [] \<and>
     (\<exists>run. run \<noteq> [] \<and> contiguous (map ep_SN run) \<and> ep_head d (hd run) \<and> ep_tail d (last run) \<and>
        (\<forall>e \<in> set (butlast run). \<not> ep_tail d e) \<and>
        s = filter (\<lambda>e. \<not> pk_Padding (ep_Packet e)) run)"

lemma whole_sample_nodes:
  assumes "sample_nodes ns" "\<forall>n \<in> set ns. flags_ok d n" "played ns \<noteq> []"
  shows "whole_sample d (played ns)"
proof -
  let ?run = "map nd_ext ns"
  have ne: "ns \<noteq> []" using assms(1) by (simp add: sample_nodes_def)
  have "played ns = filter (\<lambda>e. \<not> pk_Padding (ep_Packet e)) ?run"
    by (simp add: played_def filter_map comp_def)
  moreover have "contiguous (map ep_SN ?run)" using assms(1) by (simp add: sample_nodes_def comp_def)
  moreover have "ep_head d (hd ?run)" using assms(1,2) ne
    by (simp add: sample_nodes_def flags_ok_def hd_map)
  moreover have "ep_tail d (last ?run)" using assms(1,2) ne
    by (simp add: sample_nodes_def flags_ok_def last_map)
  moreover have "\<forall>e \<in> set (butlast ?run). \<not> ep_tail d e" using assms(1,2)
    by (auto simp: sample_nodes_def flags_ok_def map_butlast [symmetric] dest: in_set_butlastD)
  ultimately show ?thesis using assms(3) ne unfolding whole_sample_def
    by (intro conjI exI [of _ ?run]) auto
qed

text \<open>
  \<open>k\<close> counts the packets pushed that were neither queued nor counted anywhere: padding packets that
  \<open>push\<close> ignored, and the packet being pushed.
\<close>

definition jb_ok :: "nat \<Rightarrow> jbuf \<Rightarrow> bool" where
  "jb_ok k b \<longleftrightarrow>
     jb_size b = int (length (jb_queue b)) \<and> (\<forall>n \<in> set (jb_queue b). flags_ok (jb_depacketizer b) n) \<and>
     linked (prev_of b) (jb_queue b) \<and> (\<forall>s \<in> set (jb_samples b). whole_sample (jb_depacketizer b) s) \<and>
     js_PacketsPushed (jb_stats b) = js_PacketsPopped (jb_stats b) + js_PacketsDropped (jb_stats b) +
       js_PacketsDuplicate (jb_stats b) + of_int (jb_size b) + of_nat k"

lemma jb_ok_deliver:
  assumes "jb_ok k b" "jb_queue b = ns @ ys" "sample_nodes ns"
    and "jb_view b' = jb_view b \<or> b' = count_missing h b"
  shows "jb_ok k (after_deliver ns ys b')"
proof -
  have ne: "ns \<noteq> []" using assms(3) by (simp add: sample_nodes_def)
  have flags: "\<forall>n \<in> set ns. flags_ok (jb_depacketizer b) n" using assms(1,2) by (simp add: jb_ok_def)
  have l: "linked (Some (nd_SN (last ns))) ys" using assms(1,2) ne by (simp add: jb_ok_def linked_append)
  have same: "jb_size b' = jb_size b" "jb_depacketizer b' = jb_depacketizer b" "jb_samples b' = jb_samples b"
    "js_PacketsPushed (jb_stats b') = js_PacketsPushed (jb_stats b)"
    "js_PacketsPopped (jb_stats b') = js_PacketsPopped (jb_stats b)"
    "js_PacketsDropped (jb_stats b') = js_PacketsDropped (jb_stats b)"
    "js_PacketsDuplicate (jb_stats b') = js_PacketsDuplicate (jb_stats b)"
    using assms(4) by (auto simp: jb_view_def count_missing_def)
  show ?thesis using assms(1,2) whole_sample_nodes [OF assms(3) flags] l
    by (auto simp: jb_ok_def same prev_of_def)
qed

interpretation ok: jb_stable "jb_ok k" for k
proof
  fix b b' assume "jb_ok k b" and v: "jb_view b' = jb_view b"
  moreover from v have "prev_of b' = prev_of b" by (simp add: jb_view_def prev_of_def)
  ultimately show "jb_ok k b'" by (simp add: jb_ok_def jb_view_def)
next
  fix b ns ys assume "jb_ok k b" "jb_queue b = ns @ ys" "sample_nodes ns" "head_normal (hd ns) b"
  then show "jb_ok k (after_deliver ns ys b)" using jb_ok_deliver by blast
next
  fix b ns ys assume "jb_ok k b" "jb_queue b = ns @ ys" "sample_nodes ns" "\<not> head_normal (hd ns) b"
  then show "jb_ok k (after_deliver ns ys (count_missing (hd ns) b))" using jb_ok_deliver by blast
next
  fix b h q assume ok: "jb_ok k b" "jb_queue b = h # q"
  then have "linked (prev_of (after_drop h q b)) q" by (auto simp: jb_ok_def prev_of_def intro: linked_None)
  with ok show "jb_ok k (after_drop h q b)" by (simp add: jb_ok_def)
next
  fix b assume "jb_ok k b" "jb_queue b = []"
  then show "jb_ok k (b\<lparr>jb_initialized := False, jb_prevSN := 0\<rparr>)" by (simp add: jb_ok_def)
qed (auto simp: jb_ok_def prev_of_def)

section \<open>Pushing\<close>

lemma prev_of_frame [simp]:
  "prev_of (upd_js f b) = prev_of b" "prev_of (count_stray b) = prev_of b"
  "prev_of (count_expired b) = prev_of b" "prev_of (duplicate pkt b) = prev_of b"
  by (simp_all add: prev_of_def)

lemma jb_ok_pushed:
  "jb_ok k b \<Longrightarrow> jb_ok (Suc k) (upd_js (\<lambda>s. s\<lparr>js_PacketsPushed := js_PacketsPushed s + 1\<rparr>) b)"
  by (simp add: jb_ok_def)

lemma jb_ok_dropped:
  "jb_ok (Suc k) b \<Longrightarrow> jb_ok k (count_stray b) \<and> jb_ok k (count_expired b)"
  by (simp add: jb_ok_def)

lemma push_accepted_ok:
  assumes "jb_ok (Suc k) b"
  shows "jb_ok (if pk_Padding pkt then Suc k else k) (push_accepted pkt at b) \<or>
    jb_ok k (push_accepted pkt at b)"
proof -
  let ?sn = "pk_SequenceNumber pkt" and ?q = "jb_queue b"
  consider (expired) "jb_initialized b" "before ?sn (jb_prevSN b)"
    | (dup) "\<not> (jb_initialized b \<and> before ?sn (jb_prevSN b))"
        "?q \<noteq> [] \<and> (?sn = nd_SN (hd ?q) \<or> ?sn = nd_SN (last ?q))"
    | (new) "\<not> (jb_initialized b \<and> before ?sn (jb_prevSN b))"
        "?q \<noteq> [] \<longrightarrow> ?sn \<noteq> nd_SN (hd ?q) \<and> ?sn \<noteq> nd_SN (last ?q)" by blast
  then show ?thesis
  proof cases
    case expired
    then show ?thesis using assms jb_ok_dropped [OF assms] by (simp add: push_accepted_def Let_def)
  next
    case dup
    then have "push_accepted pkt at b = duplicate pkt b" by (auto simp: push_accepted_def Let_def)
    then show ?thesis using assms by (simp add: jb_ok_def)
  next
    case new
    then have e: "push_accepted pkt at b = enqueue pkt at b" by (auto simp: push_accepted_def Let_def)
    have l: "linked (prev_of b) ?q" using assms by (simp add: jb_ok_def)
    let ?p = "newPacket (jb_depacketizer b) pkt at"
    have f: "flags_ok (jb_depacketizer b) (?p\<lparr>nd_discont := dc\<rparr>)" for dc
      by (simp add: flags_ok_def newPacket_def)
    from enqueue_spec [OF l new, of at] show ?thesis
    proof (elim conjE disjE exE)
      assume u: "unchanged b (enqueue pkt at b)" "jb_queue (enqueue pkt at b) = jb_queue b"
        "jb_size (enqueue pkt at b) = jb_size b"
        "js_PacketsDuplicate (jb_stats (enqueue pkt at b)) =
          js_PacketsDuplicate (jb_stats b) + (if pk_Padding pkt then 0 else 1)"
      have "prev_of (enqueue pkt at b) = prev_of b" using u(1) by (simp add: unchanged_def prev_of_def)
      then have "jb_ok (if pk_Padding pkt then Suc k else k) (enqueue pkt at b)"
        using assms u by (simp add: jb_ok_def unchanged_def)
      then show ?thesis using e by simp
    next
      fix pre suf dc
      assume u: "unchanged b (enqueue pkt at b)" "jb_queue b = pre @ suf"
        "jb_queue (enqueue pkt at b) = pre @ ?p\<lparr>nd_discont := dc\<rparr> # suf"
        "jb_size (enqueue pkt at b) = jb_size b + 1"
        "linked (prev_of b) (jb_queue (enqueue pkt at b))"
        "js_PacketsDuplicate (jb_stats (enqueue pkt at b)) = js_PacketsDuplicate (jb_stats b)"
      have "prev_of (enqueue pkt at b) = prev_of b" using u(1) by (simp add: unchanged_def prev_of_def)
      then have "jb_ok k (enqueue pkt at b)"
        using assms u f by (auto simp: jb_ok_def unchanged_def)
      then show ?thesis using e by simp
    qed
  qed
qed

lemma jb_push_ok:
  assumes "jb_ok k b"
  shows "\<exists>b' k'. jb_push pkt at b = Some b' \<and> jb_ok k' b' \<and> k \<le> k' \<and>
    k' \<le> k + (if pk_Padding pkt then 1 else 0)"
proof -
  from ok.push_cases [OF jb_ok_pushed [OF assms], of pkt at] obtain b' c where
    c: "jb_push pkt at b = Some b'" "jb_ok (Suc k) c"
      "b' = c \<and> pk_Padding pkt \<or> b' = count_stray c \<and> \<not> pk_Padding pkt \<or> b' = push_accepted pkt at c"
    by blast
  from c(3) have "\<exists>k'. jb_ok k' b' \<and> k \<le> k' \<and> k' \<le> k + (if pk_Padding pkt then 1 else 0)"
  proof (elim disjE conjE)
    assume "b' = c" "pk_Padding pkt"
    with c(2) show ?thesis by (intro exI [of _ "Suc k"]) simp
  next
    assume "b' = count_stray c" "\<not> pk_Padding pkt"
    with jb_ok_dropped [OF c(2)] show ?thesis by (intro exI [of _ k]) simp
  next
    assume "b' = push_accepted pkt at c"
    with push_accepted_ok [OF c(2), of pkt at] show ?thesis
      by (cases "pk_Padding pkt") (auto intro: exI [of _ k] exI [of _ "Suc k"])
  qed
  with c(1) show ?thesis by blast
qed

lemma PushAt_ok:
  assumes "jb_ok k b"
  shows "\<exists>b' k'. PushAt pkt at now b = Some b' \<and> jb_ok k' b' \<and> k \<le> k' \<and>
    k' \<le> k + (if pk_Padding pkt then 1 else 0)"
proof -
  from jb_push_ok [OF assms, of pkt at] obtain b1 k' where
    b1: "jb_push pkt at b = Some b1" "jb_ok k' b1" "k \<le> k'" "k' \<le> k + (if pk_Padding pkt then 1 else 0)"
    by blast
  with ok.popReady_keeps [OF b1(2), of now] show ?thesis by (auto simp: PushAt_def)
qed

end
