(* ===== verification/Jitter_Run.thy ===== *)
theory Jitter_Run
  imports Jitter_Account
begin

text \<open>
  Sequences of calls on a jitter buffer and the properties that hold after every one of them.
\<close>

section \<open>Calls\<close>

text \<open>
  One step, with the clock reading it makes: \<open>PushAt\<close> (which \<open>Push\<close>, \<open>PushExtPacket\<close> and the batch
  are made of), \<open>UpdateLatency\<close> and \<open>Flush\<close>, which hold the lock throughout; the iteration of the
  goroutine and \<open>Close\<close>, as a whole and as the steps they are made of, between which any other step may
  come (\<open>Close\<close> is \<open>FlushOp\<close>, \<open>StopOp\<close> and \<open>BreakOp\<close>).
\<close>

datatype jb_op =
    PushOp rtp_packet ns ns | TimerOp ns | LatencyOp ns | FlushOp | CloseOp
  | StopOp | BreakOp | ReceiveOp ns | PopOp ns | ReturnOp

fun jb_step :: "jb_op \<Rightarrow> jbuf \<Rightarrow> jbuf option" where
  "jb_step (PushOp pkt at now) b = PushAt pkt at now b"
| "jb_step (TimerOp now) b = timer_fired now b"
| "jb_step (LatencyOp l) b = Some (UpdateLatency l b)"
| "jb_step FlushOp b = jb_Flush b"
| "jb_step CloseOp b = jb_Close b"
| "jb_step StopOp b = Some (timer_Stop b)"
| "jb_step BreakOp b = Some (closed_Break b)"
| "jb_step (ReceiveOp now) b = Some (loop_receive now b)"
| "jb_step (PopOp now) b = loop_pop now b"
| "jb_step ReturnOp b = Some (loop_return b)"

fun jb_run :: "jb_op list \<Rightarrow> jbuf \<Rightarrow> jbuf option" where
  "jb_run [] b = Some b"
| "jb_run (x # xs) b = do { b1 \<leftarrow> jb_step x b; jb_run xs b1 }"

fun is_push :: "jb_op \<Rightarrow> bool" where
  "is_push (PushOp pkt at now) = True"
| "is_push _ = False"

fun is_padding_push :: "jb_op \<Rightarrow> bool" where
  "is_padding_push (PushOp pkt at now) = pk_Padding pkt"
| "is_padding_push _ = False"

definition count_ops :: "(jb_op \<Rightarrow> bool) \<Rightarrow> jb_op list \<Rightarrow> nat" where
  "count_ops P ops = length (filter P ops)"

lemma count_ops_simps [simp]:
  "count_ops P [] = 0" "count_ops P (x # xs) = (if P x then 1 else 0) + count_ops P xs"
  by (simp_all add: count_ops_def)

lemma jb_run_append: "jb_run (xs @ ys) b = do { b1 \<leftarrow> jb_run xs b; jb_run ys b1 }"
  by (induction xs arbitrary: b) (auto split: Option.bind_splits)

section \<open>The invariant along a run\<close>

lemma jb_step_ok:
  assumes "jb_ok k b"
  shows "\<exists>b' k'. jb_step x b = Some b' \<and> jb_ok k' b' \<and> k' \<le> k + (if is_padding_push x then 1 else 0)"
proof (cases x)
  case (PushOp pkt at now)
  with PushAt_ok [OF assms, of pkt at now] show ?thesis by auto
next
  case (TimerOp now)
  with ok.rest_keeps(4) [OF assms, of now] show ?thesis by (auto intro!: exI [of _ k])
next
  case (LatencyOp l)
  with ok.rest_keeps(1) [OF assms, of l] show ?thesis by (auto intro!: exI [of _ k])
next
  case FlushOp
  with ok.rest_keeps(2) [OF assms] show ?thesis by (auto intro!: exI [of _ k])
next
  case CloseOp
  with ok.rest_keeps(3) [OF assms] show ?thesis by (auto intro!: exI [of _ k])
next
  case (PopOp now)
  with ok.rest_keeps(8) [OF assms, of now] show ?thesis by (auto intro!: exI [of _ k])
qed (use assms in \<open>auto intro!: exI [of _ k] ok.rest_keeps\<close>)

lemma jb_run_ok:
  "jb_ok k b \<Longrightarrow>
    \<exists>b' k'. jb_run ops b = Some b' \<and> jb_ok k' b' \<and> k' \<le> k + count_ops is_padding_push ops"
proof (induction ops arbitrary: k b)
  case (Cons x xs)
  from jb_step_ok [OF Cons.prems, of x] obtain b1 k1 where
    b1: "jb_step x b = Some b1" "jb_ok k1 b1" "k1 \<le> k + (if is_padding_push x then 1 else 0)" by blast
  from Cons.IH [OF b1(2)] obtain b2 k2 where
    b2: "jb_run xs b1 = Some b2" "jb_ok k2 b2" "k2 \<le> k1 + count_ops is_padding_push xs" by blast
  with b1(3) have "k2 \<le> k + count_ops is_padding_push (x # xs)" by simp
  with b1(1) b2 show ?case by (intro exI [of _ b2] exI [of _ k2]) simp
qed auto

text \<open>The depacketizer is fixed and only \<open>push\<close> counts pushes.\<close>

interpretation pushed: jb_stable "\<lambda>b. js_PacketsPushed (jb_stats b) = w \<and> jb_depacketizer b = d" for w d
  by unfold_locales (auto simp: jb_view_def)

lemma push_accepted_pushed:
  "js_PacketsPushed (jb_stats (push_accepted pkt at b)) = js_PacketsPushed (jb_stats b) \<and>
    jb_depacketizer (push_accepted pkt at b) = jb_depacketizer b"
proof -
  have s: "js_PacketsPushed (jb_stats (search_result r pkt c)) = js_PacketsPushed (jb_stats c) \<and>
      jb_depacketizer (search_result r pkt c) = jb_depacketizer c" for r c
    by (simp add: search_result_def free_def split: insertion.split)
  show ?thesis
    by (simp add: push_accepted_def enqueue_def Let_def s)
qed

lemmas pushed_keeps = pushed.popReady_keeps [OF conjI [OF refl refl]]
  pushed.rest_keeps [OF conjI [OF refl refl]]

lemma jb_push_pushed:
  assumes "jb_push pkt at b = Some b'"
  shows "js_PacketsPushed (jb_stats b') = js_PacketsPushed (jb_stats b) + 1 \<and>
    jb_depacketizer b' = jb_depacketizer b"
proof -
  have "js_PacketsPushed (jb_stats (upd_js (\<lambda>s. s\<lparr>js_PacketsPushed := js_PacketsPushed s + 1\<rparr>) b)) =
      js_PacketsPushed (jb_stats b) + 1 \<and>
    jb_depacketizer (upd_js (\<lambda>s. s\<lparr>js_PacketsPushed := js_PacketsPushed s + 1\<rparr>) b) = jb_depacketizer b"
    by simp
  from pushed.push_cases [OF this, of pkt at] assms show ?thesis
    using push_accepted_pushed by fastforce
qed

lemma jb_step_pushed:
  assumes "jb_step x b = Some b'"
  shows "js_PacketsPushed (jb_stats b') = js_PacketsPushed (jb_stats b) + (if is_push x then 1 else 0) \<and>
    jb_depacketizer b' = jb_depacketizer b"
proof (cases x)
  case (PushOp pkt at now)
  with assms obtain b1 where p: "jb_push pkt at b = Some b1" "b' = b1 \<or> popReady now b1 = Some b'"
    by (auto simp: PushAt_def split: Option.bind_splits if_splits)
  with jb_push_pushed [OF p(1)] pushed_keeps(1) [of now b1] PushOp show ?thesis by auto
next
  case (TimerOp now)
  with pushed_keeps(5) [of now b] assms show ?thesis by auto
next
  case (LatencyOp l)
  with pushed_keeps(2) [of l b] assms show ?thesis by auto
next
  case FlushOp
  with pushed_keeps(3) [of b] assms show ?thesis by auto
next
  case CloseOp
  with pushed_keeps(4) [of b] assms show ?thesis by auto
next
  case (PopOp now)
  with pushed_keeps(9) [of now b] assms show ?thesis by auto
next
  case (ReceiveOp now)
  with pushed_keeps(8) [of now b] assms show ?thesis by auto
qed (use pushed_keeps(6,7,10) [of b] assms in auto)

lemma jb_run_pushed:
  "jb_run ops b = Some b' \<Longrightarrow>
    js_PacketsPushed (jb_stats b') = js_PacketsPushed (jb_stats b) + of_nat (count_ops is_push ops) \<and>
    jb_depacketizer b' = jb_depacketizer b"
proof (induction ops arbitrary: b)
  case (Cons x xs)
  then obtain b1 where "jb_step x b = Some b1" "jb_run xs b1 = Some b'"
    by (auto split: Option.bind_splits)
  with Cons.IH [of b1] jb_step_pushed [of x b b1] show ?case by (auto simp: algebra_simps)
qed simp

lemma jb_NewBuffer_simps:
  "jb_queue (jb_NewBuffer d l opts t) = []" "jb_size (jb_NewBuffer d l opts t) = 0"
  "jb_log (jb_NewBuffer d l opts t) = []" "jb_stats (jb_NewBuffer d l opts t) = no_jb_stats"
  "jb_depacketizer (jb_NewBuffer d l opts t) = d" "\<not> jb_initialized (jb_NewBuffer d l opts t)"
  "jb_latency (jb_NewBuffer d l opts t) = l" "\<not> jb_closed (jb_NewBuffer d l opts t)"
  "jb_loop (jb_NewBuffer d l opts t) = Waiting"
proof -
  have f: "jb_queue (jb_apply_option x b) = jb_queue b \<and> jb_size (jb_apply_option x b) = jb_size b \<and>
    jb_log (jb_apply_option x b) = jb_log b \<and> jb_stats (jb_apply_option x b) = jb_stats b \<and>
    jb_depacketizer (jb_apply_option x b) = jb_depacketizer b \<and>
    jb_initialized (jb_apply_option x b) = jb_initialized b \<and>
    jb_latency (jb_apply_option x b) = jb_latency b \<and>
    jb_closed (jb_apply_option x b) = jb_closed b \<and> jb_loop (jb_apply_option x b) = jb_loop b" for x b
    by (cases x) auto
  have "jb_queue (fold jb_apply_option opts b) = jb_queue b \<and> jb_size (fold jb_apply_option opts b) = jb_size b \<and>
    jb_log (fold jb_apply_option opts b) = jb_log b \<and> jb_stats (fold jb_apply_option opts b) = jb_stats b \<and>
    jb_depacketizer (fold jb_apply_option opts b) = jb_depacketizer b \<and>
    jb_initialized (fold jb_apply_option opts b) = jb_initialized b \<and>
    jb_latency (fold jb_apply_option opts b) = jb_latency b \<and>
    jb_closed (fold jb_apply_option opts b) = jb_closed b \<and> jb_loop (fold jb_apply_option opts b) = jb_loop b" for b
    by (induction opts arbitrary: b) (auto simp: f)
  then show "jb_queue (jb_NewBuffer d l opts t) = []" "jb_size (jb_NewBuffer d l opts t) = 0"
    "jb_log (jb_NewBuffer d l opts t) = []" "jb_stats (jb_NewBuffer d l opts t) = no_jb_stats"
    "jb_depacketizer (jb_NewBuffer d l opts t) = d" "\<not> jb_initialized (jb_NewBuffer d l opts t)"
    "jb_latency (jb_NewBuffer d l opts t) = l" "\<not> jb_closed (jb_NewBuffer d l opts t)"
    "jb_loop (jb_NewBuffer d l opts t) = Waiting"
    by (simp_all add: jb_NewBuffer_def)
qed

lemma jb_NewBuffer_ok: "jb_ok 0 (jb_NewBuffer d l opts t)"
  by (simp add: jb_ok_def jb_NewBuffer_simps no_jb_stats_def)

section \<open>The timer\<close>

definition deadline :: "jbuf \<Rightarrow> ns" where
  "deadline b = ep_ReceivedAt (nd_ext (hd (jb_queue b))) + jb_latency b"

text \<open>While \<open>Close\<close> is not called, a queued packet has the timer armed or the goroutine on its way.\<close>

definition timer_set :: "jbuf \<Rightarrow> bool" where
  "timer_set b \<longleftrightarrow> (jb_queue b \<noteq> [] \<longrightarrow> jb_timer b = Some (deadline b))"

definition armed :: "jbuf \<Rightarrow> bool" where
  "armed b \<longleftrightarrow> \<not> jb_closed b \<and> jb_loop b \<noteq> Returned \<and> (jb_loop b = Woken \<or> timer_set b)"

fun is_close :: "jb_op \<Rightarrow> bool" where
  "is_close CloseOp = True"
| "is_close StopOp = True"
| "is_close BreakOp = True"
| "is_close _ = False"

lemma timer_set_reset: "timer_set (resetTimer b)"
  by (auto simp: timer_set_def resetTimer_def deadline_def split: list.split)

lemma resetTimer_loop [simp]: "jb_closed (resetTimer b) = jb_closed b" "jb_loop (resetTimer b) = jb_loop b"
  by (simp_all add: resetTimer_def split: list.split)

lemma timer_set_frame [simp]:
  "timer_set (b\<lparr>jb_loop := g\<rparr>) = timer_set b" "timer_set (b\<lparr>jb_closed := c\<rparr>) = timer_set b"
  by (simp_all add: timer_set_def deadline_def)

lemma popReady_timer_set: "popReady now b = Some b' \<Longrightarrow> timer_set b'"
  by (auto simp: popReady_def timer_set_reset Let_def split: Option.bind_splits)

text \<open>Only \<open>Close\<close> and the goroutine itself touch \<open>jb_closed\<close> and \<open>jb_loop\<close>.\<close>

interpretation loop: jb_invariant "\<lambda>b. \<not> jb_closed b \<and> jb_loop b = g" for g
  by unfold_locales (auto simp: jb_view_def)

lemma PushAt_loop:
  assumes "\<not> jb_closed b" "PushAt pkt at now b = Some b'"
  shows "\<not> jb_closed b' \<and> jb_loop b' = jb_loop b"
proof -
  have s: "jb_closed (search_result r pkt c) = jb_closed c \<and> jb_loop (search_result r pkt c) = jb_loop c" for r c
    by (simp add: search_result_def free_def split: insertion.split)
  have p: "jb_closed (push_accepted pkt at c) = jb_closed c \<and> jb_loop (push_accepted pkt at c) = jb_loop c" for c
    by (simp add: push_accepted_def enqueue_def Let_def s)
  from assms(2) obtain b1 where b1: "jb_push pkt at b = Some b1" "b' = b1 \<or> popReady now b1 = Some b'"
    by (auto simp: PushAt_def split: Option.bind_splits if_splits)
  have "\<not> jb_closed (upd_js (\<lambda>s. s\<lparr>js_PacketsPushed := js_PacketsPushed s + 1\<rparr>) b) \<and>
    jb_loop (upd_js (\<lambda>s. s\<lparr>js_PacketsPushed := js_PacketsPushed s + 1\<rparr>) b) = jb_loop b" using assms(1) by simp
  from loop.push_cases [OF this, of pkt at] b1(1) have "\<not> jb_closed b1 \<and> jb_loop b1 = jb_loop b"
    by (auto simp: p)
  with b1(2) loop.popReady_keeps [of b1 "jb_loop b" now] show ?thesis by auto
qed

lemma PushAt_timer_set: "PushAt pkt at now b = Some b' \<Longrightarrow> timer_set b'"
  by (auto simp: PushAt_def timer_set_def [of b'] dest: popReady_timer_set [unfolded timer_set_def]
      split: Option.bind_splits if_splits)

lemma loop_pop_armed:
  assumes "armed b" "loop_pop now b = Some b'"
  shows "armed b'"
proof (cases "jb_loop b = Woken")
  case True
  with assms(2) obtain b1 where b1: "popReady now b = Some b1" "b' = b1\<lparr>jb_loop := Waiting\<rparr>"
    by (auto simp: loop_pop_def split: Option.bind_splits)
  with loop.popReady_keeps [of b Woken now] True assms(1) popReady_timer_set [OF b1(1)] show ?thesis
    by (auto simp: armed_def)
qed (use assms in \<open>simp add: loop_pop_def\<close>)

lemma loop_receive_armed: "armed b \<Longrightarrow> armed (loop_receive now b)"
  by (auto simp: armed_def loop_receive_def split: option.split)

lemma jb_step_armed:
  assumes "armed b" "\<not> is_close x" "jb_step x b = Some b'"
  shows "armed b'"
proof (cases x)
  case (PushOp pkt at now)
  with assms PushAt_loop [of b pkt at now b'] PushAt_timer_set [of pkt at now b b'] show ?thesis
    by (auto simp: armed_def)
next
  case (LatencyOp l)
  with assms timer_set_reset show ?thesis by (auto simp: armed_def UpdateLatency_def)
next
  case FlushOp
  with assms flushLocked_empties [of b b'] loop.flushLocked_keeps [of b "jb_loop b"] show ?thesis
    by (auto simp: armed_def jb_Flush_def timer_set_def)
next
  case (TimerOp now)
  with assms loop_pop_armed [OF loop_receive_armed] show ?thesis by (simp add: timer_fired_def)
next
  case (PopOp now)
  with assms loop_pop_armed show ?thesis by simp
next
  case (ReceiveOp now)
  with assms loop_receive_armed [of b now] show ?thesis by simp
next
  case ReturnOp
  with assms show ?thesis by (simp add: armed_def loop_return_def)
qed (use assms in simp_all)

lemma jb_run_armed: "armed b \<Longrightarrow> list_all (\<lambda>x. \<not> is_close x) ops \<Longrightarrow> jb_run ops b = Some b' \<Longrightarrow> armed b'"
proof (induction ops arbitrary: b)
  case (Cons x xs)
  then obtain b1 where "jb_step x b = Some b1" "jb_run xs b1 = Some b'"
    by (auto split: Option.bind_splits)
  with Cons.IH [of b1] jb_step_armed [of b x b1] Cons.prems show ?case by simp
qed simp

lemma popReady_loop_length:
  "popReady_loop expiry loss b = Some (loss', b') \<Longrightarrow> length (jb_queue b') \<le> length (jb_queue b)"
proof (induction expiry loss b arbitrary: loss' b' rule: popReady_loop.induct)
  case (1 expiry loss b)
  show ?case
  proof (cases "jb_queue b")
    case Nil
    with "1.prems" show ?thesis by (subst (asm) popReady_loop.simps) simp
  next
    case (Cons h q)
    consider (stop) "(loss', b') = (loss, b)"
      | (normal) b1 where "isComplete (h # q)" "head_normal h b" "deliver b = Some b1"
          "popReady_loop expiry loss b1 = Some (loss', b')"
      | (late) b1 where "isComplete (h # q)" "\<not> head_normal h b" "\<not> expiry < ep_ReceivedAt (nd_ext h)"
          "deliver (count_missing h b) = Some b1" "popReady_loop expiry True b1 = Some (loss', b')"
      using "1.prems" Cons by (subst (asm) popReady_loop.simps) (auto split: if_splits option.splits)
    then show ?thesis
    proof cases
      case normal
      with "1.IH"(1) [OF Cons _ _ normal(3,4)] deliver_length [OF normal(3)] show ?thesis by simp
    next
      case late
      with "1.IH"(2) [OF Cons _ _ _ late(4,5)] deliver_length [OF late(4)] show ?thesis by simp
    qed simp
  qed
qed

text \<open>An expired head does not survive \<open>popReady\<close>.\<close>

lemma popReady_progress:
  assumes "popReady now b = Some b'" "jb_queue b = h # q"
    and "ep_ReceivedAt (nd_ext h) + jb_latency b < now"
  shows "length (jb_queue b') < length (jb_queue b)"
proof -
  let ?e = "now - jb_latency b"
  let ?b1 = "dropIncompleteExpired ?e b"
  have exp: "ep_ReceivedAt (nd_ext h) < ?e" using assms(3) by simp
  from assms(1) obtain loss b2 where
    l: "popReady_loop ?e False ?b1 = Some (loss, b2)" "jb_queue b' = jb_queue b2"
    by (auto simp: popReady_def resetTimer_def Let_def split: Option.bind_splits if_splits list.splits)
  show ?thesis
  proof (cases "isComplete (h # q)")
    case False
    have "length (jb_queue ?b1) = length (jb_queue (snd (dropIncomplete ?e False b)))"
      by (simp add: dropIncompleteExpired_def split_beta)
    also have "\<dots> = length (jb_queue (snd (dropIncomplete ?e False (after_drop h q b))))"
      using False exp assms(2) by (subst dropIncomplete_unfold) simp
    also have "\<dots> \<le> length q" using dropIncomplete_length [of ?e False "after_drop h q b"] by simp
    finally show ?thesis using popReady_loop_length [OF l(1)] l(2) assms(2) by simp
  next
    case True
    then have "?b1 = b" using assms(2)
      by (simp add: dropIncompleteExpired_def dropIncomplete_unfold)
    with l(1) True exp assms(2) have "(\<exists>b1. (deliver b = Some b1 \<or> deliver (count_missing h b) = Some b1) \<and>
        (\<exists>ls. popReady_loop ?e ls b1 = Some (loss, b2)))"
      by (subst (asm) popReady_loop.simps) (auto split: if_splits option.splits)
    then obtain b1 ls where "deliver b = Some b1 \<or> deliver (count_missing h b) = Some b1"
      "popReady_loop ?e ls b1 = Some (loss, b2)" by blast
    with deliver_length [of b b1] deliver_length [of "count_missing h b" b1]
      popReady_loop_length [of ?e ls b1 loss b2] l(2) show ?thesis by auto
  qed
qed

section \<open>Properties\<close>

text \<open>
  C6: the jitter buffer never panics and loses no packet unaccounted.  After any sequence of calls on a
  new buffer, the size counter is the length of the queue, and the packets pushed are, modulo 2^64,
  those popped, dropped, discarded as duplicates and still queued, plus at most the padding packets
  that \<open>push\<close> ignored.
\<close>

theorem jitter_accounting:
  shows "\<exists>b k. jb_run ops (jb_NewBuffer d latency opts t0) = Some b \<and>
    jb_size b = int (length (jb_queue b)) \<and> k \<le> count_ops is_padding_push ops \<and>
    of_nat (count_ops is_push ops) = js_PacketsPopped (jb_stats b) + js_PacketsDropped (jb_stats b) +
      js_PacketsDuplicate (jb_stats b) + of_nat (length (jb_queue b)) + of_nat k"
proof -
  from jb_run_ok [OF jb_NewBuffer_ok, of ops d latency opts t0] obtain b k where
    b: "jb_run ops (jb_NewBuffer d latency opts t0) = Some b" "jb_ok k b"
      "k \<le> count_ops is_padding_push ops" by auto
  with jb_run_pushed [OF b(1)] show ?thesis
    by (auto simp: jb_ok_def jb_NewBuffer_simps no_jb_stats_def)
qed

text \<open>
  C16: the handler only ever gets whole samples.  Whatever arrives in whatever order, every slice passed
  to \<open>onPacket\<close> is not empty and is all that is not padding of a run of packets with consecutive
  sequence numbers, from a partition head to the first partition tail.
\<close>

theorem jitter_whole_samples:
  shows "\<exists>b. jb_run ops (jb_NewBuffer d latency opts t0) = Some b \<and>
    (\<forall>e \<in> set (jb_log b). case e of OnPacket s \<Rightarrow> whole_sample d s | _ \<Rightarrow> True)"
proof -
  from jb_run_ok [OF jb_NewBuffer_ok, of ops d latency opts t0] obtain b k where
    b: "jb_run ops (jb_NewBuffer d latency opts t0) = Some b" "jb_ok k b" by auto
  have s: "OnPacket s \<in> set es \<Longrightarrow> s \<in> set (samples_of es)" for s es
    by (induction es rule: samples_of.induct) auto
  have "jb_depacketizer b = d" using jb_run_pushed [OF b(1)] by (simp add: jb_NewBuffer_simps)
  with b s show ?thesis
    by (intro exI [of _ b]) (auto simp: jb_ok_def split: jb_event.split)
qed

text \<open>
  C26: \<open>Close\<close> drains the buffer.  After any sequence of calls it returns with an empty queue, a size of
  0 and the timer stopped, so that every packet pushed that is not padding is popped, dropped or a
  duplicate.
\<close>

theorem jitter_Close_drains:
  shows "\<exists>b b' k. jb_run ops (jb_NewBuffer d latency opts t0) = Some b \<and> jb_Close b = Some b' \<and>
    jb_queue b' = [] \<and> jb_size b' = 0 \<and> jb_timer b' = None \<and> jb_closed b' \<and>
    k \<le> count_ops is_padding_push ops \<and>
    of_nat (count_ops is_push ops) = js_PacketsPopped (jb_stats b') + js_PacketsDropped (jb_stats b') +
      js_PacketsDuplicate (jb_stats b') + of_nat k"
proof -
  from jb_run_ok [OF jb_NewBuffer_ok, of "ops @ [CloseOp]" d latency opts t0] obtain b' k where
    b: "jb_run (ops @ [CloseOp]) (jb_NewBuffer d latency opts t0) = Some b'" "jb_ok k b'"
      "k \<le> count_ops is_padding_push ops" by (auto simp: count_ops_def)
  then obtain b where b1: "jb_run ops (jb_NewBuffer d latency opts t0) = Some b" "jb_Close b = Some b'"
    by (auto simp: jb_run_append split: Option.bind_splits)
  then obtain b2 where "flushLocked b = Some b2" "b' = b2\<lparr>jb_timer := None, jb_closed := True\<rparr>"
    by (auto simp: jb_Close_def jb_Flush_def timer_Stop_def closed_Break_def split: Option.bind_splits)
  with flushLocked_empties [of b b2] have "jb_queue b' = []" "jb_timer b' = None" "jb_closed b'" by auto
  with b b1 jb_run_pushed [OF b(1)] show ?thesis
    by (intro exI [of _ b] exI [of _ b'] exI [of _ k])
      (auto simp: jb_ok_def jb_NewBuffer_simps no_jb_stats_def count_ops_def)
qed

text \<open>
  C17: no packet waits past its latency while \<open>Close\<close> is not called.  After any sequence of calls and
  steps of the goroutine without those of \<open>Close\<close> that leaves packets queued, the goroutine has not
  returned, and the timer is armed for the arrival of the queue's head plus the latency or the goroutine
  has been woken and is waiting for the lock; and its iteration, at any time after that deadline,
  takes packets off the queue: the head is delivered or dropped.
\<close>

theorem jitter_timer_progress:
  assumes "list_all (\<lambda>x. \<not> is_close x) ops"
    and "jb_run ops (jb_NewBuffer d latency opts t0) = Some b" "jb_queue b \<noteq> []"
  shows "(jb_loop b = Waiting \<and> jb_timer b = Some (ep_ReceivedAt (nd_ext (hd (jb_queue b))) + jb_latency b) \<or>
      jb_loop b = Woken) \<and>
    (\<forall>now > ep_ReceivedAt (nd_ext (hd (jb_queue b))) + jb_latency b.
       \<exists>b'. timer_fired now b = Some b' \<and> length (jb_queue b') < length (jb_queue b))"
proof -
  have "armed (jb_NewBuffer d latency opts t0)" by (simp add: armed_def timer_set_def jb_NewBuffer_simps)
  from jb_run_armed [OF this assms(1,2)] assms(3)
  have t: "jb_loop b = Waiting \<and> jb_timer b = Some (deadline b) \<or> jb_loop b = Woken"
    by (cases "jb_loop b") (auto simp: armed_def timer_set_def)
  from jb_run_ok [OF jb_NewBuffer_ok, of ops d latency opts t0] assms(2) obtain k where ok: "jb_ok k b" by auto
  obtain h q where q: "jb_queue b = h # q" using assms(3) by (cases "jb_queue b") auto
  have "\<exists>b'. timer_fired now b = Some b' \<and> length (jb_queue b') < length (jb_queue b)"
    if now: "now > deadline b" for now
  proof -
    define c where "c = loop_receive now b"
    have c: "jb_loop c = Woken" "jb_queue c = jb_queue b" "jb_latency c = jb_latency b"
      using t now by (auto simp: c_def loop_receive_def split: option.split)
    from ok.rest_keeps(4) [OF ok, of now] obtain b' where b': "timer_fired now b = Some b'" by blast
    then obtain b1 where b1: "popReady now c = Some b1" "b' = b1\<lparr>jb_loop := Waiting\<rparr>"
      using c(1) by (auto simp: timer_fired_def c_def [symmetric] loop_pop_def split: Option.bind_splits)
    from popReady_progress [OF b1(1), of h q] now c q b' b1(2) show ?thesis by (auto simp: deadline_def)
  qed
  with t show ?thesis by (simp add: deadline_def)
qed

definition sample_packet :: "u16 \<Rightarrow> rtp_packet" where
  "sample_packet sn = \<lparr>pk_Marker = False, pk_Padding = False, pk_PayloadType = 0,
     pk_SequenceNumber = sn, pk_Timestamp = 0, pk_SSRC = 7, pk_Payload = [1]\<rparr>"

definition sample_depacketizer :: depacketizer where
  "sample_depacketizer = \<lparr>IsPartitionHead = (\<lambda>p. True), IsPartitionTail = (\<lambda>m p. True)\<rparr>"

definition sample_run :: "jb_op list" where
  "sample_run = [PushOp (sample_packet 100) 0 0, ReceiveOp 20, PushOp (sample_packet 102) 5 21, PopOp 22]"

lemma sample_run_waits:
  "case jb_run sample_run (jb_NewBuffer sample_depacketizer 20 [] 0) of None \<Rightarrow> False
   | Some b \<Rightarrow> length (jb_queue b) = 1 \<and> jb_loop b = Waiting \<and> jb_timer b = Some 25"
  by code_simp

theorem jitter_timer_progress_witness:
  "\<exists>b b'. jb_run sample_run (jb_NewBuffer sample_depacketizer 20 [] 0) = Some b \<and>
    length (jb_queue b) = 1 \<and> timer_fired 26 b = Some b' \<and> jb_queue b' = []"
proof -
  from sample_run_waits obtain b where
    b: "jb_run sample_run (jb_NewBuffer sample_depacketizer 20 [] 0) = Some b"
      "length (jb_queue b) = 1" "jb_loop b = Waiting" "jb_timer b = Some 25" by (auto split: option.splits)
  then have "jb_queue b \<noteq> []" by auto
  moreover have "list_all (\<lambda>x. \<not> is_close x) sample_run" by (simp add: sample_run_def)
  ultimately have "\<exists>b'. timer_fired 26 b = Some b' \<and> length (jb_queue b') < 1"
    using jitter_timer_progress [OF _ b(1)] b(2-4) by auto
  with b show ?thesis by auto
qed

section \<open>A loss count that goes round the circle\<close>

text \<open>
  Only partition heads are marked as discontinuities.  A packet of another stream position that is not
  a partition head, queued here between the two packets of a sample, is counted as 39898 lost packets
  when it expires, though it is behind the last packet popped.
\<close>

definition video_depacketizer :: depacketizer where
  "video_depacketizer = \<lparr>IsPartitionHead = (\<lambda>p. p = [1]), IsPartitionTail = (\<lambda>m p. m)\<rparr>"

definition video_run :: "jb_op list" where
  "video_run = [PushOp (sample_packet 100) 0 0,
     PushOp ((sample_packet 40000)\<lparr>pk_Payload := [2]\<rparr>) 1 1,
     PushOp ((sample_packet 101)\<lparr>pk_Payload := [2], pk_Marker := True\<rparr>) 2 2, TimerOp 30]"

lemma missing_behind_example:
  "case jb_run video_run (jb_NewBuffer video_depacketizer 20 [] 0) of None \<Rightarrow> False
   | Some b \<Rightarrow> jb_queue b = [] \<and> map (map ep_SN) (jb_samples b) = [[100, 101]] \<and>
       js_PacketsLost (jb_stats b) = 39898 \<and> before 40000 101"
  by code_simp

lemma samples_of_OnPacket: "s \<in> set (samples_of es) \<Longrightarrow> OnPacket s \<in> set es"
  by (induction es rule: samples_of.induct) auto

theorem jitter_whole_samples_witness:
  "\<exists>b s. jb_run video_run (jb_NewBuffer video_depacketizer 20 [] 0) = Some b \<and>
    OnPacket s \<in> set (jb_log b) \<and> map ep_SN s = [100, 101] \<and> whole_sample video_depacketizer s"
proof -
  from missing_behind_example obtain b where
    b: "jb_run video_run (jb_NewBuffer video_depacketizer 20 [] 0) = Some b"
      "map (map ep_SN) (jb_samples b) = [[100, 101]]" by (auto split: option.splits)
  then obtain s where s: "jb_samples b = [s]" "map ep_SN s = [100, 101]" by auto
  then have o: "OnPacket s \<in> set (jb_log b)" by (intro samples_of_OnPacket) simp
  from jitter_whole_samples [of video_run video_depacketizer 20 "[]" 0] b(1) o
  have "whole_sample video_depacketizer s" by fastforce
  with b(1) o s(2) show ?thesis by (intro exI [of _ b] exI [of _ s] conjI)
qed

end
