(* ===== verification/Jitter_Order.thy ===== *)
theory Jitter_Order
  imports Jitter_Run
begin

text \<open>
  Order and loss for streams in which every packet is a sample of its own, as in audio: packets are
  delivered in sequence, and the packets counted as lost are exactly the gaps between those
  delivered.
\<close>

section \<open>The invariant\<close>

definition delivered :: "jbuf \<Rightarrow> ext_packet list" where
  "delivered b = concat (jb_samples b)"

text \<open>How many sequence numbers are missing between consecutive ones of a list.\<close>

fun gaps :: "u16 list \<Rightarrow> nat" where
  "gaps (x # y # zs) = (ahead x y - 1) + gaps (y # zs)"
| "gaps _ = 0"

lemma gaps_snoc: "xs \<noteq> [] \<Longrightarrow> gaps (xs @ [y]) = gaps xs + (ahead (last xs) y - 1)"
  by (induction xs rule: gaps.induct) auto

lemma successively_snoc:
  "xs \<noteq> [] \<Longrightarrow> successively P (xs @ [y]) \<longleftrightarrow> successively P xs \<and> P (last xs) y"
  by (simp add: successively_append_iff)

definition ordered :: "jbuf \<Rightarrow> bool" where
  "ordered b \<longleftrightarrow>
     (\<forall>n \<in> set (jb_queue b). nd_start n \<and> nd_end n \<and> \<not> nd_Padding n) \<and>
     (\<forall>s \<in> set (jb_samples b). length s = 1) \<and>
     successively follows (map ep_SN (delivered b)) \<and>
     js_PacketsLost (jb_stats b) = of_nat (gaps (map ep_SN (delivered b))) \<and>
     (if jb_initialized b
      then sorted_wrt follows (jb_prevSN b # map nd_SN (jb_queue b)) \<and>
        (\<forall>n \<in> set (jb_queue b). \<not> nd_discont n) \<and>
        delivered b \<noteq> [] \<and> ep_SN (last (delivered b)) = jb_prevSN b
      else length (jb_queue b) \<le> 1 \<and> delivered b = [])"

lemma delivered_after [simp]:
  "delivered (after_deliver ns ys b) = delivered b @ played ns"
  by (auto simp: delivered_def)

lemma single_sample:
  assumes "sample_nodes ns" "\<forall>n \<in> set ns. nd_end n"
  obtains n where "ns = [n]"
proof -
  have "\<forall>n \<in> set (butlast ns). False"
    using assms in_set_butlastD [of _ ns] unfolding sample_nodes_def by blast
  then have "butlast ns = []" by (cases "butlast ns") auto
  then show thesis using assms(1) that by (cases ns) (auto simp: sample_nodes_def split: if_splits)
qed

lemma ordered_pop:
  assumes "ordered b" "jb_queue b = n # ys" "jb_initialized b \<Longrightarrow> follows (jb_prevSN b) (nd_SN n)"
    and "b' = (if jb_initialized b \<and> nd_SN n \<noteq> jb_prevSN b + 1 then count_missing n b else b)"
  shows "ordered (after_deliver [n] ys b')"
proof -
  have b': "jb_initialized b' = jb_initialized b" "jb_samples b' = jb_samples b"
    "delivered b' = delivered b"
    using assms(4) by (auto simp: delivered_def)
  have n: "\<not> nd_Padding n" "nd_start n" "nd_end n" using assms(1,2) by (auto simp: ordered_def)
  have lost: "js_PacketsLost (jb_stats b') = js_PacketsLost (jb_stats b) +
      of_nat (if jb_initialized b then ahead (jb_prevSN b) (nd_SN n) - 1 else 0)"
  proof (cases "jb_initialized b \<and> nd_SN n \<noteq> jb_prevSN b + 1")
    case True
    then have "missingBetween (nd_SN n) (jb_prevSN b) = of_nat (ahead (jb_prevSN b) (nd_SN n) - 1)"
      using missingBetween_ahead [of "jb_prevSN b" "nd_SN n"] assms(3) follows_neq
      by (metis of_nat_unat ucast_id)
    with True assms(4) show ?thesis by simp
  next
    case False
    then show ?thesis using assms(4) ahead_1_iff [of "jb_prevSN b" "nd_SN n"] by auto
  qed
  have queue: "sorted_wrt follows (nd_SN n # map nd_SN ys) \<and> (\<forall>n \<in> set ys. \<not> nd_discont n)"
    using assms(1,2) by (cases "jb_initialized b") (auto simp: ordered_def)
  show ?thesis
  proof (cases "jb_initialized b")
    case True
    then have d: "delivered b \<noteq> []" "ep_SN (last (delivered b)) = jb_prevSN b"
      using assms(1) by (auto simp: ordered_def)
    then have l: "last (map ep_SN (delivered b)) = jb_prevSN b" by (simp add: last_map)
    have "successively follows (map ep_SN (delivered b) @ [nd_SN n])"
      using assms(1,3) True d l by (subst successively_snoc) (auto simp: ordered_def)
    moreover have "gaps (map ep_SN (delivered b) @ [nd_SN n]) =
        gaps (map ep_SN (delivered b)) + (ahead (jb_prevSN b) (nd_SN n) - 1)"
      using d l by (subst gaps_snoc) auto
    ultimately show ?thesis using assms(1,2) b' n lost queue True
      by (auto simp: ordered_def)
  next
    case False
    then show ?thesis using assms(1,2) b' n lost queue by (auto simp: ordered_def)
  qed
qed

lemma ordered_cong:
  assumes o: "ordered b"
    and e: "jb_queue b' = jb_queue b" "jb_samples b' = jb_samples b" "jb_initialized b' = jb_initialized b"
      "jb_prevSN b' = jb_prevSN b" "js_PacketsLost (jb_stats b') = js_PacketsLost (jb_stats b)"
  shows "ordered b'"
proof -
  have d: "delivered b' = delivered b" using e(2) by (simp add: delivered_def)
  show ?thesis using o unfolding ordered_def d e .
qed

interpretation ordered: jb_calls ordered
proof
  fix b b' assume "ordered b" "jb_view b' = jb_view b"
  then show "ordered b'" by (elim ordered_cong) (simp_all add: jb_view_def)
next
  fix b ns ys
  assume o: "ordered b" "jb_queue b = ns @ ys" "sample_nodes ns" and h: "head_normal (hd ns) b"
  then obtain n where n: "ns = [n]" using single_sample [of ns] by (auto simp: ordered_def)
  have f: "follows (jb_prevSN b) (nd_SN n)" if "jb_initialized b"
    using o n that by (auto simp: ordered_def)
  have "\<not> nd_discont n" if "jb_initialized b" using o n that by (auto simp: ordered_def)
  then have "\<not> (jb_initialized b \<and> nd_SN n \<noteq> jb_prevSN b + 1)" using h n by (auto simp: head_normal_def)
  with ordered_pop [of b n ys, OF o(1) _ f refl] o(2) n show "ordered (after_deliver ns ys b)" by simp
next
  fix b ns ys
  assume o: "ordered b" "jb_queue b = ns @ ys" "sample_nodes ns" and h: "\<not> head_normal (hd ns) b"
  then obtain n where n: "ns = [n]" using single_sample [of ns] by (auto simp: ordered_def)
  have f: "follows (jb_prevSN b) (nd_SN n)" if "jb_initialized b"
    using o n that by (auto simp: ordered_def)
  have "jb_initialized b \<and> nd_SN n \<noteq> jb_prevSN b + 1" using h n by (auto simp: head_normal_def)
  with ordered_pop [of b n ys, OF o(1) _ f refl] o(2) n
  show "ordered (after_deliver ns ys (count_missing (hd ns) b))" by simp
next
  fix b h q assume "ordered b" "jb_queue b = h # q" "\<not> isComplete (h # q)"
  then show "ordered (after_drop h q b)" by (simp add: ordered_def)
qed (auto elim: ordered_cong)

section \<open>Pushing\<close>

lemma follows_order:
  assumes "follows p x" "follows p y"
  shows "x = y \<or> follows x y \<or> follows y x"
proof -
  have "ahead p x = ahead p y \<Longrightarrow> x = y" using ahead_inverse by metis
  then show ?thesis using follows_common(2) [OF assms] follows_common(2) [OF assms(2,1)]
    by (metis linorder_neqE_nat)
qed

lemma follows_range: "follows x y \<Longrightarrow> withinRange x y \<and> withinRange y x \<and> before x y \<and> \<not> before y x"
  using follows_asym [of x y] by (auto simp: follows_def withinRange_ahead before_ahead)

text \<open>Both searches reduce to the tail search here, which finds the place in the order.\<close>

lemma search_tail_ordered:
  assumes "\<forall>c \<in> set cs. nd_SN c = nd_SN p \<or> follows (nd_SN c) (nd_SN p) \<or> follows (nd_SN p) (nd_SN c)"
    and "cs \<noteq> []" "follows (nd_SN (last cs)) (nd_SN p)" "sorted_wrt follows (map nd_SN (rev cs))"
  shows "search_tail p cs suf = Duplicate \<or>
    (\<exists>c1 c2. cs = c1 @ c2 \<and> c2 \<noteq> [] \<and>
       search_tail p cs suf = Inserted (rev c2 @ p\<lparr>nd_discont := False\<rparr> # rev c1 @ suf) \<and>
       (\<forall>c \<in> set c1. follows (nd_SN p) (nd_SN c)) \<and> follows (nd_SN (hd c2)) (nd_SN p))"
  using assms
proof (induction cs arbitrary: suf)
  case (Cons c cs)
  from Cons.prems(1) consider "nd_SN c = nd_SN p" | "nd_SN c \<noteq> nd_SN p" "follows (nd_SN c) (nd_SN p)"
    | "nd_SN c \<noteq> nd_SN p" "follows (nd_SN p) (nd_SN c)" by auto
  then show ?case
  proof cases
    case 2
    with follows_range [of "nd_SN c" "nd_SN p"]
    have "search_tail p (c # cs) suf = Inserted (rev (c # cs) @ p\<lparr>nd_discont := False\<rparr> # rev [] @ suf)"
      by (auto simp: Let_def)
    with 2 show ?thesis by (intro disjI2 exI [of _ "[]"] exI [of _ "c # cs"]) simp
  next
    case 3
    with follows_range [of "nd_SN p" "nd_SN c"] have e: "search_tail p (c # cs) suf = search_tail p cs (c # suf)"
      by (auto simp: Let_def)
    have "cs \<noteq> []" using Cons.prems(3) 3 follows_range [of "nd_SN p" "nd_SN c"]
        follows_range [of "nd_SN c" "nd_SN p"] by auto
    with Cons.IH [of "c # suf"] Cons.prems have "search_tail p cs (c # suf) = Duplicate \<or>
      (\<exists>c1 c2. cs = c1 @ c2 \<and> c2 \<noteq> [] \<and>
       search_tail p cs (c # suf) = Inserted (rev c2 @ p\<lparr>nd_discont := False\<rparr> # rev c1 @ c # suf) \<and>
       (\<forall>c \<in> set c1. follows (nd_SN p) (nd_SN c)) \<and> follows (nd_SN (hd c2)) (nd_SN p))"
      by (simp add: sorted_wrt_append)
    then show ?thesis
    proof (elim disjE exE conjE)
      fix c1 c2
      assume "cs = c1 @ c2" "c2 \<noteq> []"
        "search_tail p cs (c # suf) = Inserted (rev c2 @ p\<lparr>nd_discont := False\<rparr> # rev c1 @ c # suf)"
        "\<forall>c \<in> set c1. follows (nd_SN p) (nd_SN c)" "follows (nd_SN (hd c2)) (nd_SN p)"
      with e 3 show ?thesis by (intro disjI2 exI [of _ "c # c1"] exI [of _ c2]) simp
    qed (use e in simp)
  qed simp
qed simp

lemma follows_iff:
  assumes "follows p x" "follows p y"
  shows "follows x y \<longleftrightarrow> ahead p x < ahead p y"
proof
  assume f: "follows x y"
  show "ahead p x < ahead p y"
  proof (rule ccontr)
    assume n: "\<not> ahead p x < ahead p y"
    have "ahead p x \<noteq> ahead p y" using f follows_neq ahead_inverse by metis
    with n have "follows y x" by (intro follows_common(2) [OF assms(2,1)]) simp
    with f follows_range [of x y] follows_range [of y x] show False by simp
  qed
qed (rule follows_common(2) [OF assms])

lemma sorted_wrt_follows:
  "sorted_wrt follows (p # xs) \<longleftrightarrow> (\<forall>x \<in> set xs. follows p x) \<and> sorted_wrt (<) (map (ahead p) xs)"
proof -
  have "sorted_wrt follows xs \<longleftrightarrow> sorted_wrt (<) (map (ahead p) xs)" if "\<forall>x \<in> set xs. follows p x"
    using that
  proof (induction xs)
    case (Cons x xs)
    have "(\<forall>y \<in> set xs. follows x y) \<longleftrightarrow> (\<forall>y \<in> set xs. ahead p x < ahead p y)"
      using Cons.prems follows_iff [of p x] by (intro ball_cong refl) simp
    with Cons show ?case by simp
  qed simp
  then show ?thesis by auto
qed

lemma sorted_wrt_insert:
  fixes f :: "'a \<Rightarrow> nat"
  assumes "sorted_wrt (<) (map f (pre @ suf))" "pre \<noteq> [] \<Longrightarrow> f (last pre) < v"
    and "suf \<noteq> [] \<Longrightarrow> v < f (hd suf)"
  shows "sorted_wrt (<) (map f pre @ v # map f suf)"
proof -
  have "f x < v" if x: "x \<in> set pre" for x
  proof (cases "x = last pre")
    case True
    with assms(2) x show ?thesis by (cases pre) auto
  next
    case False
    obtain pre' where pre: "pre = pre' @ [last pre]" using x by (cases pre rule: rev_cases) auto
    with False x have "x \<in> set pre'" by (metis Un_iff empty_iff empty_set insert_iff list.simps(15) set_append)
    moreover have "sorted_wrt (<) (map f (pre' @ [last pre]))" using assms(1) pre by (metis map_append sorted_wrt_append)
    ultimately have "f x < f (last pre)" by (auto simp: sorted_wrt_append)
    with assms(2) x show ?thesis by (cases pre) auto
  qed
  moreover have "v < f y" if "y \<in> set suf" for y
    using that assms(1,3) by (cases suf) (auto simp: sorted_wrt_append dest: order.strict_trans)
  ultimately show ?thesis using assms(1) by (auto simp: sorted_wrt_append)
qed

text \<open>Inserting \<open>n\<close> at its place keeps the order.\<close>

lemma ordered_insert:
  assumes o: "ordered b" "jb_initialized b" "jb_queue b = pre @ suf"
    and n: "nd_start n" "nd_end n" "\<not> nd_Padding n" "\<not> nd_discont n" "follows (jb_prevSN b) (nd_SN n)"
    and pl: "pre \<noteq> [] \<Longrightarrow> follows (nd_SN (last pre)) (nd_SN n)"
      "suf \<noteq> [] \<Longrightarrow> follows (nd_SN n) (nd_SN (hd suf))"
    and b': "unchanged b b'" "jb_queue b' = pre @ n # suf"
  shows "ordered b'"
proof -
  let ?p = "jb_prevSN b" and ?f = "\<lambda>x. ahead (jb_prevSN b) (nd_SN x)"
  have s: "\<forall>x \<in> set (pre @ suf). follows ?p (nd_SN x)" "sorted_wrt (<) (map ?f (pre @ suf))"
  proof -
    have "sorted_wrt follows (?p # map nd_SN (pre @ suf))"
      using o unfolding ordered_def by (simp del: sorted_wrt.simps)
    then show "\<forall>x \<in> set (pre @ suf). follows ?p (nd_SN x)" "sorted_wrt (<) (map ?f (pre @ suf))"
      unfolding sorted_wrt_follows by (auto simp: comp_def)
  qed
  have "pre \<noteq> [] \<Longrightarrow> ?f (last pre) < ?f n" using pl(1) s(1) n(5) follows_iff [of ?p] by auto
  moreover have "suf \<noteq> [] \<Longrightarrow> ?f n < ?f (hd suf)" using pl(2) s(1) n(5) follows_iff [of ?p] by auto
  ultimately have "sorted_wrt (<) (map ?f pre @ ?f n # map ?f suf)" using s(2) by (intro sorted_wrt_insert) auto
  then have "sorted_wrt follows (?p # map nd_SN (pre @ n # suf))"
    unfolding sorted_wrt_follows using s(1) n(5) by (auto simp: comp_def)
  moreover have "delivered b' = delivered b" using b'(1) by (simp add: unchanged_def delivered_def)
  ultimately show ?thesis using o n(1-4) b' by (auto simp: ordered_def unchanged_def)
qed

lemma ordered_frame [simp]:
  "ordered (b\<lparr>jb_timer := t\<rparr>) = ordered b" "ordered (b\<lparr>jb_closed := c\<rparr>) = ordered b"
  "ordered (b\<lparr>jb_loop := g\<rparr>) = ordered b"
  "ordered (b\<lparr>jb_ssrc := s, jb_hasSSRC := h\<rparr>) = ordered b"
  "ordered (upd_js (\<lambda>s. s\<lparr>js_PacketsPushed := js_PacketsPushed s + 1\<rparr>) b) = ordered b"
  by (rule iffI; erule ordered_cong; simp)+

lemma ordered_unchanged: "ordered b \<Longrightarrow> unchanged b b' \<Longrightarrow> jb_queue b' = jb_queue b \<Longrightarrow> ordered b'"
  by (erule ordered_cong) (simp_all add: unchanged_def)

lemma ordered_count:
  "ordered b \<Longrightarrow> ordered (count_expired b)" "ordered b \<Longrightarrow> ordered (duplicate pkt b)"
  by (erule ordered_cong, simp_all)+

section \<open>Depacketizers with whole packets\<close>

text \<open>
  What the buffer relies on when every packet is a sample: the depacketizer takes each payload for a
  partition's head and tail.
\<close>

locale whole_packets =
  fixes d :: depacketizer
  assumes head: "IsPartitionHead d payload" and tail: "IsPartitionTail d marker payload"
begin

lemma new_packet:
  "nd_start (newPacket d pkt at)" "nd_end (newPacket d pkt at)" "\<not> nd_discont (newPacket d pkt at)"
  "nd_SN (newPacket d pkt at) = pk_SequenceNumber pkt" "nd_Padding (newPacket d pkt at) = pk_Padding pkt"
  by (simp_all add: newPacket_def head tail)

lemma enqueue_ordered:
  assumes o: "ordered b" "jb_depacketizer b = d" "\<not> pk_Padding pkt" "jb_initialized b"
    and w: "withinRange (pk_SequenceNumber pkt) (jb_prevSN b)"
      "\<not> before (pk_SequenceNumber pkt) (jb_prevSN b)"
    and ne: "jb_queue b \<noteq> [] \<longrightarrow> pk_SequenceNumber pkt \<noteq> nd_SN (hd (jb_queue b)) \<and>
      pk_SequenceNumber pkt \<noteq> nd_SN (last (jb_queue b))"
  shows "ordered (enqueue pkt at b)"
proof -
  let ?q = "jb_queue b" and ?sn = "pk_SequenceNumber pkt" and ?p = "newPacket d pkt at"
  let ?b = "b\<lparr>jb_size := jb_size b + 1\<rparr>"
  have fp: "follows (jb_prevSN b) ?sn"
    using w follows_before(4) [of "jb_prevSN b" ?sn]
    by (cases "jb_prevSN b = ?sn") (auto simp: before_ahead withinRange_def)
  have nd: "?p\<lparr>nd_discont := False\<rparr> = ?p" by (simp add: newPacket_def)
  note new = new_packet [of pkt at] o(3) fp
  have u: "unchanged b (?b\<lparr>jb_queue := q\<rparr>)" "unchanged b ((reordered ?b)\<lparr>jb_queue := q\<rparr>)" for q
    by (simp_all add: unchanged_def)
  note ins = ordered_insert [OF o(1,4)]
  show ?thesis
  proof (cases "?q = []")
    case True
    then have "enqueue pkt at b = ?b\<lparr>jb_queue := [?p]\<rparr>"
      using o(2,4) w(1) nd by (simp add: enqueue_def Let_def)
    then show ?thesis using ins [of "[]" "[]" ?p, OF _ _ _ _ _ _ _ _ u(1)] True new by simp
  next
    case False
    have mem: "\<forall>x \<in> set ?q. follows (jb_prevSN b) (nd_SN x)" "sorted_wrt follows (map nd_SN ?q)"
      using o(1,4) by (auto simp: ordered_def)
    have rel: "\<forall>x \<in> set ?q. nd_SN x = ?sn \<or> follows (nd_SN x) ?sn \<or> follows ?sn (nd_SN x)"
      using mem(1) fp follows_order by blast
    consider (prepend) "follows ?sn (nd_SN (hd ?q))" | (append) "follows (nd_SN (last ?q)) ?sn"
      | (tail) "follows (nd_SN (hd ?q)) ?sn" "follows ?sn (nd_SN (last ?q))"
      using rel ne False by (metis hd_in_set last_in_set)
    then show ?thesis
    proof cases
      case prepend
      then have "enqueue pkt at b = (reordered ?b)\<lparr>jb_queue := ?p # ?q\<rparr>"
        using follows_range [OF prepend] False o(2,4) w(1) nd by (simp add: enqueue_def Let_def)
      then show ?thesis using ins [of "[]" ?q ?p, OF _ _ _ _ _ _ _ _ u(2)] False prepend new by simp
    next
      case append
      then have "\<not> (before ?sn (nd_SN (hd ?q)) \<and> withinRange ?sn (nd_SN (hd ?q)))"
      proof -
        have "nd_SN (hd ?q) = nd_SN (last ?q) \<or> follows (nd_SN (hd ?q)) (nd_SN (last ?q))"
          using mem(2) False by (cases ?q rule: rev_cases) (auto simp: sorted_wrt_append hd_append)
        moreover have m: "follows (jb_prevSN b) (nd_SN (hd ?q))" "follows (jb_prevSN b) (nd_SN (last ?q))"
          using mem(1) False by auto
        moreover have "ahead (jb_prevSN b) (nd_SN (last ?q)) < ahead (jb_prevSN b) ?sn"
          using append follows_iff [OF m(2) fp] by simp
        ultimately have "ahead (jb_prevSN b) (nd_SN (hd ?q)) < ahead (jb_prevSN b) ?sn"
          using follows_iff [OF m] by (elim disjE) (simp, simp)
        then have "follows (nd_SN (hd ?q)) ?sn" using follows_iff [OF m(1) fp] by simp
        with follows_range show ?thesis by blast
      qed
      then have "enqueue pkt at b = ?b\<lparr>jb_queue := ?q @ [?p]\<rparr>"
        using follows_range [OF append] False o(2) by (auto simp: enqueue_def Let_def)
      then show ?thesis using ins [of ?q "[]" ?p, OF _ _ _ _ _ _ _ _ u(1)] append new by simp
    next
      case tail
      let ?cs = "rev (butlast ?q)" and ?r = "search_tail ?p (rev (butlast ?q)) [last ?q]"
      have e: "enqueue pkt at b = search_result ?r pkt ?b"
        using tail follows_range [OF tail(1)] follows_range [OF tail(2)] False o(2)
        by (simp add: enqueue_def Let_def)
      have "length ?q \<noteq> 1" using follows_range [OF tail(1)] follows_range [OF tail(2)]
        by (cases ?q) auto
      then have bl: "?cs \<noteq> []" "last ?cs = hd ?q" using False by (cases ?q; auto simp: last_rev)+
      have "sorted_wrt follows (map nd_SN (butlast ?q @ [last ?q]))" using mem(2) False by simp
      then have s: "sorted_wrt follows (map nd_SN (rev ?cs))" by (simp add: sorted_wrt_append)
      have r: "\<forall>c \<in> set ?cs. nd_SN c = nd_SN ?p \<or> follows (nd_SN c) (nd_SN ?p) \<or> follows (nd_SN ?p) (nd_SN c)"
        using rel new by (auto dest: in_set_butlastD)
      from search_tail_ordered [OF r bl(1) _ s, of "[last ?q]"] bl(2) tail(1) new(4)
      consider "?r = Duplicate"
        | c1 c2 where "?cs = c1 @ c2" "c2 \<noteq> []" "?r = Inserted (rev c2 @ ?p # rev c1 @ [last ?q])"
            "\<forall>c \<in> set c1. follows ?sn (nd_SN c)" "follows (nd_SN (hd c2)) ?sn"
        unfolding nd by auto
      then show ?thesis
      proof cases
        case 1
        then show ?thesis unfolding e
          by (intro ordered_unchanged [OF o(1)]) (simp_all add: search_result_def free_def unchanged_def)
      next
        case 2
        have "butlast ?q = rev c2 @ rev c1" using 2(1) by (metis rev_append rev_rev_ident)
        then have q: "?q = rev c2 @ rev c1 @ [last ?q]" using False by (metis append.assoc append_butlast_last_id)
        have h: "follows ?sn (nd_SN (hd (rev c1 @ [last ?q])))"
          using 2(4) tail(2) by (cases "rev c1") (auto simp: hd_append rev_eq_Cons_iff)
        have "enqueue pkt at b = (reordered ?b)\<lparr>jb_queue := rev c2 @ ?p # rev c1 @ [last ?q]\<rparr>"
          unfolding e 2(3) by (simp add: search_result_def)
        then show ?thesis
          using ins [of "rev c2" "rev c1 @ [last ?q]" ?p, OF q _ _ _ _ _ _ _ u(2)] 2(2,5) h new
          by (simp add: last_rev)
      qed
    qed
  qed
qed

lemma push_accepted_ordered:
  assumes "ordered b" "jb_depacketizer b = d" "\<not> pk_Padding pkt"
    and "jb_initialized b \<longrightarrow> withinRange (pk_SequenceNumber pkt) (jb_prevSN b)"
    and "\<not> jb_initialized b \<longrightarrow> jb_queue b = []"
  shows "ordered (push_accepted pkt at b)"
proof (cases "jb_initialized b")
  case True
  then show ?thesis using assms ordered_count [OF assms(1)] enqueue_ordered [OF assms(1-3) True, of at]
    by (auto simp: push_accepted_def Let_def)
next
  case False
  then have "push_accepted pkt at b =
      b\<lparr>jb_size := jb_size b + 1, jb_queue := [(newPacket d pkt at)\<lparr>nd_discont := True\<rparr>]\<rparr>"
    using assms by (simp add: push_accepted_def enqueue_def Let_def new_packet)
  then show ?thesis using assms False by (simp add: ordered_def delivered_def new_packet)
qed

end

section \<open>Configuration\<close>

text \<open>What no popping changes: the stream and the restart detection.\<close>

definition conf :: "jbuf \<Rightarrow> u32 \<times> bool \<times> bool" where
  "conf b = (jb_ssrc b, jb_hasSSRC b, jb_detectRestarts b)"

lemma conf_simps [simp]:
  "conf (notifyStats b) = conf b" "conf (notifyLoss b) = conf b" "conf (resetTimer b) = conf b"
  "conf (after_deliver ns ys b) = conf b" "conf (after_drop h q b) = conf b"
  "conf (count_missing h b) = conf b" "conf (upd_js f b) = conf b" "conf (free b) = conf b"
  "conf (b\<lparr>jb_size := n\<rparr>) = conf b" "conf (b\<lparr>jb_queue := q\<rparr>) = conf b" "conf (reordered b) = conf b"
  "conf (duplicate pkt b) = conf b" "conf (count_expired b) = conf b" "conf (b\<lparr>jb_timer := t\<rparr>) = conf b"
  "conf (b\<lparr>jb_latency := l\<rparr>) = conf b" "conf (b\<lparr>jb_closed := c\<rparr>) = conf b"
  "conf (b\<lparr>jb_loop := g\<rparr>) = conf b"
  by (auto simp: conf_def notifyStats_def notifyLoss_def resetTimer_def after_deliver_def after_drop_def
      count_missing_def free_def reordered_def duplicate_def count_expired_def Let_def split: list.split)

lemma dropIncomplete_conf: "conf (snd (dropIncomplete e f b)) = conf b"
proof (induction b rule: drop_induct)
  case (1 b)
  then show ?case by (subst dropIncomplete_unfold) (auto split: list.split)
qed

lemma deliver_conf:
  assumes "deliver b = Some b'" "isComplete (jb_queue b)"
  shows "conf b' = conf b"
proof -
  from assms(2) obtain ns ys where "deliver b = Some (after_deliver ns ys b)" by (rule deliver_eq)
  with assms(1) have "b' = after_deliver ns ys b" by simp
  then show ?thesis by simp
qed

text \<open>The loop of \<open>popReady\<close> stops at an incomplete head or at one that must wait.\<close>

lemma popReady_loop_stop:
  "popReady_loop e loss b = Some (loss', b') \<Longrightarrow>
    conf b' = conf b \<and> (jb_queue b' = [] \<or> \<not> isComplete (jb_queue b') \<or> \<not> head_normal (hd (jb_queue b')) b')"
proof (induction e loss b arbitrary: loss' b' rule: popReady_loop.induct)
  case (1 e loss b)
  show ?case
  proof (cases "jb_queue b")
    case Nil
    with "1.prems" show ?thesis by (subst (asm) popReady_loop.simps) simp
  next
    case (Cons h q)
    consider (stop) "(loss', b') = (loss, b)" "\<not> isComplete (h # q) \<or> \<not> head_normal h b"
      | (normal) b1 where "isComplete (h # q)" "head_normal h b" "deliver b = Some b1"
          "popReady_loop e loss b1 = Some (loss', b')"
      | (late) b1 where "isComplete (h # q)" "\<not> head_normal h b" "\<not> e < ep_ReceivedAt (nd_ext h)"
          "deliver (count_missing h b) = Some b1" "popReady_loop e True b1 = Some (loss', b')"
      using "1.prems" Cons by (subst (asm) popReady_loop.simps) (auto split: if_splits option.splits)
    then show ?thesis
    proof cases
      case stop
      then show ?thesis using Cons by auto
    next
      case normal
      with "1.IH"(1) [OF Cons _ _ normal(3,4)] deliver_conf [OF normal(3)] Cons show ?thesis by simp
    next
      case late
      with "1.IH"(2) [OF Cons _ _ _ late(4,5)] deliver_conf [OF late(4)] Cons show ?thesis by simp
    qed
  qed
qed

lemma flush_loop_conf: "flush_loop loss dropped b = Some (r, b') \<Longrightarrow> conf b' = conf b"
proof (induction loss dropped b arbitrary: r b' rule: flush_loop.induct)
  case (1 loss dropped b)
  show ?case
  proof (cases "jb_queue b = [] \<or> \<not> isComplete (jb_queue b)")
    case True
    with "1.prems" show ?thesis by (subst (asm) flush_loop.simps) (auto split: list.splits)
  next
    case False
    then obtain h q where q: "jb_queue b = h # q" "isComplete (h # q)" by (cases "jb_queue b") auto
    with "1.prems" obtain b1 where
      b1: "deliver (if head_normal h b then b else count_missing h b) = Some b1"
        "flush_loop (loss \<or> \<not> head_normal h b) (dropped \<or> fst (dropIncomplete 0 True b1))
          (snd (dropIncomplete 0 True b1)) = Some (r, b')"
      by (subst (asm) flush_loop.simps) (auto simp: Let_def split: option.splits)
    have "\<not> \<not> isComplete (h # q)" using q by simp
    from "1.IH" [OF q(1) this refl b1] deliver_conf [OF b1(1)] q show ?thesis
      by (auto simp: dropIncomplete_conf split: if_splits)
  qed
qed

lemma flushLocked_conf: "flushLocked b = Some b' \<Longrightarrow> conf b' = conf b"
  by (auto simp: flushLocked_def split_beta dropIncomplete_conf split: Option.bind_splits if_splits
      dest!: flush_loop_conf)

lemma popReady_conf:
  assumes "popReady now b = Some b'"
  shows "conf b' = conf b \<and> (jb_queue b' = [] \<or> \<not> isComplete (jb_queue b') \<or> \<not> head_normal (hd (jb_queue b')) b')"
proof -
  let ?b1 = "dropIncompleteExpired (now - jb_latency b) b"
  have c: "conf ?b1 = conf b" by (simp add: dropIncompleteExpired_def split_beta dropIncomplete_conf)
  from assms obtain loss b2 where l: "popReady_loop (now - jb_latency b) False ?b1 = Some (loss, b2)"
    "b' = resetTimer (if loss then notifyLoss b2 else b2)"
    by (auto simp: popReady_def Let_def split: Option.bind_splits)
  have "jb_queue b' = jb_queue b2" "head_normal n b' = head_normal n b2" for n
    using l(2) by (auto simp: resetTimer_def head_normal_def split: list.split)
  with popReady_loop_stop [OF l(1)] c l(2) show ?thesis by simp
qed

section \<open>Streams of whole packets\<close>

text \<open>
  The calls of one stream: packets of one SSRC that are not padding, none further than 3000 from the
  last packet popped.
\<close>

fun one_stream :: "u32 \<Rightarrow> jb_op list \<Rightarrow> jbuf \<Rightarrow> bool" where
  "one_stream ssrc [] b = True"
| "one_stream ssrc (x # xs) b =
     ((case x of
         PushOp pkt at now \<Rightarrow> \<not> pk_Padding pkt \<and> pk_SSRC pkt = ssrc \<and>
           (jb_initialized b \<longrightarrow> withinRange (pk_SequenceNumber pkt) (jb_prevSN b))
       | _ \<Rightarrow> True) \<and>
      (case jb_step x b of None \<Rightarrow> False | Some b1 \<Rightarrow> one_stream ssrc xs b1))"

definition streaming :: "depacketizer \<Rightarrow> u32 \<Rightarrow> jbuf \<Rightarrow> bool" where
  "streaming d ssrc b \<longleftrightarrow> ordered b \<and> jb_depacketizer b = d \<and> (\<not> jb_initialized b \<longrightarrow> jb_queue b = []) \<and>
     (jb_hasSSRC b \<longrightarrow> jb_ssrc b = ssrc) \<and> \<not> jb_detectRestarts b"

lemma conf_eq:
  "conf b' = conf b \<longleftrightarrow> jb_ssrc b' = jb_ssrc b \<and> jb_hasSSRC b' = jb_hasSSRC b \<and>
    jb_detectRestarts b' = jb_detectRestarts b"
  by (auto simp: conf_def)

lemma ordered_stopped:
  assumes "ordered b" "jb_queue b = [] \<or> \<not> isComplete (jb_queue b) \<or> \<not> head_normal (hd (jb_queue b)) b"
  shows "\<not> jb_initialized b \<longrightarrow> jb_queue b = []"
proof -
  have "isComplete (jb_queue b)" if "jb_queue b \<noteq> []"
    using assms(1) that by (cases "jb_queue b") (auto simp: ordered_def)
  with assms(2) show ?thesis by (auto simp: head_normal_def)
qed

lemma popReady_streaming:
  assumes "ordered b" "jb_depacketizer b = d" "jb_hasSSRC b \<longrightarrow> jb_ssrc b = ssrc" "\<not> jb_detectRestarts b"
    and "popReady now b = Some b'"
  shows "streaming d ssrc b'"
proof -
  have o: "ordered b'" using ordered.popReady_keeps [OF assms(1), of now] assms(5) by auto
  have "jb_depacketizer b' = d" using pushed_keeps(1) [of now b] assms(2,5) by auto
  with o ordered_stopped [OF o] popReady_conf [OF assms(5)] assms(3,4) show ?thesis
    by (auto simp: streaming_def conf_eq)
qed

lemma flush_streaming:
  assumes "streaming d ssrc b" "flushLocked b = Some b'"
  shows "streaming d ssrc b'"
proof -
  have "ordered b'" using ordered.flushLocked_keeps [of b] assms by (auto simp: streaming_def)
  moreover have "jb_depacketizer b' = d"
    using pushed_keeps(3) [of b] assms by (auto simp: jb_Flush_def streaming_def)
  ultimately show ?thesis using flushLocked_empties [OF assms(2)] flushLocked_conf [OF assms(2)] assms(1)
    by (auto simp: streaming_def conf_eq)
qed

lemma streaming_marks:
  assumes "streaming d ssrc b"
  shows "streaming d ssrc (timer_Stop b)" "streaming d ssrc (closed_Break b)"
    "streaming d ssrc (loop_receive now b)" "streaming d ssrc (loop_return b)"
  using assms by (auto simp: streaming_def timer_Stop_def closed_Break_def loop_receive_def loop_return_def
      split: option.split)

context whole_packets
begin

lemma loop_pop_streaming:
  assumes "streaming d ssrc b" "loop_pop now b = Some b'"
  shows "streaming d ssrc b'"
proof (cases "jb_loop b = Woken")
  case True
  with assms(2) obtain b1 where b1: "popReady now b = Some b1" "b' = b1\<lparr>jb_loop := Waiting\<rparr>"
    by (auto simp: loop_pop_def split: Option.bind_splits)
  with assms(1) have "streaming d ssrc b1" by (intro popReady_streaming [of b]) (auto simp: streaming_def)
  with b1(2) show ?thesis by (simp add: streaming_def)
qed (use assms in \<open>simp add: loop_pop_def\<close>)

lemma PushAt_streaming:
  assumes s: "streaming d ssrc b" and p: "\<not> pk_Padding pkt" "pk_SSRC pkt = ssrc"
      "jb_initialized b \<longrightarrow> withinRange (pk_SequenceNumber pkt) (jb_prevSN b)"
    and r: "PushAt pkt at now b = Some b'"
  shows "streaming d ssrc b'"
proof -
  let ?b1 = "upd_js (\<lambda>s. s\<lparr>js_PacketsPushed := js_PacketsPushed s + 1\<rparr>) b"
  define b3 where "b3 = (if jb_hasSSRC b then ?b1 else ?b1\<lparr>jb_ssrc := ssrc, jb_hasSSRC := True\<rparr>)"
  have push: "jb_push pkt at b = Some (push_accepted pkt at b3)"
    using s p by (auto simp: jb_push_def push_ssrc_def push_line_def streaming_def b3_def)
  have o3: "ordered b3" "jb_depacketizer b3 = d" "jb_initialized b3 = jb_initialized b"
    "jb_prevSN b3 = jb_prevSN b" "jb_queue b3 = jb_queue b" "jb_ssrc b3 = ssrc" "jb_hasSSRC b3"
    "\<not> jb_detectRestarts b3"
    using s p(2) by (simp_all add: streaming_def b3_def del: jbuf.update_convs)
  then have o4: "ordered (push_accepted pkt at b3)"
    using s p by (intro push_accepted_ordered) (auto simp: streaming_def)
  have c: "conf (search_result rr pkt b) = conf b" for rr b
    by (simp add: search_result_def split: insertion.split)
  have "conf (push_accepted pkt at b3) = conf b3"
    by (simp add: push_accepted_def enqueue_def Let_def c)
  then have c4: "jb_ssrc (push_accepted pkt at b3) = ssrc" "jb_hasSSRC (push_accepted pkt at b3)"
    "\<not> jb_detectRestarts (push_accepted pkt at b3)" using o3 by (auto simp: conf_eq)
  have d4: "jb_depacketizer (push_accepted pkt at b3) = d" using push_accepted_pushed o3 by blast
  define b4 where "b4 = push_accepted pkt at b3"
  note b4 = o4 [folded b4_def] d4 [folded b4_def] c4 [folded b4_def]
  have r': "(if jb_queue b4 = [] then Some b4 else popReady now b4) = Some b'"
    using r unfolding PushAt_def push b4_def by simp
  show ?thesis
  proof (cases "jb_queue b4 = []")
    case True
    with r' b4 show ?thesis by (simp add: streaming_def)
  next
    case False
    with r' have "popReady now b4 = Some b'" by simp
    from popReady_streaming [OF b4(1,2) _ b4(5) this] b4(3) show ?thesis by blast
  qed
qed

lemma jb_step_streaming:
  assumes "streaming d ssrc b" "one_stream ssrc (x # xs) b" "jb_step x b = Some b'"
  shows "streaming d ssrc b'"
proof (cases x)
  case (PushOp pkt at now)
  with assms PushAt_streaming [OF assms(1), of pkt at now b'] show ?thesis by simp
next
  case (TimerOp now)
  with assms(3) have "loop_pop now (loop_receive now b) = Some b'" by (simp add: timer_fired_def)
  with loop_pop_streaming [OF streaming_marks(3) [OF assms(1)]] show ?thesis .
next
  case (PopOp now)
  with assms(1,3) loop_pop_streaming show ?thesis by simp
next
  case (LatencyOp l)
  then have b': "b' = UpdateLatency l b" using assms(3) by simp
  have "ordered b'" using b' ordered.rest_keeps(1) assms(1) by (auto simp: streaming_def)
  moreover have "jb_initialized b' = jb_initialized b" "jb_queue b' = jb_queue b"
    "jb_depacketizer b' = jb_depacketizer b" "conf b' = conf b"
    using b' by (auto simp: UpdateLatency_def resetTimer_def conf_def split: list.split)
  ultimately show ?thesis using assms(1) by (auto simp: streaming_def conf_eq)
next
  case FlushOp
  with assms flush_streaming show ?thesis by (simp add: jb_Flush_def)
next
  case CloseOp
  with assms(3) obtain b1 where b1: "flushLocked b = Some b1" "b' = closed_Break (timer_Stop b1)"
    by (auto simp: jb_Close_def jb_Flush_def split: Option.bind_splits)
  from streaming_marks [OF flush_streaming [OF assms(1) b1(1)]] b1(2) show ?thesis
    by (simp add: streaming_marks)
qed (use assms streaming_marks [OF assms(1)] in auto)

lemma jb_run_streaming:
  "streaming d ssrc b \<Longrightarrow> one_stream ssrc ops b \<Longrightarrow> \<exists>b'. jb_run ops b = Some b' \<and> streaming d ssrc b'"
proof (induction ops arbitrary: b)
  case (Cons x xs)
  from Cons.prems(2) obtain b1 where b1: "jb_step x b = Some b1" "one_stream ssrc xs b1"
    by (auto split: option.splits)
  from jb_step_streaming [OF Cons.prems b1(1)] Cons.IH [OF _ b1(2)] b1(1) show ?case by auto
qed simp

lemma new_buffer_streaming:
  assumes "WithSequenceRestartDetection \<notin> set opts"
  shows "streaming d ssrc (jb_NewBuffer d latency opts t0)"
proof -
  have f: "jb_hasSSRC (fold jb_apply_option opts b) = jb_hasSSRC b \<and>
      jb_detectRestarts (fold jb_apply_option opts b) = jb_detectRestarts b" for b
    using assms
  proof (induction opts arbitrary: b)
    case (Cons x xs)
    then show ?case by (cases x) auto
  qed simp
  have "\<not> jb_hasSSRC (jb_NewBuffer d latency opts t0)" "\<not> jb_detectRestarts (jb_NewBuffer d latency opts t0)"
    by (simp_all add: jb_NewBuffer_def f)
  then show ?thesis
    by (simp add: streaming_def ordered_def delivered_def jb_NewBuffer_simps no_jb_stats_def)
qed

lemma stream_in_order:
  assumes "WithSequenceRestartDetection \<notin> set opts" "one_stream ssrc ops (jb_NewBuffer d latency opts t0)"
  shows "\<exists>b. jb_run ops (jb_NewBuffer d latency opts t0) = Some b \<and>
    (\<forall>s \<in> set (jb_samples b). length s = 1) \<and>
    successively follows (map ep_SN (delivered b)) \<and>
    js_PacketsLost (jb_stats b) = of_nat (gaps (map ep_SN (delivered b)))"
  using jb_run_streaming [OF new_buffer_streaming [OF assms(1)] assms(2)] by (auto simp: streaming_def ordered_def)

end

end
