(* ===== verification/Jitter_Source.thy ===== *)
theory Jitter_Source
  imports Jitter_Order
begin

text \<open>
  Where the packets of a jitter buffer come from: whatever is queued or was delivered was pushed.  From
  that, streams short enough that every order of arrival is within range.
\<close>

section \<open>The invariant\<close>

definition from_set :: "rtp_packet set \<Rightarrow> jbuf \<Rightarrow> bool" where
  "from_set S b \<longleftrightarrow> (\<forall>n \<in> set (jb_queue b). ep_Packet (nd_ext n) \<in> S) \<and> (\<forall>e \<in> set (delivered b). ep_Packet e \<in> S)"

lemma delivered_count [simp]: "delivered (count_missing h b) = delivered b"
  by (simp add: delivered_def)

lemma played_subset: "set (played ns) \<subseteq> nd_ext ` set ns"
  by (auto simp: played_def)

interpretation source: jb_stable "from_set S" for S
proof
  fix b b' :: jbuf
  assume "from_set S b" "jb_view b' = jb_view b"
  then show "from_set S b'" by (auto simp: from_set_def jb_view_def delivered_def)
next
  fix b ns ys
  assume "from_set S b" "jb_queue b = ns @ ys"
  then show "from_set S (after_deliver ns ys b)" "from_set S (after_deliver ns ys (count_missing (hd ns) b))"
    using played_subset [of ns] by (auto simp: from_set_def)
next
  fix b h q
  assume "from_set S b" "jb_queue b = h # q"
  then show "from_set S (after_drop h q b)" by (auto simp: from_set_def delivered_def)
qed (auto simp: from_set_def delivered_def)

section \<open>Pushing\<close>

lemma search_tail_source:
  "search_tail p cs suf = Inserted q \<Longrightarrow> nd_ext ` set q \<subseteq> insert (nd_ext p) (nd_ext ` (set cs \<union> set suf))"
  by (induction p cs suf rule: search_tail.induct) (auto simp: Let_def split: if_splits)

lemma search_head_source:
  "search_head p pre cs = Inserted q \<Longrightarrow> nd_ext ` set q \<subseteq> insert (nd_ext p) (nd_ext ` (set pre \<union> set cs))"
  by (induction p pre cs rule: search_head.induct) (auto simp: Let_def split: if_splits)

lemma search_result_source:
  assumes "from_set S b" "\<And>q. r = Inserted q \<Longrightarrow> nd_ext ` set q \<subseteq> insert e (nd_ext ` set (jb_queue b))" "ep_Packet e \<in> S"
  shows "from_set S (search_result r pkt b)"
proof (cases r)
  case (Inserted q)
  have "ep_Packet (nd_ext n) \<in> S" if "n \<in> set q" for n
  proof -
    have "nd_ext n \<in> insert e (nd_ext ` set (jb_queue b))" using assms(2) [OF Inserted] that by blast
    with assms(1,3) show ?thesis by (auto simp: from_set_def)
  qed
  then show ?thesis using assms(1) Inserted by (auto simp: search_result_def from_set_def delivered_def)
qed (use assms in \<open>auto simp: search_result_def from_set_def delivered_def free_def\<close>)

lemma if_keeps: "(c \<Longrightarrow> I a) \<Longrightarrow> (\<not> c \<Longrightarrow> I b) \<Longrightarrow> I (if c then a else b)"
  by simp

lemma push_accepted_source:
  assumes "from_set S b" "pkt \<in> S"
  shows "from_set S (push_accepted pkt at b)"
proof -
  define p where "p = newPacket (jb_depacketizer b) pkt at"
  have p: "ep_Packet (nd_ext p) \<in> S" using assms(2) by (simp add: p_def newPacket_def)
  define b1 where "b1 = b\<lparr>jb_size := jb_size b + 1\<rparr>"
  have b1: "from_set S b1" "jb_queue b1 = jb_queue b" using assms(1) by (simp_all add: b1_def from_set_def delivered_def)
  have q: "set (jb_queue b) = insert (last (jb_queue b)) (set (butlast (jb_queue b)))"
    "set (jb_queue b) = insert (hd (jb_queue b)) (set (tl (jb_queue b)))" if "jb_queue b \<noteq> []"
    using that by (metis append_butlast_last_id list.simps(15) rotate1.simps(2) set_rotate1 append_Nil set_append Un_insert_right Un_empty_right list.set(1),
        metis list.collapse list.simps(15))
  have tail: "from_set S (search_result (search_tail p (rev (butlast (jb_queue b))) [last (jb_queue b)]) pkt b1)" if "jb_queue b \<noteq> []"
    using search_tail_source [of p "rev (butlast (jb_queue b))" "[last (jb_queue b)]"] b1(2) q(1) [OF that]
    by (intro search_result_source [OF b1(1) _ p]) auto
  have head: "from_set S (search_result (search_head p [hd (jb_queue b)] (tl (jb_queue b))) pkt b1)" if "jb_queue b \<noteq> []"
    using search_head_source [of p "[hd (jb_queue b)]" "tl (jb_queue b)"] b1(2) q(2) [OF that]
    by (intro search_result_source [OF b1(1) _ p]) auto
  have put: "from_set S (c\<lparr>jb_queue := q'\<rparr>)" if "delivered c = delivered b"
    "nd_ext ` set q' \<subseteq> insert (nd_ext p) (nd_ext ` set (jb_queue b))" for c q'
  proof -
    have "ep_Packet (nd_ext n) \<in> S" if "n \<in> set q'" for n
    proof -
      have "nd_ext n \<in> insert (nd_ext p) (nd_ext ` set (jb_queue b))" using that \<open>nd_ext ` set q' \<subseteq> _\<close> by blast
      with assms(1) p show ?thesis by (auto simp: from_set_def)
    qed
    with that(1) assms(1) show ?thesis by (simp add: from_set_def delivered_def)
  qed
  have d: "delivered b1 = delivered b" "delivered (reordered b1) = delivered b" by (simp_all add: b1_def delivered_def)
  have enq: "from_set S (enqueue pkt at b)"
    unfolding enqueue_def Let_def p_def [symmetric] b1_def [symmetric] b1(2)
    by (intro if_keeps [where I = "from_set S"] put d tail head) auto
  show ?thesis
    unfolding push_accepted_def Let_def
    by (intro if_keeps [where I = "from_set S"] enq) (use assms(1) in \<open>auto simp: from_set_def delivered_def\<close>)
qed

lemma jb_step_source:
  assumes "from_set S b" "case x of PushOp pkt at now \<Rightarrow> pkt \<in> S | _ \<Rightarrow> True"
  shows "\<exists>b'. jb_step x b = Some b' \<and> from_set S b'"
proof (cases x)
  case (PushOp pkt at now)
  have "from_set S (upd_js (\<lambda>s. s\<lparr>js_PacketsPushed := js_PacketsPushed s + 1\<rparr>) b)"
    using assms(1) by (simp add: from_set_def delivered_def)
  from source.push_cases [OF this, of pkt at] obtain b1 c where c: "jb_push pkt at b = Some b1" "from_set S c"
    "b1 = c \<or> b1 = count_stray c \<or> b1 = push_accepted pkt at c" by auto
  have "from_set S (count_stray c)" using c(2) by (simp add: from_set_def delivered_def)
  moreover have "from_set S (push_accepted pkt at c)" using push_accepted_source [OF c(2)] assms(2) PushOp by simp
  ultimately have "from_set S b1" using c by blast
  with source.popReady_keeps [of S b1 now] c(1) PushOp show ?thesis by (auto simp: PushAt_def)
next
  case (TimerOp now)
  with assms source.rest_keeps(4) [of S b now] show ?thesis by simp
next
  case (LatencyOp l)
  with assms source.rest_keeps(1) [of S b l] show ?thesis by simp
next
  case FlushOp
  with assms source.rest_keeps(2) [of S b] show ?thesis by simp
next
  case CloseOp
  with assms source.rest_keeps(3) [of S b] show ?thesis by simp
next
  case (PopOp now)
  with assms source.rest_keeps(8) [of S b now] show ?thesis by simp
qed (use assms in \<open>auto intro: source.rest_keeps\<close>)

fun pushes_from :: "rtp_packet set \<Rightarrow> jb_op \<Rightarrow> bool" where
  "pushes_from S (PushOp pkt at now) \<longleftrightarrow> pkt \<in> S"
| "pushes_from S _ \<longleftrightarrow> True"

lemma jb_run_source:
  "from_set S b \<Longrightarrow> list_all (pushes_from S) ops \<Longrightarrow> jb_run ops b = Some b' \<Longrightarrow> from_set S b'"
proof (induction ops arbitrary: b)
  case (Cons x xs)
  from Cons.prems(3) obtain b1 where b1: "jb_step x b = Some b1" "jb_run xs b1 = Some b'"
    by (auto split: Option.bind_splits)
  have "case x of PushOp pkt at now \<Rightarrow> pkt \<in> S | _ \<Rightarrow> True" using Cons.prems(2) by (cases x) auto
  with Cons.IH [OF _ _ b1(2)] jb_step_source [OF Cons.prems(1), of x] Cons.prems(2) b1(1) show ?case by auto
qed simp

lemma new_buffer_source: "from_set S (jb_NewBuffer d latency opts t0)"
  by (simp add: from_set_def delivered_def jb_NewBuffer_simps)

section \<open>Short streams\<close>

text \<open>Packets of one stream that are no padding and whose sequence numbers are below 3000.\<close>

definition short_stream :: "u32 \<Rightarrow> rtp_packet set \<Rightarrow> bool" where
  "short_stream ssrc S \<longleftrightarrow> (\<forall>pkt \<in> S. \<not> pk_Padding pkt \<and> pk_SSRC pkt = ssrc \<and> unat (pk_SequenceNumber pkt) < 3000)"

lemma below_withinRange: "unat a < 3000 \<Longrightarrow> unat b < 3000 \<Longrightarrow> withinRange a b"
  unfolding withinRange_def word_less_nat_alt by (cases "b \<le> a") (auto simp: unat_sub word_le_nat_alt)

lemma gaps_contiguous: "contiguous sns \<Longrightarrow> gaps sns = 0"
proof (induction sns rule: contiguous.induct)
  case (1 a b xs)
  then have "gaps (b # xs) = 0" "ahead a b = 1" using ahead_1_iff [of a b] by auto
  then show ?case by simp
qed auto

context whole_packets
begin

lemma one_stream_short:
  "streaming d ssrc b \<Longrightarrow> from_set S b \<Longrightarrow> short_stream ssrc S \<Longrightarrow> list_all (pushes_from S) ops \<Longrightarrow> one_stream ssrc ops b"
proof (induction ops arbitrary: b)
  case (Cons x xs)
  let ?ok = "case x of PushOp pkt at now \<Rightarrow> \<not> pk_Padding pkt \<and> pk_SSRC pkt = ssrc \<and>
      (jb_initialized b \<longrightarrow> withinRange (pk_SequenceNumber pkt) (jb_prevSN b)) | _ \<Rightarrow> True"
  have prev: "unat (jb_prevSN b) < 3000" if "jb_initialized b"
  proof -
    have "delivered b \<noteq> []" "ep_SN (last (delivered b)) = jb_prevSN b"
      using Cons.prems(1) that by (simp_all add: streaming_def ordered_def)
    then have "\<exists>pkt \<in> S. pk_SequenceNumber pkt = jb_prevSN b"
      using Cons.prems(2) last_in_set by (auto simp: from_set_def)
    then show ?thesis using Cons.prems(3) by (auto simp: short_stream_def)
  qed
  have from_S: "case x of PushOp pkt at now \<Rightarrow> pkt \<in> S | _ \<Rightarrow> True" using Cons.prems(4) by (cases x) auto
  then have ok: ?ok using Cons.prems(3) prev below_withinRange by (auto simp: short_stream_def split: jb_op.splits)
  obtain b1 where b1: "jb_step x b = Some b1" "from_set S b1"
    using jb_step_source [OF Cons.prems(2) from_S] by blast
  have "one_stream ssrc [x] b" using ok b1 by simp
  from jb_step_streaming [OF Cons.prems(1) this b1(1)] b1(2) Cons
  have "one_stream ssrc xs b1" by simp
  with ok b1 show ?case by simp
qed simp

lemma deliver_single:
  assumes "jb_queue b = [n]" "nd_start n" "nd_end n"
  shows "deliver b = Some (after_deliver [n] [] b)"
proof -
  have "isComplete (jb_queue b)" using assms by simp
  then obtain ns ys where d: "jb_queue b = ns @ ys" "sample_nodes ns" "deliver b = Some (after_deliver ns ys b)"
    by (rule deliver_eq)
  then have "ns = [n]" "ys = []" using assms(1) by (cases ns; auto simp: sample_nodes_def)+
  with d(3) show ?thesis by simp
qed

text \<open>A packet alone in the queue that is next in sequence is delivered by the push itself.\<close>

lemma popReady_single:
  assumes "jb_queue b = [n]" "nd_start n" "nd_end n" "head_normal n b"
  shows "popReady now b = Some (after_deliver [n] [] b)"
proof -
  have "dropIncompleteExpired e b = b" for e
    using assms by (simp add: dropIncompleteExpired_def dropIncomplete_unfold)
  moreover have "popReady_loop e False b = Some (False, after_deliver [n] [] b)" for e
    using assms deliver_single [OF assms(1-3)]
    by (subst popReady_loop.simps) (simp add: popReady_loop.simps [of _ _ "after_deliver [n] [] b"])
  ultimately show ?thesis by (simp add: popReady_def resetTimer_def)
qed

definition played_out :: "u16 \<Rightarrow> jbuf \<Rightarrow> bool" where
  "played_out sn b \<longleftrightarrow> jb_queue b = [] \<and> (jb_initialized b \<longrightarrow> sn = jb_prevSN b + 1)"

lemma in_order_push:
  assumes s: "streaming d ssrc b" and q: "played_out (pk_SequenceNumber pkt) b" and p: "\<not> pk_Padding pkt" "pk_SSRC pkt = ssrc"
  shows "\<exists>b'. PushAt pkt at now b = Some b' \<and> streaming d ssrc b' \<and> played_out (pk_SequenceNumber pkt + 1) b' \<and>
    map ep_Packet (delivered b') = map ep_Packet (delivered b) @ [pkt]"
proof -
  let ?sn = "pk_SequenceNumber pkt"
  let ?b1 = "upd_js (\<lambda>s. s\<lparr>js_PacketsPushed := js_PacketsPushed s + 1\<rparr>) b"
  define b3 where "b3 = (if jb_hasSSRC b then ?b1 else ?b1\<lparr>jb_ssrc := ssrc, jb_hasSSRC := True\<rparr>)"
  have b3: "jb_queue b3 = []" "jb_initialized b3 = jb_initialized b" "jb_prevSN b3 = jb_prevSN b" "delivered b3 = delivered b"
    "jb_depacketizer b3 = d"
    using q s by (simp_all add: b3_def played_out_def delivered_def streaming_def)
  have push: "jb_push pkt at b = Some (push_accepted pkt at b3)"
    using s p by (auto simp: jb_push_def push_ssrc_def push_line_def streaming_def b3_def)
  have range: "jb_initialized b \<Longrightarrow> \<not> before ?sn (jb_prevSN b) \<and> withinRange ?sn (jb_prevSN b)"
    using q ahead_swap [of "jb_prevSN b" ?sn] ahead_1_iff [of "jb_prevSN b" ?sn]
    by (auto simp: played_out_def before_ahead withinRange_ahead)
  define n where "n = (newPacket d pkt at)\<lparr>nd_discont := \<not> jb_initialized b\<rparr>"
  define b4 where "b4 = b3\<lparr>jb_size := jb_size b3 + 1, jb_queue := [n]\<rparr>"
  have n: "nd_start n" "nd_end n" "nd_SN n = ?sn" "ep_Packet (nd_ext n) = pkt" "nd_Padding n = False"
    using p(1) by (simp_all add: n_def new_packet) (simp add: newPacket_def)
  have b4: "push_accepted pkt at b3 = b4"
  proof -
    have "\<not> (jb_initialized b \<and> before ?sn (jb_prevSN b))" using range by blast
    with b3 range show ?thesis by (auto simp: push_accepted_def enqueue_def Let_def b4_def n_def new_packet)
  qed
  have "head_normal n b4" using q b3 by (auto simp: head_normal_def n_def b4_def played_out_def new_packet)
  from popReady_single [OF _ n(1,2) this, of now] have r: "popReady now b4 = Some (after_deliver [n] [] b4)"
    by (simp add: b4_def)
  define b' where "b' = after_deliver [n] [] b4"
  have P: "PushAt pkt at now b = Some b'" using push r by (simp add: PushAt_def b4 b'_def) (simp add: b4_def)
  have "streaming d ssrc b'" using PushAt_streaming [OF s p _ P] range by blast
  moreover have "played_out (?sn + 1) b'" using n(3) by (simp add: played_out_def b'_def)
  moreover have "delivered b4 = delivered b" using b3 by (simp add: b4_def delivered_def)
  then have "map ep_Packet (delivered b') = map ep_Packet (delivered b) @ [pkt]"
    using n by (simp add: b'_def delivered_def)
  ultimately show ?thesis using P by blast
qed

lemma in_order_run:
  "streaming d ssrc b \<Longrightarrow> contiguous (map (pk_SequenceNumber \<circ> fst) xs) \<Longrightarrow>
    (xs \<noteq> [] \<Longrightarrow> played_out (pk_SequenceNumber (fst (hd xs))) b) \<Longrightarrow>
    list_all (\<lambda>x. \<not> pk_Padding (fst x) \<and> pk_SSRC (fst x) = ssrc) xs \<Longrightarrow>
    \<exists>b'. jb_run (map (\<lambda>(p, at, now). PushOp p at now) xs) b = Some b' \<and> streaming d ssrc b' \<and>
      (xs \<noteq> [] \<longrightarrow> jb_queue b' = []) \<and> map ep_Packet (delivered b') = map ep_Packet (delivered b) @ map fst xs"
proof (induction xs arbitrary: b)
  case (Cons x xs)
  obtain p at now where x: "x = (p, at, now)" by (cases x)
  have "played_out (pk_SequenceNumber p) b" "\<not> pk_Padding p" "pk_SSRC p = ssrc" using Cons.prems(3,4) x by simp_all
  from in_order_push [OF Cons.prems(1) this, of at now] obtain b1 where
    b1: "PushAt p at now b = Some b1" "streaming d ssrc b1" "played_out (pk_SequenceNumber p + 1) b1"
      "map ep_Packet (delivered b1) = map ep_Packet (delivered b) @ [p]" by blast
  have tail: "contiguous (map (pk_SequenceNumber \<circ> fst) xs)" using Cons.prems(2) by (cases xs) (auto simp: o_def)
  have nxt: "played_out (pk_SequenceNumber (fst (hd xs))) b1" if "xs \<noteq> []"
  proof -
    have "pk_SequenceNumber (fst (hd xs)) = pk_SequenceNumber p + 1" using Cons.prems(2) that by (cases xs) (simp_all add: x)
    with b1(3) show ?thesis by simp
  qed
  from Cons.IH [OF b1(2) tail nxt] Cons.prems(4) obtain b' where
    b': "jb_run (map (\<lambda>(p, at, now). PushOp p at now) xs) b1 = Some b'" "streaming d ssrc b'" "xs \<noteq> [] \<longrightarrow> jb_queue b' = []"
      "map ep_Packet (delivered b') = map ep_Packet (delivered b1) @ map fst xs" by auto
  have "jb_queue b' = []" using b'(1,3) b1(3) by (cases "xs = []") (simp_all add: played_out_def)
  with b' b1(1,4) x show ?case by (intro exI [of _ b']) simp
qed simp

lemma new_buffer_in_order:
  assumes "WithSequenceRestartDetection \<notin> set opts" "contiguous (map (pk_SequenceNumber \<circ> fst) xs)"
    "list_all (\<lambda>x. \<not> pk_Padding (fst x) \<and> pk_SSRC (fst x) = ssrc) xs"
  shows "\<exists>b. jb_run (map (\<lambda>(p, at, now). PushOp p at now) xs) (jb_NewBuffer d latency opts t0) = Some b \<and>
    jb_queue b = [] \<and> map ep_Packet (delivered b) = map fst xs \<and> js_PacketsLost (jb_stats b) = 0"
proof -
  have new: "jb_queue (jb_NewBuffer d latency opts t0) = []" "\<not> jb_initialized (jb_NewBuffer d latency opts t0)"
    "delivered (jb_NewBuffer d latency opts t0) = []"
    by (simp_all add: jb_NewBuffer_simps delivered_def)
  then have "played_out sn (jb_NewBuffer d latency opts t0)" for sn by (simp add: played_out_def)
  from in_order_run [OF new_buffer_streaming [OF assms(1)] assms(2) this assms(3)] obtain b where
    b: "jb_run (map (\<lambda>(p, at, now). PushOp p at now) xs) (jb_NewBuffer d latency opts t0) = Some b" "streaming d ssrc b"
      "xs \<noteq> [] \<longrightarrow> jb_queue b = []" "map ep_Packet (delivered b) = map fst xs"
    using new(3) by auto
  have "jb_queue b = []" using b(1,3) new(1) by (cases "xs = []") auto
  moreover have "map ep_SN (delivered b) = map (pk_SequenceNumber \<circ> fst) xs"
    using arg_cong [OF b(4), of "map pk_SequenceNumber"] by (simp add: o_def)
  then have "gaps (map ep_SN (delivered b)) = 0" using assms(2) gaps_contiguous by simp
  ultimately show ?thesis using b(1,2,4) by (auto simp: streaming_def ordered_def)
qed

end

end
