(* ===== verification/Rtp_Jitter.thy ===== *)
theory Rtp_Jitter
  imports Jitter_Source
begin

text \<open>
  The RTP handler of \<open>rtp/jitter.go\<close> that puts a jitter buffer in front of another handler.  The
  buffer's callback calls the next handler once per packet; an error it returns is kept in a channel of
  capacity one and given to the next caller of \<open>HandleRTP\<close>.
\<close>

section \<open>Definitions\<close>

definition audioDepacketizer :: depacketizer where
  "audioDepacketizer = \<lparr>IsPartitionHead = (\<lambda>payload. True), IsPartitionTail = (\<lambda>marker payload. True)\<rparr>"

definition audio_Unmarshal :: "bytes \<Rightarrow> bytes \<times> go_error option" where
  "audio_Unmarshal packet = (packet, None)"

definition jitterMaxLatency :: ns where
  "jitterMaxLatency = 60 * 1000000"

text \<open>
  \<open>jh_calls\<close> are the packets passed to the next handler, \<open>jh_err\<close> is the error channel.  \<open>nxt k pkt\<close>
  is what the next handler returns for the \<open>k\<close>th call.
\<close>

record jitterHandler =
  jh_buf :: jbuf
  jh_err :: "go_error option"
  jh_calls :: "rtp_packet list"
  jh_closed :: bool

definition HandleJitter :: "jb_option list \<Rightarrow> ns \<Rightarrow> jitterHandler" where
  "HandleJitter opts now =
     \<lparr>jh_buf = jb_NewBuffer audioDepacketizer jitterMaxLatency opts now, jh_err = None,
      jh_calls = [], jh_closed = False\<rparr>"

definition jh_handleRTP ::
  "(nat \<Rightarrow> rtp_packet \<Rightarrow> go_error option) \<Rightarrow> rtp_packet \<Rightarrow> jitterHandler \<Rightarrow> jitterHandler" where
  "jh_handleRTP nxt p r =
     (let res = nxt (length (jh_calls r)) p; r1 = r\<lparr>jh_calls := jh_calls r @ [p]\<rparr>
      in case res of None \<Rightarrow> r1
         | Some e \<Rightarrow> (if jh_err r1 = None then r1\<lparr>jh_err := Some e\<rparr> else r1))"

text \<open>The callback given to \<open>jitter.NewBuffer\<close>.\<close>

definition jh_onPacket ::
  "(nat \<Rightarrow> rtp_packet \<Rightarrow> go_error option) \<Rightarrow> ext_packet list \<Rightarrow> jitterHandler \<Rightarrow> jitterHandler" where
  "jh_onPacket nxt packets r = fold (\<lambda>e. jh_handleRTP nxt (ep_Packet e)) packets r"

text \<open>A call on the buffer makes the callbacks recorded in its log.\<close>

definition jh_callbacks ::
  "(nat \<Rightarrow> rtp_packet \<Rightarrow> go_error option) \<Rightarrow> jbuf \<Rightarrow> jitterHandler \<Rightarrow> jitterHandler" where
  "jh_callbacks nxt b r =
     (let r1 = fold (jh_onPacket nxt) (drop (length (jb_samples (jh_buf r))) (jb_samples b)) r
      in r1\<lparr>jh_buf := b\<rparr>)"

definition jh_HandleRTP ::
  "(nat \<Rightarrow> rtp_packet \<Rightarrow> go_error option) \<Rightarrow> rtp_packet \<Rightarrow> ns \<Rightarrow> ns \<Rightarrow> jitterHandler \<Rightarrow>
    (go_error option \<times> jitterHandler) option" where
  "jh_HandleRTP nxt pkt arrival now r = do {
     b \<leftarrow> jb_Push pkt arrival now (jh_buf r);
     let r1 = jh_callbacks nxt b r;
     Some (jh_err r1, r1\<lparr>jh_err := None\<rparr>) }"

definition jh_timer ::
  "(nat \<Rightarrow> rtp_packet \<Rightarrow> go_error option) \<Rightarrow> ns \<Rightarrow> jitterHandler \<Rightarrow> jitterHandler option" where
  "jh_timer nxt now r = do { b \<leftarrow> timer_fired now (jh_buf r); Some (jh_callbacks nxt b r) }"

definition jh_Close ::
  "(nat \<Rightarrow> rtp_packet \<Rightarrow> go_error option) \<Rightarrow> jitterHandler \<Rightarrow> jitterHandler option" where
  "jh_Close nxt r = do {
     b \<leftarrow> jb_Close (jh_buf r);
     Some ((jh_callbacks nxt b r)\<lparr>jh_closed := True\<rparr>) }"

section \<open>The depacketizer of audio\<close>

interpretation audio: whole_packets audioDepacketizer
  by unfold_locales (simp_all add: audioDepacketizer_def)

section \<open>Calls of the next handler\<close>

datatype jh_op = JhPacket rtp_packet ns ns | JhTimer ns | JhClose

fun jh_step ::
  "(nat \<Rightarrow> rtp_packet \<Rightarrow> go_error option) \<Rightarrow> jh_op \<Rightarrow> jitterHandler \<Rightarrow> (go_error option \<times> jitterHandler) option" where
  "jh_step nxt (JhPacket pkt arrival now) r = jh_HandleRTP nxt pkt arrival now r"
| "jh_step nxt (JhTimer now) r = do { r1 \<leftarrow> jh_timer nxt now r; Some (None, r1) }"
| "jh_step nxt JhClose r = do { r1 \<leftarrow> jh_Close nxt r; Some (None, r1) }"

fun jh_run ::
  "(nat \<Rightarrow> rtp_packet \<Rightarrow> go_error option) \<Rightarrow> jh_op list \<Rightarrow> jitterHandler \<Rightarrow>
    (go_error option list \<times> jitterHandler) option" where
  "jh_run nxt [] r = Some ([], r)"
| "jh_run nxt (x # xs) r =
     do { (e, r1) \<leftarrow> jh_step nxt x r; (es, r2) \<leftarrow> jh_run nxt xs r1; Some (e # es, r2) }"

fun jh_buf_op :: "jh_op \<Rightarrow> jb_op" where
  "jh_buf_op (JhPacket pkt arrival now) = PushOp pkt arrival now"
| "jh_buf_op (JhTimer now) = TimerOp now"
| "jh_buf_op JhClose = CloseOp"

text \<open>The samples of a buffer only grow.\<close>

interpretation grows: jb_stable "\<lambda>b. \<exists>es. jb_samples b = l @ es" for l
  by unfold_locales (auto simp: jb_view_def)

lemma push_accepted_samples: "jb_samples (push_accepted pkt at b) = jb_samples b"
proof -
  have "jb_samples (search_result r pkt c) = jb_samples c" for r c
    by (simp add: search_result_def free_def split: insertion.split)
  then show ?thesis by (simp add: push_accepted_def enqueue_def Let_def)
qed

lemma jb_step_grows:
  assumes "jb_step x b = Some b'"
  shows "\<exists>es. jb_samples b' = jb_samples b @ es"
proof (cases x)
  case (PushOp pkt at now)
  with assms obtain b1 where p: "jb_push pkt at b = Some b1" "b' = b1 \<or> popReady now b1 = Some b'"
    by (auto simp: PushAt_def split: Option.bind_splits if_splits)
  have "\<exists>es. jb_samples (upd_js (\<lambda>s. s\<lparr>js_PacketsPushed := js_PacketsPushed s + 1\<rparr>) b) = jb_samples b @ es"
    by simp
  from grows.push_cases [OF this, of pkt at] p(1) have "\<exists>es. jb_samples b1 = jb_samples b @ es"
    by (auto simp: push_accepted_samples)
  with p(2) grows.popReady_keeps [of b1 "jb_samples b" now] show ?thesis by auto
next
  case (TimerOp now)
  with assms grows.rest_keeps(4) [of b "jb_samples b" now] show ?thesis by auto
next
  case (LatencyOp l)
  with assms grows.rest_keeps(1) [of b "jb_samples b" l] show ?thesis by auto
next
  case FlushOp
  with assms grows.rest_keeps(2) [of b "jb_samples b"] show ?thesis by auto
next
  case CloseOp
  with assms grows.rest_keeps(3) [of b "jb_samples b"] show ?thesis by auto
next
  case (PopOp now)
  with assms grows.rest_keeps(8) [of b "jb_samples b" now] show ?thesis by auto
next
  case (ReceiveOp now)
  with assms grows.rest_keeps(7) [of b "jb_samples b" now] show ?thesis by auto
qed (use assms grows.rest_keeps(5,6,9) [of b "jb_samples b"] in auto)

section \<open>Forwarding\<close>

text \<open>
  The error channel after calls that returned \<open>es\<close>: it keeps what it held, else the first error.
\<close>

definition first_error :: "go_error option list \<Rightarrow> go_error option" where
  "first_error es = (case filter (\<lambda>e. e \<noteq> None) es of [] \<Rightarrow> None | e # _ \<Rightarrow> e)"

lemma first_error_simps [simp]:
  "first_error [] = None"
  "first_error (e # es) = (if e = None then first_error es else e)"
  by (auto simp: first_error_def)

text \<open>What the next handler answers to the packets \<open>ps\<close>, starting with its \<open>k\<close>th call.\<close>

fun answers :: "(nat \<Rightarrow> rtp_packet \<Rightarrow> go_error option) \<Rightarrow> nat \<Rightarrow> rtp_packet list \<Rightarrow> go_error option list" where
  "answers nxt k [] = []"
| "answers nxt k (p # ps) = nxt k p # answers nxt (Suc k) ps"

lemma answers_append: "answers nxt k (xs @ ys) = answers nxt k xs @ answers nxt (k + length xs) ys"
  by (induction xs arbitrary: k) auto

lemma onPacket_eq:
  "jh_onPacket nxt es r =
     r\<lparr>jh_calls := jh_calls r @ map ep_Packet es,
       jh_err := first_error (jh_err r # answers nxt (length (jh_calls r)) (map ep_Packet es))\<rparr>"
proof (induction es arbitrary: r)
  case Nil
  then show ?case by (simp add: jh_onPacket_def)
next
  case (Cons e es)
  have "jh_onPacket nxt (e # es) r = jh_onPacket nxt es (jh_handleRTP nxt (ep_Packet e) r)"
    by (simp add: jh_onPacket_def)
  also have "\<dots> = r\<lparr>jh_calls := jh_calls r @ map ep_Packet (e # es),
       jh_err := first_error (jh_err r # answers nxt (length (jh_calls r)) (map ep_Packet (e # es)))\<rparr>"
    unfolding Cons.IH by (simp add: jh_handleRTP_def Let_def split: option.split)
  finally show ?case .
qed

lemma first_error_append: "first_error (first_error xs # ys) = first_error (xs @ ys)"
  by (induction xs) auto

lemma fold_onPacket_eq:
  "fold (jh_onPacket nxt) ss r =
     r\<lparr>jh_calls := jh_calls r @ map ep_Packet (concat ss),
       jh_err := first_error (jh_err r # answers nxt (length (jh_calls r)) (map ep_Packet (concat ss)))\<rparr>"
proof (induction ss arbitrary: r)
  case (Cons s ss)
  let ?E = "jh_err r # answers nxt (length (jh_calls r)) (map ep_Packet s)"
  show ?case unfolding fold_Cons o_apply
    unfolding Cons.IH unfolding onPacket_eq
    using first_error_append [of ?E] by (simp add: answers_append)
qed simp

text \<open>The next handler has been given exactly what the buffer delivered.\<close>

definition forwarded :: "jitterHandler \<Rightarrow> bool" where
  "forwarded r \<longleftrightarrow> jh_calls r = map ep_Packet (delivered (jh_buf r))"

lemma callbacks_eq:
  assumes "forwarded r" "jb_step x (jh_buf r) = Some b"
  defines "new \<equiv> map ep_Packet (concat (drop (length (jb_samples (jh_buf r))) (jb_samples b)))"
  shows "jh_callbacks nxt b r = r\<lparr>jh_calls := jh_calls r @ new, jh_buf := b,
      jh_err := first_error (jh_err r # answers nxt (length (jh_calls r)) new)\<rparr> \<and>
    forwarded (jh_callbacks nxt b r)"
proof -
  from jb_step_grows [OF assms(2)] obtain es where "jb_samples b = jb_samples (jh_buf r) @ es" by blast
  then show ?thesis using assms(1)
    by (simp add: jh_callbacks_def fold_onPacket_eq new_def forwarded_def delivered_def Let_def)
qed

lemma jh_step_forwards:
  assumes "forwarded r" "jb_step (jh_buf_op x) (jh_buf r) = Some b"
  shows "\<exists>e r' new. jh_step nxt x r = Some (e, r') \<and> jh_buf r' = b \<and> forwarded r' \<and>
    jh_calls r' = jh_calls r @ new \<and>
    (case x of JhPacket _ _ _ \<Rightarrow> [e, jh_err r'] | _ \<Rightarrow> [jh_err r', e]) =
      [first_error (jh_err r # answers nxt (length (jh_calls r)) new), None]"
proof (cases x)
  case (JhPacket pkt arrival now)
  with callbacks_eq [OF assms, of nxt] assms(2) show ?thesis
    by (auto simp: jh_HandleRTP_def jb_Push_def forwarded_def Let_def)
next
  case (JhTimer now)
  with callbacks_eq [OF assms, of nxt] assms(2) show ?thesis
    by (auto simp: jh_timer_def forwarded_def)
next
  case JhClose
  with callbacks_eq [OF assms, of nxt] assms(2) show ?thesis
    by (auto simp: jh_Close_def forwarded_def)
qed

lemma jh_run_forwards:
  "forwarded r \<Longrightarrow> jb_run (map jh_buf_op ops) (jh_buf r) = Some b \<Longrightarrow>
    \<exists>es r'. jh_run nxt ops r = Some (es, r') \<and> jh_buf r' = b \<and> forwarded r'"
proof (induction ops arbitrary: r)
  case (Cons x xs)
  from Cons.prems(2) obtain b1 where b1: "jb_step (jh_buf_op x) (jh_buf r) = Some b1"
    "jb_run (map jh_buf_op xs) b1 = Some b" by (auto split: Option.bind_splits)
  from jh_step_forwards [OF Cons.prems(1) b1(1), of nxt] obtain e r1 where
    r1: "jh_step nxt x r = Some (e, r1)" "jh_buf r1 = b1" "forwarded r1" by blast
  with Cons.IH [of r1] b1(2) show ?case by auto
qed auto

section \<open>Properties\<close>

text \<open>
  C5: audio comes out in order and every gap is counted.  When the packets of one audio stream arrive in
  any order, none further than 3000 from the last packet played, the buffer delivers packets one by
  one, each after the previous one by less than 3000, and \<open>PacketsLost\<close> is exactly the number of
  sequence numbers missing between the packets delivered.
\<close>

theorem audio_jitter_in_order:
  assumes "WithSequenceRestartDetection \<notin> set opts"
    and "one_stream ssrc ops (jb_NewBuffer audioDepacketizer latency opts t0)"
  shows "\<exists>b. jb_run ops (jb_NewBuffer audioDepacketizer latency opts t0) = Some b \<and>
    (\<forall>s \<in> set (jb_samples b). length s = 1) \<and>
    successively follows (map ep_SN (delivered b)) \<and>
    js_PacketsLost (jb_stats b) = of_nat (gaps (map ep_SN (delivered b)))"
  using assms by (rule audio.stream_in_order)

definition audio_ops :: "jb_op list" where
  "audio_ops = [PushOp (sample_packet 65535) 0 0, PushOp (sample_packet 2) 5 5,
     PushOp (sample_packet 1) 6 6, PushOp (sample_packet 1) 7 7, TimerOp 26]"

lemma audio_ops_stream:
  "one_stream 7 audio_ops (jb_NewBuffer audioDepacketizer 20 [] 0)"
  by code_simp

lemma audio_ops_delivered:
  "case jb_run audio_ops (jb_NewBuffer audioDepacketizer 20 [] 0) of None \<Rightarrow> False
   | Some b \<Rightarrow> map ep_SN (delivered b) = [65535, 1, 2]"
  by code_simp

theorem audio_jitter_in_order_witness:
  "\<exists>b. jb_run audio_ops (jb_NewBuffer audioDepacketizer 20 [] 0) = Some b \<and>
    map ep_SN (delivered b) = [65535, 1, 2] \<and> js_PacketsLost (jb_stats b) = 1"
proof -
  have "\<exists>b. jb_run audio_ops (jb_NewBuffer audioDepacketizer 20 [] 0) = Some b \<and>
      js_PacketsLost (jb_stats b) = of_nat (gaps (map ep_SN (delivered b)))"
    using audio_jitter_in_order [OF _ audio_ops_stream] by auto
  moreover have "gaps [65535, 1, 2] = 1" by code_simp
  ultimately show ?thesis using audio_ops_delivered by (auto split: option.splits)
qed

text \<open>
  C18: in order, nothing waits.  Packets of one audio stream that arrive in sequence, through any number of
  wrap-arounds, are each delivered by the very push that brings them, whatever the latency and the
  clock: after any number of them the buffer has delivered all of them, its queue is empty and no packet
  was counted as lost.
\<close>

theorem audio_in_order_no_delay:
  assumes "WithSequenceRestartDetection \<notin> set opts" "contiguous (map (pk_SequenceNumber \<circ> fst) xs)"
    and "list_all (\<lambda>x. \<not> pk_Padding (fst x) \<and> pk_SSRC (fst x) = ssrc) xs"
  shows "\<exists>b. jb_run (map (\<lambda>(p, at, now). PushOp p at now) xs) (jb_NewBuffer audioDepacketizer latency opts t0) = Some b \<and>
    jb_queue b = [] \<and> map ep_Packet (delivered b) = map fst xs \<and> js_PacketsLost (jb_stats b) = 0"
  using assms by (rule audio.new_buffer_in_order)

theorem audio_in_order_no_delay_witness:
  "\<exists>b. jb_run [PushOp (sample_packet 65535) 5 5, PushOp (sample_packet 0) 3 3] (jb_NewBuffer audioDepacketizer 20 [] 0) = Some b \<and>
    map ep_Packet (delivered b) = [sample_packet 65535, sample_packet 0]"
  using audio_in_order_no_delay [of "[]" "[(sample_packet 65535, 5, 5), (sample_packet 0, 3, 3)]" 7 20 0]
  by (auto simp: sample_packet_def)

text \<open>
  The jitter handler forwards exactly what its buffer delivers.  Whatever sequence of packets, timer
  events and closes it sees and whatever the next handler answers, no call panics, and the calls of the
  next handler are the packets of the samples delivered by a jitter buffer with the audio depacketizer
  and a latency of 60ms, in the same order.
\<close>

theorem jitterHandler_forwards:
  "\<exists>es r. jh_run nxt ops (HandleJitter opts t0) = Some (es, r) \<and>
    jb_run (map jh_buf_op ops) (jb_NewBuffer audioDepacketizer 60000000 opts t0) = Some (jh_buf r) \<and>
    jh_calls r = map ep_Packet (concat (jb_samples (jh_buf r)))"
proof -
  from jb_run_ok [OF jb_NewBuffer_ok, of "map jh_buf_op ops" audioDepacketizer 60000000 opts t0]
  obtain b where b: "jb_run (map jh_buf_op ops) (jb_NewBuffer audioDepacketizer 60000000 opts t0) = Some b"
    by blast
  have "forwarded (HandleJitter opts t0)" "jh_buf (HandleJitter opts t0) = jb_NewBuffer audioDepacketizer 60000000 opts t0"
    by (simp_all add: forwarded_def delivered_def HandleJitter_def jb_NewBuffer_simps jitterMaxLatency_def)
  with jh_run_forwards [of "HandleJitter opts t0" ops b nxt] b show ?thesis
    by (auto simp: forwarded_def delivered_def)
qed

end
