(* ===== verification/Jitter_Vote.thy ===== *)
theory Jitter_Vote
  imports Jitter_Run
begin

text \<open>
  When the line vote of \<open>jitter/lines.go\<close> accepts a packet: a stream that stays on its line is never
  disturbed, and another line takes over exactly when the playing one went quiet or was outnumbered two
  to one.
\<close>

section \<open>A steady line\<close>

fun accept_all :: "(u16 \<times> ns) list \<Rightarrow> jbuf \<Rightarrow> (bool list \<times> jbuf) option" where
  "accept_all [] b = Some ([], b)"
| "accept_all ((sn, at) # xs) b =
     do { (r, b1) \<leftarrow> acceptLine sn at b; (rs, b2) \<leftarrow> accept_all xs b1; Some (r # rs, b2) }"

text \<open>Every packet is within 50 ahead or 100 behind of the highest so far.\<close>

fun steady :: "seqLine \<Rightarrow> (u16 \<times> ns) list \<Rightarrow> bool" where
  "steady l [] = True"
| "steady l ((sn, at) # xs) \<longleftrightarrow>
     (sl_ok l \<longrightarrow> ahead (sl_high l) sn \<le> 50 \<or> ahead sn (sl_high l) \<le> 100) \<and>
     steady (line_add sn at l) xs"

lemma steady_fits:
  "steady l ((sn, at) # xs) \<longleftrightarrow> (sl_ok l \<longrightarrow> line_fits l sn) \<and> steady (line_add sn at l) xs"
  by (simp add: line_fits_ahead)

lemma acceptLine_steady:
  assumes "\<not> sl_ok (lv_alt (jb_lines b))" "sl_ok (lv_cur (jb_lines b)) \<longrightarrow> line_fits (lv_cur (jb_lines b)) sn"
  shows "acceptLine sn at b =
    Some (True, b\<lparr>jb_lines := (jb_lines b)\<lparr>lv_cur := line_add sn at (lv_cur (jb_lines b))\<rparr>\<rparr>)"
  using assms by (auto simp: acceptLine_def line_continues_ahead Let_def)

lemma accept_all_steady:
  "\<not> sl_ok (lv_alt (jb_lines b)) \<Longrightarrow> steady (lv_cur (jb_lines b)) xs \<Longrightarrow>
    \<exists>cur. accept_all xs b =
      Some (replicate (length xs) True, b\<lparr>jb_lines := (jb_lines b)\<lparr>lv_cur := cur\<rparr>\<rparr>)"
proof (induction xs arbitrary: b)
  case Nil
  show ?case by (rule exI [of _ "lv_cur (jb_lines b)"]) simp
next
  case (Cons x xs)
  obtain sn at where x: "x = (sn, at)" by (cases x)
  let ?b = "b\<lparr>jb_lines := (jb_lines b)\<lparr>lv_cur := line_add sn at (lv_cur (jb_lines b))\<rparr>\<rparr>"
  have a: "acceptLine sn at b = Some (True, ?b)"
    using Cons.prems unfolding x by (intro acceptLine_steady) (auto simp: line_fits_ahead)
  from Cons.IH [of ?b] Cons.prems obtain cur where
    "accept_all xs ?b = Some (replicate (length xs) True, ?b\<lparr>jb_lines := (jb_lines ?b)\<lparr>lv_cur := cur\<rparr>\<rparr>)"
    by (auto simp: x)
  with a show ?case by (auto simp: x)
qed

section \<open>Another line\<close>

text \<open>The packet does not continue the playing line.\<close>

definition foreign :: "u16 \<Rightarrow> lineVote \<Rightarrow> bool" where
  "foreign sn v \<longleftrightarrow> sl_ok (lv_cur v) \<and>
     \<not> (line_fits (lv_cur v) sn \<and> \<not> line_continues (lv_alt v) sn (sl_high (lv_cur v)))"

text \<open>The alternate line once the packet is on it.\<close>

definition alt_with :: "u16 \<Rightarrow> ns \<Rightarrow> lineVote \<Rightarrow> seqLine" where
  "alt_with sn at v = line_add sn at (if line_fits (lv_alt v) sn then lv_alt v else line_reset (lv_alt v))"

definition arrivals_within :: "ns \<Rightarrow> ns \<Rightarrow> seqLine \<Rightarrow> nat" where
  "arrivals_within now window l = length (filter (\<lambda>t. now - t \<le> window) (sl_at l))"

text \<open>
  The rule: the playing line has been silent for 60ms, unless the alternate one has run beside it for a
  second; or the alternate one has at least five packets and twice those of the playing one in the last
  300ms, or in the last second when it runs in parallel.
\<close>

definition wins :: "ns \<Rightarrow> seqLine \<Rightarrow> seqLine \<Rightarrow> bool" where
  "wins at cur alt \<longleftrightarrow>
     (let parallel = sl_lastAt cur - sl_first alt \<ge> 1000000000;
          window = (if parallel then 1000000000 else 300000000)
      in \<not> parallel \<and> at - sl_lastAt cur \<ge> 60000000 \<or>
         arrivals_within at window alt \<ge> 5 \<and>
         arrivals_within at window alt \<ge> 2 * arrivals_within at window cur)"

lemma line_takeover_wins:
  assumes "sorted (sl_at (lv_cur v))" "sorted (sl_at (lv_alt v))"
  shows "\<exists>q v1. line_takeover at v = ((wins at (lv_cur v) (lv_alt v), q), v1) \<and>
    sl_high (lv_alt v1) = sl_high (lv_alt v) \<and> sl_ok (lv_alt v1) = sl_ok (lv_alt v) \<and>
    sl_high (lv_cur v1) = sl_high (lv_cur v)"
proof -
  note w = line_count_window [OF assms(1)] line_count_window [OF assms(2)]
  obtain cur alt where v: "v = \<lparr>lv_cur = cur, lv_alt = alt\<rparr>" by (cases v)
  show ?thesis using w unfolding v
    by (auto simp: line_takeover_def wins_def arrivals_within_def line_consts Let_def split_beta)
qed

lemma acceptLine_foreign:
  assumes ok: "jb_ok k b" and f: "foreign sn (jb_lines b)"
    and s: "sorted (sl_at (lv_cur (jb_lines b)))" "sorted (sl_at (lv_alt (jb_lines b)) @ [at])"
  defines "alt \<equiv> alt_with sn at (jb_lines b)"
  shows "\<exists>b'. acceptLine sn at b = Some (wins at (lv_cur (jb_lines b)) alt, b') \<and>
    (\<not> wins at (lv_cur (jb_lines b)) alt \<longrightarrow> b' = b\<lparr>jb_lines := jb_lines b'\<rparr>) \<and>
    (wins at (lv_cur (jb_lines b)) alt \<longrightarrow>
       sl_high (lv_cur (jb_lines b')) = sl_high alt \<and> sl_ok (lv_cur (jb_lines b')) \<and>
       \<not> sl_ok (lv_alt (jb_lines b')) \<and>
       (jb_queue b' = [] \<and> \<not> jb_initialized b' \<or>
        jb_queue b' = jb_queue b \<and> follows (sl_high (lv_cur (jb_lines b))) sn))"
proof -
  let ?v = "(jb_lines b)\<lparr>lv_alt := alt\<rparr>" and ?cur = "lv_cur (jb_lines b)"
  have sa: "sorted (sl_at (lv_alt ?v))" "sorted (sl_at (lv_cur ?v))"
    using s by (auto simp: alt_def alt_with_def)
  from line_takeover_wins [OF sa(2,1), of at] obtain q v1 where
    t: "line_takeover at ?v = ((wins at ?cur alt, q), v1)"
      "sl_high (lv_alt v1) = sl_high alt" "sl_ok (lv_alt v1)" "sl_high (lv_cur v1) = sl_high ?cur"
    by (auto simp: alt_def alt_with_def)
  let ?ahead = "before (sl_high ?cur) sn \<and> withinRange sn (sl_high ?cur)"
  have alt: "line_add sn at (if \<not> line_fits (lv_alt (jb_lines b)) sn
      then line_reset (lv_alt (jb_lines b)) else lv_alt (jb_lines b)) = alt"
    by (simp add: alt_def alt_with_def)
  have ne: "?ahead \<Longrightarrow> wins at ?cur alt \<Longrightarrow> sl_high ?cur \<noteq> sn"
    using f by (auto simp: foreign_def line_fits_ahead line_continues_ahead)
  have acc: "acceptLine sn at b =
    (if \<not> wins at ?cur alt then Some (False, b\<lparr>jb_lines := v1\<rparr>)
     else do {
       b1 \<leftarrow> (if \<not> ?ahead then resetStream b else Some b);
       let b2 = (if \<not> q \<or> \<not> ?ahead
                 then notifyStats (upd_js (\<lambda>s. s\<lparr>js_SequenceRestarts := js_SequenceRestarts s + 1\<rparr>) b1)
                 else b1);
       Some (True, b2\<lparr>jb_lines := \<lparr>lv_cur = lv_alt v1, lv_alt = line_reset (lv_cur v1)\<rparr>\<rparr>) })"
    using f unfolding acceptLine_def Let_def alt t(1) by (auto simp: foreign_def t(4))
  show ?thesis
  proof (cases "wins at ?cur alt")
    case False
    then show ?thesis unfolding acc by simp
  next
    case True
    show ?thesis
    proof (cases ?ahead)
      case True
      with ne [OF True \<open>wins at ?cur alt\<close>] have "follows (sl_high ?cur) sn"
        using follows_before(3) by blast
      with True \<open>wins at ?cur alt\<close> t show ?thesis unfolding acc by (simp add: Let_def)
    next
      case nah: False
      from ok.resetStream_keeps [OF ok] obtain b1 where "resetStream b = Some b1" "jb_queue b1 = []" by blast
      moreover from this have "\<not> jb_initialized b1" by (auto simp: resetStream_def split: Option.bind_splits)
      ultimately show ?thesis using nah True t unfolding acc by (simp add: Let_def)
    qed
  qed
qed

section \<open>Properties\<close>

text \<open>
  A stream that stays on its line is never disturbed by the restart detection: while no other line
  was seen and every packet is at most 50 ahead or 100 behind of the highest sequence number so far,
  all packets are accepted and nothing but the line's bookkeeping changes.
\<close>

theorem steady_line_accepted:
  assumes "\<not> sl_ok (lv_alt (jb_lines b))" "steady (lv_cur (jb_lines b)) xs"
  shows "\<exists>cur. accept_all xs b =
    Some (replicate (length xs) True, b\<lparr>jb_lines := (jb_lines b)\<lparr>lv_cur := cur\<rparr>\<rparr>)"
  using accept_all_steady [OF assms] .

theorem steady_line_accepted_witness:
  "\<exists>cur. accept_all [(65530, 0), (10, 20), (65535, 25)] (jb_NewBuffer sample_depacketizer 20 [] 0) =
    Some ([True, True, True], (jb_NewBuffer sample_depacketizer 20 [] 0)
      \<lparr>jb_lines := no_lines\<lparr>lv_cur := cur\<rparr>\<rparr>)"
proof -
  let ?b = "jb_NewBuffer sample_depacketizer 20 [] 0"
  have l: "jb_lines ?b = no_lines" by (simp add: jb_NewBuffer_def)
  have a: "\<not> sl_ok (lv_alt (jb_lines ?b))" by (simp add: l no_lines_def no_line_def)
  have c: "steady (lv_cur (jb_lines ?b)) [(65530, 0), (10, 20), (65535, 25)]"
    unfolding steady_fits steady.simps(1) by code_simp
  have "replicate (length [(65530::u16, 0::ns), (10, 20), (65535, 25)]) True = [True, True, True]" by simp
  with steady_line_accepted [OF a c] show ?thesis unfolding l by (simp only:)
qed

text \<open>
  C27: when another sequence line takes over.  A packet that does not continue the playing line is
  accepted exactly when its line wins by the rule (silence of the playing line, or twice its packets).
  A rejected packet leaves the whole buffer but the vote's bookkeeping as it was.  An accepted one makes
  its line the playing one, and unless it is just ahead of the old line, what was buffered is flushed
  and the sequence tracking cleared.
\<close>

theorem line_vote_decides:
  assumes "jb_run ops (jb_NewBuffer d latency opts t0) = Some b" "foreign sn (jb_lines b)"
    and "sorted (sl_at (lv_cur (jb_lines b)))" "sorted (sl_at (lv_alt (jb_lines b)) @ [at])"
  shows "\<exists>b'. acceptLine sn at b = Some (wins at (lv_cur (jb_lines b)) (alt_with sn at (jb_lines b)), b') \<and>
    (\<not> wins at (lv_cur (jb_lines b)) (alt_with sn at (jb_lines b)) \<longrightarrow> b' = b\<lparr>jb_lines := jb_lines b'\<rparr>) \<and>
    (wins at (lv_cur (jb_lines b)) (alt_with sn at (jb_lines b)) \<longrightarrow>
       sl_high (lv_cur (jb_lines b')) = sl_high (alt_with sn at (jb_lines b)) \<and>
       sl_ok (lv_cur (jb_lines b')) \<and> \<not> sl_ok (lv_alt (jb_lines b')) \<and>
       (jb_queue b' = [] \<and> \<not> jb_initialized b' \<or>
        jb_queue b' = jb_queue b \<and> follows (sl_high (lv_cur (jb_lines b))) sn))"
proof -
  from jb_run_ok [OF jb_NewBuffer_ok, of ops d latency opts t0] assms(1) obtain k where "jb_ok k b" by auto
  from acceptLine_foreign [OF this assms(2-4)] show ?thesis .
qed

definition vote_run :: "jb_op list" where
  "vote_run = [PushOp (sample_packet 100) 0 0, PushOp (sample_packet 30000) 5000000 5000000]"

lemma vote_run_lines:
  "case jb_run vote_run (jb_NewBuffer sample_depacketizer 60000000 [WithSequenceRestartDetection] 0) of
     None \<Rightarrow> False
   | Some b \<Rightarrow> foreign 30001 (jb_lines b) \<and> sl_at (lv_cur (jb_lines b)) = [0] \<and>
       sl_at (lv_alt (jb_lines b)) = [5000000] \<and>
       wins 60000000 (lv_cur (jb_lines b)) (alt_with 30001 60000000 (jb_lines b)) \<and>
       \<not> wins 25000000 (lv_cur (jb_lines b)) (alt_with 30001 25000000 (jb_lines b))"
  by code_simp

theorem line_vote_decides_witness:
  "\<exists>b b1 b2. jb_run vote_run (jb_NewBuffer sample_depacketizer 60000000 [WithSequenceRestartDetection] 0) = Some b \<and>
    acceptLine 30001 25000000 b = Some (False, b1) \<and> acceptLine 30001 60000000 b = Some (True, b2)"
proof -
  from vote_run_lines obtain b where b:
    "jb_run vote_run (jb_NewBuffer sample_depacketizer 60000000 [WithSequenceRestartDetection] 0) = Some b"
    "foreign 30001 (jb_lines b)" "sl_at (lv_cur (jb_lines b)) = [0]"
    "sl_at (lv_alt (jb_lines b)) = [5000000]"
    "wins 60000000 (lv_cur (jb_lines b)) (alt_with 30001 60000000 (jb_lines b))"
    "\<not> wins 25000000 (lv_cur (jb_lines b)) (alt_with 30001 25000000 (jb_lines b))"
    by (auto split: option.splits)
  from line_vote_decides [OF b(1,2), of 25000000] line_vote_decides [OF b(1,2), of 60000000] b
  show ?thesis by auto
qed

end
