(* ===== verification/Media_Writers.thy ===== *)
theory Media_Writers
  imports Media_Prelude
begin

text \<open>
  The writer combinators of \<open>media.go\<close> and the in-memory writers of \<open>pcm.go\<close> and \<open>buffers.go\<close>.  A
  downstream \<open>Writer\<close> of state \<open>'w\<close> is the two functions a combinator calls on it: \<open>wr sample w\<close>
  (\<open>WriteSample\<close>) and \<open>cl w\<close> (\<open>Close\<close>), each with the error it returns and the writer after it.
\<close>

type_synonym ('a, 'w) write_fn = "'a \<Rightarrow> 'w \<Rightarrow> go_error option \<times> 'w"
type_synonym 'w close_fn = "'w \<Rightarrow> go_error option \<times> 'w"

section \<open>In-memory writers\<close>

text \<open>
  \<open>NewFrameWriter\<close>: the frames behind the caller's pointer.  A sample rate is the writer's only other
  field, so a constructor returns it beside the frames.
\<close>

definition NewFrameWriter :: "'a list \<Rightarrow> int \<Rightarrow> 'a list \<times> int" where
  "NewFrameWriter buf sampleRate = (buf, sampleRate)"

definition NewPCM16FrameWriter :: "pcm16 list \<Rightarrow> int \<Rightarrow> pcm16 list \<times> int" where
  "NewPCM16FrameWriter buf sampleRate = NewFrameWriter buf sampleRate"

definition frameWriter_SampleRate :: "'a list \<times> int \<Rightarrow> int" where
  "frameWriter_SampleRate w = snd w"

definition frameWriter_WriteSample :: "('a, 'a list) write_fn" where
  "frameWriter_WriteSample data buf = (None, buf @ [data])"

definition frameWriter_Close :: "'a list close_fn" where
  "frameWriter_Close buf = (None, buf)"

text \<open>\<open>NewPCM16BufferWriter\<close>: \<open>bw_open\<close> is whether the pointer to the caller's slice is still set.\<close>

record bufferWriterPCM16 =
  bw_open :: bool
  bw_buf :: pcm16
  bw_sampleRate :: int

text \<open>The constructor is given a pointer, which may be nil: then it panics.\<close>

definition NewPCM16BufferWriter :: "pcm16 option \<Rightarrow> int \<Rightarrow> bufferWriterPCM16 option" where
  "NewPCM16BufferWriter buf sampleRate =
     (case buf of None \<Rightarrow> None | Some b \<Rightarrow> Some \<lparr>bw_open = True, bw_buf = b, bw_sampleRate = sampleRate\<rparr>)"

definition bufferWriter_SampleRate :: "bufferWriterPCM16 \<Rightarrow> int" where
  "bufferWriter_SampleRate b = bw_sampleRate b"

definition bufferWriter_WriteSample :: "(pcm16, bufferWriterPCM16) write_fn" where
  "bufferWriter_WriteSample data b = (None, if bw_open b then b\<lparr>bw_buf := bw_buf b @ data\<rparr> else b)"

definition bufferWriter_Close :: "bufferWriterPCM16 close_fn" where
  "bufferWriter_Close b = (None, b\<lparr>bw_open := False\<rparr>)"

text \<open>\<open>NewPCM16BufferReader\<close>: the count, the caller's slice after the call, and the rest.\<close>

definition NewPCM16BufferReader :: "pcm16 \<Rightarrow> pcm16" where
  "NewPCM16BufferReader buf = buf"

definition bufferReader_ReadSample :: "pcm16 \<Rightarrow> pcm16 \<Rightarrow> (nat \<times> go_error option) \<times> pcm16 \<times> pcm16" where
  "bufferReader_ReadSample data buf =
     (let (n, data1) = go_copy data buf in ((n, None), data1, drop n buf))"

section \<open>Adapters\<close>

text \<open>\<open>NopCloser\<close> keeps the writer and answers \<open>Close\<close> itself; \<open>NewFuncWriteCloser\<close> calls a function.\<close>

definition NopCloser :: "'w \<Rightarrow> 'w" where
  "NopCloser w = w"

definition writeCloser_Close :: "'w close_fn" where
  "writeCloser_Close w = (None, w)"

record ('a, 's) funcWriteCloser =
  fwc_rate :: int
  fwc_fn :: "('a, 's) write_fn"

definition NewFuncWriteCloser :: "int \<Rightarrow> ('a, 's) write_fn \<Rightarrow> ('a, 's) funcWriteCloser" where
  "NewFuncWriteCloser rate f = \<lparr>fwc_rate = rate, fwc_fn = f\<rparr>"

definition funcWriteCloser_SampleRate :: "('a, 's) funcWriteCloser \<Rightarrow> int" where
  "funcWriteCloser_SampleRate w = fwc_rate w"

definition funcWriteCloser_WriteSample :: "('a, 's) funcWriteCloser \<Rightarrow> ('a, 's) write_fn" where
  "funcWriteCloser_WriteSample w sample s = fwc_fn w sample s"

definition funcWriteCloser_Close :: "('a, 's) funcWriteCloser \<Rightarrow> 's close_fn" where
  "funcWriteCloser_Close w s = (None, s)"

section \<open>MultiWriter\<close>

fun MultiWriter_WriteSample :: "('a, 'w) write_fn \<Rightarrow> ('a, 'w list) write_fn" where
  "MultiWriter_WriteSample wr sample [] = (None, [])"
| "MultiWriter_WriteSample wr sample (w # ws) =
     (let (err, w1) = wr sample w; (last, ws1) = MultiWriter_WriteSample wr sample ws
      in (if last \<noteq> None then last else err, w1 # ws1))"

fun MultiWriter_Close :: "'w close_fn \<Rightarrow> 'w list close_fn" where
  "MultiWriter_Close cl [] = (None, [])"
| "MultiWriter_Close cl (w # ws) =
     (let (err, w1) = cl w; (last, ws1) = MultiWriter_Close cl ws
      in (if last \<noteq> None then last else err, w1 # ws1))"

definition MultiWriter_SampleRate :: "('w \<Rightarrow> int) \<Rightarrow> 'w list \<Rightarrow> int" where
  "MultiWriter_SampleRate rate ws = (if ws = [] then 0 else rate (hd ws))"

section \<open>Switches\<close>

text \<open>
  \<open>WriteCloserSwitch\<close>: the locked rate, an \<open>int32\<close>, 0 while unset, and the attached writer.  A call that panics
  also has a state after it, which a recovering caller sees: \<open>Inl\<close>.
\<close>

record 'w WriteCloserSwitch =
  sw_sampleRate :: int
  sw_w :: "'w option"

definition NewWriteCloserSwitch :: "int \<Rightarrow> 'w WriteCloserSwitch" where
  "NewWriteCloserSwitch rate = \<lparr>sw_sampleRate = (if rate > 0 then go_int32 rate else 0), sw_w = None\<rparr>"

definition switch_SampleRate :: "('w, 'z) WriteCloserSwitch_scheme \<Rightarrow> int" where
  "switch_SampleRate s = (if sw_sampleRate s > 0 then sw_sampleRate s else - 1)"

definition switch_WriteSample ::
  "('a, 'w) write_fn \<Rightarrow> 'a \<Rightarrow> ('w, 'z) WriteCloserSwitch_scheme \<Rightarrow> go_error option \<times> ('w, 'z) WriteCloserSwitch_scheme" where
  "switch_WriteSample wr sample s =
     (case sw_w s of None \<Rightarrow> (None, s)
      | Some w \<Rightarrow> (let (err, w1) = wr sample w in (err, s\<lparr>sw_w := Some w1\<rparr>)))"

definition switch_Close ::
  "'w close_fn \<Rightarrow> ('w, 'z) WriteCloserSwitch_scheme \<Rightarrow> go_error option \<times> ('w, 'z) WriteCloserSwitch_scheme" where
  "switch_Close cl s =
     (case sw_w s of None \<Rightarrow> (None, s)
      | Some w \<Rightarrow> (let (err, w1) = cl w in (err, s\<lparr>sw_w := Some w1\<rparr>)))"

definition switch_Get :: "('w, 'z) WriteCloserSwitch_scheme \<Rightarrow> 'w option" where
  "switch_Get s = sw_w s"

definition switch_Swap ::
  "('w \<Rightarrow> int) \<Rightarrow> 'w option \<Rightarrow> ('w, 'z) WriteCloserSwitch_scheme \<Rightarrow>
    ('w, 'z) WriteCloserSwitch_scheme + ('w option \<times> ('w, 'z) WriteCloserSwitch_scheme)" where
  "switch_Swap rate w s =
     (case w of
        Some wr \<Rightarrow>
          let newRate = go_int32 (rate wr); oldRate = sw_sampleRate s; s1 = s\<lparr>sw_sampleRate := newRate\<rparr>
          in if oldRate > 0 \<and> oldRate \<noteq> newRate then Inl s1
             else Inr (sw_w s1, s1\<lparr>sw_w := Some wr\<rparr>)
      | None \<Rightarrow> Inr (sw_w s, s\<lparr>sw_w := None\<rparr>))"

text \<open>\<open>SwitchWriter\<close> adds the flag and resamples writers of another rate.\<close>

record 'w SwitchWriter = "'w WriteCloserSwitch" +
  sw_disabled :: bool

definition NewSwitchWriter :: "int \<Rightarrow> 'w SwitchWriter option" where
  "NewSwitchWriter rate =
     (if rate = 0 then None
      else Some \<lparr>sw_sampleRate = (if rate < 0 then - 1 else go_int32 rate), sw_w = None, sw_disabled = False\<rparr>)"

definition SwitchWriter_Enable :: "'w SwitchWriter \<Rightarrow> 'w SwitchWriter" where
  "SwitchWriter_Enable s = s\<lparr>sw_disabled := False\<rparr>"

definition SwitchWriter_Disable :: "'w SwitchWriter \<Rightarrow> 'w SwitchWriter" where
  "SwitchWriter_Disable s = s\<lparr>sw_disabled := True\<rparr>"

definition SwitchWriter_Get :: "'w SwitchWriter \<Rightarrow> 'w option" where
  "SwitchWriter_Get s = (case switch_Get s of None \<Rightarrow> None | Some p \<Rightarrow> Some p)"

definition SwitchWriter_SetSampleRate :: "int \<Rightarrow> 'w SwitchWriter \<Rightarrow> 'w SwitchWriter option" where
  "SwitchWriter_SetSampleRate rate s =
     (if rate \<le> 0 then None
      else if sw_sampleRate s = - 1 then Some (s\<lparr>sw_sampleRate := go_int32 rate\<rparr>) else None)"

definition SwitchWriter_SampleRate :: "'w SwitchWriter \<Rightarrow> int option" where
  "SwitchWriter_SampleRate s =
     (let rate = switch_SampleRate s in if rate = 0 then None else if rate < 0 then None else Some rate)"

text \<open>\<open>resample w r\<close> is \<open>ResampleWriter\<close>, whose result has the sample rate \<open>r\<close>.\<close>

definition SwitchWriter_Swap ::
  "('w \<Rightarrow> int) \<Rightarrow> ('w \<Rightarrow> int \<Rightarrow> 'w) \<Rightarrow> 'w option \<Rightarrow> 'w SwitchWriter \<Rightarrow>
    ('w SwitchWriter + ('w option \<times> 'w SwitchWriter))" where
  "SwitchWriter_Swap rate resample w s =
     (case w of
        None \<Rightarrow> switch_Swap rate None s
      | Some wr \<Rightarrow>
          (case SwitchWriter_SampleRate s of
             None \<Rightarrow> Inl s
           | Some r \<Rightarrow> switch_Swap rate (Some (if r \<noteq> rate wr then resample wr r else wr)) s))"

definition SwitchWriter_WriteSample ::
  "('a, 'w) write_fn \<Rightarrow> 'a \<Rightarrow> 'w SwitchWriter \<Rightarrow> go_error option \<times> 'w SwitchWriter" where
  "SwitchWriter_WriteSample wr sample s =
     (if sw_disabled s then (None, s) else switch_WriteSample wr sample s)"

section \<open>The interface of a sink\<close>

text \<open>
  What a combinator's client can observe of a downstream writer: the samples it was given, in order,
  whatever it answered.  A reliable one never returns an error.
\<close>

locale sink =
  fixes wr :: "('a, 'w) write_fn" and seen :: "'w \<Rightarrow> 'a list"
  assumes seen_write: "seen (snd (wr x w)) = seen w @ [x]"

locale reliable_sink = sink +
  assumes no_error: "fst (wr x w) = None"

text \<open>A sink that answers by its history: any behaviour of a writer is one of these.\<close>

definition history_write :: "('a list \<Rightarrow> 'a \<Rightarrow> go_error option) \<Rightarrow> ('a, 'a list) write_fn" where
  "history_write answer x h = (answer h x, h @ [x])"

interpretation history: sink "history_write answer" "\<lambda>h. h" for answer
  by unfold_locales (simp add: history_write_def)

interpretation frames: reliable_sink frameWriter_WriteSample "\<lambda>buf. buf"
  by unfold_locales (simp_all add: frameWriter_WriteSample_def)

context sink
begin

text \<open>Every writer gets the sample, and the error is the last one returned.\<close>

lemma MultiWriter_all:
  "map seen (snd (MultiWriter_WriteSample wr x ws)) = map (\<lambda>w. seen w @ [x]) ws"
  by (induction ws) (simp_all add: Let_def split_beta seen_write)

end

text \<open>The last error of a sequence of calls.\<close>

fun last_error :: "go_error option list \<Rightarrow> go_error option" where
  "last_error [] = None"
| "last_error (e # es) = (if last_error es \<noteq> None then last_error es else e)"

lemma last_error_None: "last_error es = None \<longleftrightarrow> (\<forall>e \<in> set es. e = None)"
  by (induction es) auto

lemma last_error_append: "last_error (xs @ ys) = (if last_error ys \<noteq> None then last_error ys else last_error xs)"
  by (induction xs) auto

lemma MultiWriter_error: "fst (MultiWriter_WriteSample wr x ws) = last_error (map (\<lambda>w. fst (wr x w)) ws)"
  by (induction ws) (auto simp: Let_def split_beta)

lemma MultiWriter_Close_all:
  "snd (MultiWriter_Close cl ws) = map (\<lambda>w. snd (cl w)) ws"
  "fst (MultiWriter_Close cl ws) = last_error (map (\<lambda>w. fst (cl w)) ws)"
  by (induction ws) (auto simp: Let_def split_beta)

section \<open>Invariant of a switch\<close>

text \<open>The attached writer has the locked rate.\<close>

definition switch_ok :: "('w \<Rightarrow> int) \<Rightarrow> ('w, 'z) WriteCloserSwitch_scheme \<Rightarrow> bool" where
  "switch_ok rate s \<longleftrightarrow> (\<forall>w. sw_w s = Some w \<longrightarrow> rate w = sw_sampleRate s)"

datatype ('a, 'w) switch_op = SwSwap "'w option" | SwWrite 'a | SwClose | SwEnable | SwDisable

fun SwitchWriter_step ::
  "('w \<Rightarrow> int) \<Rightarrow> ('w \<Rightarrow> int \<Rightarrow> 'w) \<Rightarrow> ('a, 'w) write_fn \<Rightarrow> 'w close_fn \<Rightarrow> ('a, 'w) switch_op \<Rightarrow>
    'w SwitchWriter \<Rightarrow> 'w SwitchWriter option" where
  "SwitchWriter_step rate resample wr cl (SwSwap w) s =
     (case SwitchWriter_Swap rate resample w s of Inl _ \<Rightarrow> None | Inr (_, s1) \<Rightarrow> Some s1)"
| "SwitchWriter_step rate resample wr cl (SwWrite x) s = Some (snd (SwitchWriter_WriteSample wr x s))"
| "SwitchWriter_step rate resample wr cl SwClose s = Some (snd (switch_Close cl s))"
| "SwitchWriter_step rate resample wr cl SwEnable s = Some (SwitchWriter_Enable s)"
| "SwitchWriter_step rate resample wr cl SwDisable s = Some (SwitchWriter_Disable s)"

fun SwitchWriter_run ::
  "('w \<Rightarrow> int) \<Rightarrow> ('w \<Rightarrow> int \<Rightarrow> 'w) \<Rightarrow> ('a, 'w) write_fn \<Rightarrow> 'w close_fn \<Rightarrow> ('a, 'w) switch_op list \<Rightarrow>
    'w SwitchWriter \<Rightarrow> 'w SwitchWriter option" where
  "SwitchWriter_run rate resample wr cl [] s = Some s"
| "SwitchWriter_run rate resample wr cl (x # xs) s =
     do { s1 \<leftarrow> SwitchWriter_step rate resample wr cl x s; SwitchWriter_run rate resample wr cl xs s1 }"

lemma SwitchWriter_step_ok:
  assumes "switch_ok rate s" "sw_sampleRate s = r" "0 < r" "r < 2 ^ 31"
    and "\<And>w q. rate (resample w q) = q" "\<And>x w. rate (snd (wr x w)) = rate w" "\<And>w. rate (snd (cl w)) = rate w"
  shows "\<exists>s'. SwitchWriter_step rate resample wr cl x s = Some s' \<and> switch_ok rate s' \<and> sw_sampleRate s' = r"
proof (cases x)
  case (SwSwap w)
  then show ?thesis using assms go_int32_id [of r]
    by (cases w) (auto simp: SwitchWriter_Swap_def switch_Swap_def SwitchWriter_SampleRate_def
        switch_SampleRate_def switch_ok_def Let_def)
next
  case (SwWrite y)
  have "switch_ok rate (snd (SwitchWriter_WriteSample wr y s))"
    using assms(1) assms(6) by (auto simp: SwitchWriter_WriteSample_def switch_WriteSample_def switch_ok_def
        split_beta split: option.split)
  with SwWrite assms(2) show ?thesis
    by (auto simp: SwitchWriter_WriteSample_def switch_WriteSample_def split_beta split: option.split)
next
  case SwClose
  have "switch_ok rate (snd (switch_Close cl s))"
    using assms(1) assms(7) by (auto simp: switch_Close_def switch_ok_def split_beta split: option.split)
  with SwClose assms(2) show ?thesis by (auto simp: switch_Close_def split_beta split: option.split)
qed (use assms in \<open>auto simp: switch_ok_def SwitchWriter_Enable_def SwitchWriter_Disable_def\<close>)

lemma SwitchWriter_run_ok:
  assumes "switch_ok rate s" "sw_sampleRate s = r" "0 < r" "r < 2 ^ 31"
    and "\<And>w q. rate (resample w q) = q" "\<And>x w. rate (snd (wr x w)) = rate w" "\<And>w. rate (snd (cl w)) = rate w"
  shows "\<exists>s'. SwitchWriter_run rate resample wr cl xs s = Some s' \<and> switch_ok rate s' \<and> sw_sampleRate s' = r"
  using assms(1,2)
proof (induction xs arbitrary: s)
  case (Cons x xs)
  have "\<exists>s1. SwitchWriter_step rate resample wr cl x s = Some s1 \<and> switch_ok rate s1 \<and> sw_sampleRate s1 = r"
    by (rule SwitchWriter_step_ok) (use Cons.prems assms(3-7) in auto)
  then obtain s1 where
    "SwitchWriter_step rate resample wr cl x s = Some s1" "switch_ok rate s1" "sw_sampleRate s1 = r" by blast
  with Cons.IH [of s1] show ?case by simp
qed simp

section \<open>Properties\<close>

text \<open>
  A multi-writer never lets one writer starve the others.  A sample is written to every writer in
  the list, whatever the earlier ones return; the call returns no error exactly when none of them did,
  and otherwise the error of the last writer that failed.
\<close>

theorem MultiWriter_writes_all:
  "snd (MultiWriter_WriteSample wr x ws) = map (\<lambda>w. snd (wr x w)) ws \<and>
   (fst (MultiWriter_WriteSample wr x ws) = None \<longleftrightarrow> list_all (\<lambda>w. fst (wr x w) = None) ws) \<and>
   (fst (MultiWriter_WriteSample wr x ws) = None \<or>
    (\<exists>pre w post. ws = pre @ w # post \<and> fst (MultiWriter_WriteSample wr x ws) = fst (wr x w) \<and>
       list_all (\<lambda>v. fst (wr x v) = None) post))"
proof (intro conjI)
  show "snd (MultiWriter_WriteSample wr x ws) = map (\<lambda>w. snd (wr x w)) ws"
    by (induction ws) (simp_all add: Let_def split_beta)
  show "fst (MultiWriter_WriteSample wr x ws) = None \<longleftrightarrow> list_all (\<lambda>w. fst (wr x w) = None) ws"
    by (simp add: MultiWriter_error last_error_None list_all_iff)
  have "\<exists>good w bad. ws = good @ w # bad \<and> last_error (map (\<lambda>w. fst (wr x w)) ws) = fst (wr x w) \<and>
      list_all (\<lambda>v. fst (wr x v) = None) bad" if "last_error (map (\<lambda>w. fst (wr x w)) ws) \<noteq> None"
    using that
  proof (induction ws)
    case (Cons w ws)
    show ?case
    proof (cases "last_error (map (\<lambda>w. fst (wr x w)) ws) = None")
      case True
      then show ?thesis by (intro exI [of _ "[]"] exI [of _ w] exI [of _ ws])
          (simp add: last_error_None list_all_iff)
    next
      case False
      from Cons.IH [OF this] obtain good v bad where "ws = good @ v # bad"
        "last_error (map (\<lambda>w. fst (wr x w)) ws) = fst (wr x v)"
        "list_all (\<lambda>v. fst (wr x v) = None) bad" by blast
      with False show ?thesis by (intro exI [of _ "w # good"] exI [of _ v] exI [of _ bad]) simp
    qed
  qed simp
  then show "fst (MultiWriter_WriteSample wr x ws) = None \<or>
    (\<exists>pre w post. ws = pre @ w # post \<and> fst (MultiWriter_WriteSample wr x ws) = fst (wr x w) \<and>
       list_all (\<lambda>v. fst (wr x v) = None) post)"
    unfolding MultiWriter_error by blast
qed

text \<open>
  A switch keeps its sample rate.  A \<open>SwitchWriter\<close> created with a positive rate that fits an \<open>int32\<close> never panics, however
  writers of any rate are swapped in and out, samples written and the switch enabled, disabled or
  closed; its rate stays what it was and the attached writer always has that rate, given that
  \<open>ResampleWriter\<close> yields a writer of the rate asked for and that writing and closing do not change a
  writer's rate.
\<close>

theorem SwitchWriter_keeps_rate:
  assumes "0 < r" "r < 2 ^ 31" "\<And>w q. rate (resample w q) = q"
    and "\<And>x w. rate (snd (wr x w)) = rate w" "\<And>w. rate (snd (cl w)) = rate w"
  shows "\<exists>s0 s. NewSwitchWriter r = Some s0 \<and> SwitchWriter_run rate resample wr cl xs s0 = Some s \<and>
    SwitchWriter_SampleRate s = Some r \<and> (sw_w s = None \<or> map_option rate (sw_w s) = Some r)"
proof -
  obtain s0 where s0: "NewSwitchWriter r = Some s0" "switch_ok rate s0" "sw_sampleRate s0 = r"
    using assms(1,2) go_int32_id [of r] by (auto simp: NewSwitchWriter_def switch_ok_def)
  have "\<exists>s. SwitchWriter_run rate resample wr cl xs s0 = Some s \<and> switch_ok rate s \<and> sw_sampleRate s = r"
    by (rule SwitchWriter_run_ok) (use s0 assms in auto)
  then obtain s where "SwitchWriter_run rate resample wr cl xs s0 = Some s" "switch_ok rate s"
    "sw_sampleRate s = r" by blast
  with s0 assms(1) show ?thesis
    by (auto simp: switch_ok_def SwitchWriter_SampleRate_def switch_SampleRate_def)
qed

text \<open>A writer that is its rate and the samples it got.\<close>

definition rated_write :: "('a, int \<times> 'a list) write_fn" where
  "rated_write x w = (None, fst w, snd w @ [x])"

theorem SwitchWriter_keeps_rate_witness:
  "\<exists>s0 s. NewSwitchWriter 48000 = Some s0 \<and>
    SwitchWriter_run fst (\<lambda>w q. (q, snd w)) rated_write (\<lambda>w. (None, w))
      [SwSwap (Some (8000, [])), SwWrite (7::nat), SwDisable, SwWrite 8, SwSwap (Some (48000, []))] s0 = Some s \<and>
    SwitchWriter_SampleRate s = Some 48000 \<and>
    (sw_w s = None \<or> map_option fst (sw_w s) = Some 48000)"
  by (rule SwitchWriter_keeps_rate) (simp_all add: rated_write_def)

text \<open>
  The error path of a generic switch.  Attaching a writer of another rate panics, but the rate was
  already exchanged: a caller that recovers finds the switch locked to the rejected writer's rate, with
  the old writer still attached, and attaching the rejected writer again succeeds.
\<close>

theorem switch_panic_unlocks:
  assumes "0 < sw_sampleRate s" "go_int32 (rate w) \<noteq> sw_sampleRate s"
  shows "\<exists>s1 s2. switch_Swap rate (Some w) s = Inl s1 \<and> sw_w s1 = sw_w s \<and>
    switch_Swap rate (Some w) s1 = Inr (sw_w s, s2) \<and> sw_w s2 = Some w \<and> sw_sampleRate s2 = go_int32 (rate w)"
  using assms by (auto simp: switch_Swap_def Let_def)

theorem switch_panic_unlocks_witness:
  "\<exists>s1 s2. switch_Swap (\<lambda>w. w) (Some 16000) \<lparr>sw_sampleRate = 8000, sw_w = Some 8000\<rparr> = Inl s1 \<and>
    switch_Swap (\<lambda>w. w) (Some 16000) s1 = Inr (Some 8000, s2) \<and> sw_sampleRate s2 = 16000"
  using switch_panic_unlocks [of "\<lparr>sw_sampleRate = 8000, sw_w = Some 8000\<rparr> :: int WriteCloserSwitch"
      "\<lambda>w. w" 16000] by (auto simp: go_int32_id)

end
