(* ===== verification/Media_Frames.thy ===== *)
theory Media_Frames
  imports Complex_Main Media_Writers
begin

text \<open>
  Frames of samples and what is done to them on the way to a writer: PCM16 samples and their bytes
  (\<open>pcm.go\<close>), full frames (\<open>buffers.go\<close>) and gain (\<open>gain.go\<close>).
\<close>

unbundle bit_operations_syntax

section \<open>PCM16 samples\<close>

definition pcm_Size :: "pcm16 \<Rightarrow> nat" where
  "pcm_Size s = length s * 2"

text \<open>\<open>binary.LittleEndian.PutUint16\<close>.\<close>

definition put_le16 :: "u16 \<Rightarrow> bytes" where
  "put_le16 v = [ucast v, ucast (drop_bit 8 v)]"

fun copy_le16 :: "pcm16 \<Rightarrow> bytes \<Rightarrow> bytes" where
  "copy_le16 (v # vs) (_ # _ # dst) = put_le16 v @ copy_le16 vs dst"
| "copy_le16 _ dst = dst"

text \<open>\<open>CopyTo\<close>: the count and error, and the destination after the call.\<close>

definition pcm_CopyTo :: "pcm16 \<Rightarrow> bytes \<Rightarrow> (nat \<times> go_error option) \<times> bytes" where
  "pcm_CopyTo s dst =
     (if length dst < length s * 2 then ((0, Some ErrShortBuffer), dst)
      else ((length s * 2, None), copy_le16 s dst))"

definition pcm_Clear :: "pcm16 \<Rightarrow> pcm16" where
  "pcm_Clear s = map (\<lambda>_. 0) s"

definition pcm_WriteSample :: "(pcm16, pcm16) write_fn" where
  "pcm_WriteSample data s = (None, s @ data)"

text \<open>\<open>PlayAudio\<close>, given what its \<open>select\<close> sees in turn: a tick, or the context's end with its error.\<close>

datatype play_event = Tick | CtxDone go_error

fun PlayAudio :: "('a, 'w) write_fn \<Rightarrow> play_event list \<Rightarrow> 'a list \<Rightarrow> 'w \<Rightarrow> (go_error option \<times> 'w) option" where
  "PlayAudio wr evs [] w = Some (None, w)"
| "PlayAudio wr [] (f # fs) w = None"
| "PlayAudio wr (CtxDone e # evs) (f # fs) w = Some (Some e, w)"
| "PlayAudio wr (Tick # evs) (f # fs) w =
     (let (err, w1) = wr f w in if err \<noteq> None then Some (err, w1) else PlayAudio wr evs fs w1)"

section \<open>Full frames\<close>

record ('s, 'w) fullFrameBuffer =
  ff_dropTail :: bool
  ff_frameSize :: nat
  ff_w :: 'w
  ff_buf :: "'s list"

datatype FullFramesOption = DropTailOnClose

fun apply_ff_option :: "FullFramesOption \<Rightarrow> ('s, 'w) fullFrameBuffer \<Rightarrow> ('s, 'w) fullFrameBuffer" where
  "apply_ff_option DropTailOnClose b = b\<lparr>ff_dropTail := True\<rparr>"

definition FullFrames :: "'w \<Rightarrow> int \<Rightarrow> FullFramesOption list \<Rightarrow> ('s, 'w) fullFrameBuffer option" where
  "FullFrames w frameSize opts =
     (if frameSize \<le> 0 then None
      else Some (fold apply_ff_option opts \<lparr>ff_dropTail = False, ff_frameSize = nat frameSize, ff_w = w, ff_buf = []\<rparr>))"

lemma apply_ff_options: "fold apply_ff_option opts b = b\<lparr>ff_dropTail := ff_dropTail b \<or> DropTailOnClose \<in> set opts\<rparr>"
proof (induction opts arbitrary: b)
  case (Cons opt opts)
  then show ?case by (cases opt) simp
qed simp

lemma FullFrames_eq:
  "FullFrames w frameSize opts = (if frameSize \<le> 0 then None
     else Some \<lparr>ff_dropTail = DropTailOnClose \<in> set opts, ff_frameSize = nat frameSize, ff_w = w, ff_buf = []\<rparr>)"
  by (simp add: FullFrames_def apply_ff_options)

definition ff_SampleRate :: "('w \<Rightarrow> int) \<Rightarrow> ('s, 'w) fullFrameBuffer \<Rightarrow> int" where
  "ff_SampleRate rate b = rate (ff_w b)"

text \<open>The loop of \<open>flush\<close>: the error, what is left of the buffer, the writer.\<close>

function flush_frames ::
  "('s list, 'w) write_fn \<Rightarrow> nat \<Rightarrow> 's list \<Rightarrow> 'w \<Rightarrow> go_error option \<times> 's list \<times> 'w" where
  "flush_frames wr sz it w =
     (if length it div sz > 0 then
        let frame = take sz it; it1 = drop (length frame) it; (err, w1) = wr frame w
        in if err \<noteq> None then (err, it1, w1) else flush_frames wr sz it1 w1
      else (None, it, w))"
  by pat_completeness auto

termination
proof (relation "measure (\<lambda>(wr, sz, it, w). length it)", goal_cases)
  case (2 wr sz it w frame it1 p err w1)
  then have "sz > 0" "length it > 0" by (auto simp: div_eq_0_iff intro: gr0I)
  with 2 show ?case by (auto simp: min_def)
qed simp

declare flush_frames.simps [simp del]

definition ff_flush ::
  "('s list, 'w) write_fn \<Rightarrow> bool \<Rightarrow> ('s, 'w) fullFrameBuffer \<Rightarrow> go_error option \<times> ('s, 'w) fullFrameBuffer" where
  "ff_flush wr force b =
     (let (err, it, w1) = flush_frames wr (ff_frameSize b) (ff_buf b) (ff_w b)
      in if err \<noteq> None then (err, b\<lparr>ff_w := w1, ff_buf := it\<rparr>)
         else if force \<and> length it > 0 then
           (let (err2, w2) = wr it w1
            in if err2 \<noteq> None then (err2, b\<lparr>ff_w := w2, ff_buf := it\<rparr>)
               else (None, b\<lparr>ff_w := w2, ff_buf := []\<rparr>))
         else (None, b\<lparr>ff_w := w1, ff_buf := it\<rparr>))"

definition ff_WriteSample :: "('s list, 'w) write_fn \<Rightarrow> ('s list, ('s, 'w) fullFrameBuffer) write_fn" where
  "ff_WriteSample wr x b = ff_flush wr False (b\<lparr>ff_buf := ff_buf b @ x\<rparr>)"

text \<open>\<open>errors.Join\<close>.\<close>

definition errors_Join :: "go_error option \<Rightarrow> go_error option \<Rightarrow> go_error option" where
  "errors_Join e1 e2 =
     (if e1 = None then e2 else if e2 = None then e1 else Some (ErrOther ''joined errors''))"

definition ff_Close ::
  "('s list, 'w) write_fn \<Rightarrow> 'w close_fn \<Rightarrow> ('s, 'w) fullFrameBuffer close_fn" where
  "ff_Close wr cl b =
     (let (err, b1) = ff_flush wr (\<not> ff_dropTail b) b; (err2, w2) = cl (ff_w b1)
      in (errors_Join err err2, b1\<lparr>ff_w := w2\<rparr>))"

section \<open>Gain\<close>

text \<open>A \<open>float32\<close> as \<open>SetGain\<close> sees it.\<close>

datatype float32 = F32_NaN | F32_PosInf | F32_NegInf | F32 rat

definition unityGain :: u32 where
  "unityGain = 65536"

text \<open>
  \<open>SetGain\<close>: \<open>conv\<close> is the conversion of a \<open>float32\<close> that does not fit \<open>uint32\<close>, which the language
  leaves to the implementation.  Scaling by 2^16 is exact for a finite \<open>float32\<close> that does not
  overflow.
\<close>

definition NewPCM16GainWriter :: "'w \<Rightarrow> 'w \<times> u32" where
  "NewPCM16GainWriter w = (w, unityGain)"

definition gain_SampleRate :: "('w \<Rightarrow> int) \<Rightarrow> 'w \<Rightarrow> int" where
  "gain_SampleRate rate w = rate w"

definition gain_Close :: "'w close_fn \<Rightarrow> 'w close_fn" where
  "gain_Close cl w = cl w"

definition gain_SetGain :: "(float32 \<Rightarrow> u32) \<Rightarrow> float32 \<Rightarrow> u32 \<Rightarrow> go_error option \<times> u32" where
  "gain_SetGain conv v g =
     (case v of
        F32_NaN \<Rightarrow> (Some (ErrOther ''invalid gain''), g)
      | F32_NegInf \<Rightarrow> (Some (ErrOther ''invalid gain''), g)
      | F32_PosInf \<Rightarrow> (None, conv v)
      | F32 q \<Rightarrow>
          if q < 0 then (Some (ErrOther ''invalid gain''), g)
          else if q * 65536 < 4294967296 then (None, of_int \<lfloor>q * 65536\<rfloor>)
          else (None, conv v))"

definition gain_scale :: "u32 \<Rightarrow> i16 \<Rightarrow> i16" where
  "gain_scale g v =
     (let s = signed_drop_bit 16 ((scast v :: 64 word) * ucast g);
          s1 = (if sint s > 32767 then 32767 else if sint s < - 32768 then - 32768 else s)
      in scast s1)"

definition gain_WriteSample :: "(pcm16, 'w) write_fn \<Rightarrow> u32 \<Rightarrow> (pcm16, 'w) write_fn" where
  "gain_WriteSample wr g sample w =
     (if g = unityGain then wr sample w
      else if g = 0 then wr (replicate (length sample) 0) w
      else wr (map (gain_scale g) sample) w)"

section \<open>Lemmas on full frames\<close>

text \<open>The reference: cutting a list into pieces of \<open>n\<close>, the last one shorter when it has to be.\<close>

function chunks :: "nat \<Rightarrow> 'a list \<Rightarrow> 'a list list" where
  "chunks n xs = (if n = 0 \<or> xs = [] then [] else take n xs # chunks n (drop n xs))"
  by pat_completeness auto

termination
  by (relation "measure (\<lambda>(n, xs). length xs)") auto

declare chunks.simps [simp del]

lemma chunks_Nil [simp]: "chunks n [] = []"
  by (simp add: chunks.simps)

lemma chunks_step: "0 < n \<Longrightarrow> xs \<noteq> [] \<Longrightarrow> chunks n xs = take n xs # chunks n (drop n xs)"
  by (simp add: chunks.simps)

lemma chunks_short: "0 < n \<Longrightarrow> xs \<noteq> [] \<Longrightarrow> length xs \<le> n \<Longrightarrow> chunks n xs = [xs]"
  by (simp add: chunks_step)

text \<open>Full pieces only, and what they leave.\<close>

definition whole :: "nat \<Rightarrow> 'a list \<Rightarrow> 'a list" where
  "whole n xs = take (length xs - length xs mod n) xs"

definition rest :: "nat \<Rightarrow> 'a list \<Rightarrow> 'a list" where
  "rest n xs = drop (length xs - length xs mod n) xs"

lemma whole_rest [simp]: "whole n xs @ rest n xs = xs"
  by (simp add: whole_def rest_def)

lemma length_rest: "length (rest n xs) = length xs mod n"
  by (simp add: rest_def)

lemma whole_rest_step:
  assumes "n \<le> length xs"
  shows "whole n xs = take n xs @ whole n (drop n xs)" "rest n (drop n xs) = rest n xs"
proof -
  have m: "(length xs - n) mod n = length xs mod n" using assms by (simp add: le_mod_geq)
  have "length xs mod n \<le> length xs - n" by (metis m mod_less_eq_dividend)
  then have e: "length xs - length xs mod n = n + (length xs - n - length xs mod n)" using assms by simp
  then show "whole n xs = take n xs @ whole n (drop n xs)"
    unfolding whole_def by (simp only: take_add length_drop m)
  show "rest n (drop n xs) = rest n xs"
    unfolding rest_def by (subst e) (simp only: drop_drop length_drop m add.commute)
qed

lemma whole_short: "length xs < n \<Longrightarrow> whole n xs = []" "length xs < n \<Longrightarrow> rest n xs = xs"
  by (simp_all add: whole_def rest_def)

lemma chunks_whole: "0 < n \<Longrightarrow> n \<le> length xs \<Longrightarrow>
    chunks n (whole n xs) = take n xs # chunks n (whole n (drop n xs))"
  by (subst whole_rest_step(1), assumption, subst chunks_step) auto

lemma chunks_whole_rest:
  assumes "0 < n"
  shows "chunks n xs = chunks n (whole n xs) @ (if rest n xs = [] then [] else [rest n xs])"
  using assms
proof (induction n xs rule: chunks.induct)
  case (1 n xs)
  show ?case
  proof (cases "n \<le> length xs")
    case True
    with 1 have "xs \<noteq> []" by auto
    with 1 True show ?thesis by (simp add: chunks_step chunks_whole whole_rest_step(2))
  next
    case False
    with 1 show ?thesis by (cases "xs = []") (simp_all add: whole_short chunks_short rest_def)
  qed
qed

text \<open>What a flush offers the writer, whatever it answers.\<close>

locale frame_sink = sink wr seen
  for wr :: "('s list, 'w) write_fn" and seen :: "'w \<Rightarrow> 's list list"
begin

lemma flush_frames_offers:
  assumes "0 < sz" "flush_frames wr sz it w = (err, it1, w1)"
  shows "\<exists>fs. seen w1 = seen w @ fs \<and> concat fs @ it1 = it \<and> list_all (\<lambda>f. length f = sz) fs"
  using assms
proof (induction "length it" arbitrary: it w rule: less_induct)
  case less
  obtain err2 w2 where wr: "wr (take sz it) w = (err2, w2)" by fastforce
  have seen2: "seen w2 = seen w @ [take sz it]" using seen_write [of "take sz it" w] wr by simp
  show ?case
  proof (cases "sz \<le> length it")
    case False
    with less.prems show ?thesis by (simp add: flush_frames.simps [of wr sz it])
  next
    case True
    with less.prems have big: "length it div sz > 0" by (simp add: div_greater_zero_iff)
    show ?thesis
    proof (cases "err2 = None")
      case False
      with less.prems True big wr have "it1 = drop sz it" "w1 = w2"
        by (simp_all add: flush_frames.simps [of wr sz it] Let_def min_absorb2)
      with seen2 True show ?thesis by (intro exI [of _ "[take sz it]"]) simp
    next
      case ok: True
      with less.prems True big wr have "flush_frames wr sz (drop sz it) w2 = (err, it1, w1)"
        by (simp add: flush_frames.simps [of wr sz it] Let_def min_absorb2)
      moreover have "length (drop sz it) < length it" using True less.prems by simp
      ultimately obtain fs where
        "seen w1 = seen w2 @ fs" "concat fs @ it1 = drop sz it" "list_all (\<lambda>f. length f = sz) fs"
        using less.hyps [of "drop sz it" w2] less.prems(1) by blast
      with seen2 True show ?thesis by (intro exI [of _ "take sz it # fs"]) simp
    qed
  qed
qed

lemma ff_WriteSample_offers:
  assumes "0 < ff_frameSize b"
  shows "\<exists>fs. seen (ff_w (snd (ff_WriteSample wr x b))) = seen (ff_w b) @ fs \<and>
    concat fs @ ff_buf (snd (ff_WriteSample wr x b)) = ff_buf b @ x \<and>
    list_all (\<lambda>f. length f = ff_frameSize b) fs \<and>
    ff_frameSize (snd (ff_WriteSample wr x b)) = ff_frameSize b"
proof -
  obtain err it1 w1 where f: "flush_frames wr (ff_frameSize b) (ff_buf b @ x) (ff_w b) = (err, it1, w1)"
    using prod_cases3 by blast
  from flush_frames_offers [OF assms f] f show ?thesis
    by (auto simp: ff_WriteSample_def ff_flush_def)
qed

end

locale reliable_frame_sink = frame_sink wr seen + reliable_sink wr seen
  for wr :: "('s list, 'w) write_fn" and seen :: "'w \<Rightarrow> 's list list"
begin

lemma flush_frames_all:
  assumes "0 < sz"
  shows "\<exists>w1. flush_frames wr sz it w = (None, rest sz it, w1) \<and>
    seen w1 = seen w @ chunks sz (whole sz it)"
proof (induction "length it" arbitrary: it w rule: less_induct)
  case less
  show ?case
  proof (cases "sz \<le> length it")
    case False
    with assms show ?thesis by (simp add: flush_frames.simps [of wr sz it] whole_short)
  next
    case True
    obtain w2 where wr: "wr (take sz it) w = (None, w2)" using no_error [of "take sz it" w] by (metis prod.collapse)
    have seen2: "seen w2 = seen w @ [take sz it]" using seen_write [of "take sz it" w] wr by simp
    from True assms have big: "length it div sz > 0" by (simp add: div_greater_zero_iff)
    have "length (drop sz it) < length it" using True assms by simp
    from less.hyps [OF this, of w2] obtain w1 where
      "flush_frames wr sz (drop sz it) w2 = (None, rest sz (drop sz it), w1)"
      "seen w1 = seen w2 @ chunks sz (whole sz (drop sz it))" by blast
    with seen2 wr True big assms show ?thesis
      by (simp add: flush_frames.simps [of wr sz it] Let_def min_absorb2 chunks_whole whole_rest_step(2))
  qed
qed

lemma ff_WriteSample_all:
  assumes "0 < ff_frameSize b"
  shows "\<exists>w1. ff_WriteSample wr x b =
      (None, b\<lparr>ff_buf := rest (ff_frameSize b) (ff_buf b @ x), ff_w := w1\<rparr>) \<and>
    seen w1 = seen (ff_w b) @ chunks (ff_frameSize b) (whole (ff_frameSize b) (ff_buf b @ x))"
proof -
  from flush_frames_all [OF assms, of "ff_buf b @ x" "ff_w b"] obtain w1 where
    "flush_frames wr (ff_frameSize b) (ff_buf b @ x) (ff_w b) = (None, rest (ff_frameSize b) (ff_buf b @ x), w1)"
    "seen w1 = seen (ff_w b) @ chunks (ff_frameSize b) (whole (ff_frameSize b) (ff_buf b @ x))" by blast
  then show ?thesis by (intro exI [of _ w1]) (simp add: ff_WriteSample_def ff_flush_def)
qed

end

interpretation ff_history: frame_sink "history_write answer" "\<lambda>h. h" for answer
  by unfold_locales

interpretation ff_frames: reliable_frame_sink frameWriter_WriteSample "\<lambda>buf. buf"
  by unfold_locales

text \<open>Runs of writes.\<close>

fun ff_run :: "('s list, 'w) write_fn \<Rightarrow> 's list list \<Rightarrow> ('s, 'w) fullFrameBuffer \<Rightarrow> ('s, 'w) fullFrameBuffer" where
  "ff_run wr [] b = b"
| "ff_run wr (x # xs) b = ff_run wr xs (snd (ff_WriteSample wr x b))"

lemma ff_run_offers:
  "0 < ff_frameSize b \<Longrightarrow>
    \<exists>fs. ff_w (ff_run (history_write answer) xs b) = ff_w b @ fs \<and>
      concat fs @ ff_buf (ff_run (history_write answer) xs b) = ff_buf b @ concat xs \<and>
      list_all (\<lambda>f. length f = ff_frameSize b) fs"
proof (induction xs arbitrary: b)
  case (Cons x xs)
  obtain fs where fs: "ff_w (snd (ff_WriteSample (history_write answer) x b)) = ff_w b @ fs"
    "concat fs @ ff_buf (snd (ff_WriteSample (history_write answer) x b)) = ff_buf b @ x"
    "list_all (\<lambda>f. length f = ff_frameSize b) fs"
    "ff_frameSize (snd (ff_WriteSample (history_write answer) x b)) = ff_frameSize b"
    using ff_history.ff_WriteSample_offers [OF Cons.prems, of answer x] by blast
  with Cons.prems Cons.IH [of "snd (ff_WriteSample (history_write answer) x b)"] obtain gs where
    "ff_w (ff_run (history_write answer) (x # xs) b) = ff_w b @ fs @ gs"
    "concat gs @ ff_buf (ff_run (history_write answer) (x # xs) b) =
       ff_buf (snd (ff_WriteSample (history_write answer) x b)) @ concat xs"
    "list_all (\<lambda>f. length f = ff_frameSize b) gs" by auto
  with fs show ?case by (intro exI [of _ "fs @ gs"]) (simp add: append_assoc [symmetric] del: append_assoc, simp)
qed simp

lemma rest_append: "0 < n \<Longrightarrow> rest n (rest n xs @ ys) = rest n (xs @ ys)"
proof (induction n xs rule: chunks.induct)
  case (1 n xs)
  show ?case
  proof (cases "n \<le> length xs")
    case True
    then have "rest n (drop n xs @ ys) = rest n (xs @ ys)"
      using whole_rest_step(2) [of n "xs @ ys"] by simp
    moreover have "rest n (rest n (drop n xs) @ ys) = rest n (drop n xs @ ys)"
      using 1 True by (cases "xs = []") auto
    ultimately show ?thesis using True by (simp only: whole_rest_step(2))
  qed (simp add: whole_short)
qed

lemma whole_append: "0 < n \<Longrightarrow>
    chunks n (whole n xs) @ chunks n (whole n (rest n xs @ ys)) = chunks n (whole n (xs @ ys))"
proof (induction n xs rule: chunks.induct)
  case (1 n xs)
  show ?case
  proof (cases "n \<le> length xs")
    case True
    then have "chunks n (whole n (xs @ ys)) = take n xs # chunks n (whole n (drop n xs @ ys))"
      using chunks_whole [of n "xs @ ys"] "1.prems" by simp
    moreover have "chunks n (whole n (drop n xs)) @ chunks n (whole n (rest n (drop n xs) @ ys)) =
        chunks n (whole n (drop n xs @ ys))"
      using 1 True by (cases "xs = []") auto
    ultimately show ?thesis using True "1.prems" by (simp add: whole_rest_step(2) chunks_whole)
  qed (simp add: whole_short)
qed

lemma ff_run_frames:
  "0 < ff_frameSize b \<Longrightarrow> length (ff_buf b) < ff_frameSize b \<Longrightarrow>
    ff_run frameWriter_WriteSample xs b =
      b\<lparr>ff_buf := rest (ff_frameSize b) (ff_buf b @ concat xs),
        ff_w := ff_w b @ chunks (ff_frameSize b) (whole (ff_frameSize b) (ff_buf b @ concat xs))\<rparr>"
proof (induction xs arbitrary: b)
  case Nil
  then show ?case by (simp add: whole_short)
next
  case (Cons x xs)
  from ff_frames.ff_WriteSample_all [OF Cons.prems(1), of x]
  have one: "snd (ff_WriteSample frameWriter_WriteSample x b) =
      b\<lparr>ff_buf := rest (ff_frameSize b) (ff_buf b @ x),
        ff_w := ff_w b @ chunks (ff_frameSize b) (whole (ff_frameSize b) (ff_buf b @ x))\<rparr>" by auto
  have whole: "chunks (ff_frameSize b) (whole (ff_frameSize b) (ff_buf b @ x)) @
      chunks (ff_frameSize b) (whole (ff_frameSize b) (rest (ff_frameSize b) (ff_buf b @ x) @ concat xs)) =
      chunks (ff_frameSize b) (whole (ff_frameSize b) (ff_buf b @ x @ concat xs))"
    using whole_append [OF Cons.prems(1), of "ff_buf b @ x" "concat xs"] by simp
  have "rest (ff_frameSize b) (rest (ff_frameSize b) (ff_buf b @ x) @ concat xs) =
      rest (ff_frameSize b) (ff_buf b @ x @ concat xs)"
    using rest_append [OF Cons.prems(1), of "ff_buf b @ x" "concat xs"] by simp
  with Cons.IH [of "snd (ff_WriteSample frameWriter_WriteSample x b)"] Cons.prems(1) whole
  show ?case by (simp add: one length_rest)
qed

section \<open>Properties of full frames\<close>

text \<open>
  A full-frame buffer offers its writer full frames only and loses nothing.  Whatever the writer
  answers, every frame offered while samples are written has exactly the frame size, and the frames
  offered followed by what is still buffered are the samples written, in order.
\<close>

theorem FullFrames_full_and_lossless:
  assumes "FullFrames [] frameSize opts = Some b0"
  shows "list_all (\<lambda>f. int (length f) = frameSize) (ff_w (ff_run (history_write answer) xs b0)) \<and>
    concat (ff_w (ff_run (history_write answer) xs b0)) @ ff_buf (ff_run (history_write answer) xs b0) = concat xs"
proof -
  from assms have b0: "0 < ff_frameSize b0" "int (ff_frameSize b0) = frameSize" "ff_w b0 = []" "ff_buf b0 = []"
    by (auto simp: FullFrames_eq split: if_splits)
  from ff_run_offers [OF b0(1), of answer xs] b0(2-) show ?thesis
    by (auto simp: list_all_iff)
qed

theorem FullFrames_full_and_lossless_witness:
  "\<exists>b0. FullFrames [] 2 [] = Some b0 \<and>
     list_all (\<lambda>f. int (length f) = 2)
       (ff_w (ff_run (history_write (\<lambda>h x. if length h = 1 then Some EOF else None)) [[1], [2, 3, 4, 5], [6, 7::nat]] b0)) \<and>
     ff_w (ff_run (history_write (\<lambda>h x. if length h = 1 then Some EOF else None)) [[1], [2, 3, 4, 5], [6, 7::nat]] b0) =
       [[1, 2], [3, 4], [5, 6]]"
proof (intro exI conjI)
  show b0: "FullFrames [] 2 [] =
      Some (\<lparr>ff_dropTail = False, ff_frameSize = 2, ff_w = [], ff_buf = []\<rparr> :: (nat, nat list list) fullFrameBuffer)"
    by (simp add: FullFrames_eq)
  from FullFrames_full_and_lossless [OF b0]
  show "list_all (\<lambda>f. int (length f) = 2)
       (ff_w (ff_run (history_write (\<lambda>h x. if length h = 1 then Some EOF else None)) [[1], [2, 3, 4, 5], [6, 7::nat]]
         \<lparr>ff_dropTail = False, ff_frameSize = 2, ff_w = [], ff_buf = []\<rparr>))" by blast
  show "ff_w (ff_run (history_write (\<lambda>h x. if length h = 1 then Some EOF else None)) [[1], [2, 3, 4, 5], [6, 7::nat]]
         \<lparr>ff_dropTail = False, ff_frameSize = 2, ff_w = [], ff_buf = []\<rparr>) = [[1, 2], [3, 4], [5, 6]]"
    by code_simp
qed

text \<open>
  C22: full frames over a frame writer are the reference cut.  After any writes and \<open>Close\<close> the frames
  stored are the pieces of the frame size of all the samples written, the shorter last piece being
  dropped exactly with the option \<open>DropTailOnClose\<close>; the closing returns no error.
\<close>

theorem FullFrames_chunks:
  assumes "FullFrames [] frameSize opts = Some b0"
  shows "ff_Close frameWriter_WriteSample frameWriter_Close (ff_run frameWriter_WriteSample xs b0) =
    (None, b0\<lparr>ff_buf := if DropTailOnClose \<in> set opts then rest (nat frameSize) (concat xs) else [],
       ff_w := filter (\<lambda>f. DropTailOnClose \<notin> set opts \<or> int (length f) = frameSize) (chunks (nat frameSize) (concat xs))\<rparr>)"
proof -
  from assms have b0: "0 < ff_frameSize b0" "ff_frameSize b0 = nat frameSize" "ff_w b0 = []" "ff_buf b0 = []"
    "ff_dropTail b0 = (DropTailOnClose \<in> set opts)" "0 < frameSize"
    by (auto simp: FullFrames_eq split: if_splits)
  let ?n = "nat frameSize" and ?xs = "concat xs"
  have full: "filter (\<lambda>f. int (length f) = frameSize) (chunks ?n (whole ?n ys)) = chunks ?n (whole ?n ys)" for ys :: "'a list"
  proof (induction ?n ys rule: chunks.induct)
    case (1 ys)
    then show ?case using b0 by (cases "?n \<le> length ys"; cases "ys = []") (auto simp: chunks_whole whole_short)
  qed
  have "length (rest ?n ?xs) < ?n" using b0 by (simp add: length_rest)
  then have flush: "flush_frames frameWriter_WriteSample ?n (rest ?n ?xs) w = (None, rest ?n ?xs, w)" for w
    by (simp add: flush_frames.simps)
  show ?thesis using b0 \<open>length (rest ?n ?xs) < ?n\<close>
    by (simp add: ff_run_frames ff_Close_def ff_flush_def flush frameWriter_Close_def errors_Join_def
        chunks_whole_rest [of ?n ?xs] full frameWriter_WriteSample_def)
qed

theorem FullFrames_chunks_witness:
  "ff_w (snd (ff_Close frameWriter_WriteSample frameWriter_Close (ff_run frameWriter_WriteSample [[1], [2, 3, 4, 5], [6, 7::nat]]
      \<lparr>ff_dropTail = False, ff_frameSize = 2, ff_w = [], ff_buf = []\<rparr>))) = [[1, 2], [3, 4], [5, 6], [7]]"
  using FullFrames_chunks [of 2 "[]"
      "\<lparr>ff_dropTail = False, ff_frameSize = 2, ff_w = [], ff_buf = []\<rparr> :: (nat, nat list list) fullFrameBuffer"
      "[[1], [2, 3, 4, 5], [6, 7]]"]
  by (simp add: FullFrames_eq chunks.simps)

section \<open>Lemmas on gain\<close>

text \<open>The reference: the exact product, rounded down and clipped to 16 bits.\<close>

definition clip16 :: "int \<Rightarrow> int" where
  "clip16 x = max (- 32768) (min 32767 x)"

definition gained :: "u32 \<Rightarrow> i16 \<Rightarrow> int" where
  "gained g v = clip16 ((sint v * uint g) div 65536)"

lemma gained_bounds: "- 32768 \<le> gained g v" "gained g v < 32768"
  by (auto simp: gained_def clip16_def)

lemma sint_i16_bounds: "- 32768 \<le> sint (v :: i16)" "sint v < 32768"
  using sint_greater_eq [of v] sint_lt [of v] by simp_all

lemma uint_u32_bounds: "0 \<le> uint (g :: u32)" "uint g < 4294967296"
  using uint_lt2p [of g] by simp_all

lemma product_bounds:
  fixes v :: i16 and g :: u32
  shows "- 140737488355328 \<le> sint v * uint g" "sint v * uint g < 140737488355328"
proof -
  have "\<bar>sint v\<bar> \<le> 32768" using sint_i16_bounds [of v] by linarith
  then have "\<bar>sint v * uint g\<bar> \<le> 32768 * 4294967295"
    unfolding abs_mult using uint_u32_bounds [of g] by (intro mult_mono) auto
  then show "- 140737488355328 \<le> sint v * uint g" "sint v * uint g < 140737488355328"
    by linarith+
qed

lemma sint_product:
  fixes v :: i16 and g :: u32
  shows "sint ((scast v :: 64 word) * ucast g) = sint v * uint g"
proof -
  have "(scast v :: 64 word) * ucast g = word_of_int (sint v * uint g)"
    unfolding scast_eq ucast_eq by (rule wi_hom_mult)
  then show ?thesis using product_bounds [of v g] by (simp only: int_word_sint) simp
qed

lemma sint_gain_scale: "sint (gain_scale g v) = gained g v"
proof -
  let ?s = "signed_drop_bit 16 ((scast v :: 64 word) * ucast g)"
  have s: "sint ?s = (sint v * uint g) div 65536"
    by (simp add: sint_signed_drop_bit_eq sint_product drop_bit_eq_div)
  have "sint (if sint ?s > 32767 then 32767 else if sint ?s < - 32768 then - 32768 else ?s) = gained g v"
    by (auto simp: s gained_def clip16_def)
  then show ?thesis
    unfolding gain_scale_def Let_def scast_eq using gained_bounds [of g v] by (simp add: sint_of_int_i16)
qed

lemma gained_unity: "gained unityGain v = sint v"
  using sint_i16_bounds [of v] by (simp add: gained_def unityGain_def clip16_def)

lemma gained_zero: "gained 0 v = 0"
  by (simp add: gained_def clip16_def)

lemma gained_attenuates:
  assumes "uint g \<le> 65536"
  shows "\<bar>gained g v\<bar> \<le> \<bar>sint v\<bar>"
proof -
  have *: "0 \<le> sint v \<Longrightarrow> sint v * uint g \<le> sint v * 65536" "sint v < 0 \<Longrightarrow> sint v * 65536 \<le> sint v * uint g"
    using assms by (simp_all add: mult_left_mono mult_left_mono_neg)
  have "\<bar>(sint v * uint g) div 65536\<bar> \<le> \<bar>sint v\<bar>"
  proof (cases "0 \<le> sint v")
    case True
    with *(1) uint_u32_bounds(1) [of g] have "0 \<le> sint v * uint g" "sint v * uint g \<le> sint v * 65536" by simp_all
    with True show ?thesis by linarith
  next
    case False
    with *(2) uint_u32_bounds(1) [of g] have "sint v * uint g \<le> 0" "sint v * 65536 \<le> sint v * uint g"
      by (simp_all add: mult_nonpos_nonneg)
    with False show ?thesis by linarith
  qed
  then show ?thesis using sint_i16_bounds [of v] by (auto simp: gained_def clip16_def)
qed

section \<open>Properties of gain\<close>

text \<open>
  C29: the gain writer computes the exact clipped product on every path.  Whatever the gain, the paths
  for unity and for silence included, one frame of the same length goes to the writer below, each of
  its samples being the sample times the gain in 1/65536, rounded down and clipped to 16 bits, though
  the code computes in 64-bit words; the error is the writer's.
\<close>

theorem gain_WriteSample_exact:
  "gain_WriteSample wr g sample w = wr (map (\<lambda>v. word_of_int (clip16 ((sint v * uint g) div 65536))) sample) w"
proof -
  have "gain_scale g v = word_of_int (gained g v)" for v
    by (rule word_of_int_of_sint) (rule sint_gain_scale)
  then have "map (gain_scale g) sample = map (\<lambda>v. word_of_int (gained g v)) sample" by simp
  moreover have "map (\<lambda>v. word_of_int (gained unityGain v)) sample = sample"
    by (simp add: gained_unity)
  moreover have "map (\<lambda>v. word_of_int (gained 0 v)) sample = replicate (length sample) 0"
    by (simp add: gained_zero map_replicate_const)
  ultimately show ?thesis unfolding gain_WriteSample_def gained_def [symmetric] by metis
qed

text \<open>
  A gain of at most one never makes a sample louder.  After \<open>SetGain q\<close> with 0 <= q <= 1 the call
  succeeded and every sample written has at most the magnitude of the sample given.
\<close>

theorem gain_never_louder:
  assumes "0 \<le> q" "q \<le> 1" "gain_SetGain conv (F32 q) g0 = (err, g)"
  shows "err = None \<and> list_all2 (\<lambda>v u. \<bar>sint u\<bar> \<le> \<bar>sint v\<bar>) sample
    (concat (snd (gain_WriteSample frameWriter_WriteSample g sample [])))"
proof -
  from assms have g: "err = None" "g = of_int \<lfloor>q * 65536\<rfloor>" by (auto simp: gain_SetGain_def)
  have f: "0 \<le> \<lfloor>q * 65536\<rfloor>" "\<lfloor>q * 65536\<rfloor> \<le> 65536" using assms(1,2) by (simp_all add: floor_le_iff)
  then have "uint g \<le> 65536" unfolding g by (simp add: uint_word_of_int take_bit_int_eq_self)
  then have le: "\<bar>sint (word_of_int (gained g v) :: i16)\<bar> \<le> \<bar>sint v\<bar>" for v :: i16
    using gained_attenuates [of g v] gained_bounds [of g v] by (simp add: sint_of_int_i16)
  have "list_all2 (\<lambda>v u. \<bar>sint u\<bar> \<le> \<bar>sint v\<bar>) sample (map (\<lambda>v. word_of_int (gained g v) :: i16) sample)"
    by (simp add: list_all2_conv_all_nth le)
  then show ?thesis using g
    by (simp add: gain_WriteSample_exact frameWriter_WriteSample_def gained_def)
qed

theorem gain_never_louder_witness:
  "list_all2 (\<lambda>v u. \<bar>sint u\<bar> \<le> \<bar>sint v\<bar>) [1000 :: i16, - 7]
    (concat (snd (gain_WriteSample frameWriter_WriteSample 32768 [1000, - 7] [])))"
  using gain_never_louder [of "1 / 2" "\<lambda>_. 0" 0 None 32768 "[1000, - 7]"] by (simp add: gain_SetGain_def)

end
