(* ===== verification/Media_Bytes.thy ===== *)
theory Media_Bytes
  imports Media_Frames
begin

text \<open>
  Frames to bytes and back (\<open>bytes.go\<close>) with the s16le bytes of a PCM16 sample (\<open>pcm.go\<close>).  The
  \<open>bufio.Writer\<close> inside \<open>NewBytesWriter\<close> is written out from the standard library: a buffer of 4096
  bytes in front of an \<open>io.Writer\<close>, which returns an error whenever it takes fewer bytes than given.
\<close>

section \<open>Buffered files\<close>

record 'f bufio =
  bo_buf :: bytes
  bo_err :: "go_error option"
  bo_w :: 'f

definition bufio_NewWriter :: "'f \<Rightarrow> 'f bufio" where
  "bufio_NewWriter f = \<lparr>bo_buf = [], bo_err = None, bo_w = f\<rparr>"

definition bufio_Flush :: "(bytes, 'f) write_fn \<Rightarrow> 'f bufio close_fn" where
  "bufio_Flush wr b =
     (if bo_err b \<noteq> None then (bo_err b, b)
      else if bo_buf b = [] then (None, b)
      else (let (err, f1) = wr (bo_buf b) (bo_w b)
            in if err \<noteq> None then (err, b\<lparr>bo_err := err, bo_w := f1\<rparr>)
               else (None, b\<lparr>bo_buf := [], bo_w := f1\<rparr>)))"

text \<open>A write to an empty buffer: straight to the file when it does not fit.\<close>

definition bufio_put :: "(bytes, 'f) write_fn \<Rightarrow> (bytes, 'f bufio) write_fn" where
  "bufio_put wr p b =
     (if length p > 4096 then
        (let (err, f1) = wr p (bo_w b) in (err, b\<lparr>bo_err := err, bo_w := f1\<rparr>))
      else (None, b\<lparr>bo_buf := p\<rparr>))"

definition bufio_Write :: "(bytes, 'f) write_fn \<Rightarrow> (bytes, 'f bufio) write_fn" where
  "bufio_Write wr p b =
     (if bo_err b \<noteq> None then (bo_err b, b)
      else if length p \<le> 4096 - length (bo_buf b) then (None, b\<lparr>bo_buf := bo_buf b @ p\<rparr>)
      else if bo_buf b = [] then bufio_put wr p b
      else
        (let k = 4096 - length (bo_buf b);
             (err, b1) = bufio_Flush wr (b\<lparr>bo_buf := bo_buf b @ take k p\<rparr>)
         in if err \<noteq> None then (err, b1) else bufio_put wr (drop k p) b1))"

text \<open>\<open>fileWriter\<close>; its \<open>Close\<close> closes the file whether or not the flush fails, and a flush error wins.\<close>

definition NewBytesWriter :: "'f \<Rightarrow> 'f bufio" where
  "NewBytesWriter f = bufio_NewWriter f"

definition fw_WriteRaw :: "(bytes, 'f) write_fn \<Rightarrow> (bytes, 'f bufio) write_fn" where
  "fw_WriteRaw wr data b = bufio_Write wr data b"

definition fw_Close :: "(bytes, 'f) write_fn \<Rightarrow> 'f close_fn \<Rightarrow> 'f bufio close_fn" where
  "fw_Close wr cl b =
     (let (err, b1) = bufio_Flush wr b; (err2, f1) = cl (bo_w b1); b2 = b1\<lparr>bo_w := f1\<rparr>
      in if err \<noteq> None then (err, b2) else (err2, b2))"

section \<open>Encoding frames\<close>

text \<open>
  \<open>byteEncoder\<close> over a frame type with the given \<open>Size\<close> and \<open>CopyTo\<close>; \<open>be_buf\<close> is the backing
  array of its reused buffer, as long as the buffer's capacity.
\<close>

record 'w byteEncoder =
  be_w :: 'w
  be_sampleRate :: int
  be_buf :: bytes

definition EncodeBytes :: "'w \<Rightarrow> int \<Rightarrow> 'w byteEncoder" where
  "EncodeBytes w sampleRate = \<lparr>be_w = w, be_sampleRate = sampleRate, be_buf = []\<rparr>"

definition be_SampleRate :: "'w byteEncoder \<Rightarrow> int" where
  "be_SampleRate e = be_sampleRate e"

definition be_WriteSample ::
  "('f \<Rightarrow> nat) \<Rightarrow> ('f \<Rightarrow> bytes \<Rightarrow> (nat \<times> go_error option) \<times> bytes) \<Rightarrow> (bytes, 'w) write_fn \<Rightarrow>
    ('f, 'w byteEncoder) write_fn" where
  "be_WriteSample size_of copy_to wr sample e =
     (let sz = size_of sample;
          back = (if length (be_buf e) < sz then replicate sz 0 else be_buf e);
          ((n, err), buf) = copy_to sample (take sz back);
          e1 = e\<lparr>be_buf := buf @ drop sz back\<rparr>
      in if err \<noteq> None then (err, e1)
         else (let (err2, w1) = wr (take n buf) (be_w e1) in (err2, e1\<lparr>be_w := w1\<rparr>)))"

definition be_Close :: "'w close_fn \<Rightarrow> 'w byteEncoder close_fn" where
  "be_Close cl e = (let (err, w1) = cl (be_w e) in (err, e\<lparr>be_w := w1\<rparr>))"

text \<open>
  \<open>byteDecoder\<close> over a frame type that is a byte slice; it has no state of its own.
\<close>

definition DecodeBytes :: "'w \<Rightarrow> 'w" where
  "DecodeBytes w = w"

definition bd_SampleRate :: "('w \<Rightarrow> int) \<Rightarrow> 'w \<Rightarrow> int" where
  "bd_SampleRate rate w = rate w"

definition bd_WriteRaw :: "(bytes \<Rightarrow> 'w \<Rightarrow> 'r) \<Rightarrow> bytes \<Rightarrow> 'w \<Rightarrow> 'r" where
  "bd_WriteRaw wr sample w = wr sample w"

definition bd_Close :: "'w close_fn \<Rightarrow> 'w close_fn" where
  "bd_Close cl w = cl w"

text \<open>\<open>NewFileWriter\<close>.\<close>

definition NewFileWriter :: "'f \<Rightarrow> int \<Rightarrow> 'f bufio byteEncoder" where
  "NewFileWriter f sampleRate = EncodeBytes (NewBytesWriter f) sampleRate"

text \<open>
  \<open>FromSampleWriter\<close>; \<open>sampleWriter\<close>: every frame is copied and passed on with the fixed duration.
\<close>

record 'w sampleWriter =
  sm_w :: 'w
  sm_sampleRate :: int
  sm_sampleDur :: ns

definition FromSampleWriter :: "'w \<Rightarrow> int \<Rightarrow> ns \<Rightarrow> 'w sampleWriter" where
  "FromSampleWriter w sampleRate sampleDur = \<lparr>sm_w = w, sm_sampleRate = sampleRate, sm_sampleDur = sampleDur\<rparr>"

definition sampleWriter_SampleRate :: "'w sampleWriter \<Rightarrow> int" where
  "sampleWriter_SampleRate w = sm_sampleRate w"

definition sampleWriter_Close :: "'w sampleWriter close_fn" where
  "sampleWriter_Close w = (None, w)"

definition sampleWriter_WriteSample :: "(bytes \<times> ns, 'w) write_fn \<Rightarrow> (bytes, 'w sampleWriter) write_fn" where
  "sampleWriter_WriteSample wr frame w =
     (let data = snd (go_copy (replicate (length frame) 0) frame); (err, w1) = wr (data, sm_sampleDur w) (sm_w w)
      in (err, w\<lparr>sm_w := w1\<rparr>))"

section \<open>Lemmas on bytes\<close>

definition pcm_bytes :: "pcm16 \<Rightarrow> bytes" where
  "pcm_bytes s = concat (map put_le16 s)"

lemma pcm_bytes_simps [simp]: "pcm_bytes [] = []" "pcm_bytes (v # vs) = put_le16 v @ pcm_bytes vs"
  by (simp_all add: pcm_bytes_def)

lemma length_put_le16 [simp]: "length (put_le16 v) = 2"
  by (simp add: put_le16_def)

lemma length_pcm_bytes [simp]: "length (pcm_bytes s) = length s * 2"
  by (induction s) simp_all

lemma copy_le16_eq: "length s * 2 \<le> length dst \<Longrightarrow> copy_le16 s dst = pcm_bytes s @ drop (length s * 2) dst"
proof (induction s arbitrary: dst)
  case (Cons v s)
  then obtain a b rest where "dst = a # b # rest" by (cases dst rule: remdups_adj.cases) auto
  with Cons show ?case by simp
qed (cases dst; simp)

lemma pcm_CopyTo_eq:
  "length s * 2 \<le> length dst \<Longrightarrow>
    pcm_CopyTo s dst = ((length s * 2, None), pcm_bytes s @ drop (length s * 2) dst)"
  by (simp add: pcm_CopyTo_def copy_le16_eq)

text \<open>Reading the s16le format back.\<close>

fun le16_samples :: "bytes \<Rightarrow> pcm16" where
  "le16_samples (lo # hi # bs) = (ucast lo OR push_bit 8 (ucast hi)) # le16_samples bs"
| "le16_samples _ = []"

lemma le16_join: "(ucast (ucast v :: u8) :: u16) OR push_bit 8 (ucast (ucast (drop_bit 8 v) :: u8)) = v"
proof (rule bit_word_eqI)
  fix n assume "n < LENGTH(16)"
  then show "bit ((ucast (ucast v :: u8) :: u16) OR push_bit 8 (ucast (ucast (drop_bit 8 v) :: u8))) n = bit v n"
    by (cases "n < 8") (auto simp: bit_simps)
qed

lemma le16_samples_pcm: "le16_samples (pcm_bytes s) = s"
  by (induction s) (simp_all add: put_le16_def le16_join)


lemma pcm_bytes_append [simp]: "pcm_bytes (a @ b) = pcm_bytes a @ pcm_bytes b"
  by (simp add: pcm_bytes_def)

section \<open>The interface of a file\<close>

text \<open>
  What \<open>io.Writer\<close> documents: a call that returns no error has written all of its argument after
  what was there.
\<close>

locale byte_file =
  fixes wr :: "(bytes, 'f) write_fn" and content :: "'f \<Rightarrow> bytes"
  assumes written: "fst (wr p f) = None \<Longrightarrow> content (snd (wr p f)) = content f @ p"
begin

text \<open>What a buffered file will hold after a flush.\<close>

definition stored :: "'f bufio \<Rightarrow> bytes" where
  "stored b = content (bo_w b) @ bo_buf b"

lemma bufio_Flush_stored:
  "fst (bufio_Flush wr b) = None \<Longrightarrow> stored (snd (bufio_Flush wr b)) = stored b \<and>
    bo_buf (snd (bufio_Flush wr b)) = []"
  using written [of "bo_buf b" "bo_w b"]
  by (auto simp: bufio_Flush_def stored_def split_beta split: if_splits)

lemma bufio_put_stored:
  "bo_buf b = [] \<Longrightarrow> fst (bufio_put wr p b) = None \<Longrightarrow> stored (snd (bufio_put wr p b)) = stored b @ p"
  using written [of p "bo_w b"] by (auto simp: bufio_put_def stored_def split_beta split: if_splits)

lemma bufio_Write_stored:
  assumes "fst (bufio_Write wr p b) = None"
  shows "stored (snd (bufio_Write wr p b)) = stored b @ p"
proof (cases "bo_err b \<noteq> None \<or> length p \<le> 4096 - length (bo_buf b) \<or> bo_buf b = []")
  case True
  with assms bufio_put_stored [of b p] show ?thesis
    by (auto simp: bufio_Write_def stored_def split: if_splits)
next
  case False
  define k where "k = 4096 - length (bo_buf b)"
  define b0 where "b0 = b\<lparr>bo_buf := bo_buf b @ take k p\<rparr>"
  have eq: "bufio_Write wr p b = (let (err, b1) = bufio_Flush wr b0
      in if err \<noteq> None then (err, b1) else bufio_put wr (drop k p) b1)"
    unfolding bufio_Write_def k_def b0_def Let_def using False by simp
  with assms have f: "fst (bufio_Flush wr b0) = None"
    "fst (bufio_put wr (drop k p) (snd (bufio_Flush wr b0))) = None"
    by (auto simp: split_beta split: if_splits)
  have "bufio_Write wr p b = bufio_put wr (drop k p) (snd (bufio_Flush wr b0))"
    using eq f by (simp add: split_beta)
  moreover have "stored b0 = stored b @ take k p" by (simp add: b0_def stored_def)
  ultimately show ?thesis
    using bufio_Flush_stored [OF f(1)] bufio_put_stored [OF _ f(2)] by simp
qed

text \<open>A buffered file keeps the contract of a file, so buffers can be stacked.\<close>

lemma buffered_is_file: "byte_file (fw_WriteRaw wr) stored"
  by unfold_locales (simp add: fw_WriteRaw_def bufio_Write_stored)

lemma fw_Close_stored:
  assumes "fst (fw_Close wr cl b) = None" "\<And>f. content (snd (cl f)) = content f"
  shows "content (bo_w (snd (fw_Close wr cl b))) = stored b"
  using assms bufio_Flush_stored [of b] by (auto simp: fw_Close_def stored_def split_beta Let_def split: if_splits)

end

text \<open>
  What the encoder needs of a frame type: \<open>CopyTo\<close> fills a buffer of the frame's size with its bytes.
\<close>

locale byte_frame =
  fixes size_of :: "'f \<Rightarrow> nat"
    and copy_to :: "'f \<Rightarrow> bytes \<Rightarrow> (nat \<times> go_error option) \<times> bytes"
    and bytes_of :: "'f \<Rightarrow> bytes"
  assumes size: "size_of s = length (bytes_of s)"
    and copy: "length dst = size_of s \<Longrightarrow> copy_to s dst = ((size_of s, None), bytes_of s)"
begin

lemma reused: "copy_to s (take (size_of s) (if length b < size_of s then replicate (size_of s) 0 else b)) =
    ((size_of s, None), bytes_of s)"
  by (rule copy) simp

lemma be_WriteSample_frame:
  "\<exists>buf. be_WriteSample size_of copy_to wr s e =
     (let (err, w1) = wr (bytes_of s) (be_w e) in (err, e\<lparr>be_buf := buf, be_w := w1\<rparr>))"
  using reused [of s "be_buf e"] size [of s] by (auto simp: be_WriteSample_def Let_def split_beta)

end

interpretation pcm_frame: byte_frame pcm_Size pcm_CopyTo pcm_bytes
  by unfold_locales (simp_all add: pcm_Size_def pcm_CopyTo_eq)

lemmas be_WriteSample_pcm = pcm_frame.be_WriteSample_frame

context byte_file
begin

lemma be_WriteSample_stored:
  assumes "fst (be_WriteSample pcm_Size pcm_CopyTo wr s e) = None"
  shows "content (be_w (snd (be_WriteSample pcm_Size pcm_CopyTo wr s e))) = content (be_w e) @ pcm_bytes s"
proof -
  obtain buf where eq: "be_WriteSample pcm_Size pcm_CopyTo wr s e =
     (let (err, w1) = wr (pcm_bytes s) (be_w e) in (err, e\<lparr>be_buf := buf, be_w := w1\<rparr>))"
    using be_WriteSample_pcm by blast
  with assms have "fst (wr (pcm_bytes s) (be_w e)) = None" by (simp add: split_beta)
  with eq written show ?thesis by (simp add: split_beta)
qed

text \<open>Playing frames into it until they are all written.\<close>

lemma PlayAudio_stored:
  "PlayAudio (be_WriteSample pcm_Size pcm_CopyTo wr) evs frames e = Some (None, e1) \<Longrightarrow>
    content (be_w e1) = content (be_w e) @ pcm_bytes (concat frames)"
proof (induction "be_WriteSample pcm_Size pcm_CopyTo wr" evs frames e rule: PlayAudio.induct)
  case (4 evs f fs w)
  obtain err w1 where wr1: "be_WriteSample pcm_Size pcm_CopyTo wr f w = (err, w1)" by fastforce
  with 4(2) have "err = None" "PlayAudio (be_WriteSample pcm_Size pcm_CopyTo wr) evs fs w1 = Some (None, e1)"
    by (auto split: if_splits)
  with 4(1) [OF wr1 [symmetric] refl] be_WriteSample_stored [of f w] wr1 show ?case by simp
qed auto

end

text \<open>A disk that fails as it likes, and then keeps what it had.\<close>

definition disk_write :: "(bytes \<Rightarrow> bytes \<Rightarrow> go_error option) \<Rightarrow> (bytes, bytes) write_fn" where
  "disk_write fail p f = (let err = fail f p in (err, if err = None then f @ p else f))"

interpretation disk: byte_file "disk_write fail" "\<lambda>f. f" for fail
  by unfold_locales (auto simp: disk_write_def Let_def split: if_splits)

interpretation buffered_disk: byte_file "fw_WriteRaw (disk_write fail)" "disk.stored"
  for fail
  by (rule disk.buffered_is_file)

section \<open>Properties\<close>

text \<open>
  A frame goes to the byte writer in one call, with exactly its bytes.  Whatever is left in the
  encoder's reused buffer from longer or shorter frames, a PCM16 frame is written as its little-endian
  samples and nothing else, the error is the writer's, and reading the bytes back gives the frame.
\<close>

theorem EncodeBytes_exact:
  "fst (be_WriteSample pcm_Size pcm_CopyTo frameWriter_WriteSample s e) = None \<and>
   be_w (snd (be_WriteSample pcm_Size pcm_CopyTo frameWriter_WriteSample s e)) = be_w e @ [concat (map put_le16 s)] \<and>
   le16_samples (concat (map put_le16 s)) = s"
proof -
  obtain buf where "be_WriteSample pcm_Size pcm_CopyTo frameWriter_WriteSample s e =
     (let (err, w1) = frameWriter_WriteSample (pcm_bytes s) (be_w e) in (err, e\<lparr>be_buf := buf, be_w := w1\<rparr>))"
    using be_WriteSample_pcm by blast
  then show ?thesis using le16_samples_pcm [of s] by (simp add: frameWriter_WriteSample_def pcm_bytes_def)
qed

text \<open>
  C30: a PCM16 file read back is what was played.  When playing frames into \<open>NewFileWriter\<close> and
  closing it both return no error, the file holds what it held before and then the little-endian
  samples of all the frames, so reading them gives the frames' samples in order: nothing is lost in
  the encoder's buffer or in the 4096-byte write buffer.  The hypotheses are what \<open>io.Writer\<close> documents
  and that closing the file keeps its content.
\<close>

theorem NewFileWriter_roundtrip:
  assumes "\<And>p f. fst (wr p f) = None \<Longrightarrow> content (snd (wr p f)) = content f @ p"
    and "\<And>f. content (snd (cl f)) = content f"
    and "PlayAudio (be_WriteSample pcm_Size pcm_CopyTo (fw_WriteRaw wr)) evs frames (NewFileWriter f0 rate) = Some (None, e)"
    and "be_Close (fw_Close wr cl) e = (None, e1)"
  shows "\<exists>bs. content (bo_w (be_w e1)) = content f0 @ bs \<and> le16_samples bs = concat frames \<and> length bs = 2 * length (concat frames)"
proof -
  have is_file: "byte_file wr content" by unfold_locales (rule assms(1))
  have "byte_file.stored content (be_w e) =
      byte_file.stored content (be_w (NewFileWriter f0 rate)) @ pcm_bytes (concat frames)"
    by (rule byte_file.PlayAudio_stored [OF byte_file.buffered_is_file [OF is_file] assms(3)])
  moreover have "byte_file.stored content (be_w (NewFileWriter f0 rate)) = content f0"
    by (simp add: byte_file.stored_def [OF is_file] NewFileWriter_def EncodeBytes_def NewBytesWriter_def bufio_NewWriter_def)
  moreover have "fst (fw_Close wr cl (be_w e)) = None" "be_w e1 = snd (fw_Close wr cl (be_w e))"
    using assms(4) by (auto simp: be_Close_def split_beta)
  ultimately have "content (bo_w (be_w e1)) = content f0 @ pcm_bytes (concat frames)"
    using byte_file.fw_Close_stored [OF is_file _ assms(2)] by simp
  then show ?thesis by (intro exI [of _ "pcm_bytes (concat frames)"]) (simp add: le16_samples_pcm)
qed

theorem NewFileWriter_roundtrip_witness:
  "\<exists>e e1. PlayAudio (be_WriteSample pcm_Size pcm_CopyTo (fw_WriteRaw (disk_write (\<lambda>_ _. None)))) [Tick, Tick]
       [[1, 2], [- 3]] (NewFileWriter [9] 8000) = Some (None, e) \<and>
     be_Close (fw_Close (disk_write (\<lambda>_ _. None)) (Pair None)) e = (None, e1) \<and>
     (\<exists>bs. bo_w (be_w e1) = [9] @ bs \<and> le16_samples bs = [1, 2, - 3])"
proof -
  define e :: "bytes bufio byteEncoder" where
    "e = \<lparr>be_w = \<lparr>bo_buf = [1, 0, 2, 0, 253, 255], bo_err = None, bo_w = [9]\<rparr>, be_sampleRate = 8000, be_buf = [253, 255, 2, 0]\<rparr>"
  define e1 :: "bytes bufio byteEncoder" where
    "e1 = \<lparr>be_w = \<lparr>bo_buf = [], bo_err = None, bo_w = [9, 1, 0, 2, 0, 253, 255]\<rparr>, be_sampleRate = 8000, be_buf = [253, 255, 2, 0]\<rparr>"
  have run:
    "PlayAudio (be_WriteSample pcm_Size pcm_CopyTo (fw_WriteRaw (disk_write (\<lambda>_ _. None)))) [Tick, Tick]
       [[1, 2], [- 3]] (NewFileWriter [9] 8000) = Some (None, e)"
    "be_Close (fw_Close (disk_write (\<lambda>_ _. None)) (Pair None)) e = (None, e1)"
    unfolding e_def e1_def by code_simp+
  moreover have "\<exists>bs. bo_w (be_w e1) = [9] @ bs \<and> le16_samples bs = concat [[1, 2], [- 3]] \<and>
      length bs = 2 * length (concat [[1, 2], [- 3 :: i16]])"
    by (rule NewFileWriter_roundtrip [OF disk.written _ run]) auto
  ultimately show ?thesis by auto
qed

end
