(* ===== verification/Media_Pipe.thy ===== *)
theory Media_Pipe
  imports Media_Prelude
begin

text \<open>
  The synchronous pipe of \<open>pipe.go\<close> as a transition system: any number of goroutines call \<open>ReadSample\<close>
  and \<open>WriteSample\<close>, others close either half, and every blocking point of the code is a step of its
  own, so all the interleavings are there.
\<close>

section \<open>State\<close>

text \<open>
  Where a goroutine is in \<open>write(data)\<close>: before the lock, at the \<open>select\<close> of the loop with \<open>b\<close> left and
  \<open>n\<close> written, waiting on \<open>rdCh\<close> after \<open>b\<close> was received, or returned.
\<close>

datatype 'e wphase =
    WIdle
  | WLock "'e list"
  | WLoop "'e list" "'e list" nat
  | WAwait "'e list" "'e list" nat
  | WRet "'e list" nat "go_error option"

text \<open>And in \<open>read\<close> with a slice of length \<open>k\<close>: at the \<open>select\<close>, holding what came from \<open>wrCh\<close>, or returned.\<close>

datatype 'e rphase =
    RIdle
  | RSelect nat
  | RCopy nat "'e list"
  | RRet "'e list" "go_error option"

text \<open>
  The fields of \<open>pipe\<close> (\<open>p_mu\<close> is the goroutine that holds \<open>wrMu\<close>), the goroutines, and three histories
  the code does not keep: the reader that received a slice and has not answered, the writes in the
  order they took the lock with the count each has reached, and everything read in order.
\<close>

record 'e pipe =
  p_mu :: "nat option"
  p_done :: bool
  p_rerr :: "go_error option"
  p_werr :: "go_error option"
  p_wr :: "nat \<Rightarrow> 'e wphase"
  p_rd :: "nat \<Rightarrow> 'e rphase"
  p_peer :: "nat option"
  p_calls :: "('e list \<times> nat) list"
  p_read :: "'e list"

definition Pipe :: "'e pipe" where
  "Pipe = \<lparr>p_mu = None, p_done = False, p_rerr = None, p_werr = None, p_wr = (\<lambda>_. WIdle),
     p_rd = (\<lambda>_. RIdle), p_peer = None, p_calls = [], p_read = []\<rparr>"

section \<open>Operations\<close>

text \<open>\<open>onceError\<close>.\<close>

definition onceError_Store :: "go_error \<Rightarrow> go_error option \<Rightarrow> go_error option" where
  "onceError_Store err a = (if a \<noteq> None then a else Some err)"

definition onceError_Load :: "go_error option \<Rightarrow> go_error option" where
  "onceError_Load a = a"

definition readCloseError :: "'e pipe \<Rightarrow> go_error" where
  "readCloseError p =
     (let rerr = onceError_Load (p_rerr p); werr = onceError_Load (p_werr p)
      in if rerr = None \<and> werr \<noteq> None then the werr else ErrClosedPipe)"

definition writeCloseError :: "'e pipe \<Rightarrow> go_error" where
  "writeCloseError p =
     (let werr = onceError_Load (p_werr p); rerr = onceError_Load (p_rerr p)
      in if werr = None \<and> rerr \<noteq> None then the rerr else ErrClosedPipe)"

text \<open>The two halves of a close: storing the error, and closing \<open>done\<close> once.\<close>

definition closeRead_store :: "go_error option \<Rightarrow> 'e pipe \<Rightarrow> 'e pipe" where
  "closeRead_store err p =
     p\<lparr>p_rerr := onceError_Store (if err = None then ErrClosedPipe else the err) (p_rerr p)\<rparr>"

definition closeWrite_store :: "go_error option \<Rightarrow> 'e pipe \<Rightarrow> 'e pipe" where
  "closeWrite_store err p =
     p\<lparr>p_werr := onceError_Store (if err = None then EOF else the err) (p_werr p)\<rparr>"

definition close_once :: "'e pipe \<Rightarrow> 'e pipe" where
  "close_once p = p\<lparr>p_done := True\<rparr>"

definition closeRead :: "go_error option \<Rightarrow> 'e pipe \<Rightarrow> go_error option \<times> 'e pipe" where
  "closeRead err p = (None, close_once (closeRead_store err p))"

definition closeWrite :: "go_error option \<Rightarrow> 'e pipe \<Rightarrow> go_error option \<times> 'e pipe" where
  "closeWrite err p = (None, close_once (closeWrite_store err p))"

definition PipeReader_CloseWithError :: "go_error option \<Rightarrow> 'e pipe \<Rightarrow> go_error option \<times> 'e pipe" where
  "PipeReader_CloseWithError err p = closeRead err p"

definition PipeWriter_CloseWithError :: "go_error option \<Rightarrow> 'e pipe \<Rightarrow> go_error option \<times> 'e pipe" where
  "PipeWriter_CloseWithError err p = closeWrite err p"

definition PipeReader_Close :: "'e pipe \<Rightarrow> go_error option \<times> 'e pipe" where
  "PipeReader_Close p = PipeReader_CloseWithError None p"

definition PipeWriter_Close :: "'e pipe \<Rightarrow> go_error option \<times> 'e pipe" where
  "PipeWriter_Close p = PipeWriter_CloseWithError None p"

text \<open>The entry of a call: the first \<open>select\<close> of \<open>write\<close> and of \<open>read\<close>.\<close>

definition write_enter :: "nat \<Rightarrow> 'e list \<Rightarrow> 'e pipe \<Rightarrow> 'e pipe" where
  "write_enter i data p =
     p\<lparr>p_wr := (p_wr p)(i := if p_done p then WRet data 0 (Some (writeCloseError p)) else WLock data)\<rparr>"

definition read_enter :: "nat \<Rightarrow> nat \<Rightarrow> 'e pipe \<Rightarrow> 'e pipe" where
  "read_enter j k p =
     p\<lparr>p_rd := (p_rd p)(j := if p_done p then RRet [] (Some (readCloseError p)) else RSelect k)\<rparr>"

text \<open>The lock, and the first round of the loop.\<close>

definition write_lock :: "nat \<Rightarrow> 'e list \<Rightarrow> 'e pipe \<Rightarrow> 'e pipe" where
  "write_lock i data p =
     p\<lparr>p_mu := Some i, p_wr := (p_wr p)(i := WLoop data data 0), p_calls := p_calls p @ [(data, 0)]\<rparr>"

text \<open>The rendezvous on \<open>wrCh\<close>.\<close>

definition hand_over :: "nat \<Rightarrow> nat \<Rightarrow> 'e list \<Rightarrow> 'e list \<Rightarrow> nat \<Rightarrow> nat \<Rightarrow> 'e pipe \<Rightarrow> 'e pipe" where
  "hand_over i j data b n k p =
     p\<lparr>p_wr := (p_wr p)(i := WAwait data b n), p_rd := (p_rd p)(j := RCopy k b), p_peer := Some j\<rparr>"

text \<open>
  The rendezvous on \<open>rdCh\<close>: the reader has copied and returns, the writer goes round or returns and
  unlocks.
\<close>

definition reply :: "nat \<Rightarrow> nat \<Rightarrow> 'e list \<Rightarrow> 'e list \<Rightarrow> nat \<Rightarrow> nat \<Rightarrow> 'e list \<Rightarrow> 'e pipe \<Rightarrow> 'e pipe" where
  "reply i j data b n k bw p =
     (let nr = min k (length bw); b1 = drop nr b; n1 = n + nr;
          p1 = p\<lparr>p_rd := (p_rd p)(j := RRet (take nr bw) None), p_peer := None,
                 p_calls := butlast (p_calls p) @ [(data, n1)], p_read := p_read p @ take nr bw\<rparr>
      in if length b1 > 0 then p1\<lparr>p_wr := (p_wr p1)(i := WLoop data b1 n1)\<rparr>
         else p1\<lparr>p_wr := (p_wr p1)(i := WRet data n1 None), p_mu := None\<rparr>)"

definition write_abort :: "nat \<Rightarrow> 'e list \<Rightarrow> nat \<Rightarrow> 'e pipe \<Rightarrow> 'e pipe" where
  "write_abort i data n p =
     p\<lparr>p_wr := (p_wr p)(i := WRet data n (Some (writeCloseError p))), p_mu := None\<rparr>"

definition read_abort :: "nat \<Rightarrow> 'e pipe \<Rightarrow> 'e pipe" where
  "read_abort j p = p\<lparr>p_rd := (p_rd p)(j := RRet [] (Some (readCloseError p)))\<rparr>"

fun w_free :: "'e wphase \<Rightarrow> bool" where
  "w_free WIdle = True" | "w_free (WRet _ _ _) = True" | "w_free _ = False"

fun r_free :: "'e rphase \<Rightarrow> bool" where
  "r_free RIdle = True" | "r_free (RRet _ _) = True" | "r_free _ = False"

section \<open>Steps\<close>

text \<open>A step inside a call that is under way.\<close>

inductive pipe_internal :: "'e pipe \<Rightarrow> 'e pipe \<Rightarrow> bool" where
  lock: "p_wr p i = WLock data \<Longrightarrow> p_mu p = None \<Longrightarrow> pipe_internal p (write_lock i data p)"
| hand: "p_wr p i = WLoop data b n \<Longrightarrow> p_rd p j = RSelect k \<Longrightarrow> pipe_internal p (hand_over i j data b n k p)"
| rep: "p_wr p i = WAwait data b n \<Longrightarrow> p_rd p j = RCopy k bw \<Longrightarrow> pipe_internal p (reply i j data b n k bw p)"
| wabort: "p_wr p i = WLoop data b n \<Longrightarrow> p_done p \<Longrightarrow> pipe_internal p (write_abort i data n p)"
| rabort: "p_rd p j = RSelect k \<Longrightarrow> p_done p \<Longrightarrow> pipe_internal p (read_abort j p)"

text \<open>A new call, or one half of a close; \<open>done\<close> is closed only after an error was stored.\<close>

inductive pipe_external :: "'e pipe \<Rightarrow> 'e pipe \<Rightarrow> bool" where
  wcall: "w_free (p_wr p i) \<Longrightarrow> pipe_external p (write_enter i data p)"
| rcall: "r_free (p_rd p j) \<Longrightarrow> pipe_external p (read_enter j k p)"
| rstore: "pipe_external p (closeRead_store err p)"
| wstore: "pipe_external p (closeWrite_store err p)"
| once: "p_rerr p \<noteq> None \<or> p_werr p \<noteq> None \<Longrightarrow> pipe_external p (close_once p)"

inductive pipe_reach :: "'e pipe \<Rightarrow> bool" where
  new: "pipe_reach Pipe"
| internal: "pipe_reach p \<Longrightarrow> pipe_internal p q \<Longrightarrow> pipe_reach q"
| external: "pipe_reach p \<Longrightarrow> pipe_external p q \<Longrightarrow> pipe_reach q"

section \<open>The invariant\<close>

fun holds_lock :: "'e wphase \<Rightarrow> bool" where
  "holds_lock (WLoop _ _ _) = True" | "holds_lock (WAwait _ _ _) = True" | "holds_lock _ = False"

fun copying :: "'e rphase \<Rightarrow> bool" where
  "copying (RCopy _ _) = True" | "copying _ = False"

text \<open>What the writer's phase says of the rest of the pipe.\<close>

fun writer_ok :: "'e pipe \<Rightarrow> 'e wphase \<Rightarrow> bool" where
  "writer_ok p (WLoop data b n) \<longleftrightarrow>
     p_peer p = None \<and> b = drop n data \<and> n \<le> length data \<and> p_calls p \<noteq> [] \<and> last (p_calls p) = (data, n)"
| "writer_ok p (WAwait data b n) \<longleftrightarrow>
     (\<exists>j k. p_peer p = Some j \<and> p_rd p j = RCopy k b) \<and> b = drop n data \<and> n \<le> length data \<and>
     p_calls p \<noteq> [] \<and> last (p_calls p) = (data, n)"
| "writer_ok p (WRet data n None) \<longleftrightarrow> n = length data"
| "writer_ok p (WRet data n (Some e)) \<longleftrightarrow> n \<le> length data \<and> p_done p"
| "writer_ok p _ \<longleftrightarrow> True"

fun reader_ok :: "'e pipe \<Rightarrow> 'e rphase \<Rightarrow> bool" where
  "reader_ok p (RRet data (Some e)) \<longleftrightarrow> data = [] \<and> p_done p"
| "reader_ok p _ \<longleftrightarrow> True"

definition pipe_inv :: "'e pipe \<Rightarrow> bool" where
  "pipe_inv p \<longleftrightarrow>
     (\<forall>i. holds_lock (p_wr p i) \<longleftrightarrow> p_mu p = Some i) \<and>
     (\<forall>j. copying (p_rd p j) \<longleftrightarrow> p_peer p = Some j) \<and>
     (p_mu p = None \<longrightarrow> p_peer p = None) \<and>
     (\<forall>i. writer_ok p (p_wr p i)) \<and> (\<forall>j. reader_ok p (p_rd p j)) \<and>
     p_read p = concat (map (\<lambda>(data, n). take n data) (p_calls p)) \<and>
     (p_done p \<longrightarrow> p_rerr p \<noteq> None \<or> p_werr p \<noteq> None) \<and>
     (p_done p \<or> list_all (\<lambda>(data, n). n = length data) (if p_mu p = None then p_calls p else butlast (p_calls p)))"

lemma writer_ok_frame:
  assumes "\<not> holds_lock ph" "p_done p \<Longrightarrow> p_done q" "writer_ok p ph"
  shows "writer_ok q ph"
proof (cases ph)
  case (WRet data n e)
  with assms show ?thesis by (cases e) auto
qed (use assms in auto)

lemma writer_ok_same:
  assumes "p_peer q = p_peer p" "p_rd q = p_rd p" "p_calls q = p_calls p" "p_done p \<Longrightarrow> p_done q" "writer_ok p ph"
  shows "writer_ok q ph"
proof (cases "holds_lock ph")
  case True
  with assms show ?thesis by (cases ph) auto
qed (use writer_ok_frame assms in blast)

lemma reader_ok_frame: "(p_done p \<Longrightarrow> p_done q) \<Longrightarrow> reader_ok p ph \<Longrightarrow> reader_ok q ph"
  by (induction p ph rule: reader_ok.induct) auto

lemma pipe_invD:
  assumes "pipe_inv p"
  shows "holds_lock (p_wr p i) \<longleftrightarrow> p_mu p = Some i" "copying (p_rd p j) \<longleftrightarrow> p_peer p = Some j"
    "p_mu p = None \<Longrightarrow> p_peer p = None" "writer_ok p (p_wr p i)" "reader_ok p (p_rd p j)"
    "p_read p = concat (map (\<lambda>(data, n). take n data) (p_calls p))"
    "p_done p \<Longrightarrow> p_rerr p \<noteq> None \<or> p_werr p \<noteq> None"
    "\<not> p_done p \<Longrightarrow> list_all (\<lambda>(data, n). n = length data) (if p_mu p = None then p_calls p else butlast (p_calls p))"
  using assms by (auto simp: pipe_inv_def)

lemma pipe_invI:
  assumes "\<And>i. holds_lock (p_wr p i) \<longleftrightarrow> p_mu p = Some i" "\<And>j. copying (p_rd p j) \<longleftrightarrow> p_peer p = Some j"
    "p_mu p = None \<Longrightarrow> p_peer p = None" "\<And>i. writer_ok p (p_wr p i)" "\<And>j. reader_ok p (p_rd p j)"
    "p_read p = concat (map (\<lambda>(data, n). take n data) (p_calls p))"
    "p_done p \<Longrightarrow> p_rerr p \<noteq> None \<or> p_werr p \<noteq> None"
    "\<not> p_done p \<Longrightarrow> list_all (\<lambda>(data, n). n = length data) (if p_mu p = None then p_calls p else butlast (p_calls p))"
  shows "pipe_inv p"
  unfolding pipe_inv_def using assms by blast

text \<open>The others of a writer that holds the lock do not.\<close>

lemma other_writers:
  assumes "pipe_inv p" "holds_lock (p_wr p i)" "i' \<noteq> i"
  shows "\<not> holds_lock (p_wr p i')"
  using pipe_invD(1) [OF assms(1)] assms(2,3) by auto

lemma pipe_inv_closing:
  assumes "pipe_inv p" "p_mu q = p_mu p" "p_peer q = p_peer p" "p_wr q = p_wr p" "p_rd q = p_rd p"
    "p_calls q = p_calls p" "p_read q = p_read p" "p_done p \<Longrightarrow> p_done q"
    "p_done q \<Longrightarrow> p_rerr q \<noteq> None \<or> p_werr q \<noteq> None"
  shows "pipe_inv q"
proof (rule pipe_invI)
  fix i show "writer_ok q (p_wr q i)"
    using writer_ok_same [OF _ _ _ _ pipe_invD(4) [OF assms(1), of i], of q] assms by simp
next
  fix j show "reader_ok q (p_rd q j)"
    using reader_ok_frame [OF _ pipe_invD(5) [OF assms(1), of j], of q] assms by simp
next
  assume "\<not> p_done q"
  then have "\<not> p_done p" using assms(8) by blast
  from pipe_invD(8) [OF assms(1) this]
  show "list_all (\<lambda>(data, n). n = length data) (if p_mu q = None then p_calls q else butlast (p_calls q))"
    unfolding assms(2,6) .
qed (use assms pipe_invD [OF assms(1)] in auto)

lemma pipe_inv_external:
  assumes "pipe_inv p" "pipe_external p q"
  shows "pipe_inv q"
  using assms(2)
proof cases
  case (wcall i data)
  have free: "\<not> holds_lock (p_wr p i)" using wcall(2) by (cases "p_wr p i") auto
  show ?thesis
  proof (rule pipe_invI)
    fix i'
    show "holds_lock (p_wr q i') \<longleftrightarrow> p_mu q = Some i'"
      using pipe_invD(1) [OF assms(1), of i'] free wcall by (auto simp: write_enter_def)
    show "writer_ok q (p_wr q i')"
    proof (cases "i' = i")
      case False
      with writer_ok_same [OF _ _ _ _ pipe_invD(4) [OF assms(1), of i'], of q] wcall show ?thesis
        by (simp add: write_enter_def)
    qed (simp add: wcall write_enter_def)
  next
    fix j show "reader_ok q (p_rd q j)"
      using reader_ok_frame [OF _ pipe_invD(5) [OF assms(1), of j], of q] wcall by (simp add: write_enter_def)
  qed (use wcall pipe_invD [OF assms(1)] in \<open>auto simp: write_enter_def\<close>)
next
  case (rcall j k)
  have free: "\<not> copying (p_rd p j)" using rcall(2) by (cases "p_rd p j") auto
  show ?thesis
  proof (rule pipe_invI)
    fix j'
    show "copying (p_rd q j') \<longleftrightarrow> p_peer q = Some j'"
      using pipe_invD(2) [OF assms(1), of j'] free rcall by (auto simp: read_enter_def)
    show "reader_ok q (p_rd q j')"
      using reader_ok_frame [OF _ pipe_invD(5) [OF assms(1), of j'], of q] rcall by (simp add: read_enter_def)
  next
    fix i show "writer_ok q (p_wr q i)"
    proof (cases "holds_lock (p_wr p i)")
      case True
      with pipe_invD(4) [OF assms(1), of i] free rcall show ?thesis
        by (cases "p_wr p i") (auto simp: read_enter_def, metis copying.simps(1))
    next
      case False
      with writer_ok_frame [OF False _ pipe_invD(4) [OF assms(1), of i], of q] rcall show ?thesis
        by (simp add: read_enter_def)
    qed
  qed (use rcall pipe_invD [OF assms(1)] in \<open>auto simp: read_enter_def\<close>)
next
  case (rstore err)
  show ?thesis
    by (rule pipe_inv_closing [OF assms(1)]) (auto simp: rstore closeRead_store_def onceError_Store_def
        dest: pipe_invD(7) [OF assms(1)])
next
  case (wstore err)
  show ?thesis
    by (rule pipe_inv_closing [OF assms(1)]) (auto simp: wstore closeWrite_store_def onceError_Store_def
        dest: pipe_invD(7) [OF assms(1)])
next
  case once
  show ?thesis by (rule pipe_inv_closing [OF assms(1)]) (use once in \<open>auto simp: close_once_def\<close>)
qed

text \<open>A writer's step keeps what holds of the other writers.\<close>

lemma others_ok:
  assumes "pipe_inv p" "holds_lock (p_wr p i) \<or> p_mu p = None" "p_wr q = (p_wr p)(i := ph)"
    "p_done q = p_done p" "writer_ok q ph"
  shows "writer_ok q (p_wr q i')"
proof (cases "i' = i")
  case False
  then have "\<not> holds_lock (p_wr p i')" using pipe_invD(1) [OF assms(1)] assms(2) by auto
  from writer_ok_frame [OF this _ pipe_invD(4) [OF assms(1)], of q] assms(3,4) False show ?thesis by simp
qed (simp add: assms)

lemma concat_calls_last:
  "cs \<noteq> [] \<Longrightarrow> last cs = (data, n) \<Longrightarrow>
    concat (map (\<lambda>(d, n). take n d) cs) = concat (map (\<lambda>(d, n). take n d) (butlast cs)) @ take n data"
  by (cases cs rule: rev_cases) auto

lemma pipe_inv_lock:
  assumes "pipe_inv p" "p_wr p i = WLock data" "p_mu p = None"
  shows "pipe_inv (write_lock i data p)"
proof (rule pipe_invI)
  fix i' show "writer_ok (write_lock i data p) (p_wr (write_lock i data p) i')"
    by (rule others_ok [OF assms(1), of i]) (use assms pipe_invD(3) [OF assms(1)] in \<open>auto simp: write_lock_def\<close>)
  show "holds_lock (p_wr (write_lock i data p) i') \<longleftrightarrow> p_mu (write_lock i data p) = Some i'"
    using pipe_invD(1) [OF assms(1), of i'] assms by (auto simp: write_lock_def)
next
  fix j show "reader_ok (write_lock i data p) (p_rd (write_lock i data p) j)"
    using reader_ok_frame [OF _ pipe_invD(5) [OF assms(1), of j]] by (simp add: write_lock_def)
qed (use assms pipe_invD [OF assms(1)] in \<open>auto simp: write_lock_def\<close>)

lemma pipe_inv_hand:
  assumes "pipe_inv p" "p_wr p i = WLoop data b n" "p_rd p j = RSelect k"
  shows "pipe_inv (hand_over i j data b n k p)"
proof (rule pipe_invI)
  have w: "writer_ok p (WLoop data b n)" using pipe_invD(4) [OF assms(1), of i] unfolding assms(2) .
  then have peer: "p_peer p = None" by simp
  fix i' show "writer_ok (hand_over i j data b n k p) (p_wr (hand_over i j data b n k p) i')"
    by (rule others_ok [OF assms(1), of i]) (use assms w in \<open>auto simp: hand_over_def\<close>)
  show "holds_lock (p_wr (hand_over i j data b n k p) i') \<longleftrightarrow> p_mu (hand_over i j data b n k p) = Some i'"
    using pipe_invD(1) [OF assms(1), of i'] assms by (auto simp: hand_over_def)
  fix j' show "copying (p_rd (hand_over i j data b n k p) j') \<longleftrightarrow> p_peer (hand_over i j data b n k p) = Some j'"
    using pipe_invD(2) [OF assms(1), of j'] peer by (auto simp: hand_over_def)
  show "reader_ok (hand_over i j data b n k p) (p_rd (hand_over i j data b n k p) j')"
    using reader_ok_frame [OF _ pipe_invD(5) [OF assms(1), of j']] by (simp add: hand_over_def)
  show "p_peer (hand_over i j data b n k p) = None" if "p_mu (hand_over i j data b n k p) = None"
    using that pipe_invD(1) [OF assms(1), of i] assms(2) by (simp add: hand_over_def)
qed (use assms pipe_invD [OF assms(1)] in \<open>auto simp: hand_over_def\<close>)

lemma pipe_inv_reply:
  assumes "pipe_inv p" "p_wr p i = WAwait data b n" "p_rd p j = RCopy k bw"
  shows "pipe_inv (reply i j data b n k bw p)"
proof -
  have w: "writer_ok p (WAwait data b n)" using pipe_invD(4) [OF assms(1), of i] unfolding assms(2) .
  have peer: "p_peer p = Some j" using pipe_invD(2) [OF assms(1), of j] assms(3) by simp
  have bw: "bw = b" "b = drop n data" "n \<le> length data" using w peer assms(3) by auto
  define nr where "nr = min k (length b)"
  have nr: "n + nr \<le> length data" "drop nr b = drop (n + nr) data" "take n data @ take nr b = take (n + nr) data"
    using bw by (auto simp: nr_def take_add add.commute)
  define q where "q = reply i j data b n k bw p"
  have q: "p_done q = p_done p" "p_rd q = (p_rd p)(j := RRet (take nr b) None)" "p_peer q = None"
    "p_calls q = butlast (p_calls p) @ [(data, n + nr)]" "p_read q = p_read p @ take nr b"
    "p_rerr q = p_rerr p" "p_werr q = p_werr p"
    "p_mu q = (if drop nr b = [] then None else p_mu p)"
    "p_wr q = (p_wr p)(i := if drop nr b = [] then WRet data (n + nr) None else WLoop data (drop nr b) (n + nr))"
    by (auto simp: q_def reply_def Let_def bw(1) nr_def)
  have "pipe_inv q"
  proof (rule pipe_invI)
    fix i' show "writer_ok q (p_wr q i')"
      by (rule others_ok [OF assms(1) _ q(9) q(1)]) (use assms q nr bw in auto)
    show "holds_lock (p_wr q i') \<longleftrightarrow> p_mu q = Some i'"
      using pipe_invD(1) [OF assms(1), of i'] pipe_invD(1) [OF assms(1), of i] assms(2) q by auto
    fix j' show "copying (p_rd q j') \<longleftrightarrow> p_peer q = Some j'"
      using pipe_invD(2) [OF assms(1), of j'] peer q by auto
    show "reader_ok q (p_rd q j')"
      using reader_ok_frame [OF _ pipe_invD(5) [OF assms(1), of j'], of q] q by simp
    show "p_read q = concat (map (\<lambda>(data, n). take n data) (p_calls q))"
      using pipe_invD(6) [OF assms(1)] w q nr(3) by (simp add: concat_calls_last)
    show "list_all (\<lambda>(data, n). n = length data) (if p_mu q = None then p_calls q else butlast (p_calls q))"
      if "\<not> p_done q"
      using pipe_invD(8) [OF assms(1)] pipe_invD(1) [OF assms(1), of i] assms(2) that q nr(1,2) by auto
  qed (use pipe_invD(7) [OF assms(1)] q in auto)
  then show ?thesis by (simp add: q_def)
qed

lemma pipe_inv_write_abort:
  assumes "pipe_inv p" "p_wr p i = WLoop data b n" "p_done p"
  shows "pipe_inv (write_abort i data n p)"
proof (rule pipe_invI)
  have w: "writer_ok p (WLoop data b n)" using pipe_invD(4) [OF assms(1), of i] unfolding assms(2) .
  fix i' show "writer_ok (write_abort i data n p) (p_wr (write_abort i data n p) i')"
    by (rule others_ok [OF assms(1), of i]) (use assms w in \<open>auto simp: write_abort_def\<close>)
  show "holds_lock (p_wr (write_abort i data n p) i') \<longleftrightarrow> p_mu (write_abort i data n p) = Some i'"
    using pipe_invD(1) [OF assms(1), of i'] pipe_invD(1) [OF assms(1), of i] assms by (auto simp: write_abort_def)
  fix j' show "reader_ok (write_abort i data n p) (p_rd (write_abort i data n p) j')"
    using reader_ok_frame [OF _ pipe_invD(5) [OF assms(1), of j']] by (simp add: write_abort_def)
  show "p_peer (write_abort i data n p) = None" using w by (simp add: write_abort_def)
qed (use assms pipe_invD [OF assms(1)] in \<open>auto simp: write_abort_def\<close>)

lemma pipe_inv_read_abort:
  assumes "pipe_inv p" "p_rd p j = RSelect k" "p_done p"
  shows "pipe_inv (read_abort j p)"
proof (rule pipe_invI)
  fix i show "writer_ok (read_abort j p) (p_wr (read_abort j p) i)"
  proof (cases "holds_lock (p_wr p i)")
    case True
    with pipe_invD(4) [OF assms(1), of i] assms(2) show ?thesis
      by (cases "p_wr p i") (auto simp: read_abort_def, metis rphase.distinct(7))
  next
    case False
    with writer_ok_frame [OF False _ pipe_invD(4) [OF assms(1), of i]] show ?thesis by (simp add: read_abort_def)
  qed
  fix j' show "copying (p_rd (read_abort j p) j') \<longleftrightarrow> p_peer (read_abort j p) = Some j'"
    using pipe_invD(2) [OF assms(1), of j'] assms(2) by (auto simp: read_abort_def)
  show "reader_ok (read_abort j p) (p_rd (read_abort j p) j')"
    using reader_ok_frame [OF _ pipe_invD(5) [OF assms(1), of j']] assms(3) by (simp add: read_abort_def)
qed (use assms pipe_invD [OF assms(1)] in \<open>auto simp: read_abort_def\<close>)

lemma pipe_inv_internal: "pipe_inv p \<Longrightarrow> pipe_internal p q \<Longrightarrow> pipe_inv q"
  by (erule pipe_internal.cases)
    (auto intro: pipe_inv_lock pipe_inv_hand pipe_inv_reply pipe_inv_write_abort pipe_inv_read_abort)

lemma pipe_inv_reach: "pipe_reach p \<Longrightarrow> pipe_inv p"
proof (induction rule: pipe_reach.induct)
  case new
  show ?case by (rule pipe_invI) (simp_all add: Pipe_def)
qed (blast intro: pipe_inv_internal pipe_inv_external)+

section \<open>Errors\<close>

inductive pipe_steps :: "'e pipe \<Rightarrow> 'e pipe \<Rightarrow> bool" where
  refl: "pipe_steps p p"
| step: "pipe_steps p q \<Longrightarrow> pipe_internal q r \<or> pipe_external q r \<Longrightarrow> pipe_steps p r"

lemma internal_errors: "pipe_internal p q \<Longrightarrow> p_rerr q = p_rerr p \<and> p_werr q = p_werr p \<and> p_done q = p_done p"
  by (erule pipe_internal.cases)
    (auto simp: write_lock_def hand_over_def reply_def write_abort_def read_abort_def Let_def)

lemma external_errors:
  "pipe_external p q \<Longrightarrow> (p_rerr p = None \<or> p_rerr q = p_rerr p) \<and> (p_werr p = None \<or> p_werr q = p_werr p) \<and>
    (p_done p \<longrightarrow> p_done q)"
  by (erule pipe_external.cases)
    (auto simp: write_enter_def read_enter_def closeRead_store_def closeWrite_store_def close_once_def onceError_Store_def)

lemma steps_errors:
  "pipe_steps p q \<Longrightarrow> (p_rerr p = None \<or> p_rerr q = p_rerr p) \<and> (p_werr p = None \<or> p_werr q = p_werr p) \<and>
    (p_done p \<longrightarrow> p_done q)"
proof (induction rule: pipe_steps.induct)
  case (step p q r)
  then show ?case using internal_errors [of q r] external_errors [of q r] by metis
qed simp

section \<open>Termination of the calls\<close>

fun w_weight :: "'e wphase \<Rightarrow> nat" where
  "w_weight (WLock _) = 3" | "w_weight (WLoop _ _ _) = 2" | "w_weight (WAwait _ _ _) = 3" | "w_weight _ = 0"

fun r_weight :: "'e rphase \<Rightarrow> nat" where
  "r_weight (RSelect _) = 3" | "r_weight (RCopy _ _) = 1" | "r_weight _ = 0"

lemma w_free_weight: "w_free ph \<longleftrightarrow> w_weight ph = 0"
  by (cases ph) auto

lemma r_free_weight: "r_free ph \<longleftrightarrow> r_weight ph = 0"
  by (cases ph) auto

definition pending :: "'e pipe \<Rightarrow> nat set \<Rightarrow> nat set \<Rightarrow> bool" where
  "pending p S T \<longleftrightarrow> finite S \<and> finite T \<and> (\<forall>i. \<not> w_free (p_wr p i) \<longrightarrow> i \<in> S) \<and> (\<forall>j. \<not> r_free (p_rd p j) \<longrightarrow> j \<in> T)"

definition pipe_weight :: "nat set \<Rightarrow> nat set \<Rightarrow> 'e pipe \<Rightarrow> nat" where
  "pipe_weight S T p = (\<Sum>i\<in>S. w_weight (p_wr p i)) + (\<Sum>j\<in>T. r_weight (p_rd p j))"

lemma pending_weight:
  assumes "pending p S T" "p_wr q = (p_wr p)(i := x)" "p_rd q = (p_rd p)(j := y)" "i \<in> S" "j \<in> T"
  shows "pending q S T"
    "pipe_weight S T q + w_weight (p_wr p i) + r_weight (p_rd p j) = pipe_weight S T p + w_weight x + r_weight y"
proof -
  from assms show "pending q S T" by (auto simp: pending_def)
  have fin: "finite S" "finite T" using assms(1) by (simp_all add: pending_def)
  have "(\<Sum>k\<in>S. w_weight (((p_wr p)(i := x)) k)) + w_weight (p_wr p i) = (\<Sum>k\<in>S. w_weight (p_wr p k)) + w_weight x"
    using fin assms(4) by (simp add: sum.remove [of S i])
  moreover have "(\<Sum>k\<in>T. r_weight (((p_rd p)(j := y)) k)) + r_weight (p_rd p j) = (\<Sum>k\<in>T. r_weight (p_rd p k)) + r_weight y"
    using fin assms(5) by (simp add: sum.remove [of T j])
  ultimately show "pipe_weight S T q + w_weight (p_wr p i) + r_weight (p_rd p j) = pipe_weight S T p + w_weight x + r_weight y"
    by (simp add: pipe_weight_def assms)
qed

lemma pending_writer:
  assumes "pending p S T" "p_wr q = (p_wr p)(i := x)" "p_rd q = p_rd p" "\<not> w_free (p_wr p i)" "w_weight x < w_weight (p_wr p i)"
  shows "pending q S T \<and> pipe_weight S T q < pipe_weight S T p"
proof -
  have "i \<in> S" "finite S" using assms(1,4) by (auto simp: pending_def)
  then have "(\<Sum>k\<in>S. w_weight (((p_wr p)(i := x)) k)) < (\<Sum>k\<in>S. w_weight (p_wr p k))"
    using assms(5) by (intro sum_strict_mono_ex1) auto
  with assms(1-4) show ?thesis by (auto simp: pending_def pipe_weight_def)
qed

lemma pending_reader:
  assumes "pending p S T" "p_rd q = (p_rd p)(j := y)" "p_wr q = p_wr p" "\<not> r_free (p_rd p j)" "r_weight y < r_weight (p_rd p j)"
  shows "pending q S T \<and> pipe_weight S T q < pipe_weight S T p"
proof -
  have "j \<in> T" "finite T" using assms(1,4) by (auto simp: pending_def)
  then have "(\<Sum>k\<in>T. r_weight (((p_rd p)(j := y)) k)) < (\<Sum>k\<in>T. r_weight (p_rd p k))"
    using assms(5) by (intro sum_strict_mono_ex1) auto
  with assms(1-4) show ?thesis by (auto simp: pending_def pipe_weight_def)
qed

lemma internal_decreases:
  assumes "pending p S T" "pipe_internal p q"
  shows "pending q S T \<and> pipe_weight S T q < pipe_weight S T p"
  using assms(2)
proof cases
  case (lock i data)
  then show ?thesis by (intro pending_writer [OF assms(1), of _ i "WLoop data data 0"]) (simp_all add: write_lock_def)
next
  case (hand i data b n j k)
  with assms(1) have "i \<in> S" "j \<in> T" by (auto simp: pending_def)
  with pending_weight [OF assms(1), of q i "WAwait data b n" j "RCopy k b"] hand show ?thesis
    by (simp add: hand_over_def)
next
  case (rep i data b n j k bw)
  with assms(1) have ij: "i \<in> S" "j \<in> T" by (auto simp: pending_def)
  let ?x = "if drop (min k (length bw)) b = [] then WRet data (n + min k (length bw)) None
    else WLoop data (drop (min k (length bw)) b) (n + min k (length bw))"
  have q: "p_wr q = (p_wr p)(i := ?x)" "p_rd q = (p_rd p)(j := RRet (take (min k (length bw)) bw) None)"
    by (auto simp: rep(1) reply_def Let_def)
  have "w_weight ?x \<le> 2" by simp
  with pending_weight [OF assms(1) q ij] rep(2,3) show ?thesis by simp
next
  case (wabort i data b n)
  then show ?thesis by (intro pending_writer [OF assms(1), of _ i "WRet data n (Some (writeCloseError p))"]) (simp_all add: write_abort_def)
next
  case (rabort j k)
  then show ?thesis by (intro pending_reader [OF assms(1), of _ j "RRet [] (Some (readCloseError p))"]) (simp_all add: read_abort_def)
qed

lemma reach_pending: "pipe_reach p \<Longrightarrow> \<exists>S T. pending p S T"
proof (induction rule: pipe_reach.induct)
  case new
  show ?case by (intro exI [of _ "{}"]) (simp add: pending_def Pipe_def)
next
  case (internal p q)
  then show ?case using internal_decreases by blast
next
  case (external p q)
  then obtain S T where p: "pending p S T" by blast
  from external(2) show ?case
  proof cases
    case (wcall i data)
    with p show ?thesis by (intro exI [of _ "insert i S"] exI [of _ T]) (auto simp: pending_def write_enter_def)
  next
    case (rcall j k)
    with p show ?thesis by (intro exI [of _ S] exI [of _ "insert j T"]) (auto simp: pending_def read_enter_def)
  qed (use p in \<open>auto simp: pending_def closeRead_store_def closeWrite_store_def close_once_def intro!: exI [of _ S, OF exI [of _ T]]\<close>)
qed

lemma internal_bounded: "(pipe_internal ^^ n) p q \<Longrightarrow> pending p S T \<Longrightarrow> n + pipe_weight S T q \<le> pipe_weight S T p \<and> pending q S T"
proof (induction n arbitrary: q)
  case (Suc n)
  then obtain r where "(pipe_internal ^^ n) p r" "pipe_internal r q" by auto
  with Suc internal_decreases [of r S T q] show ?case by fastforce
qed simp

lemma stuck_free:
  assumes "pipe_inv p" "p_done p" "\<And>q. \<not> pipe_internal p q"
  shows "w_free (p_wr p i)" "r_free (p_rd p j)"
proof -
  have mu: "p_mu p = None"
  proof (rule ccontr)
    assume "p_mu p \<noteq> None"
    then obtain i where i: "holds_lock (p_wr p i)" using pipe_invD(1) [OF assms(1)] by auto
    then show False
    proof (cases "p_wr p i")
      case (WAwait data b n)
      with pipe_invD(4) [OF assms(1), of i] obtain j k where "p_rd p j = RCopy k b" by auto
      with WAwait assms(3) pipe_internal.rep show False by blast
    qed (use assms(2,3) pipe_internal.wabort in \<open>blast | simp\<close>)+
  qed
  show "w_free (p_wr p i)"
    using pipe_invD(1) [OF assms(1), of i] mu assms(3) pipe_internal.lock [of p i] by (cases "p_wr p i") auto
  show "r_free (p_rd p j)"
    using pipe_invD(2) [OF assms(1), of j] pipe_invD(3) [OF assms(1)] mu assms(2,3) pipe_internal.rabort [of p j] by (cases "p_rd p j") auto
qed

section \<open>Properties\<close>

text \<open>
  C10: the pipe is a lossless ordered stream.  In every reachable state, with any number of concurrent
  readers and writers and closes, what has been read is the concatenation of the writes in the order
  they got the lock, each up to the count it has reached; while the pipe is open all of them but the
  one under way are complete.  A write that returned no error was read to its last element, one that
  returned an error reports a count within its data, and errors come only after a close.
\<close>

theorem pipe_stream:
  assumes "pipe_reach p"
  shows "p_read p = concat (map (\<lambda>(data, n). take n data) (p_calls p)) \<and>
    (p_done p \<or> list_all (\<lambda>(data, n). n = length data) (if p_mu p = None then p_calls p else butlast (p_calls p))) \<and>
    (\<forall>i data n. p_wr p i = WRet data n None \<longrightarrow> n = length data) \<and>
    (\<forall>i data n e. p_wr p i = WRet data n (Some e) \<longrightarrow> n \<le> length data \<and> p_done p) \<and>
    (\<forall>j data e. p_rd p j = RRet data (Some e) \<longrightarrow> data = [] \<and> p_done p)"
proof -
  note inv = pipe_invD [OF pipe_inv_reach [OF assms]]
  have w: "writer_ok p ph" if "p_wr p i = ph" for i ph using inv(4) [of i] that by simp
  have r: "reader_ok p ph" if "p_rd p j = ph" for j ph using inv(5) [of j] that by simp
  show ?thesis
  proof (intro conjI)
    show "p_done p \<or> list_all (\<lambda>(data, n). n = length data) (if p_mu p = None then p_calls p else butlast (p_calls p))"
      using inv(8) by blast
  qed (use inv(6) in \<open>auto dest: w r\<close>)
qed

text \<open>A run of one write of three elements and a read of two, and a close of the read half after it.\<close>

definition pipe_example :: "nat pipe" where
  "pipe_example = reply 0 0 [1, 2, 3] [1, 2, 3] 0 2 [1, 2, 3] (hand_over 0 0 [1, 2, 3] [1, 2, 3] 0 2
     (read_enter 0 2 (write_lock 0 [1, 2, 3] (write_enter 0 [1, 2, 3] Pipe))))"

lemma pipe_example_reach: "pipe_reach pipe_example"
proof -
  let ?p1 = "write_enter 0 [1, 2, 3] Pipe :: nat pipe"
  let ?p2 = "write_lock 0 [1, 2, 3] ?p1"
  let ?p3 = "read_enter 0 2 ?p2"
  let ?p4 = "hand_over 0 0 [1, 2, 3] [1, 2, 3] 0 2 ?p3"
  have "pipe_reach ?p1"
    by (rule pipe_reach.external [OF pipe_reach.new], rule pipe_external.wcall) (simp add: Pipe_def)
  then have "pipe_reach ?p2"
    by (rule pipe_reach.internal, intro pipe_internal.lock) (simp_all add: write_enter_def Pipe_def)
  then have "pipe_reach ?p3"
    by (rule pipe_reach.external, intro pipe_external.rcall) (simp add: write_lock_def write_enter_def Pipe_def)
  then have "pipe_reach ?p4"
    by (rule pipe_reach.internal, intro pipe_internal.hand)
      (simp_all add: read_enter_def write_lock_def write_enter_def Pipe_def)
  then show ?thesis unfolding pipe_example_def
    by (rule pipe_reach.internal, intro pipe_internal.rep)
      (simp_all add: hand_over_def read_enter_def write_lock_def write_enter_def Pipe_def)
qed

lemmas pipe_ops = pipe_example_def reply_def hand_over_def read_enter_def write_lock_def write_enter_def Pipe_def
  closeRead_def closeWrite_def closeRead_store_def closeWrite_store_def close_once_def onceError_Store_def Let_def

lemma closeRead_reach: "pipe_reach p \<Longrightarrow> pipe_reach (snd (closeRead err p))"
  unfolding closeRead_def snd_conv
  by (rule pipe_reach.external, rule pipe_reach.external [OF _ pipe_external.rstore], assumption, rule pipe_external.once)
    (simp add: closeRead_store_def onceError_Store_def)

theorem pipe_stream_witness:
  "p_read pipe_example = [1, 2] \<and>
   p_read pipe_example = concat (map (\<lambda>(data, n). take n data) (p_calls pipe_example)) \<and>
   p_wr pipe_example 0 = WLoop [1, 2, 3] [3] 2 \<and> p_rd pipe_example 0 = RRet [1, 2] None"
  using pipe_stream [OF pipe_example_reach] by (simp add: pipe_ops)

text \<open>
  C31: closing releases everyone.  In a reachable state with \<open>done\<close> closed, only finitely many more
  steps are possible inside the calls under way, and when none is left every read and every write has
  returned: no caller stays blocked on a channel or on the write lock.
\<close>

theorem pipe_close_releases:
  assumes "pipe_reach p" "p_done p"
  shows "(\<exists>N. \<forall>n q. (pipe_internal ^^ n) p q \<longrightarrow> n \<le> N) \<and>
    (\<forall>q. pipe_internal\<^sup>*\<^sup>* p q \<and> (\<nexists>r. pipe_internal q r) \<longrightarrow>
       (\<forall>i. w_free (p_wr q i)) \<and> (\<forall>j. r_free (p_rd q j)))"
proof (intro conjI allI impI)
  obtain S T where "pending p S T" using reach_pending [OF assms(1)] by blast
  then have "n \<le> pipe_weight S T p" if "(pipe_internal ^^ n) p q" for n q
    using internal_bounded [OF that] by fastforce
  then show "\<exists>N. \<forall>n q. (pipe_internal ^^ n) p q \<longrightarrow> n \<le> N" by blast
next
  fix q i j
  assume q: "pipe_internal\<^sup>*\<^sup>* p q \<and> (\<nexists>r. pipe_internal q r)"
  then have "pipe_internal\<^sup>*\<^sup>* p q" by blast
  then have "pipe_reach q \<and> p_done q"
    by (induction rule: rtranclp_induct) (use assms internal_errors pipe_reach.internal in \<open>blast+\<close>)
  with q stuck_free [OF pipe_inv_reach] show "w_free (p_wr q i)" "r_free (p_rd q j)" by blast+
qed

theorem pipe_close_releases_witness:
  "\<not> w_free (p_wr (snd (closeRead None pipe_example)) 0) \<and>
   (\<exists>N. \<forall>n q. (pipe_internal ^^ n) (snd (closeRead None pipe_example)) q \<longrightarrow> n \<le> N)"
  using pipe_close_releases [OF closeRead_reach [OF pipe_example_reach, of None]] by (simp add: pipe_ops)

text \<open>
  C32: the first error of each half decides and is never overwritten.  When the writer closes a pipe
  with an error before anything else was closed, then as long as the reader does not close its half,
  after any further steps a new read returns that error (EOF for none) and a new write returns
  \<open>ErrClosedPipe\<close>, however often the writer closes again with other errors; and the other way round
  for the reader.
\<close>

theorem pipe_first_error_wins:
  assumes "p_rerr p = None" "p_werr p = None"
  shows "(pipe_steps (snd (closeWrite err p)) q \<longrightarrow> p_rerr q = None \<longrightarrow>
      p_rd (read_enter j k q) j = RRet [] (Some (if err = None then EOF else the err)) \<and>
      p_wr (write_enter i data q) i = WRet data 0 (Some ErrClosedPipe)) \<and>
    (pipe_steps (snd (closeRead err p)) q \<longrightarrow> p_werr q = None \<longrightarrow>
      p_wr (write_enter i data q) i = WRet data 0 (Some (if err = None then ErrClosedPipe else the err)) \<and>
      p_rd (read_enter j k q) j = RRet [] (Some ErrClosedPipe))"
proof (intro conjI impI)
  assume q: "pipe_steps (snd (closeWrite err p)) q" "p_rerr q = None"
  from steps_errors [OF q(1)] assms have "p_done q" "p_werr q = Some (if err = None then EOF else the err)"
    by (auto simp: closeWrite_def closeWrite_store_def close_once_def onceError_Store_def)
  with q(2) show "p_rd (read_enter j k q) j = RRet [] (Some (if err = None then EOF else the err))"
    "p_wr (write_enter i data q) i = WRet data 0 (Some ErrClosedPipe)"
    by (auto simp: read_enter_def write_enter_def readCloseError_def writeCloseError_def onceError_Load_def)
next
  assume q: "pipe_steps (snd (closeRead err p)) q" "p_werr q = None"
  from steps_errors [OF q(1)] assms have "p_done q" "p_rerr q = Some (if err = None then ErrClosedPipe else the err)"
    by (auto simp: closeRead_def closeRead_store_def close_once_def onceError_Store_def)
  with q(2) show "p_wr (write_enter i data q) i = WRet data 0 (Some (if err = None then ErrClosedPipe else the err))"
    "p_rd (read_enter j k q) j = RRet [] (Some ErrClosedPipe)"
    by (auto simp: read_enter_def write_enter_def readCloseError_def writeCloseError_def onceError_Load_def)
qed

theorem pipe_first_error_wins_witness:
  "p_rd (read_enter 1 5 (snd (closeWrite (Some EOF) (snd (closeWrite (Some ErrShortBuffer) pipe_example))))) 1 =
     RRet [] (Some ErrShortBuffer)"
proof -
  let ?p = "snd (closeWrite (Some ErrShortBuffer) pipe_example)"
  have "pipe_steps ?p (snd (closeWrite (Some EOF) ?p))"
    unfolding closeWrite_def snd_conv
    by (rule pipe_steps.step, rule pipe_steps.step, rule pipe_steps.refl, rule disjI2, rule pipe_external.wstore,
        rule disjI2, rule pipe_external.once) (simp add: pipe_ops)
  moreover have "p_rerr (snd (closeWrite (Some EOF) ?p)) = None" by (simp add: pipe_ops)
  ultimately show ?thesis
    using pipe_first_error_wins [of pipe_example "Some ErrShortBuffer" "snd (closeWrite (Some EOF) ?p)" 1 5 0 "[]"]
    by (simp add: pipe_example_def reply_def hand_over_def read_enter_def write_lock_def write_enter_def Pipe_def Let_def)
qed

end
