(* ===== verification/Rtp_Writer.thy ===== *)
theory Rtp_Writer
  imports Media_Writers
begin

text \<open>
  Writing RTP packets (\<open>rtp/rtp.go\<close>): one \<open>SeqWriter\<close> per SSRC with its sequence numbers and clock, the
  streams that share it, and the small handlers around them.  \<open>wr (header, payload) w\<close> is \<open>WriteRTP\<close> of
  the writer below; \<open>now\<close> is what the clock returns during the call (no call reads it twice).
\<close>

section \<open>Packets, buffers, handlers\<close>

text \<open>The fields of \<open>rtp.Header\<close> that the code sets.\<close>

record rtp_header =
  h_Version :: u8
  h_Marker :: bool
  h_PayloadType :: u8
  h_SequenceNumber :: u16
  h_Timestamp :: u32
  h_SSRC :: u32

type_synonym rtp_out = "rtp_header \<times> bytes"

definition Buffer_WriteRTP :: "(rtp_out, rtp_out list) write_fn" where
  "Buffer_WriteRTP p b = (None, b @ [p])"

text \<open>\<open>HandlerFunc\<close>, nil included.\<close>

definition HandlerFunc_HandleRTP :: "('p, 'h) write_fn option \<Rightarrow> ('p, 'h) write_fn" where
  "HandlerFunc_HandleRTP fnc p h = (case fnc of None \<Rightarrow> (None, h) | Some f \<Rightarrow> f p h)"

text \<open>
  \<open>HandleLoop\<close>, given what \<open>ReadRTP\<close> returns in turn; \<open>None\<close> when it is still waiting for the next one.
  The deferred \<open>Close\<close> runs on every return.
\<close>

fun HandleLoop ::
  "('p, 'h) write_fn \<Rightarrow> ('h \<Rightarrow> 'h) \<Rightarrow> (go_error + 'p) list \<Rightarrow> 'h \<Rightarrow> (go_error \<times> 'h) option" where
  "HandleLoop hdl cl [] h = None"
| "HandleLoop hdl cl (Inl err # rs) h = Some (err, cl h)"
| "HandleLoop hdl cl (Inr p # rs) h =
     (case hdl p h of (Some err, h1) \<Rightarrow> Some (err, cl h1) | (None, h1) \<Rightarrow> HandleLoop hdl cl rs h1)"

section \<open>SeqWriter\<close>

definition rtpStreamTSResetFrames :: u32 where
  "rtpStreamTSResetFrames = 10"

definition rtpTimestampOffset :: u32 where
  "rtpTimestampOffset = 48000"

definition DefFrameDur :: ns where
  "DefFrameDur = 20 * 1000000"

definition DefFramesPerSec :: int where
  "DefFramesPerSec = go_quot 1000000000 DefFrameDur"

record rtp_event =
  ev_Type :: u8
  ev_Timestamp :: u32
  ev_Payload :: bytes
  ev_Marker :: bool

text \<open>The zero \<open>time.Time\<close> is 0.\<close>

record 'w SeqWriter =
  sq_w :: 'w
  sq_clockRate :: int
  sq_frameTS :: u32
  sq_h :: rtp_header
  sq_auto :: bool
  sq_anchorTime :: ns
  sq_anchorTS :: u32
  sq_maxTS :: u32

definition NewSeqWriter :: "'w \<Rightarrow> int \<Rightarrow> u32 \<Rightarrow> 'w SeqWriter" where
  "NewSeqWriter w clockRate ssrc =
     \<lparr>sq_w = w, sq_clockRate = clockRate, sq_frameTS = word_of_int (go_quot clockRate DefFramesPerSec),
      sq_h = \<lparr>h_Version = 2, h_Marker = False, h_PayloadType = 0, h_SequenceNumber = 0, h_Timestamp = 0,
              h_SSRC = ssrc\<rparr>,
      sq_auto = False, sq_anchorTime = 0, sq_anchorTS = 0, sq_maxTS = rtpTimestampOffset\<rparr>"

definition GetMaxTS :: "'w SeqWriter \<Rightarrow> u32" where
  "GetMaxTS s = sq_maxTS s"

text \<open>\<open>Duration.Round\<close>, for durations away from the ends of the \<open>int64\<close> range.\<close>

definition dur_Round :: "ns \<Rightarrow> ns \<Rightarrow> ns" where
  "dur_Round d m =
     (let r = d - m * go_quot d m
      in if d < 0 then (if - r + - r < m then d + - r else d - m + - r)
         else (if r + r < m then d - r else d + m - r))"

definition projectWallclockTS :: "ns \<Rightarrow> 'w SeqWriter \<Rightarrow> u32" where
  "projectWallclockTS now s =
     sq_anchorTS s + word_of_int (go_quot (dur_Round (now - sq_anchorTime s) DefFrameDur) DefFrameDur) * sq_frameTS s"

definition ProjectWallclockTS_locked :: "ns \<Rightarrow> 'w SeqWriter \<Rightarrow> u32" where
  "ProjectWallclockTS_locked now s =
     (if sq_anchorTime s = 0 then sq_maxTS s else projectWallclockTS now s)"

definition CurTS :: "ns \<Rightarrow> u32 \<Rightarrow> 'w SeqWriter \<Rightarrow> u32" where
  "CurTS now ts0 s =
     (let reset = sint (rtpStreamTSResetFrames * sq_frameTS s);
          ts = (if sint (sq_maxTS s - ts0) > 0 then sq_maxTS s else ts0)
      in if sq_anchorTime s = 0 then ts
         else (let wall = projectWallclockTS now s in if sint (wall - ts) > reset then wall else ts))"

definition WriteEvent :: "(rtp_out, 'w) write_fn \<Rightarrow> rtp_event \<Rightarrow> ns \<Rightarrow> 'w SeqWriter close_fn" where
  "WriteEvent wr ev now s =
     (let s1 = (if sq_anchorTime s = 0 then s\<lparr>sq_anchorTime := now, sq_anchorTS := ev_Timestamp ev\<rparr> else s);
          h = (sq_h s1)\<lparr>h_PayloadType := ev_Type ev, h_Marker := ev_Marker ev, h_Timestamp := ev_Timestamp ev\<rparr>;
          (err, w1) = wr (h, ev_Payload ev) (sq_w s1);
          s2 = s1\<lparr>sq_h := h, sq_w := w1\<rparr>
      in if err \<noteq> None then (err, s2)
         else (None, s2\<lparr>sq_h := h\<lparr>h_SequenceNumber := h_SequenceNumber h + 1\<rparr>,
                       sq_maxTS := (if sint (ev_Timestamp ev - sq_maxTS s2) > 0 then ev_Timestamp ev else sq_maxTS s2)\<rparr>))"

section \<open>Streams\<close>

record rtp_stream =
  st_typ :: u8
  st_manual :: bool
  st_ts :: u32

definition NewStream :: "u8 \<Rightarrow> int \<Rightarrow> 'w SeqWriter \<Rightarrow> (rtp_stream \<times> 'w SeqWriter) option" where
  "NewStream typ clockRate s =
     (if clockRate \<noteq> sq_clockRate s then None
      else if sq_auto s then None
      else Some (\<lparr>st_typ = typ, st_manual = False, st_ts = sq_maxTS s\<rparr>, s\<lparr>sq_auto := True\<rparr>))"

definition NewManualStream :: "u8 \<Rightarrow> 'w SeqWriter \<Rightarrow> rtp_stream" where
  "NewManualStream typ s = \<lparr>st_typ = typ, st_manual = True, st_ts = sq_maxTS s\<rparr>"

text \<open>
  \<open>WritePayload\<close> takes the lock of the \<open>SeqWriter\<close> twice: \<open>CurTS\<close> reads it to choose the timestamp, and
  \<open>WriteEvent\<close> writes.  Other streams of the \<open>SeqWriter\<close> may write in between, other calls on this
  stream may not: they wait for its own mutex.
\<close>

definition WritePayload_begin :: "ns \<Rightarrow> rtp_stream \<Rightarrow> 'w SeqWriter \<Rightarrow> go_error + u32" where
  "WritePayload_begin now st s =
     (if st_manual st then Inl (ErrOther ''rtp: WritePayload on a manual stream'') else Inr (CurTS now (st_ts st) s))"

definition WritePayload_end ::
  "(rtp_out, 'w) write_fn \<Rightarrow> bytes \<Rightarrow> bool \<Rightarrow> u32 \<Rightarrow> ns \<Rightarrow> rtp_stream \<Rightarrow> 'w SeqWriter \<Rightarrow>
    go_error option \<times> rtp_stream \<times> 'w SeqWriter" where
  "WritePayload_end wr data marker ts now st s =
     (let (err, s1) = WriteEvent wr \<lparr>ev_Type = st_typ st, ev_Timestamp = ts, ev_Payload = data, ev_Marker = marker\<rparr> now s
      in if err \<noteq> None then (err, st, s1) else (None, st\<lparr>st_ts := ts + sq_frameTS s1\<rparr>, s1))"

text \<open>The whole call, when nothing else writes in between.\<close>

definition WritePayload ::
  "(rtp_out, 'w) write_fn \<Rightarrow> bytes \<Rightarrow> bool \<Rightarrow> ns \<Rightarrow> rtp_stream \<Rightarrow> 'w SeqWriter \<Rightarrow>
    go_error option \<times> rtp_stream \<times> 'w SeqWriter" where
  "WritePayload wr data marker now st s =
     (case WritePayload_begin now st s of Inl err \<Rightarrow> (Some err, st, s)
      | Inr ts \<Rightarrow> WritePayload_end wr data marker ts now st s)"

definition WritePayloadAtCurrent ::
  "(rtp_out, 'w) write_fn \<Rightarrow> bytes \<Rightarrow> bool \<Rightarrow> ns \<Rightarrow> rtp_stream \<Rightarrow> 'w SeqWriter \<Rightarrow>
    go_error option \<times> rtp_stream \<times> 'w SeqWriter" where
  "WritePayloadAtCurrent wr data marker now st s =
     (if \<not> st_manual st then (Some (ErrOther ''rtp: WritePayloadAtCurrent on the automatic stream''), st, s)
      else
        (let (err, s1) = WriteEvent wr \<lparr>ev_Type = st_typ st, ev_Timestamp = st_ts st, ev_Payload = data,
              ev_Marker = marker\<rparr> now s
         in (err, st, s1)))"

definition SyncTimestamp :: "ns \<Rightarrow> rtp_stream \<Rightarrow> 'w SeqWriter \<Rightarrow> go_error option \<times> rtp_stream" where
  "SyncTimestamp now st s =
     (if \<not> st_manual st then (Some (ErrOther ''rtp: SyncTimestamp on the automatic stream''), st)
      else (None, st\<lparr>st_ts := ProjectWallclockTS_locked now s\<rparr>))"

definition GetCurrentTimestamp :: "rtp_stream \<Rightarrow> u32" where
  "GetCurrentTimestamp st = st_ts st"

definition Stream_WriteRaw ::
  "(rtp_out, 'w) write_fn \<Rightarrow> bytes \<Rightarrow> ns \<Rightarrow> rtp_stream \<Rightarrow> 'w SeqWriter \<Rightarrow> go_error option \<times> rtp_stream \<times> 'w SeqWriter" where
  "Stream_WriteRaw wr data now st s = WritePayload wr data False now st s"

definition Stream_Close :: "rtp_stream close_fn" where
  "Stream_Close st = (None, st)"

definition nopCloser_Close :: "'h \<Rightarrow> 'h" where
  "nopCloser_Close h = h"

text \<open>\<open>MediaStreamOut\<close> is a stream and a sample rate.\<close>

definition NewMediaStreamOut :: "rtp_stream \<Rightarrow> int \<Rightarrow> rtp_stream \<times> int" where
  "NewMediaStreamOut s sampleRate = (s, sampleRate)"

definition MediaStreamOut_SampleRate :: "rtp_stream \<times> int \<Rightarrow> int" where
  "MediaStreamOut_SampleRate s = snd s"

definition MediaStreamOut_Close :: "(rtp_stream \<times> int) close_fn" where
  "MediaStreamOut_Close s = (None, s)"

definition MediaStreamOut_WriteSample ::
  "(rtp_out, 'w) write_fn \<Rightarrow> bytes \<Rightarrow> ns \<Rightarrow> rtp_stream \<Rightarrow> 'w SeqWriter \<Rightarrow> go_error option \<times> rtp_stream \<times> 'w SeqWriter" where
  "MediaStreamOut_WriteSample wr sample now st s = WritePayload wr sample False now st s"

definition MediaStreamIn_HandleRTP :: "(bytes, 'w) write_fn \<Rightarrow> (rtp_out, 'w) write_fn" where
  "MediaStreamIn_HandleRTP wr p w = wr (snd p) w"

section \<open>Use of a SeqWriter by its streams\<close>

text \<open>
  A writer, its automatic stream once created, its manual streams, and the \<open>WritePayload\<close> in progress:
  the timestamp it chose and what it will write.  A step is one section under the lock of the
  \<open>SeqWriter\<close>, so the calls of different streams interleave; the automatic stream's own mutex lets one
  \<open>WritePayload\<close> through at a time.
\<close>

record 'w rtp_sender =
  sd_w :: "'w SeqWriter"
  sd_auto :: "rtp_stream option"
  sd_man :: "rtp_stream list"
  sd_call :: "(u32 \<times> bytes \<times> bool) option"

datatype send_op =
    OpNewStream u8 int
  | OpNewManual u8
  | OpBegin bytes bool
  | OpSend
  | OpWriteAt nat bytes bool
  | OpSync nat

fun send_step :: "(rtp_out, 'w) write_fn \<Rightarrow> send_op \<Rightarrow> ns \<Rightarrow> 'w rtp_sender \<Rightarrow> 'w rtp_sender option" where
  "send_step wr (OpNewStream typ rate) now d =
     (case NewStream typ rate (sd_w d) of None \<Rightarrow> None
      | Some (st, s) \<Rightarrow> Some (d\<lparr>sd_w := s, sd_auto := Some st\<rparr>))"
| "send_step wr (OpNewManual typ) now d = Some (d\<lparr>sd_man := sd_man d @ [NewManualStream typ (sd_w d)]\<rparr>)"
| "send_step wr (OpBegin data marker) now d =
     (case (sd_auto d, sd_call d) of
        (Some st, None) \<Rightarrow> (case WritePayload_begin now st (sd_w d) of Inl err \<Rightarrow> Some d
          | Inr ts \<Rightarrow> Some (d\<lparr>sd_call := Some (ts, data, marker)\<rparr>))
      | _ \<Rightarrow> None)"
| "send_step wr OpSend now d = do {
     st \<leftarrow> sd_auto d;
     (ts, data, marker) \<leftarrow> sd_call d;
     let (err, st1, s1) = WritePayload_end wr data marker ts now st (sd_w d);
     Some (d\<lparr>sd_w := s1, sd_auto := Some st1, sd_call := None\<rparr>) }"
| "send_step wr (OpWriteAt i data marker) now d = do {
     st \<leftarrow> go_index (sd_man d) i;
     let (err, st1, s1) = WritePayloadAtCurrent wr data marker now st (sd_w d);
     Some (d\<lparr>sd_w := s1, sd_man := (sd_man d)[i := st1]\<rparr>) }"
| "send_step wr (OpSync i) now d = do {
     st \<leftarrow> go_index (sd_man d) i;
     let (err, st1) = SyncTimestamp now st (sd_w d);
     Some (d\<lparr>sd_man := (sd_man d)[i := st1]\<rparr>) }"

fun send_run :: "(rtp_out, 'w) write_fn \<Rightarrow> (send_op \<times> ns) list \<Rightarrow> 'w rtp_sender \<Rightarrow> 'w rtp_sender option" where
  "send_run wr [] d = Some d"
| "send_run wr ((x, now) # xs) d = do { d1 \<leftarrow> send_step wr x now d; send_run wr xs d1 }"

definition new_sender :: "'w \<Rightarrow> int \<Rightarrow> u32 \<Rightarrow> 'w rtp_sender" where
  "new_sender w clockRate ssrc = \<lparr>sd_w = NewSeqWriter w clockRate ssrc, sd_auto = None, sd_man = [], sd_call = None\<rparr>"

section \<open>Sequence numbers\<close>

text \<open>How many of the packets offered were accepted.\<close>

fun accepted :: "('a list \<Rightarrow> 'a \<Rightarrow> go_error option) \<Rightarrow> 'a list \<Rightarrow> nat" where
  "accepted answer h = length (filter (\<lambda>k. answer (take k h) (h ! k) = None) [0..<length h])"

declare accepted.simps [simp del]

lemma accepted_Nil [simp]: "accepted answer [] = 0"
  by (simp add: accepted.simps)

lemma accepted_snoc: "accepted answer (h @ [x]) = accepted answer h + (if answer h x = None then 1 else 0)"
proof -
  have "filter (\<lambda>k. answer (take k (h @ [x])) ((h @ [x]) ! k) = None) [0..<length h] =
      filter (\<lambda>k. answer (take k h) (h ! k) = None) [0..<length h]"
    by (rule filter_cong) (simp_all add: nth_append)
  then show ?thesis by (simp add: accepted.simps)
qed

definition numbered :: "(rtp_out list \<Rightarrow> rtp_out \<Rightarrow> go_error option) \<Rightarrow> u32 \<Rightarrow> rtp_out list \<Rightarrow> bool" where
  "numbered answer ssrc h \<longleftrightarrow>
     list_all (\<lambda>k. h_SequenceNumber (fst (h ! k)) = of_nat (accepted answer (take k h)) \<and>
       h_SSRC (fst (h ! k)) = ssrc \<and> h_Version (fst (h ! k)) = 2) [0..<length h]"

lemma numbered_snoc: "numbered answer ssrc (h @ [x]) \<longleftrightarrow> numbered answer ssrc h \<and>
    h_SequenceNumber (fst x) = of_nat (accepted answer h) \<and> h_SSRC (fst x) = ssrc \<and> h_Version (fst x) = 2"
proof -
  have "list_all (\<lambda>k. h_SequenceNumber (fst ((h @ [x]) ! k)) = of_nat (accepted answer (take k (h @ [x]))) \<and>
       h_SSRC (fst ((h @ [x]) ! k)) = ssrc \<and> h_Version (fst ((h @ [x]) ! k)) = 2) [0..<length h] \<longleftrightarrow>
    numbered answer ssrc h"
    unfolding numbered_def by (rule list.pred_cong) (simp_all add: nth_append)
  then show ?thesis by (simp add: numbered_def)
qed

definition seq_inv :: "(rtp_out list \<Rightarrow> rtp_out \<Rightarrow> go_error option) \<Rightarrow> u32 \<Rightarrow> rtp_out list SeqWriter \<Rightarrow> bool" where
  "seq_inv answer ssrc s \<longleftrightarrow> numbered answer ssrc (sq_w s) \<and> h_SSRC (sq_h s) = ssrc \<and> h_Version (sq_h s) = 2 \<and>
     h_SequenceNumber (sq_h s) = of_nat (accepted answer (sq_w s))"

lemma seq_inv_WriteEvent:
  "seq_inv answer ssrc s \<Longrightarrow> seq_inv answer ssrc (snd (WriteEvent (history_write answer) ev now s))"
  by (auto simp: seq_inv_def WriteEvent_def history_write_def Let_def numbered_snoc accepted_snoc)

lemma seq_inv_step:
  assumes "seq_inv answer ssrc (sd_w d)" "send_step (history_write answer) x now d = Some d1"
  shows "seq_inv answer ssrc (sd_w d1)"
proof (cases x)
  case (OpNewStream ty rate)
  with assms show ?thesis by (auto simp: NewStream_def seq_inv_def split: if_splits)
next
  case (OpBegin data marker)
  with assms show ?thesis by (auto split: option.splits sum.splits)
next
  case OpSend
  with assms show ?thesis using seq_inv_WriteEvent [OF assms(1)]
    by (auto simp: WritePayload_end_def Let_def split_beta split: Option.bind_splits if_splits)
next
  case (OpWriteAt i data marker)
  with assms show ?thesis using seq_inv_WriteEvent [OF assms(1)]
    by (auto simp: WritePayloadAtCurrent_def Let_def split_beta split: Option.bind_splits if_splits)
qed (use assms in \<open>auto simp: Let_def split_beta split: Option.bind_splits\<close>)

lemma seq_inv_run:
  "seq_inv answer ssrc (sd_w d) \<Longrightarrow> send_run (history_write answer) xs d = Some d1 \<Longrightarrow> seq_inv answer ssrc (sd_w d1)"
proof (induction xs arbitrary: d)
  case (Cons x xs)
  then show ?case by (cases x) (auto split: Option.bind_splits dest: seq_inv_step)
qed simp

section \<open>The timeline without wrap-around\<close>

text \<open>
  The specification: timestamps are integers, \<open>F\<close> to a frame, and the anchor is the clock reading and
  the timestamp of the first packet.  \<open>tl_out\<close> are the packets offered to the writer below, in order:
  whether the automatic stream wrote it, its timestamp, what the wall clock gave when the timestamp was
  chosen, how many packets had been offered by then, and whether it was accepted.  A rejected packet
  anchors the clock but advances no timestamp.
\<close>

record tl_packet =
  tp_auto :: bool
  tp_T :: int
  tp_wall :: int
  tp_seen :: nat
  tp_ok :: bool

record timeline =
  tl_anchor :: "(ns \<times> int) option"
  tl_max :: int
  tl_auto :: "int option"
  tl_man :: "int list"
  tl_call :: "(int \<times> int \<times> nat) option"
  tl_out :: "tl_packet list"

definition frames_since :: "ns \<Rightarrow> ns \<Rightarrow> int" where
  "frames_since t0 t = go_quot (dur_Round (t - t0) DefFrameDur) DefFrameDur"

definition tl_wall :: "int \<Rightarrow> ns \<Rightarrow> timeline \<Rightarrow> int" where
  "tl_wall F t a = (case tl_anchor a of None \<Rightarrow> tl_max a | Some (t0, T0) \<Rightarrow> T0 + frames_since t0 t * F)"

definition tl_cur :: "int \<Rightarrow> ns \<Rightarrow> int \<Rightarrow> timeline \<Rightarrow> int" where
  "tl_cur F t ts a =
     (let ts1 = max ts (tl_max a) in if tl_anchor a \<noteq> None \<and> tl_wall F t a - ts1 > 10 * F then tl_wall F t a else ts1)"

definition tl_write :: "int \<Rightarrow> bool \<Rightarrow> int \<times> int \<times> nat \<Rightarrow> bool \<Rightarrow> ns \<Rightarrow> timeline \<Rightarrow> timeline" where
  "tl_write F auto call ok t a =
     (let (T, wall, seen) = call
      in a\<lparr>tl_anchor := (if tl_anchor a = None then Some (t, T) else tl_anchor a),
          tl_max := (if ok then max (tl_max a) T else tl_max a),
          tl_out := tl_out a @ [\<lparr>tp_auto = auto, tp_T = T, tp_wall = wall, tp_seen = seen, tp_ok = ok\<rparr>]\<rparr>)"

text \<open>\<open>ok\<close> says whether the packet this step may write is accepted.\<close>

fun tl_step :: "int \<Rightarrow> bool \<Rightarrow> send_op \<Rightarrow> ns \<Rightarrow> timeline \<Rightarrow> timeline option" where
  "tl_step F ok (OpNewStream ty rate) t a =
     (if tl_auto a \<noteq> None then None else Some (a\<lparr>tl_auto := Some (tl_max a)\<rparr>))"
| "tl_step F ok (OpNewManual ty) t a = Some (a\<lparr>tl_man := tl_man a @ [tl_max a]\<rparr>)"
| "tl_step F ok (OpBegin data marker) t a =
     (case (tl_auto a, tl_call a) of
        (Some ts, None) \<Rightarrow> Some (a\<lparr>tl_call := Some (tl_cur F t ts a, tl_wall F t a, length (tl_out a))\<rparr>)
      | _ \<Rightarrow> None)"
| "tl_step F ok OpSend t a = do {
     ts \<leftarrow> tl_auto a;
     call \<leftarrow> tl_call a;
     Some ((tl_write F True call ok t a)\<lparr>tl_auto := Some (if ok then fst call + F else ts), tl_call := None\<rparr>) }"
| "tl_step F ok (OpWriteAt i data marker) t a = do {
     T \<leftarrow> go_index (tl_man a) i;
     Some (tl_write F False (T, tl_wall F t a, length (tl_out a)) ok t a) }"
| "tl_step F ok (OpSync i) t a = do { T \<leftarrow> go_index (tl_man a) i; Some (a\<lparr>tl_man := (tl_man a)[i := tl_wall F t a]\<rparr>) }"

text \<open>Where wrapping differences are exact: the clock is set and everything is within 2^30 of the latest timestamp.\<close>

definition tl_near :: "int \<Rightarrow> ns \<Rightarrow> timeline \<Rightarrow> bool" where
  "tl_near F t a \<longleftrightarrow> t \<noteq> 0 \<and> \<bar>tl_wall F t a - tl_max a\<bar> < 2 ^ 30 \<and>
     list_all (\<lambda>x. \<bar>x - tl_max a\<bar> < 2 ^ 30) (tl_man a) \<and>
     (case tl_auto a of None \<Rightarrow> True | Some x \<Rightarrow> \<bar>x - tl_max a\<bar> < 2 ^ 30) \<and>
     (case tl_call a of None \<Rightarrow> True | Some c \<Rightarrow> \<bar>fst c - tl_max a\<bar> < 2 ^ 30)"

text \<open>\<open>oks k\<close> says whether the \<open>k\<close>-th packet is accepted.\<close>

fun tl_run :: "int \<Rightarrow> (nat \<Rightarrow> bool) \<Rightarrow> (send_op \<times> ns) list \<Rightarrow> timeline \<Rightarrow> timeline option" where
  "tl_run F oks [] a = Some a"
| "tl_run F oks ((x, t) # xs) a =
     (if tl_near F t a then do { a1 \<leftarrow> tl_step F (oks (length (tl_out a))) x t a; tl_run F oks xs a1 } else None)"

definition tl_init :: timeline where
  "tl_init = \<lparr>tl_anchor = None, tl_max = 48000, tl_auto = None, tl_man = [], tl_call = None, tl_out = []\<rparr>"

section \<open>Refinement\<close>

definition tl_rel :: "int \<Rightarrow> rtp_out list rtp_sender \<Rightarrow> timeline \<Rightarrow> bool" where
  "tl_rel F d a \<longleftrightarrow>
     sq_frameTS (sd_w d) = word_of_int F \<and> 0 < F \<and> 10 * F < 2 ^ 30 \<and>
     (case tl_anchor a of None \<Rightarrow> sq_anchorTime (sd_w d) = 0
      | Some (t0, T0) \<Rightarrow> sq_anchorTime (sd_w d) = t0 \<and> t0 \<noteq> 0 \<and> sq_anchorTS (sd_w d) = word_of_int T0) \<and>
     sq_maxTS (sd_w d) = word_of_int (tl_max a) \<and>
     map_option st_ts (sd_auto d) = map_option word_of_int (tl_auto a) \<and>
     (case sd_auto d of None \<Rightarrow> True | Some st \<Rightarrow> \<not> st_manual st) \<and>
     map st_ts (sd_man d) = map word_of_int (tl_man a) \<and> list_all st_manual (sd_man d) \<and>
     map_option fst (sd_call d) = map_option (\<lambda>c. word_of_int (fst c)) (tl_call a) \<and>
     map (\<lambda>p. h_Timestamp (fst p)) (sq_w (sd_w d)) = map (\<lambda>p. word_of_int (tp_T p)) (tl_out a)"

lemma sint_of_int_u32: "\<bar>x\<bar> < 2147483648 \<Longrightarrow> sint (word_of_int x :: u32) = x"
  by (rule sint_of_int_i32) auto

lemma wall_refines:
  assumes "tl_rel F d a"
  shows "ProjectWallclockTS_locked t (sd_w d) = word_of_int (tl_wall F t a)"
    "tl_anchor a \<noteq> None \<Longrightarrow> projectWallclockTS t (sd_w d) = word_of_int (tl_wall F t a)"
    "sq_anchorTime (sd_w d) = 0 \<longleftrightarrow> tl_anchor a = None"
  using assms by (auto simp: tl_rel_def ProjectWallclockTS_locked_def projectWallclockTS_def tl_wall_def
      frames_since_def split: option.splits)

lemma cur_refines:
  assumes "tl_rel F d a" "\<bar>ts - tl_max a\<bar> < 2 ^ 30" "\<bar>tl_wall F t a - tl_max a\<bar> < 2 ^ 30"
  shows "CurTS t (word_of_int ts) (sd_w d) = word_of_int (tl_cur F t ts a)"
proof -
  have F: "0 < F" "10 * F < 2 ^ 30" "sq_frameTS (sd_w d) = word_of_int F" "sq_maxTS (sd_w d) = word_of_int (tl_max a)"
    using assms(1) by (simp_all add: tl_rel_def)
  have reset: "sint (rtpStreamTSResetFrames * sq_frameTS (sd_w d)) = 10 * F"
  proof -
    have "rtpStreamTSResetFrames * sq_frameTS (sd_w d) = word_of_int (10 * F)"
      by (simp add: F(3) rtpStreamTSResetFrames_def)
    then show ?thesis using F(1,2) sint_of_int_u32 [of "10 * F"] by simp
  qed
  have d1: "sint (sq_maxTS (sd_w d) - word_of_int ts) = tl_max a - ts"
    using assms(2) sint_of_int_u32 [of "tl_max a - ts"] by (simp add: F(4))
  have ts1: "(if sint (sq_maxTS (sd_w d) - word_of_int ts) > 0 then sq_maxTS (sd_w d) else word_of_int ts) =
      word_of_int (max ts (tl_max a))"
    unfolding d1 unfolding F(4) by (auto simp: max_def)
  have d2: "sint (word_of_int (tl_wall F t a) - word_of_int (max ts (tl_max a)) :: u32) = tl_wall F t a - max ts (tl_max a)"
    using assms(2,3) sint_of_int_u32 [of "tl_wall F t a - max ts (tl_max a)"] by (auto simp: max_def)
  show ?thesis
    unfolding CurTS_def Let_def ts1 reset tl_cur_def wall_refines(3) [OF assms(1)]
    using wall_refines(2) [OF assms(1)] d2 by auto
qed

lemma write_refines:
  assumes "tl_rel F d a" "ev_Timestamp ev = word_of_int (fst c)" "\<bar>fst c - tl_max a\<bar> < 2 ^ 30" "t \<noteq> 0"
    and "WriteEvent (history_write answer) ev t (sd_w d) = (err, s1)"
  shows "tl_rel F (d\<lparr>sd_w := s1\<rparr>) (tl_write F auto c (err = None) t a)"
proof -
  have m: "sq_maxTS (sd_w d) = word_of_int (tl_max a)" using assms(1) by (simp add: tl_rel_def)
  have s: "sint (ev_Timestamp ev - sq_maxTS (sd_w d)) = fst c - tl_max a"
    using assms(3) sint_of_int_u32 [of "fst c - tl_max a"] by (simp add: m assms(2))
  show ?thesis
    using assms(1,2,4,5) s wall_refines(3) [OF assms(1)]
    by (cases c) (auto simp: tl_rel_def WriteEvent_def history_write_def Let_def tl_write_def max_def split: option.splits if_splits)
qed

text \<open>What one step offers to the writer below, and whether it is accepted.\<close>

lemma WriteEvent_offers:
  assumes "WriteEvent (history_write answer) ev now s = (err, s1)"
  shows "\<exists>p. sq_w s1 = sq_w s @ [p] \<and> err = answer (sq_w s) p"
  using assms by (auto simp: WriteEvent_def history_write_def Let_def split: if_splits)

definition accepts :: "(rtp_out list \<Rightarrow> rtp_out \<Rightarrow> go_error option) \<Rightarrow> rtp_out list \<Rightarrow> nat \<Rightarrow> bool" where
  "accepts answer h k \<longleftrightarrow> answer (take k h) (h ! k) = None"

lemma accepts_last: "accepts answer (h @ p # hs) (length h) \<longleftrightarrow> answer h p = None"
  by (simp add: accepts_def)

lemma send_step_extends:
  assumes "send_step (history_write answer) x t d = Some d1"
  shows "\<exists>hs. sq_w (sd_w d1) = sq_w (sd_w d) @ hs"
proof (cases x)
  case OpSend
  with assms show ?thesis
    by (auto simp: WritePayload_end_def Let_def split: Option.bind_splits prod.splits if_splits dest!: WriteEvent_offers)
next
  case (OpWriteAt i data marker)
  with assms show ?thesis
    by (auto simp: WritePayloadAtCurrent_def Let_def split: Option.bind_splits prod.splits if_splits dest!: WriteEvent_offers)
qed (use assms in \<open>auto simp: NewStream_def Let_def split_beta split: Option.bind_splits option.splits sum.splits if_splits\<close>)

lemma send_run_extends:
  "send_run (history_write answer) xs d = Some d1 \<Longrightarrow> \<exists>hs. sq_w (sd_w d1) = sq_w (sd_w d) @ hs"
proof (induction xs arbitrary: d)
  case (Cons x xs)
  obtain op t where x: "x = (op, t)" by fastforce
  with Cons.prems obtain d2 where "send_step (history_write answer) op t d = Some d2" "send_run (history_write answer) xs d2 = Some d1"
    by (auto split: Option.bind_splits)
  with Cons.IH [of d2] show ?case by (auto dest!: send_step_extends)
qed simp

lemma near_cur:
  assumes "0 < F" "\<bar>ts - tl_max a\<bar> < 2 ^ 30" "\<bar>tl_wall F t a - tl_max a\<bar> < 2 ^ 30"
  shows "\<bar>tl_cur F t ts a - tl_max a\<bar> < 2 ^ 30"
  using assms by (auto simp: tl_cur_def Let_def max_def)

lemma map_eq_nth: "map f xs = map g ys \<Longrightarrow> i < length xs \<Longrightarrow> f (xs ! i) = g (ys ! i)"
  by (metis length_map nth_map)

lemma send_refines:
  assumes rel: "tl_rel F d a" and near: "tl_near F t a"
    and c: "send_step (history_write answer) OpSend t d = Some d1" and h: "h = sq_w (sd_w d1) @ hs"
    and b: "tl_step F (accepts answer h (length (tl_out a))) OpSend t a = Some a1"
  shows "tl_rel F d1 a1"
proof -
  from c obtain st ts data marker where st: "sd_auto d = Some st" "sd_call d = Some (ts, data, marker)"
    by (auto split: Option.bind_splits)
  let ?ev = "\<lparr>ev_Type = st_typ st, ev_Timestamp = ts, ev_Payload = data, ev_Marker = marker\<rparr>"
  obtain err s1 where w: "WriteEvent (history_write answer) ?ev t (sd_w d) = (err, s1)" by fastforce
  from rel st obtain x call where a: "tl_auto a = Some x" "tl_call a = Some call" "ts = word_of_int (fst call)"
    by (cases "tl_auto a"; cases "tl_call a") (auto simp: tl_rel_def)
  have n: "\<bar>fst call - tl_max a\<bar> < 2 ^ 30" "t \<noteq> 0" using near a(2) by (auto simp: tl_near_def)
  have "ev_Timestamp ?ev = word_of_int (fst call)" using a(3) by simp
  note rel1 = write_refines [OF rel this n w, of True]
  have d1: "d1 = d\<lparr>sd_w := s1, sd_auto := Some (if err = None then st\<lparr>st_ts := ts + sq_frameTS s1\<rparr> else st), sd_call := None\<rparr>"
    using c st w by (auto simp: WritePayload_end_def split: if_splits)
  from WriteEvent_offers [OF w] obtain p where p: "sq_w s1 = sq_w (sd_w d) @ [p]" "err = answer (sq_w (sd_w d)) p" by blast
  have len: "length (tl_out a) = length (sq_w (sd_w d))" using rel by (auto simp: tl_rel_def dest: map_eq_imp_length_eq)
  have "accepts answer h (length (tl_out a)) \<longleftrightarrow> err = None" using h d1 p len by (simp add: accepts_last)
  then have a1: "a1 = (tl_write F True call (err = None) t a)\<lparr>tl_auto := Some (if err = None then fst call + F else x), tl_call := None\<rparr>"
    using b a by simp
  have "sq_frameTS s1 = word_of_int F" using rel1 by (simp add: tl_rel_def)
  then show ?thesis using rel1 rel st a d1 a1
    by (auto simp: tl_rel_def tl_write_def Let_def split: option.splits prod.splits)
qed

lemma write_at_refines:
  assumes rel: "tl_rel F d a" and near: "tl_near F t a"
    and c: "send_step (history_write answer) (OpWriteAt i data marker) t d = Some d1" and h: "h = sq_w (sd_w d1) @ hs"
    and b: "tl_step F (accepts answer h (length (tl_out a))) (OpWriteAt i data marker) t a = Some a1"
  shows "tl_rel F d1 a1"
proof -
  from b obtain T where T: "i < length (tl_man a)" "T = tl_man a ! i"
    "a1 = tl_write F False (T, tl_wall F t a, length (tl_out a)) (accepts answer h (length (tl_out a))) t a"
    by (auto simp: go_index_def split: if_splits)
  have len: "length (sd_man d) = length (tl_man a)" "length (tl_out a) = length (sq_w (sd_w d))"
    using rel by (auto simp: tl_rel_def dest: map_eq_imp_length_eq)
  define st where "st = sd_man d ! i"
  have st: "st_ts st = word_of_int T" "st_manual st" "go_index (sd_man d) i = Some st"
    using rel len T by (auto simp: tl_rel_def st_def list_all_length go_index_def dest: map_eq_nth)
  have n: "\<bar>T - tl_max a\<bar> < 2 ^ 30" "t \<noteq> 0" using near T by (auto simp: tl_near_def list_all_length)
  let ?ev = "\<lparr>ev_Type = st_typ st, ev_Timestamp = st_ts st, ev_Payload = data, ev_Marker = marker\<rparr>"
  obtain err s1 where w: "WriteEvent (history_write answer) ?ev t (sd_w d) = (err, s1)" by fastforce
  have ev: "ev_Timestamp ?ev = word_of_int (fst (T, tl_wall F t a, length (tl_out a)))" by (simp add: st)
  have n1: "\<bar>fst (T, tl_wall F t a, length (tl_out a)) - tl_max a\<bar> < 2 ^ 30" using n(1) by simp
  note rel1 = write_refines [OF rel ev n1 n(2) w, of False]
  have "(sd_man d)[i := st] = sd_man d" by (simp add: st_def)
  then have d1: "d1 = d\<lparr>sd_w := s1\<rparr>"
    using c st(2,3) w by (simp add: WritePayloadAtCurrent_def)
  from WriteEvent_offers [OF w] obtain p where p: "sq_w s1 = sq_w (sd_w d) @ [p]" "err = answer (sq_w (sd_w d)) p" by blast
  have "accepts answer h (length (tl_out a)) \<longleftrightarrow> err = None" using h d1 p len by (simp add: accepts_last)
  with rel1 T(3) d1 show ?thesis by simp
qed

lemma step_refines:
  assumes rel: "tl_rel F d a" and near: "tl_near F t a"
    and c: "send_step (history_write answer) x t d = Some d1" and h: "h = sq_w (sd_w d1) @ hs"
    and b: "tl_step F (accepts answer h (length (tl_out a))) x t a = Some a1"
  shows "tl_rel F d1 a1"
proof (cases x)
  case (OpNewStream ty rate)
  with rel c b show ?thesis
    by (auto simp: NewStream_def tl_rel_def split: if_splits option.splits)
next
  case (OpNewManual ty)
  with rel c b show ?thesis by (auto simp: NewManualStream_def tl_rel_def split: option.splits)
next
  case (OpBegin data marker)
  from b OpBegin obtain ts where ts: "tl_auto a = Some ts" "tl_call a = None"
    "a1 = a\<lparr>tl_call := Some (tl_cur F t ts a, tl_wall F t a, length (tl_out a))\<rparr>"
    by (auto split: option.splits)
  with rel obtain st where st: "sd_auto d = Some st" "st_ts st = word_of_int ts" "\<not> st_manual st" "sd_call d = None"
    by (auto simp: tl_rel_def split: option.splits)
  have n: "\<bar>ts - tl_max a\<bar> < 2 ^ 30" "\<bar>tl_wall F t a - tl_max a\<bar> < 2 ^ 30"
    using near ts by (auto simp: tl_near_def)
  have "CurTS t (st_ts st) (sd_w d) = word_of_int (tl_cur F t ts a)"
    using cur_refines [OF rel n] st by simp
  with c OpBegin st have "d1 = d\<lparr>sd_call := Some (word_of_int (tl_cur F t ts a), data, marker)\<rparr>"
    by (simp add: WritePayload_begin_def)
  with rel ts st show ?thesis by (auto simp: tl_rel_def split: option.splits)
next
  case OpSend
  with send_refines [OF rel near _ h] b c show ?thesis by blast
next
  case (OpWriteAt i data marker)
  with write_at_refines [OF rel near _ h] b c show ?thesis by blast
next
  case (OpSync i)
  from b OpSync have T: "i < length (tl_man a)" "a1 = a\<lparr>tl_man := (tl_man a)[i := tl_wall F t a]\<rparr>"
    by (auto simp: go_index_def split: if_splits)
  have len: "length (sd_man d) = length (tl_man a)" using rel by (auto simp: tl_rel_def dest: map_eq_imp_length_eq)
  define st where "st = sd_man d ! i"
  have st: "st_manual st" "go_index (sd_man d) i = Some st"
    using rel len T by (auto simp: tl_rel_def st_def list_all_length go_index_def)
  have "d1 = d\<lparr>sd_man := (sd_man d)[i := st\<lparr>st_ts := word_of_int (tl_wall F t a)\<rparr>]\<rparr>"
    using c OpSync st wall_refines(1) [OF rel] by (simp add: SyncTimestamp_def)
  with rel T st len show ?thesis
    by (auto simp: tl_rel_def map_update list_all_length nth_list_update split: option.splits)
qed

lemma run_refines:
  assumes "tl_rel F d a" "send_run (history_write answer) xs d = Some d1" "h = sq_w (sd_w d1) @ hs"
    and "tl_run F (accepts answer h) xs a = Some a1"
  shows "tl_rel F d1 a1"
  using assms
proof (induction xs arbitrary: d a)
  case (Cons x xs)
  obtain op t where x: "x = (op, t)" by fastforce
  with Cons.prems obtain d2 a2 where 1: "tl_near F t a" "send_step (history_write answer) op t d = Some d2"
    "tl_step F (accepts answer h (length (tl_out a))) op t a = Some a2" "send_run (history_write answer) xs d2 = Some d1"
    "tl_run F (accepts answer h) xs a2 = Some a1"
    by (auto split: Option.bind_splits if_splits)
  from send_run_extends [OF 1(4)] Cons.prems(3) obtain hs1 where "h = sq_w (sd_w d2) @ hs1" by auto
  from step_refines [OF Cons.prems(1) 1(1,2) this 1(3)] Cons.IH [of d2 a2] 1(4,5) Cons.prems(3) show ?case by blast
qed simp

section \<open>What the timeline promises\<close>

text \<open>
  What the \<open>k\<close>-th packet promises when the automatic stream wrote it: it is at most ten frames behind
  the wall clock, at or above every packet accepted before its timestamp was chosen, and at least a
  frame above every packet of the automatic stream accepted before it.
\<close>

definition kept_up :: "int \<Rightarrow> tl_packet list \<Rightarrow> tl_packet \<Rightarrow> bool" where
  "kept_up F out p \<longleftrightarrow> tp_wall p - tp_T p \<le> 10 * F \<and> tp_seen p \<le> length out \<and>
     list_all (\<lambda>q. tp_ok q \<longrightarrow> tp_T q \<le> tp_T p) (take (tp_seen p) out) \<and>
     list_all (\<lambda>q. tp_ok q \<and> tp_auto q \<longrightarrow> tp_T q + F \<le> tp_T p) out"

definition on_timeline :: "int \<Rightarrow> tl_packet list \<Rightarrow> bool" where
  "on_timeline F out \<longleftrightarrow> list_all (\<lambda>k. tp_auto (out ! k) \<longrightarrow> kept_up F (take k out) (out ! k)) [0..<length out]"

lemma on_timeline_snoc: "on_timeline F (out @ [p]) \<longleftrightarrow> on_timeline F out \<and> (tp_auto p \<longrightarrow> kept_up F out p)"
proof -
  have "list_all (\<lambda>k. tp_auto ((out @ [p]) ! k) \<longrightarrow> kept_up F (take k (out @ [p])) ((out @ [p]) ! k)) [0..<length out] \<longleftrightarrow>
    on_timeline F out"
    unfolding on_timeline_def by (rule list.pred_cong) (simp_all add: nth_append)
  then show ?thesis by (simp add: on_timeline_def)
qed

definition tl_inv :: "int \<Rightarrow> timeline \<Rightarrow> bool" where
  "tl_inv F a \<longleftrightarrow> on_timeline F (tl_out a) \<and>
     list_all (\<lambda>p. tp_ok p \<longrightarrow> tp_T p \<le> tl_max a) (tl_out a) \<and>
     (case tl_auto a of None \<Rightarrow> list_all (\<lambda>p. \<not> tp_auto p) (tl_out a) \<and> tl_call a = None
      | Some ts \<Rightarrow> list_all (\<lambda>p. tp_ok p \<and> tp_auto p \<longrightarrow> tp_T p + F \<le> ts) (tl_out a) \<and>
         (case tl_call a of None \<Rightarrow> True
          | Some (T, wall, seen) \<Rightarrow> ts \<le> T \<and> wall - T \<le> 10 * F \<and> seen \<le> length (tl_out a) \<and>
             list_all (\<lambda>q. tp_ok q \<longrightarrow> tp_T q \<le> T) (take seen (tl_out a))))"

lemma tl_cur_ge: "0 < F \<Longrightarrow> ts \<le> tl_cur F t ts a" "0 < F \<Longrightarrow> tl_max a \<le> tl_cur F t ts a"
  by (auto simp: tl_cur_def Let_def)

lemma tl_cur_lag: "0 < F \<Longrightarrow> tl_wall F t a - tl_cur F t ts a \<le> 10 * F"
  by (auto simp: tl_cur_def tl_wall_def Let_def split: option.splits)

lemma tl_step_inv:
  assumes "0 < F" "tl_inv F a" "tl_step F ok x t a = Some a1"
  shows "tl_inv F a1"
proof (cases x)
  case (OpBegin data marker)
  with assms(3) obtain ts where a: "tl_auto a = Some ts" "tl_call a = None"
    "a1 = a\<lparr>tl_call := Some (tl_cur F t ts a, tl_wall F t a, length (tl_out a))\<rparr>" by (auto split: option.splits)
  have "list_all (\<lambda>q. tp_ok q \<longrightarrow> tp_T q \<le> tl_cur F t ts a) (tl_out a)"
    using assms(2) tl_cur_ge(2) [OF assms(1), of a t ts] by (auto simp: tl_inv_def list_all_iff)
  with assms(2) a tl_cur_ge(1) [OF assms(1)] tl_cur_lag [OF assms(1)] show ?thesis
    by (simp add: tl_inv_def)
next
  case OpSend
  with assms(3) obtain ts T wall seen where a: "tl_auto a = Some ts" "tl_call a = Some (T, wall, seen)"
    "a1 = (tl_write F True (T, wall, seen) ok t a)\<lparr>tl_auto := Some (if ok then T + F else ts), tl_call := None\<rparr>"
    by (auto split: Option.bind_splits)
  have "kept_up F (tl_out a) \<lparr>tp_auto = True, tp_T = T, tp_wall = wall, tp_seen = seen, tp_ok = ok\<rparr>"
    using assms(2) a by (auto simp: kept_up_def tl_inv_def list_all_iff)
  with assms(1,2) a show ?thesis
    by (auto simp: tl_inv_def tl_write_def on_timeline_snoc list_all_iff)
next
  case (OpWriteAt i data marker)
  with assms(3) obtain T where a: "a1 = tl_write F False (T, tl_wall F t a, length (tl_out a)) ok t a"
    by (auto split: Option.bind_splits)
  with assms(2) show ?thesis
    by (auto simp: tl_inv_def tl_write_def on_timeline_snoc list_all_iff split: option.splits)
qed (use assms in \<open>auto simp: tl_inv_def list_all_iff split: if_splits Option.bind_splits option.splits\<close>)

lemma tl_run_inv: "0 < F \<Longrightarrow> tl_inv F a \<Longrightarrow> tl_run F oks xs a = Some a1 \<Longrightarrow> tl_inv F a1"
proof (induction xs arbitrary: a)
  case (Cons x xs)
  obtain op t where x: "x = (op, t)" by fastforce
  with Cons.prems obtain a2 where "tl_step F (oks (length (tl_out a))) op t a = Some a2" "tl_run F oks xs a2 = Some a1"
    by (auto split: Option.bind_splits if_splits)
  with Cons.IH [of a2] tl_step_inv [OF Cons.prems(1,2)] Cons.prems(1) show ?case by blast
qed simp

section \<open>Properties\<close>

text \<open>
  One sequence number space per SSRC.  However the streams of a \<open>SeqWriter\<close> are created and used and
  whatever the writer below answers, every packet offered to it carries the SSRC, version 2 and the
  number of packets accepted before it as its sequence number, mod 2^16: an accepted packet advances it
  by one, a rejected one is not counted.
\<close>

theorem SeqWriter_consecutive:
  assumes "send_run (history_write answer) ops (new_sender [] clockRate ssrc) = Some d"
  shows "list_all (\<lambda>k. h_SequenceNumber (fst (sq_w (sd_w d) ! k)) = of_nat (accepted answer (take k (sq_w (sd_w d)))) \<and>
      h_SSRC (fst (sq_w (sd_w d) ! k)) = ssrc \<and> h_Version (fst (sq_w (sd_w d) ! k)) = 2)
    [0..<length (sq_w (sd_w d))]"
proof -
  have "seq_inv answer ssrc (sd_w (new_sender [] clockRate ssrc))"
    by (simp add: seq_inv_def numbered_def new_sender_def NewSeqWriter_def)
  from seq_inv_run [OF this assms] show ?thesis by (simp add: seq_inv_def numbered_def)
qed

theorem SeqWriter_consecutive_witness:
  "case send_run (history_write (\<lambda>h _. if length h = 1 then Some EOF else None))
      [(OpNewStream 8 8000, 5), (OpBegin [1] True, 5), (OpNewManual 101, 5), (OpSend, 5), (OpBegin [3] False, 6), (OpWriteAt 0 [2] False, 6), (OpSend, 7)]
      (new_sender [] 8000 77) of None \<Rightarrow> False
   | Some d \<Rightarrow> map (\<lambda>p. h_SequenceNumber (fst p)) (sq_w (sd_w d)) = [0, 1, 1] \<and>
      list_all (\<lambda>k. h_SSRC (fst (sq_w (sd_w d) ! k)) = 77) [0..<length (sq_w (sd_w d))]"
proof -
  let ?a = "\<lambda>h _. if length h = 1 then Some EOF else None"
  let ?ops = "[(OpNewStream 8 8000, 5), (OpBegin [1] True, 5), (OpNewManual 101, 5), (OpSend, 5), (OpBegin [3] False, 6), (OpWriteAt 0 [2] False, 6), (OpSend, 7)]"
  have run: "case send_run (history_write ?a) ?ops (new_sender [] 8000 77) of None \<Rightarrow> False
    | Some d \<Rightarrow> map (\<lambda>p. h_SequenceNumber (fst p)) (sq_w (sd_w d)) = [0, 1, 1]"
    by code_simp
  then obtain d where d: "send_run (history_write ?a) ?ops (new_sender [] 8000 77) = Some d" by (auto split: option.splits)
  from SeqWriter_consecutive [OF d] run [unfolded d option.case] show ?thesis
    unfolding d option.case by (simp add: list_all_iff)
qed

text \<open>
  C9: 32-bit timestamps implement an unbounded timeline, whatever the writer below answers and however
  the calls of the streams interleave.  As long as the clock and the streams stay within 2^30 of the
  latest timestamp, the timestamps on the wire are those of the timeline, mod 2^32, through any number of
  wrap-arounds.  On that timeline each packet of the automatic stream is at least one frame above every
  packet of that stream accepted before it, is at or above every packet of any stream accepted before its
  timestamp was chosen, and is at most ten frames behind what the wall clock, anchored at the first
  packet, asked for at that moment.  A packet that another stream writes between the choice and the
  write may be ahead of it.
\<close>

theorem SeqWriter_timeline:
  assumes "frame = go_quot clockRate DefFramesPerSec" "0 < frame" "10 * frame < 2 ^ 30"
    and "send_run (history_write answer) ops (new_sender [] clockRate ssrc) = Some d"
    and "tl_run frame (accepts answer (sq_w (sd_w d))) ops tl_init = Some a"
  shows "map (\<lambda>p. h_Timestamp (fst p)) (sq_w (sd_w d)) = map (\<lambda>p. word_of_int (tp_T p)) (tl_out a) \<and>
    on_timeline frame (tl_out a)"
proof -
  have "tl_rel frame (new_sender [] clockRate ssrc) tl_init"
    using assms(1-3) by (simp add: tl_rel_def new_sender_def NewSeqWriter_def tl_init_def rtpTimestampOffset_def)
  from run_refines [OF this assms(4) _ assms(5), of "[]"]
  have "map (\<lambda>p. h_Timestamp (fst p)) (sq_w (sd_w d)) = map (\<lambda>p. word_of_int (tp_T p)) (tl_out a)"
    by (simp add: tl_rel_def)
  moreover have "tl_inv frame tl_init" by (simp add: tl_inv_def tl_init_def on_timeline_def)
  from tl_run_inv [OF assms(2) this assms(5)] have "on_timeline frame (tl_out a)" by (simp add: tl_inv_def)
  ultimately show ?thesis by simp
qed

text \<open>
  Audio; a DTMF event 40 ms later that gets in between the choice and the write of the next audio packet;
  an audio packet that is rejected; and audio after a stall of a second.
\<close>

abbreviation interleaved_ops :: "(send_op \<times> ns) list" where
  "interleaved_ops \<equiv>
     [(OpNewStream 8 8000, 1), (OpNewManual 101, 1), (OpBegin [1] True, 1), (OpSend, 1),
      (OpBegin [3] False, 20000001), (OpSync 0, 40000001), (OpWriteAt 0 [2] True, 40000001), (OpSend, 40000001),
      (OpBegin [4] False, 60000001), (OpSend, 60000001), (OpBegin [5] False, 1000000001), (OpSend, 1000000001)]"

theorem SeqWriter_timeline_witness:
  "\<exists>d (a :: timeline). send_run (history_write (\<lambda>h _. if length h = 3 then Some EOF else None)) interleaved_ops (new_sender [] 8000 77) = Some d \<and>
    map (\<lambda>p. (tp_auto p, tp_T p, tp_seen p, tp_ok p)) (tl_out a) =
      [(True, 48000, 0, True), (False, 48320, 1, True), (True, 48160, 1, True), (True, 48320, 3, False), (True, 56000, 4, True)] \<and>
    map (\<lambda>p. h_Timestamp (fst p)) (sq_w (sd_w d)) = [48000, 48320, 48160, 48320, 56000] \<and> on_timeline 160 (tl_out a)"
proof -
  let ?answer = "\<lambda>h (_ :: rtp_out). if length h = 3 then Some EOF else None"
  have "case send_run (history_write ?answer) interleaved_ops (new_sender [] 8000 77) of None \<Rightarrow> False
    | Some d \<Rightarrow> length (sq_w (sd_w d)) = 5" by code_simp
  then obtain d where d: "send_run (history_write ?answer) interleaved_ops (new_sender [] 8000 77) = Some d"
    "length (sq_w (sd_w d)) = 5" by (auto split: option.splits)
  have oks: "accepts ?answer (sq_w (sd_w d)) = (\<lambda>k. min 5 k \<noteq> 3)" using d(2) by (auto simp: accepts_def fun_eq_iff)
  have "case tl_run 160 (\<lambda>k. min 5 k \<noteq> 3) interleaved_ops tl_init of None \<Rightarrow> False
    | Some a \<Rightarrow> map (\<lambda>p. (tp_auto p, tp_T p, tp_seen p, tp_ok p)) (tl_out a) =
      [(True, 48000, 0, True), (False, 48320, 1, True), (True, 48160, 1, True), (True, 48320, 3, False), (True, 56000, 4, True)]"
    by code_simp
  then obtain a where a: "tl_run 160 (accepts ?answer (sq_w (sd_w d))) interleaved_ops tl_init = Some a"
    "map (\<lambda>p. (tp_auto p, tp_T p, tp_seen p, tp_ok p)) (tl_out a) =
      [(True, 48000, 0, True), (False, 48320, 1, True), (True, 48160, 1, True), (True, 48320, 3, False), (True, 56000, 4, True)]"
    by (auto simp: oks split: option.splits)
  have "map (\<lambda>p. word_of_int (tp_T p) :: u32) (tl_out a) =
      map (word_of_int \<circ> fst \<circ> snd) (map (\<lambda>p. (tp_auto p, tp_T p, tp_seen p, tp_ok p)) (tl_out a))" by simp
  then have "map (\<lambda>p. word_of_int (tp_T p) :: u32) (tl_out a) = [48000, 48320, 48160, 48320, 56000]" by (simp add: a(2))
  with SeqWriter_timeline [OF _ _ _ d(1) a(1)]
  have c: "map (\<lambda>p. h_Timestamp (fst p)) (sq_w (sd_w d)) = [48000, 48320, 48160, 48320, 56000]" "on_timeline 160 (tl_out a)"
    by (simp_all add: DefFramesPerSec_def DefFrameDur_def go_quot_def)
  show ?thesis by (intro exI [of _ d] exI [of _ a] conjI d(1) a(2) c)
qed

end
