(* ===== verification/Rtp_Mux.thy ===== *)
theory Rtp_Mux
  imports Media_Bytes Rtp_Writer
begin

text \<open>
  Receiving RTP: the payload type mux (\<open>rtp/mux.go\<close>), the read loop (\<open>rtp/rtp.go\<close>) and the codec handlers
  (\<open>rtp/codecs.go\<close>).  A handler is a value of type \<open>'h\<close>; \<open>hdl r p\<close> is its \<open>HandleRTP\<close> on the state the
  handlers share.
\<close>

section \<open>Mux\<close>

text \<open>
  \<open>mx_static\<close> has as many entries as the RTP library has static payload types
  (\<open>PayloadTypeFirstDynamic\<close>, a byte).
\<close>

record 'h mux =
  mx_static :: "'h option list"
  mx_dynamic :: "u8 \<Rightarrow> 'h option"
  mx_def :: "'h option"

definition NewMux :: "u8 \<Rightarrow> 'h option \<Rightarrow> 'h mux" where
  "NewMux firstDynamic h = \<lparr>mx_static = replicate (unat firstDynamic) None, mx_dynamic = (\<lambda>_. None), mx_def = h\<rparr>"

definition mux_SetDefault :: "'h option \<Rightarrow> 'h mux \<Rightarrow> 'h mux" where
  "mux_SetDefault h m = m\<lparr>mx_def := h\<rparr>"

definition mux_Register :: "u8 \<Rightarrow> 'h option \<Rightarrow> 'h mux \<Rightarrow> 'h mux option" where
  "mux_Register ty h m =
     (if ty < word_of_nat (length (mx_static m))
      then do { static \<leftarrow> go_update (mx_static m) (unat ty) h; Some (m\<lparr>mx_static := static\<rparr>) }
      else if h = None then Some (m\<lparr>mx_dynamic := (mx_dynamic m)(ty := None)\<rparr>)
      else Some (m\<lparr>mx_dynamic := (mx_dynamic m)(ty := h)\<rparr>))"

text \<open>The handler a packet goes to: the locked part of \<open>HandleRTP\<close>.\<close>

definition mux_select :: "u8 \<Rightarrow> 'h mux \<Rightarrow> 'h option option" where
  "mux_select ty m = do {
     r \<leftarrow> (if ty < word_of_nat (length (mx_static m)) then go_index (mx_static m) (unat ty)
          else Some (mx_dynamic m ty));
     Some (if r = None then mx_def m else r) }"

text \<open>A nil mux drops the packet.\<close>

definition mux_HandleRTP ::
  "('h \<Rightarrow> (rtp_out, 's) write_fn) \<Rightarrow> 'h mux option \<Rightarrow> rtp_out \<Rightarrow> 's \<Rightarrow> (go_error option \<times> 's) option" where
  "mux_HandleRTP hdl mo p s =
     (case mo of None \<Rightarrow> Some (None, s)
      | Some m \<Rightarrow> do {
          r \<leftarrow> mux_select (h_PayloadType (fst p)) m;
          Some (case r of None \<Rightarrow> (None, s) | Some r \<Rightarrow> hdl r p s) })"

datatype 'h mux_op = MuxRegister u8 "'h option" | MuxDefault "'h option"

fun mux_step :: "'h mux_op \<Rightarrow> 'h mux \<Rightarrow> 'h mux option" where
  "mux_step (MuxRegister ty h) m = mux_Register ty h m"
| "mux_step (MuxDefault h) m = Some (mux_SetDefault h m)"

fun mux_run :: "'h mux_op list \<Rightarrow> 'h mux \<Rightarrow> 'h mux option" where
  "mux_run [] m = Some m"
| "mux_run (x # xs) m = do { m1 \<leftarrow> mux_step x m; mux_run xs m1 }"

text \<open>The specification: the last word on a type, or else on the default, newest first.\<close>

fun last_registered :: "u8 \<Rightarrow> 'h mux_op list \<Rightarrow> 'h option" where
  "last_registered ty [] = None"
| "last_registered ty (MuxRegister ty1 h # xs) = (if ty1 = ty then h else last_registered ty xs)"
| "last_registered ty (MuxDefault h # xs) = last_registered ty xs"

fun last_default :: "'h option \<Rightarrow> 'h mux_op list \<Rightarrow> 'h option" where
  "last_default d [] = d"
| "last_default d (MuxRegister ty h # xs) = last_default d xs"
| "last_default d (MuxDefault h # xs) = h"

definition mux_rel :: "u8 \<Rightarrow> (u8 \<Rightarrow> 'h option) \<Rightarrow> 'h option \<Rightarrow> 'h mux \<Rightarrow> bool" where
  "mux_rel first reg d m \<longleftrightarrow> length (mx_static m) = unat first \<and> mx_def m = d \<and>
     (\<forall>ty. (if ty < first then mx_static m ! unat ty else mx_dynamic m ty) = reg ty)"

lemma mux_first: "length (mx_static m) = unat first \<Longrightarrow> word_of_nat (length (mx_static m)) = (first :: u8)"
  by simp

lemma mux_relD:
  assumes "mux_rel first reg d m"
  shows "length (mx_static m) = unat first" "mx_def m = d" "ty < first \<Longrightarrow> mx_static m ! unat ty = reg ty"
    "\<not> ty < first \<Longrightarrow> mx_dynamic m ty = reg ty"
  using assms by (auto simp: mux_rel_def split: if_splits)

lemma mux_rel_select: "mux_rel first reg d m \<Longrightarrow> mux_select ty m = Some (if reg ty = None then d else reg ty)"
  by (auto simp: mux_select_def mux_first mux_relD go_index_def word_less_nat_alt [symmetric])

lemma mux_rel_step:
  assumes "mux_rel first reg d m"
  shows "\<exists>m1. mux_step (MuxRegister ty h) m = Some m1 \<and> mux_rel first (reg(ty := h)) d m1"
    "\<exists>m1. mux_step (MuxDefault h) m = Some m1 \<and> mux_rel first reg h m1"
proof -
  note m = mux_relD [OF assms]
  show "\<exists>m1. mux_step (MuxRegister ty h) m = Some m1 \<and> mux_rel first (reg(ty := h)) d m1"
  proof (cases "ty < first")
    case True
    then have "unat ty < length (mx_static m)" by (simp add: m(1) word_less_nat_alt)
    moreover have "(mx_static m)[unat ty := h] ! unat t = (reg(ty := h)) t" if "t < first" for t
      using that m(3) [of t] calculation by (auto simp: nth_list_update word_unat_eq_iff)
    ultimately show ?thesis using True m
      by (auto simp: mux_Register_def mux_first go_update_def mux_rel_def)
  next
    case False
    with m show ?thesis by (auto simp: mux_Register_def mux_first mux_rel_def)
  qed
qed (use assms in \<open>auto simp: mux_SetDefault_def mux_rel_def split: if_splits\<close>)

lemma last_registered_snoc_reg:
  "(\<lambda>t. last_registered t (MuxRegister ty h # xs)) = (\<lambda>t. last_registered t xs)(ty := h)"
  by auto

lemma mux_run_append: "mux_run (xs @ ys) m = do { m1 \<leftarrow> mux_run xs m; mux_run ys m1 }"
  by (induction xs arbitrary: m) (simp_all split: Option.bind_split)

lemma mux_run_rel:
  "\<exists>m. mux_run xs (NewMux first d) = Some m \<and>
    mux_rel first (\<lambda>ty. last_registered ty (rev xs)) (last_default d (rev xs)) m"
proof (induction xs rule: rev_induct)
  case Nil
  show ?case by (simp add: mux_rel_def NewMux_def word_less_nat_alt)
next
  case (snoc x xs)
  then obtain m where m: "mux_run xs (NewMux first d) = Some m"
    "mux_rel first (\<lambda>ty. last_registered ty (rev xs)) (last_default d (rev xs)) m" by blast
  show ?case
  proof (cases x)
    case (MuxRegister ty h)
    with mux_rel_step(1) [OF m(2), of ty h] m(1) show ?thesis
      by (auto simp: mux_run_append last_registered_snoc_reg simp del: last_registered.simps)
  next
    case (MuxDefault h)
    with mux_rel_step(2) [OF m(2), of h] m(1) show ?thesis by (auto simp: mux_run_append)
  qed
qed

section \<open>Codec handlers\<close>

text \<open>
  \<open>codecByType\<close>, the table of the codecs with a static payload type: 255 entries, indexed by a byte.
  \<open>codec_static\<close> and \<open>codec_ptype\<close> are the two fields of the codec's information the registration reads.
\<close>

record codec_static_info =
  codec_static :: bool
  codec_ptype :: u8

definition codecByType_init :: "'c option list" where
  "codecByType_init = replicate 255 None"

definition codecByType_register :: "('c \<Rightarrow> codec_static_info) \<Rightarrow> 'c \<Rightarrow> 'c option list \<Rightarrow> 'c option list option" where
  "codecByType_register info c table =
     (if codec_static (info c) then go_update table (unat (codec_ptype (info c))) (Some c) else Some table)"

definition CodecByPayloadType :: "'c option list \<Rightarrow> u8 \<Rightarrow> 'c option option" where
  "CodecByPayloadType table ty = go_index table (unat ty)"

text \<open>\<open>rawHandler\<close>: the payload alone goes on.  The result \<open>'r\<close> is that of the writer below, which may panic.\<close>

definition rawHandler_HandleRTP :: "(bytes \<Rightarrow> 'w \<Rightarrow> 'r) \<Rightarrow> rtp_out \<Rightarrow> 'w \<Rightarrow> 'r" where
  "rawHandler_HandleRTP wr p w = wr (snd p) w"

definition rawHandler_Close :: "'w close_fn \<Rightarrow> 'w \<Rightarrow> 'w" where
  "rawHandler_Close cl w = snd (cl w)"

definition HandlePayload :: "(bytes \<Rightarrow> 'w \<Rightarrow> 'r) \<Rightarrow> rtp_out \<Rightarrow> 'w \<Rightarrow> 'r" where
  "HandlePayload wr = rawHandler_HandleRTP wr"

text \<open>
  \<open>initCodec\<close>: \<open>supports\<close> is the codec type's answer to the configuration, \<open>as_audio\<close> whether what it
  creates is an audio codec.
\<close>

definition initCodec :: "('c \<Rightarrow> 'k option) \<Rightarrow> ('k \<Rightarrow> 'a option) \<Rightarrow> 'c \<Rightarrow> go_error + 'a" where
  "initCodec supports as_audio t =
     (case supports t of None \<Rightarrow> Inl (ErrOther ''no support for PCM codec'')
      | Some create \<Rightarrow> (case as_audio create of None \<Rightarrow> Inl (ErrOther ''cannot use codec for audio'') | Some ac \<Rightarrow> Inr ac))"

text \<open>\<open>dec ac\<close> and \<open>enc ac\<close> are the codec's \<open>DecodeBytes\<close> and \<open>EncodeBytes\<close>.\<close>

definition DecodePCM :: "('a \<Rightarrow> 'pw \<Rightarrow> bytes \<Rightarrow> 'w \<Rightarrow> 'r) \<Rightarrow> 'a \<Rightarrow> 'pw \<Rightarrow> rtp_out \<Rightarrow> 'w \<Rightarrow> 'r" where
  "DecodePCM dec ac wr = HandlePayload (dec ac wr)"

definition EncodePCM :: "('a \<Rightarrow> 'bw \<Rightarrow> 'pw) \<Rightarrow> 'a \<Rightarrow> 'bw \<Rightarrow> 'pw" where
  "EncodePCM enc ac w = enc ac w"

definition DecodePCMWithCodec ::
  "('c \<Rightarrow> 'k option) \<Rightarrow> ('k \<Rightarrow> 'a option) \<Rightarrow> ('a \<Rightarrow> 'pw \<Rightarrow> bytes \<Rightarrow> 'w \<Rightarrow> 'r) \<Rightarrow> 'c \<Rightarrow> 'pw \<Rightarrow>
    go_error + (rtp_out \<Rightarrow> 'w \<Rightarrow> 'r)" where
  "DecodePCMWithCodec supports as_audio dec t wr =
     (case initCodec supports as_audio t of Inl e \<Rightarrow> Inl e | Inr ac \<Rightarrow> Inr (DecodePCM dec ac wr))"

definition EncodePCMWithCodec ::
  "('c \<Rightarrow> 'k option) \<Rightarrow> ('k \<Rightarrow> 'a option) \<Rightarrow> ('a \<Rightarrow> 'bw \<Rightarrow> 'pw) \<Rightarrow> 'c \<Rightarrow> 'bw \<Rightarrow> go_error + 'pw" where
  "EncodePCMWithCodec supports as_audio enc t wr =
     (case initCodec supports as_audio t of Inl e \<Rightarrow> Inl e | Inr ac \<Rightarrow> Inr (EncodePCM enc ac wr))"

definition HandleAudio :: "(bytes \<Rightarrow> 'w \<Rightarrow> 'r) \<Rightarrow> rtp_out \<Rightarrow> 'w \<Rightarrow> 'r" where
  "HandleAudio wr = HandlePayload (bd_WriteRaw wr)"

text \<open>The frame writer over a stream; \<open>rate\<close> is the sample rate in the information of the codec.\<close>

definition WriteAudio :: "('a \<Rightarrow> int) \<Rightarrow> 's \<Rightarrow> 'a \<Rightarrow> 's byteEncoder" where
  "WriteAudio rate s ac = EncodeBytes s (rate ac)"

section \<open>Properties\<close>

text \<open>
  The mux sends a packet where the last registration says.  After any sequence of \<open>Register\<close> and
  \<open>SetDefault\<close>, which never panic, a packet goes to the handler last registered for its payload type,
  static or dynamic alike; if that was removed or never set, to the default last set; and without one
  it is dropped.
\<close>

theorem mux_last_registered:
  "\<exists>m. mux_run ops (NewMux first d) = Some m \<and>
    mux_HandleRTP hdl (Some m) p s = Some
      (case last_registered (h_PayloadType (fst p)) (rev ops) of
         Some r \<Rightarrow> hdl r p s
       | None \<Rightarrow> (case last_default d (rev ops) of Some r \<Rightarrow> hdl r p s | None \<Rightarrow> (None, s)))"
proof -
  obtain m where "mux_run ops (NewMux first d) = Some m"
    "mux_rel first (\<lambda>ty. last_registered ty (rev ops)) (last_default d (rev ops)) m"
    using mux_run_rel by blast
  then show ?thesis by (auto simp: mux_HandleRTP_def mux_rel_select split: option.splits)
qed

definition noting :: "('p \<Rightarrow> go_error option) \<Rightarrow> ('p, 'p list \<times> nat) write_fn" where
  "noting answer p s = (answer p, (fst s @ [p], snd s))"

definition note_close :: "'p list \<times> nat \<Rightarrow> 'p list \<times> nat" where
  "note_close s = (fst s, snd s + 1)"

lemma HandleLoop_accepts:
  "list_all (\<lambda>p. answer p = None) ps \<Longrightarrow>
    HandleLoop (noting answer) note_close (map Inr ps @ rs) s = HandleLoop (noting answer) note_close rs (fst s @ ps, snd s)"
  by (induction ps arbitrary: s) (auto simp: noting_def)

text \<open>
  The read loop hands over every packet until the first error.  Given reads \<open>ps\<close> and then an error,
  and a handler that accepts them all, the loop calls it once per packet, in order, returns the read
  error and closes the handler exactly once; when the handler rejects the first packet of \<open>qs\<close>, the loop
  returns the handler's error and neither reads nor hands over anything more.
\<close>

theorem HandleLoop_until_error:
  assumes "list_all (\<lambda>p. answer p = None) ps" "answer q = Some err"
  shows "HandleLoop (noting answer) note_close (map Inr ps @ Inl rerr # rs) ([], 0) = Some (rerr, (ps, 1)) \<and>
    HandleLoop (noting answer) note_close (map Inr ps @ Inr q # rs) ([], 0) = Some (err, (ps @ [q], 1)) \<and>
    HandleLoop (noting answer) note_close (map Inr ps) ([], 0) = None"
  using assms HandleLoop_accepts [OF assms(1), of "Inl rerr # rs" "([], 0)"]
    HandleLoop_accepts [OF assms(1), of "Inr q # rs" "([], 0)"] HandleLoop_accepts [OF assms(1), of "[]" "([], 0)"]
  by (simp add: noting_def note_close_def)

theorem HandleLoop_until_error_witness:
  "HandleLoop (noting (\<lambda>p. if p = 3 then Some EOF else None)) note_close
     (map Inr [1, 2] @ Inr 3 # [Inr 4]) ([], 0) = Some (EOF, ([1, 2] @ [3 :: nat], 1))"
  by (rule HandleLoop_until_error [THEN conjunct2, THEN conjunct1]) simp_all

fun register_all :: "('c \<Rightarrow> codec_static_info) \<Rightarrow> 'c list \<Rightarrow> 'c option list \<Rightarrow> 'c option list option" where
  "register_all info [] table = Some table"
| "register_all info (c # cs) table = do { t1 \<leftarrow> codecByType_register info c table; register_all info cs t1 }"

lemma register_all_length: "register_all info cs table = Some t \<Longrightarrow> length t = length table"
  by (induction cs arbitrary: table) (auto simp: codecByType_register_def go_update_def split: Option.bind_splits if_splits)

text \<open>
  Looking up a codec by payload type panics for 255 and for no other byte.  The table has 255
  entries, so after any registrations that did not panic the lookup of 255 is out of range, and every
  other type finds the codec registered for it or none.
\<close>

theorem CodecByPayloadType_panics:
  assumes "register_all info cs codecByType_init = Some table"
  shows "CodecByPayloadType table ty = None \<longleftrightarrow> ty = 255"
proof -
  have "length table = 255" using register_all_length [OF assms] by (simp add: codecByType_init_def)
  moreover have "unat ty < 255 \<longleftrightarrow> ty \<noteq> 255"
  proof -
    have "unat ty < 256" using unsigned_less [of ty, where ?'a = nat] by simp
    moreover have "unat ty = 255 \<longleftrightarrow> ty = 255" by (simp add: word_unat_eq_iff)
    ultimately show ?thesis by linarith
  qed
  ultimately show ?thesis by (simp add: CodecByPayloadType_def go_index_def)
qed

theorem CodecByPayloadType_panics_witness:
  "CodecByPayloadType (codecByType_init [8 := Some ''PCMA'']) 255 = None"
  using CodecByPayloadType_panics [of "\<lambda>_. \<lparr>codec_static = True, codec_ptype = 8\<rparr>" "[''PCMA'']"
      "codecByType_init [8 := Some ''PCMA'']" 255]
  by (simp add: codecByType_register_def go_update_def codecByType_init_def)

end
