(* ===== verification/Go_Strings.thy ===== *)
theory Go_Strings
  imports Media_Prelude
begin

text \<open>
  The functions of Go's \<open>strings\<close> and \<open>strconv\<close> packages that the codec registry and the SDP code call,
  on ASCII strings.
\<close>

section \<open>Cutting and splitting\<close>

definition is_space :: "char \<Rightarrow> bool" where
  "is_space c \<longleftrightarrow> c \<in> {CHR 0x09, CHR 0x0A, CHR 0x0B, CHR 0x0C, CHR 0x0D, CHR 0x20}"

definition TrimSpace :: "string \<Rightarrow> string" where
  "TrimSpace s = rev (dropWhile is_space (rev (dropWhile is_space s)))"

text \<open>The parts before and after the first \<open>c\<close>.\<close>

fun cut_at :: "char \<Rightarrow> string \<Rightarrow> (string \<times> string) option" where
  "cut_at c [] = None"
| "cut_at c (x # xs) =
     (if x = c then Some ([], xs) else (case cut_at c xs of None \<Rightarrow> None | Some (a, b) \<Rightarrow> Some (x # a, b)))"

definition Split :: "string \<Rightarrow> char \<Rightarrow> string list" where
  "Split s c = foldr (\<lambda>x parts. if x = c then [] # parts else (x # hd parts) # tl parts) s [[]]"

text \<open>At most \<open>n\<close> parts, for \<open>n > 0\<close>.\<close>

fun SplitN :: "string \<Rightarrow> char \<Rightarrow> nat \<Rightarrow> string list" where
  "SplitN s c 0 = []"
| "SplitN s c (Suc 0) = [s]"
| "SplitN s c (Suc (Suc n)) = (case cut_at c s of None \<Rightarrow> [s] | Some (a, b) \<Rightarrow> a # SplitN b c (Suc n))"

definition CutPrefix :: "string \<Rightarrow> string \<Rightarrow> string option" where
  "CutPrefix s pre = (if take (length pre) s = pre then Some (drop (length pre) s) else None)"

definition HasPrefix :: "string \<Rightarrow> string \<Rightarrow> bool" where
  "HasPrefix s pre \<longleftrightarrow> take (length pre) s = pre"

definition ContainsAny :: "string \<Rightarrow> string \<Rightarrow> bool" where
  "ContainsAny s chars \<longleftrightarrow> list_ex (\<lambda>c. c \<in> set chars) s"

definition lower_char :: "char \<Rightarrow> char" where
  "lower_char c = (let n = of_char c :: nat in if 65 \<le> n \<and> n \<le> 90 then char_of (n + 32) else c)"

definition ToLower :: "string \<Rightarrow> string" where
  "ToLower s = map lower_char s"

fun Join :: "string list \<Rightarrow> string \<Rightarrow> string" where
  "Join [] sep = []"
| "Join [a] sep = a"
| "Join (a # b # xs) sep = a @ sep @ Join (b # xs) sep"

section \<open>Numbers\<close>

definition digit_val :: "char \<Rightarrow> nat option" where
  "digit_val c = (let n = of_char c :: nat in if 48 \<le> n \<and> n \<le> 57 then Some (n - 48) else None)"

fun parse_digits :: "nat \<Rightarrow> string \<Rightarrow> nat option" where
  "parse_digits acc [] = Some acc"
| "parse_digits acc (c # cs) = (case digit_val c of None \<Rightarrow> None | Some d \<Rightarrow> parse_digits (acc * 10 + d) cs)"

definition ParseUint :: "string \<Rightarrow> nat \<Rightarrow> go_error + nat" where
  "ParseUint s bits =
     (if s = [] then Inl (ErrOther ''invalid syntax'')
      else case parse_digits 0 s of None \<Rightarrow> Inl (ErrOther ''invalid syntax'')
        | Some n \<Rightarrow> if n < 2 ^ bits then Inr n else Inl (ErrOther ''value out of range''))"

definition Atoi :: "string \<Rightarrow> go_error + int" where
  "Atoi s =
     (let (neg, ds) = (case s of [] \<Rightarrow> (False, []) | c # cs \<Rightarrow>
            if c = CHR ''-'' then (True, cs) else if c = CHR ''+'' then (False, cs) else (False, s))
      in if ds = [] then Inl (ErrOther ''invalid syntax'')
         else case parse_digits 0 ds of None \<Rightarrow> Inl (ErrOther ''invalid syntax'')
           | Some n \<Rightarrow> let v = (if neg then - int n else int n)
               in if - (2 ^ 63) \<le> v \<and> v < 2 ^ 63 then Inr v else Inl (ErrOther ''value out of range''))"

definition digit :: "nat \<Rightarrow> char" where
  "digit n = char_of (48 + n)"

fun itoa_nat :: "nat \<Rightarrow> string" where
  "itoa_nat n = (if n < 10 then [digit n] else itoa_nat (n div 10) @ [digit (n mod 10)])"

declare itoa_nat.simps [simp del]

definition Itoa :: "int \<Rightarrow> string" where
  "Itoa i = (if i < 0 then CHR ''-'' # itoa_nat (nat (- i)) else itoa_nat (nat i))"

section \<open>Lemmas\<close>

lemma digit_val_digit: "n < 10 \<Longrightarrow> digit_val (digit n) = Some n"
  by (simp add: digit_val_def digit_def of_char_of)

lemma parse_digits_append: "parse_digits acc (xs @ ys) =
    (case parse_digits acc xs of None \<Rightarrow> None | Some n \<Rightarrow> parse_digits n ys)"
  by (induction acc xs rule: parse_digits.induct) (auto split: option.split)

lemma parse_itoa: "parse_digits 0 (itoa_nat n) = Some n"
proof (induction n rule: itoa_nat.induct)
  case (1 n)
  then show ?case
    by (subst itoa_nat.simps) (auto simp: parse_digits_append digit_val_digit)
qed

lemma itoa_nonempty: "itoa_nat n \<noteq> []"
  by (subst itoa_nat.simps) simp

lemma digit_val_itoa: "list_all (\<lambda>c. digit_val c \<noteq> None) (itoa_nat n)"
proof (induction n rule: itoa_nat.induct)
  case (1 n)
  then show ?case by (subst itoa_nat.simps) (auto simp: digit_val_digit)
qed

lemma itoa_no_char: "digit_val c = None \<Longrightarrow> c \<notin> set (itoa_nat n)"
  using digit_val_itoa [of n] by (auto simp: list_all_iff)

lemma itoa_not_space: "is_space c \<Longrightarrow> c \<notin> set (itoa_nat n)"
  by (rule itoa_no_char) (auto simp: is_space_def digit_val_def)

lemma itoa_ends: "\<not> is_space (hd (itoa_nat n))" "\<not> is_space (last (itoa_nat n))"
  using itoa_nonempty itoa_not_space hd_in_set last_in_set by metis+

lemma itoa_no_sign: "hd (itoa_nat n) \<noteq> CHR ''-'' \<and> hd (itoa_nat n) \<noteq> CHR ''+''"
proof -
  have "CHR ''-'' \<notin> set (itoa_nat n)" "CHR ''+'' \<notin> set (itoa_nat n)"
    by (rule itoa_no_char, simp add: digit_val_def)+
  then show ?thesis using hd_in_set [OF itoa_nonempty [of n]] by metis
qed

lemma Atoi_Itoa:
  assumes "- (2 ^ 63) \<le> i" "i < 2 ^ 63"
  shows "Atoi (Itoa i) = Inr i"
proof (cases "i < 0")
  case True
  then show ?thesis using assms parse_itoa [of "nat (- i)"] itoa_nonempty [of "nat (- i)"]
    by (simp add: Atoi_def Itoa_def)
next
  case False
  obtain c cs where s: "itoa_nat (nat i) = c # cs" using itoa_nonempty [of "nat i"] by (cases "itoa_nat (nat i)") auto
  with itoa_no_sign [of "nat i"] have "c \<noteq> CHR ''-''" "c \<noteq> CHR ''+''" by auto
  then show ?thesis using assms False s parse_itoa [of "nat i"] by (simp add: Atoi_def Itoa_def)
qed

lemma Atoi_range: "Atoi s = Inr i \<Longrightarrow> - (2 ^ 63) \<le> i \<and> i < 2 ^ 63"
  by (auto simp: Atoi_def Let_def split: prod.splits option.splits if_splits)

lemma Itoa_no_char: "digit_val c = None \<Longrightarrow> c \<noteq> CHR ''-'' \<Longrightarrow> c \<notin> set (Itoa i)"
  by (simp add: Itoa_def itoa_no_char)

lemma Itoa_nonempty: "Itoa i \<noteq> []"
  by (simp add: Itoa_def itoa_nonempty)

lemma ParseUint_Itoa: "n < 2 ^ bits \<Longrightarrow> ParseUint (itoa_nat n) bits = Inr n"
  by (simp add: ParseUint_def itoa_nonempty parse_itoa)

lemma cut_at_append: "c \<notin> set a \<Longrightarrow> cut_at c (a @ c # b) = Some (a, b)"
  by (induction a) auto

lemma cut_at_None: "c \<notin> set a \<Longrightarrow> cut_at c a = None"
  by (induction a) auto

lemma SplitN_step: "c \<notin> set a \<Longrightarrow> SplitN (a @ c # b) c (Suc (Suc n)) = a # SplitN b c (Suc n)"
  by (simp add: cut_at_append)

lemma Split_none: "c \<notin> set s \<Longrightarrow> Split s c = [s]"
  by (induction s) (auto simp: Split_def)

lemma Split_nonempty: "Split s c \<noteq> []"
  by (induction s) (auto simp: Split_def)

lemma Split_append: "c \<notin> set a \<Longrightarrow> Split (a @ c # b) c = a # Split b c"
  using Split_nonempty [of b c] by (induction a) (auto simp: Split_def)

lemma TrimSpace_id: "s \<noteq> [] \<Longrightarrow> \<not> is_space (hd s) \<Longrightarrow> \<not> is_space (last s) \<Longrightarrow> TrimSpace s = s"
proof -
  assume s: "s \<noteq> []" "\<not> is_space (hd s)" "\<not> is_space (last s)"
  then have "dropWhile is_space s = s" by (cases s) auto
  moreover have "dropWhile is_space (rev s) = rev s" using s by (cases "rev s") (auto simp: last_conv_nth hd_rev [symmetric])
  ultimately show ?thesis by (simp add: TrimSpace_def)
qed

lemma lower_char_idem: "lower_char (lower_char c) = lower_char c"
  by (auto simp: lower_char_def Let_def of_char_of)

lemma ToLower_idem [simp]: "ToLower (ToLower s) = ToLower s"
  by (simp add: ToLower_def lower_char_idem)

end
