(* ===== verification/Rtp_Listen.thy ===== *)
theory Rtp_Listen
  imports Go_Strings
begin

text \<open>
  Binding a UDP port in a range (\<open>rtp/listen.go\<close>).  \<open>create port s\<close> is the bind function on the state of
  the operating system, \<open>in_use\<close> says which errors are \<open>EADDRINUSE\<close>, and \<open>rnd n\<close> is \<open>rand.Intn(n)\<close>.
\<close>

unbundle bit_operations_syntax

type_synonym ('c, 's) bind_fn = "int \<Rightarrow> 's \<Rightarrow> (go_error + 'c) \<times> 's"

definition ErrListenFailed :: go_error where
  "ErrListenFailed = ErrOther ''failed to listen on udp port''"

text \<open>The loop of \<open>bindRange\<close> and \<open>bindEvenRange\<close>: \<open>tries\<close> left, moving by \<open>step\<close> and from \<open>hi\<close> back to \<open>lo\<close>.\<close>

fun bind_loop ::
  "(go_error \<Rightarrow> bool) \<Rightarrow> ('c, 's) bind_fn \<Rightarrow> int \<Rightarrow> int \<Rightarrow> int \<Rightarrow> nat \<Rightarrow> int \<Rightarrow> 's \<Rightarrow> (go_error + 'c) \<times> 's" where
  "bind_loop in_use create step lo hi 0 portCurrent s = (Inl ErrListenFailed, s)"
| "bind_loop in_use create step lo hi (Suc tries) portCurrent s =
     (case create portCurrent s of
        (Inr c, s1) \<Rightarrow> (Inr c, s1)
      | (Inl err, s1) \<Rightarrow>
          if \<not> in_use err then (Inl err, s1)
          else bind_loop in_use create step lo hi tries
                 (if portCurrent + step > hi then lo else portCurrent + step) s1)"

definition bindRange ::
  "(go_error \<Rightarrow> bool) \<Rightarrow> (int \<Rightarrow> int) \<Rightarrow> int \<Rightarrow> int \<Rightarrow> ('c, 's) bind_fn \<Rightarrow> 's \<Rightarrow> (go_error + 'c) \<times> 's" where
  "bindRange in_use rnd portMin0 portMax0 create s =
     (if portMin0 \<le> 0 \<and> portMax0 \<le> 0 then create 0 s
      else if portMin0 = portMax0 then create portMin0 s
      else
        (let portMin = (if portMin0 \<le> 0 then 1 else portMin0);
             portMax = (if portMax0 \<le> 0 \<or> portMax0 > 0xFFFF then 0xFFFF else portMax0)
         in if portMin > portMax then (Inl ErrListenFailed, s)
            else (let ports = portMax - portMin + 1
                  in bind_loop in_use create 1 portMin portMax (nat ports) (rnd ports + portMin) s)))"

definition bindEvenRange ::
  "(go_error \<Rightarrow> bool) \<Rightarrow> (int \<Rightarrow> int) \<Rightarrow> int \<Rightarrow> int \<Rightarrow> ('c, 's) bind_fn \<Rightarrow> 's \<Rightarrow> (go_error + 'c) \<times> 's" where
  "bindEvenRange in_use rnd portMin0 portMax0 create s =
     (let portMin = (if portMin0 \<le> 0 then 1 else portMin0);
          portMax = (if portMax0 \<le> 0 \<or> portMax0 > 0xFFFF then 0xFFFF else portMax0);
          evenMin = (portMin + 1) AND (NOT 1);
          evenMax = portMax AND (NOT 1)
      in if evenMin > evenMax then (Inl ErrListenFailed, s)
         else (let ports = go_quot (evenMax - evenMin) 2 + 1
               in bind_loop in_use create 2 evenMin evenMax (nat ports) (evenMin + 2 * rnd ports) s))"

text \<open>
  The exported functions: \<open>listen\<close> is \<open>net.ListenUDP\<close> at an address and port, \<open>listen_packet\<close> the method
  \<open>ListenPacket\<close> of the configuration on a text address, \<open>ip_text\<close> the text of the address.
\<close>

definition listen_with :: "(string \<Rightarrow> 's \<Rightarrow> (go_error + 'c) \<times> 's) \<Rightarrow> string \<Rightarrow> ('c, 's) bind_fn" where
  "listen_with listen_packet ip_text port s =
     (case listen_packet (ip_text @ '':'' @ Itoa port) s of (Inl err, s1) \<Rightarrow> (Inl err, s1) | (Inr conn, s1) \<Rightarrow> (Inr conn, s1))"

definition ListenUDPPortRange ::
  "(go_error \<Rightarrow> bool) \<Rightarrow> (int \<Rightarrow> int) \<Rightarrow> ('ip \<Rightarrow> ('c, 's) bind_fn) \<Rightarrow> int \<Rightarrow> int \<Rightarrow> 'ip \<Rightarrow> 's \<Rightarrow> (go_error + 'c) \<times> 's" where
  "ListenUDPPortRange in_use rnd listen portMin portMax ip = bindRange in_use rnd portMin portMax (listen ip)"

definition ListenUDPPortRangeWithConfig ::
  "(go_error \<Rightarrow> bool) \<Rightarrow> (int \<Rightarrow> int) \<Rightarrow> ('ip \<Rightarrow> string) \<Rightarrow> int \<Rightarrow> int \<Rightarrow> 'ip \<Rightarrow>
    (string \<Rightarrow> 's \<Rightarrow> (go_error + 'c) \<times> 's) \<Rightarrow> 's \<Rightarrow> (go_error + 'c) \<times> 's" where
  "ListenUDPPortRangeWithConfig in_use rnd ip_text portMin portMax ip lc =
     bindRange in_use rnd portMin portMax (listen_with lc (ip_text ip))"

definition ListenUDPEvenPortRange ::
  "(go_error \<Rightarrow> bool) \<Rightarrow> (int \<Rightarrow> int) \<Rightarrow> ('ip \<Rightarrow> ('c, 's) bind_fn) \<Rightarrow> int \<Rightarrow> int \<Rightarrow> 'ip \<Rightarrow> 's \<Rightarrow> (go_error + 'c) \<times> 's" where
  "ListenUDPEvenPortRange in_use rnd listen portMin portMax ip = bindEvenRange in_use rnd portMin portMax (listen ip)"

definition ListenUDPEvenPortRangeWithConfig ::
  "(go_error \<Rightarrow> bool) \<Rightarrow> (int \<Rightarrow> int) \<Rightarrow> ('ip \<Rightarrow> string) \<Rightarrow> int \<Rightarrow> int \<Rightarrow> 'ip \<Rightarrow>
    (string \<Rightarrow> 's \<Rightarrow> (go_error + 'c) \<times> 's) \<Rightarrow> 's \<Rightarrow> (go_error + 'c) \<times> 's" where
  "ListenUDPEvenPortRangeWithConfig in_use rnd ip_text portMin portMax ip lc =
     bindEvenRange in_use rnd portMin portMax (listen_with lc (ip_text ip))"

section \<open>The ports tried\<close>

text \<open>An operating system that remembers the ports tried and answers by its history.\<close>

definition trying :: "(int list \<Rightarrow> int \<Rightarrow> go_error + 'c) \<Rightarrow> ('c, int list) bind_fn" where
  "trying answer port h = (answer h port, h @ [port])"

text \<open>The order of the loop: from \<open>c\<close> upwards by \<open>step\<close>, then from \<open>lo\<close>.\<close>

fun rotation :: "int \<Rightarrow> int \<Rightarrow> int \<Rightarrow> nat \<Rightarrow> int \<Rightarrow> int list" where
  "rotation step lo hi 0 c = []"
| "rotation step lo hi (Suc n) c = c # rotation step lo hi n (if c + step > hi then lo else c + step)"

text \<open>What a bind loop ends with: all the ports in use, or the first answer that is not.\<close>

lemma bind_loop_tries:
  "bind_loop in_use (trying answer) step lo hi n c h = (res, h1) \<Longrightarrow>
    \<exists>k \<le> n. h1 = h @ take k (rotation step lo hi n c) \<and>
      (res = Inl ErrListenFailed \<and> k = n \<and>
         (\<forall>j < n. \<exists>e. answer (h @ take j (rotation step lo hi n c)) (rotation step lo hi n c ! j) = Inl e \<and> in_use e) \<or>
       0 < k \<and> res = answer (h @ take (k - 1) (rotation step lo hi n c)) (rotation step lo hi n c ! (k - 1)) \<and>
         (\<forall>e. res = Inl e \<longrightarrow> \<not> in_use e))"
proof (induction n arbitrary: c h)
  case (Suc n)
  let ?c = "if c + step > hi then lo else c + step"
  show ?case
  proof (cases "\<exists>e. answer h c = Inl e \<and> in_use e")
    case False
    with Suc.prems have "res = answer h c" "h1 = h @ [c]"
      by (auto simp: trying_def split: sum.splits if_splits)
    with False show ?thesis by (intro exI [of _ 1]) auto
  next
    case True
    with Suc.prems have "bind_loop in_use (trying answer) step lo hi n ?c (h @ [c]) = (res, h1)"
      by (auto simp: trying_def [of answer c h])
    from Suc.IH [OF this] obtain k where k: "k \<le> n" "h1 = (h @ [c]) @ take k (rotation step lo hi n ?c)"
      "res = Inl ErrListenFailed \<and> k = n \<and>
         (\<forall>j < n. \<exists>e. answer ((h @ [c]) @ take j (rotation step lo hi n ?c)) (rotation step lo hi n ?c ! j) = Inl e \<and> in_use e) \<or>
       0 < k \<and> res = answer ((h @ [c]) @ take (k - 1) (rotation step lo hi n ?c)) (rotation step lo hi n ?c ! (k - 1)) \<and>
         (\<forall>e. res = Inl e \<longrightarrow> \<not> in_use e)" by blast
    show ?thesis
    proof (rule exI [of _ "Suc k"], intro conjI)
      from k(3) show "res = Inl ErrListenFailed \<and> Suc k = Suc n \<and>
         (\<forall>j < Suc n. \<exists>e. answer (h @ take j (rotation step lo hi (Suc n) c)) (rotation step lo hi (Suc n) c ! j) = Inl e \<and> in_use e) \<or>
       0 < Suc k \<and> res = answer (h @ take (Suc k - 1) (rotation step lo hi (Suc n) c)) (rotation step lo hi (Suc n) c ! (Suc k - 1)) \<and>
         (\<forall>e. res = Inl e \<longrightarrow> \<not> in_use e)"
      proof
        assume all: "res = Inl ErrListenFailed \<and> k = n \<and>
          (\<forall>j < n. \<exists>e. answer ((h @ [c]) @ take j (rotation step lo hi n ?c)) (rotation step lo hi n ?c ! j) = Inl e \<and> in_use e)"
        have "\<exists>e. answer (h @ take j (rotation step lo hi (Suc n) c)) (rotation step lo hi (Suc n) c ! j) = Inl e \<and> in_use e"
          if "j < Suc n" for j
          using that all True by (cases j) auto
        with all show ?thesis by blast
      next
        assume "0 < k \<and> res = answer ((h @ [c]) @ take (k - 1) (rotation step lo hi n ?c)) (rotation step lo hi n ?c ! (k - 1)) \<and>
         (\<forall>e. res = Inl e \<longrightarrow> \<not> in_use e)"
        then show ?thesis by (cases k) auto
      qed
    qed (use k in simp_all)
  qed
qed simp

text \<open>One rotation is all the ports of the range, each once.\<close>

lemma rotation_eq:
  assumes "0 < step" "i < N"
  shows "rotation step lo (lo + step * (int N - 1)) m (lo + step * int i) = map (\<lambda>k. lo + step * int ((i + k) mod N)) [0..<m]"
  using assms(2)
proof (induction m arbitrary: i)
  case (Suc m)
  let ?hi = "lo + step * (int N - 1)" and ?c = "lo + step * int i"
  have wrap: "?c + step > ?hi \<longleftrightarrow> Suc i = N"
  proof -
    have "?c + step > ?hi \<longleftrightarrow> step * (int N - 1) < step * (int i + 1)" by (simp add: algebra_simps)
    also have "\<dots> \<longleftrightarrow> int N - 1 < int i + 1" using assms(1) by simp
    finally show ?thesis using Suc.prems by linarith
  qed
  have "(if ?c + step > ?hi then lo else ?c + step) = lo + step * int (Suc i mod N)"
    using Suc.prems unfolding wrap by (auto simp: algebra_simps)
  moreover have "Suc i mod N < N" using Suc.prems by simp
  moreover have "(Suc i mod N + k) mod N = (i + Suc k) mod N" for k
    by (simp add: mod_add_left_eq)
  ultimately have "rotation step lo ?hi (Suc m) ?c = ?c # map (\<lambda>k. lo + step * int ((i + Suc k) mod N)) [0..<m]"
    using Suc.IH [of "Suc i mod N"] by simp
  also have "\<dots> = map (\<lambda>k. lo + step * int ((i + k) mod N)) [0..<Suc m]"
    using Suc.prems by (simp add: upt_conv_Cons map_Suc_upt [symmetric] del: upt_Suc)
  finally show ?case .
qed simp

lemma mod_shift_inj: "k < N \<Longrightarrow> l < N \<Longrightarrow> (i + k) mod N = (i + l) mod N \<Longrightarrow> k = (l :: nat)"
proof -
  assume a: "k < N" "l < N" "(i + k) mod N = (i + l) mod N"
  then have "int (i + k) mod int N = int (i + l) mod int N" by (metis of_nat_mod)
  then have "int N dvd int k - int l" by (simp add: mod_eq_dvd_iff)
  with a(1,2) show ?thesis using dvd_imp_le_int [of "int k - int l" "int N"] by linarith
qed

lemma rotation_all:
  assumes "0 < step" "i < N"
  shows "distinct (rotation step lo (lo + step * (int N - 1)) N (lo + step * int i))"
    "set (rotation step lo (lo + step * (int N - 1)) N (lo + step * int i)) = (\<lambda>j. lo + step * int j) ` {..<N}"
proof -
  have inj1: "inj_on (\<lambda>k. (i + k) mod N) {..<N}"
  proof (rule inj_onI)
    fix k l assume "k \<in> {..<N}" "l \<in> {..<N}" "(i + k) mod N = (i + l) mod N"
    then show "k = l" using mod_shift_inj [of k N l i] by simp
  qed
  have "inj_on (\<lambda>j. lo + step * int j) ((\<lambda>k. (i + k) mod N) ` {..<N})"
    by (rule inj_onI) (use assms(1) in simp)
  from comp_inj_on [OF inj1 this] have "inj_on (\<lambda>k. lo + step * int ((i + k) mod N)) {..<N}"
    unfolding comp_def .
  then show "distinct (rotation step lo (lo + step * (int N - 1)) N (lo + step * int i))"
    unfolding rotation_eq [OF assms] by (simp add: distinct_map atLeast0LessThan)
  have "(\<lambda>k. (i + k) mod N) ` {..<N} = {..<N}"
    by (rule endo_inj_surj [OF _ _ inj1]) (use assms in auto)
  then have "(\<lambda>j. lo + step * int j) ` (\<lambda>k. (i + k) mod N) ` {..<N} = (\<lambda>j. lo + step * int j) ` {..<N}"
    by simp
  then have "(\<lambda>k. lo + step * int ((i + k) mod N)) ` {..<N} = (\<lambda>j. lo + step * int j) ` {..<N}"
    unfolding image_image .
  then show "set (rotation step lo (lo + step * (int N - 1)) N (lo + step * int i)) = (\<lambda>j. lo + step * int j) ` {..<N}"
    unfolding rotation_eq [OF assms] by (simp add: atLeast0LessThan)
qed

text \<open>
  What binding in a set of ports promises: no port is tried twice or outside the set; and either every
  port of the set was tried and in use, and the error says so, or the result is the last port's.
\<close>

definition tried_ok :: "(go_error \<Rightarrow> bool) \<Rightarrow> (int list \<Rightarrow> int \<Rightarrow> go_error + 'c) \<Rightarrow> int set \<Rightarrow> (go_error + 'c) \<times> int list \<Rightarrow> bool" where
  "tried_ok in_use answer ports r \<longleftrightarrow>
     distinct (snd r) \<and> set (snd r) \<subseteq> ports \<and>
     (fst r = Inl ErrListenFailed \<and> set (snd r) = ports \<and>
        (\<forall>j < length (snd r). \<exists>e. answer (take j (snd r)) (snd r ! j) = Inl e \<and> in_use e) \<or>
      snd r \<noteq> [] \<and> fst r = answer (butlast (snd r)) (last (snd r)) \<and> (\<forall>e. fst r = Inl e \<longrightarrow> \<not> in_use e))"

lemma bind_loop_ok:
  assumes "0 < step" "i < N"
  shows "tried_ok in_use answer ((\<lambda>j. lo + step * int j) ` {..<N})
    (bind_loop in_use (trying answer) step lo (lo + step * (int N - 1)) N (lo + step * int i) [])"
proof -
  let ?rot = "rotation step lo (lo + step * (int N - 1)) N (lo + step * int i)"
  obtain res h where loop: "bind_loop in_use (trying answer) step lo (lo + step * (int N - 1)) N (lo + step * int i) [] = (res, h)"
    by fastforce
  from bind_loop_tries [OF this] obtain k where k: "k \<le> N" "h = take k ?rot"
    "res = Inl ErrListenFailed \<and> k = N \<and> (\<forall>j < N. \<exists>e. answer (take j ?rot) (?rot ! j) = Inl e \<and> in_use e) \<or>
     0 < k \<and> res = answer (take (k - 1) ?rot) (?rot ! (k - 1)) \<and> (\<forall>e. res = Inl e \<longrightarrow> \<not> in_use e)" by auto
  have len: "length ?rot = N" by (simp add: rotation_eq [OF assms])
  have sub: "distinct h" "set h \<subseteq> (\<lambda>j. lo + step * int j) ` {..<N}"
    using rotation_all [OF assms, of lo] set_take_subset [of k ?rot] by (auto simp: k(2))
  from k(3) show ?thesis
  proof
    assume all: "res = Inl ErrListenFailed \<and> k = N \<and> (\<forall>j < N. \<exists>e. answer (take j ?rot) (?rot ! j) = Inl e \<and> in_use e)"
    then have "h = ?rot" using k(2) len by simp
    then have "set h = (\<lambda>j. lo + step * int j) ` {..<N}" "length h = N"
      using rotation_all(2) [OF assms, of lo] len by simp_all
    with all \<open>h = ?rot\<close> sub(1) show ?thesis
      unfolding loop tried_ok_def fst_conv snd_conv by simp
  next
    assume one: "0 < k \<and> res = answer (take (k - 1) ?rot) (?rot ! (k - 1)) \<and> (\<forall>e. res = Inl e \<longrightarrow> \<not> in_use e)"
    then have ne: "take k ?rot \<noteq> []" using k(1) len by auto
    then have "h \<noteq> []" "butlast h = take (k - 1) ?rot" "last h = ?rot ! (k - 1)"
      using one k(1,2) len by (simp_all add: butlast_take last_conv_nth [OF ne] min_absorb2)
    with one sub show ?thesis unfolding loop tried_ok_def by simp
  qed
qed

lemma ports_all: "lo \<le> hi \<Longrightarrow> (\<lambda>j. lo + 1 * int j) ` {..<nat (hi - lo + 1)} = {lo..hi}"
proof (intro subset_antisym subsetI)
  fix x assume "lo \<le> hi" "x \<in> {lo..hi}"
  then show "x \<in> (\<lambda>j. lo + 1 * int j) ` {..<nat (hi - lo + 1)}"
    by (intro image_eqI [of _ _ "nat (x - lo)"]) auto
qed auto

lemma ports_even:
  assumes "even lo" "even hi" "lo \<le> hi"
  shows "(\<lambda>j. lo + 2 * int j) ` {..<nat ((hi - lo) div 2 + 1)} = {x \<in> {lo..hi}. even x}"
proof (intro subset_antisym subsetI)
  fix x assume x: "x \<in> {x \<in> {lo..hi}. even x}"
  with assms have "x = lo + 2 * ((x - lo) div 2)" by simp
  with x assms show "x \<in> (\<lambda>j. lo + 2 * int j) ` {..<nat ((hi - lo) div 2 + 1)}"
    by (intro image_eqI [of _ _ "nat ((x - lo) div 2)"]) (auto simp: zdiv_mono1)
qed (use assms in auto)

lemma clear_low_bit: "(x :: int) AND NOT 1 = x - x mod 2"
proof -
  have "x AND NOT 1 = 2 * (x div 2)"
  proof (rule bit_eqI)
    fix n show "bit (x AND NOT 1) n = bit (2 * (x div 2)) n"
      by (cases n) (simp_all add: bit_and_iff bit_not_iff bit_1_iff bit_double_iff bit_Suc [symmetric] del: not_one_eq)
  qed
  then show ?thesis by (simp add: minus_mod_eq_mult_div)
qed

section \<open>Properties\<close>

text \<open>
  Every free port of the range is found.  For a proper range of ports, whatever the random start
  and the order in which ports become free or taken, \<open>bindRange\<close> tries ports of the range only and none
  twice; it fails with \<open>ErrListenFailed\<close> only after all of them were in use, and otherwise returns what
  the last port tried gave: a connection or another error.  \<open>bindEvenRange\<close> does the same with the even
  ports of the range.
\<close>

theorem bindRange_tries_all:
  assumes "0 < portMin" "portMin < portMax" "portMax \<le> 0xFFFF" "\<And>n. 0 < n \<Longrightarrow> 0 \<le> rnd n \<and> rnd n < n"
  shows "tried_ok in_use answer {portMin..portMax} (bindRange in_use rnd portMin portMax (trying answer) []) \<and>
    tried_ok in_use answer {x \<in> {portMin..portMax}. even x} (bindEvenRange in_use rnd portMin portMax (trying answer) [])"
proof
  have all: "tried_ok in_use answer ((\<lambda>j. lo + step * int j) ` {..<nat n})
      (bind_loop in_use (trying answer) step lo (lo + step * (n - 1)) (nat n) (lo + step * rnd n) [])"
    if "0 < step" "0 < n" for step lo n
    using bind_loop_ok [OF that(1), of "nat (rnd n)" "nat n" in_use answer lo] assms(4) [OF that(2)] that(2) by simp
  show "tried_ok in_use answer {portMin..portMax} (bindRange in_use rnd portMin portMax (trying answer) [])"
    using all [of 1 "portMax - portMin + 1" portMin] ports_all [of portMin portMax] assms(1-3)
    by (simp add: bindRange_def Let_def add.commute)
  define lo where "lo = (portMin + 1) AND NOT 1"
  define hi where "hi = portMax AND NOT 1"
  have lo: "lo = portMin + 1 - (portMin + 1) mod 2" and hi: "hi = portMax - portMax mod 2"
    by (simp_all only: lo_def hi_def clear_low_bit)
  have even: "even lo" "even hi" unfolding lo hi by (simp_all add: minus_mod_eq_mult_div)
  have le: "lo \<le> hi" using assms(2) unfolding lo hi by presburger
  have set: "{x \<in> {portMin..portMax}. even x} = {x \<in> {lo..hi}. even x}"
    unfolding lo hi atLeastAtMost_iff by (rule Collect_cong) presburger
  have "hi = lo + 2 * ((hi - lo) div 2)" using even by simp
  with all [of 2 "(hi - lo) div 2 + 1" lo] ports_even [OF even le] assms(1-3) le
  show "tried_ok in_use answer {x \<in> {portMin..portMax}. even x} (bindEvenRange in_use rnd portMin portMax (trying answer) [])"
    unfolding set
    by (simp add: bindEvenRange_def Let_def lo_def [symmetric] hi_def [symmetric] del: not_one_eq)
qed

text \<open>Ports 5 to 8 with a random start at the second, all even ones taken.\<close>

theorem bindRange_tries_all_witness:
  "bindRange (\<lambda>e. e = ErrOther ''in use'') (\<lambda>n. 1) 5 8 (trying (\<lambda>h p. if even p then Inl (ErrOther ''in use'') else Inr p)) [] =
     (Inr 7, [6, 7]) \<and>
   tried_ok (\<lambda>e. e = ErrOther ''in use'') (\<lambda>h p. if even p then Inl (ErrOther ''in use'') else Inr p) {x \<in> {5..8}. even x}
     (bindEvenRange (\<lambda>e. e = ErrOther ''in use'') (\<lambda>n. n - 1) 5 8
        (trying (\<lambda>h p. if even p then Inl (ErrOther ''in use'') else Inr p)) [])"
proof
  show "bindRange (\<lambda>e. e = ErrOther ''in use'') (\<lambda>n. 1) 5 8 (trying (\<lambda>h p. if even p then Inl (ErrOther ''in use'') else Inr p)) [] =
     (Inr 7, [6, 7])"
    by (simp add: bindRange_def trying_def numeral_eq_Suc)
  show "tried_ok (\<lambda>e. e = ErrOther ''in use'') (\<lambda>h p. if even p then Inl (ErrOther ''in use'') else Inr p) {x \<in> {5..8}. even x}
     (bindEvenRange (\<lambda>e. e = ErrOther ''in use'') (\<lambda>n. n - 1) 5 8
        (trying (\<lambda>h p. if even p then Inl (ErrOther ''in use'') else Inr p)) [])"
    by (rule bindRange_tries_all [THEN conjunct2]) simp_all
qed

end
