(* ===== verification/Dtmf.thy ===== *)
theory Dtmf
  imports Rtp_Writer
begin

text \<open>
  DTMF (\<open>dtmf/dtmf.go\<close>): the RFC 2833 payload, its tables, and \<open>Write\<close>, which plays digits as audio tones
  and as events on a manual RTP stream.  Characters are bytes.  The samples of a tone come from floating
  point sines (\<open>tones.Generate\<close>), so they are a parameter: \<open>gen ts freq n\<close>.
\<close>

unbundle bit_operations_syntax

section \<open>Tables\<close>

text \<open>The bytes of 0 to 9, star, hash, a to d, in the order of their codes.\<close>

definition eventToChar :: bytes where
  "eventToChar = [48, 49, 50, 51, 52, 53, 54, 55, 56, 57, 42, 35, 97, 98, 99, 100]"

definition charToEvent :: "u8 \<Rightarrow> u8 option" where
  "charToEvent = map_of
     [(48, 0), (49, 1), (50, 2), (51, 3), (52, 4), (53, 5), (54, 6), (55, 7), (56, 8), (57, 9),
      (42, 10), (35, 11), (97, 12), (98, 13), (99, 14), (100, 15)]"

text \<open>Rows and columns of the keypad, by code.\<close>

definition eventFreq :: "u32 list list" where
  "eventFreq =
     [[941, 1336],
      [697, 1209], [697, 1336], [697, 1477],
      [770, 1209], [770, 1336], [770, 1477],
      [852, 1209], [852, 1336], [852, 1477],
      [941, 1209], [941, 1477],
      [697, 1633], [770, 1633], [852, 1633], [941, 1633]]"

text \<open>\<open>f[:]\<close> of the array of two; nil is the empty list.\<close>

definition Tone :: "u8 \<Rightarrow> (u8 \<times> u32 list) option" where
  "Tone digit =
     (case charToEvent digit of None \<Rightarrow> Some (0, [])
      | Some code \<Rightarrow>
          if unat code > length eventFreq then Some (0, [])
          else do { f \<leftarrow> go_index eventFreq (unat code); Some (code, f) })"

definition CodeToChar :: "u8 \<Rightarrow> u8" where
  "CodeToChar code = (if unat code < length eventToChar then eventToChar ! unat code else 0)"

section \<open>Payload\<close>

record dtmf_event =
  de_Code :: u8
  de_Digit :: u8
  de_Volume :: u8
  de_Dur :: u16
  de_End :: bool

definition zero_event :: dtmf_event where
  "zero_event = \<lparr>de_Code = 0, de_Digit = 0, de_Volume = 0, de_Dur = 0, de_End = False\<rparr>"

text \<open>\<open>binary.BigEndian\<close>.\<close>

definition put_be16 :: "u16 \<Rightarrow> bytes" where
  "put_be16 v = [ucast (drop_bit 8 v), ucast v]"

definition get_be16 :: "u8 \<Rightarrow> u8 \<Rightarrow> u16" where
  "get_be16 hi lo = ucast lo OR push_bit 8 (ucast hi)"

definition Decode :: "bytes \<Rightarrow> dtmf_event \<times> go_error option" where
  "Decode data =
     (case data of
        ev # b1 # b2 # b3 # _ \<Rightarrow>
          (\<lparr>de_Code = ev,
            de_Digit = (if unat ev < length eventToChar then eventToChar ! unat ev else 0),
            de_Volume = b1 AND 0x3F,
            de_Dur = get_be16 b2 b3,
            de_End = drop_bit 7 b1 \<noteq> 0\<rparr>, None)
      | _ \<Rightarrow> (zero_event, Some ErrUnexpectedEOF))"

definition DecodeRTP :: "rtp_out \<Rightarrow> dtmf_event option" where
  "DecodeRTP p =
     (if \<not> h_Marker (fst p) then None
      else (let (ev, err) = Decode (snd p) in if err \<noteq> None then None else Some ev))"

definition DecodeRTPWithEnd :: "rtp_out \<Rightarrow> dtmf_event option" where
  "DecodeRTPWithEnd p =
     (let (ev, err) = Decode (snd p)
      in if err \<noteq> None then None
         else if \<not> de_End ev \<and> \<not> h_Marker (fst p) then None else Some ev)"

text \<open>The count, the error and the buffer; a missing key of a map reads as 0.\<close>

definition Encode :: "bytes \<Rightarrow> dtmf_event \<Rightarrow> (nat \<times> go_error option) \<times> bytes" where
  "Encode out ev =
     (if length out < 4 then ((0, Some ErrShortBuffer), out)
      else
        (let code = (if de_Digit ev \<noteq> 0 then (case charToEvent (de_Digit ev) of None \<Rightarrow> 0 | Some c \<Rightarrow> c) else de_Code ev);
             b1 = (if de_End ev then (de_Volume ev AND 0x3f) OR push_bit 7 1 else de_Volume ev AND 0x3f)
         in ((4, None), [code, b1] @ put_be16 (de_Dur ev) @ drop 4 out)))"

section \<open>Write\<close>

definition eventVolume :: u8 where "eventVolume = 10"

definition eventDur :: ns where "eventDur = 250 * 1000000"

definition delayDur :: ns where "delayDur = go_quot 1000000000 2"

definition roundTo :: "ns \<Rightarrow> ns \<Rightarrow> ns" where
  "roundTo dt step = go_quot (dt + step - 1) step * step"

text \<open>The variables of the loop.\<close>

record dtmf_loop =
  dl_digits :: bytes
  dl_ts :: ns
  dl_code :: u8
  dl_freq :: "u32 list"
  dl_nextDelay :: ns
  dl_totalDur :: ns
  dl_remaining :: ns

definition dtmf_start :: "bytes \<Rightarrow> dtmf_loop" where
  "dtmf_start digits =
     \<lparr>dl_digits = digits, dl_ts = 0, dl_code = 0xff, dl_freq = [], dl_nextDelay = 0, dl_totalDur = 0,
      dl_remaining = 0\<rparr>"

definition setDelay :: "ns \<Rightarrow> dtmf_loop \<Rightarrow> dtmf_loop" where
  "setDelay dt0 l =
     (let dt = roundTo dt0 DefFrameDur
      in l\<lparr>dl_code := 0xff, dl_freq := [], dl_remaining := dt, dl_totalDur := dt, dl_nextDelay := 0\<rparr>)"

text \<open>The start of a round: \<open>Some None\<close> returns, the outer \<open>None\<close> is a panic.\<close>

definition dtmf_pick :: "dtmf_loop \<Rightarrow> dtmf_loop option option" where
  "dtmf_pick l =
     (if dl_remaining l \<le> 0 then
        if dl_nextDelay l \<noteq> 0 then Some (Some (setDelay (dl_nextDelay l) l))
        else
          (case dl_digits l of [] \<Rightarrow> Some None
           | b # bs \<Rightarrow>
               let l1 = l\<lparr>dl_digits := bs\<rparr>
               in if b = 119 then Some (Some (setDelay delayDur l1))
                  else do {
                    (code, freq) \<leftarrow> Tone b;
                    let r = roundTo eventDur DefFrameDur;
                    Some (Some (l1\<lparr>dl_code := code, dl_freq := freq, dl_remaining := r, dl_nextDelay := eventDur,
                      dl_totalDur := r\<rparr>)) })
      else Some (Some l))"

text \<open>The audio of a round; \<open>audio\<close> is the writer, its sample rate and the tone generator.\<close>

definition dtmf_audio ::
  "((pcm16, 'a) write_fn \<times> int \<times> (ns \<Rightarrow> u32 list \<Rightarrow> nat \<Rightarrow> pcm16)) option \<Rightarrow> dtmf_loop \<Rightarrow> 'a close_fn" where
  "dtmf_audio audio l a =
     (case audio of None \<Rightarrow> (None, a)
      | Some (wr, rate, gen) \<Rightarrow>
          (let n = nat (go_quot rate (go_quot 1000000000 DefFrameDur))
           in wr (if dl_freq l = [] then replicate n 0 else gen (dl_ts l) (dl_freq l) n) a))"

text \<open>The events of a round, on the manual stream and its \<open>SeqWriter\<close>.\<close>

definition dtmf_events ::
  "(rtp_out, 'w) write_fn \<Rightarrow> int \<Rightarrow> ns \<Rightarrow> dtmf_loop \<Rightarrow> rtp_stream \<times> 'w SeqWriter \<Rightarrow>
    (go_error option \<times> rtp_stream \<times> 'w SeqWriter) option" where
  "dtmf_events wr eventsRate now l ss = do {
     let dur = DefFrameDur + dl_totalDur l - dl_remaining l;
     let first = (dl_totalDur l = dl_remaining l);
     let fin = (dl_remaining l - DefFrameDur \<le> 0);
     unit \<leftarrow> go_div 1000000000 eventsRate;
     units \<leftarrow> go_div dur unit;
     let ((n, err), buf) = Encode (replicate 4 0)
       \<lparr>de_Code = dl_code l, de_Digit = 0, de_Volume = eventVolume, de_Dur = word_of_int units, de_End = fin\<rparr>;
     Some
       (if err \<noteq> None then (err, ss)
        else
          (let (st, s) = ss;
               st1 = (if first then snd (SyncTimestamp now st s) else st);
               (err1, st2, s1) = WritePayloadAtCurrent wr (take n buf) first now st1 s
           in if err1 \<noteq> None then (err1, st2, s1)
              else if fin then
                (let (err2, st3, s2) = WritePayloadAtCurrent wr (take n buf) first now st2 s1
                 in if err2 \<noteq> None then (err2, st3, s2)
                    else WritePayloadAtCurrent wr (take n buf) first now st3 s2)
              else (None, st2, s1))) }"

text \<open>One round of the loop after its tick: \<open>Inl\<close> returns with the error, \<open>Inr\<close> goes on.\<close>

definition dtmf_round ::
  "((pcm16, 'a) write_fn \<times> int \<times> (ns \<Rightarrow> u32 list \<Rightarrow> nat \<Rightarrow> pcm16)) option \<Rightarrow> (rtp_out, 'w) write_fn option \<Rightarrow> int \<Rightarrow> ns \<Rightarrow>
    dtmf_loop \<times> 'a \<times> rtp_stream \<times> 'w SeqWriter \<Rightarrow>
    (go_error option \<times> 'a \<times> rtp_stream \<times> 'w SeqWriter + dtmf_loop \<times> 'a \<times> rtp_stream \<times> 'w SeqWriter) option" where
  "dtmf_round audio events eventsRate now x = do {
     let (l0, a, ss) = x;
     picked \<leftarrow> dtmf_pick l0;
     (case picked of None \<Rightarrow> Some (Inl (None, a, ss))
      | Some l \<Rightarrow>
          (let (err, a1) = dtmf_audio audio l a
           in if err \<noteq> None then Some (Inl (err, a1, ss))
              else do {
                (err2, ss1) \<leftarrow> (case events of None \<Rightarrow> Some (None, ss)
                  | Some wr \<Rightarrow> (if dl_freq l = [] then Some (None, ss) else dtmf_events wr eventsRate now l ss));
                Some (if err2 \<noteq> None then Inl (err2, a1, ss1)
                      else Inr (l\<lparr>dl_remaining := dl_remaining l - DefFrameDur, dl_ts := dl_ts l + DefFrameDur\<rparr>, a1, ss1)) })) }"

text \<open>
  The loop, given the clock readings of the ticks; \<open>Inr\<close> when it is waiting for the next tick.  A
  cancelled context ends it before the round.
\<close>

fun dtmf_rounds ::
  "((pcm16, 'a) write_fn \<times> int \<times> (ns \<Rightarrow> u32 list \<Rightarrow> nat \<Rightarrow> pcm16)) option \<Rightarrow> (rtp_out, 'w) write_fn option \<Rightarrow> int \<Rightarrow>
    (go_error + ns) list \<Rightarrow> dtmf_loop \<times> 'a \<times> rtp_stream \<times> 'w SeqWriter \<Rightarrow>
    (go_error option \<times> 'a \<times> rtp_stream \<times> 'w SeqWriter + dtmf_loop \<times> 'a \<times> rtp_stream \<times> 'w SeqWriter) option" where
  "dtmf_rounds audio events eventsRate [] x = Some (Inr x)"
| "dtmf_rounds audio events eventsRate (Inl err # ts) x = Some (Inl (Some err, snd x))"
| "dtmf_rounds audio events eventsRate (Inr now # ts) x = do {
     r \<leftarrow> dtmf_round audio events eventsRate now x;
     (case r of Inl res \<Rightarrow> Some (Inl res) | Inr x1 \<Rightarrow> dtmf_rounds audio events eventsRate ts x1) }"

definition dtmf_Write ::
  "((pcm16, 'a) write_fn \<times> int \<times> (ns \<Rightarrow> u32 list \<Rightarrow> nat \<Rightarrow> pcm16)) option \<Rightarrow> (rtp_out, 'w) write_fn option \<Rightarrow> int \<Rightarrow>
    (go_error + ns) list \<Rightarrow> bytes \<Rightarrow> 'a \<times> rtp_stream \<times> 'w SeqWriter \<Rightarrow>
    (go_error option \<times> 'a \<times> rtp_stream \<times> 'w SeqWriter + dtmf_loop \<times> 'a \<times> rtp_stream \<times> 'w SeqWriter) option" where
  "dtmf_Write audio events eventsRate ts digits x =
     dtmf_rounds audio events eventsRate ts (dtmf_start digits, x)"

section \<open>Lemmas on the payload\<close>

lemma be16_round_trip: "get_be16 (ucast (drop_bit 8 v)) (ucast v) = v"
proof (rule bit_word_eqI)
  fix n assume "n < LENGTH(16)"
  then show "bit (get_be16 (ucast (drop_bit 8 v)) (ucast v)) n = bit v n"
    by (cases "n < 8") (auto simp: get_be16_def bit_simps)
qed

lemma bit_128: "bit (128 :: u8) n \<longleftrightarrow> n = 7" "bit (128 :: int) n \<longleftrightarrow> n = 7" "bit (128 :: nat) n \<longleftrightarrow> n = 7"
  using bit_exp_iff [of 7 n, where ?'a = u8] bit_exp_iff [of 7 n, where ?'a = int]
    bit_exp_iff [of 7 n, where ?'a = nat] by auto

lemma end_bit:
  fixes v :: u8
  shows "drop_bit 7 ((v AND 0x3F) OR 128) \<noteq> 0" "drop_bit 7 (v AND 0x3F) = 0"
    "((v AND 0x3F) OR 128) AND 0x3F = v AND 0x3F"
proof -
  have m: "(0x3F :: u8) = mask 6" by (simp add: mask_eq_decr_exp)
  have "bit (drop_bit 7 ((v AND 0x3F) OR 128)) 0" unfolding m by (simp add: bit_simps bit_128)
  then show "drop_bit 7 ((v AND 0x3F) OR 128) \<noteq> 0" by auto
  show "drop_bit 7 (v AND 0x3F) = 0" unfolding m by (rule bit_word_eqI) (auto simp: bit_simps)
  show "((v AND 0x3F) OR 128) AND 0x3F = v AND 0x3F"
    unfolding m by (rule bit_word_eqI) (auto simp: bit_simps bit_128)
qed

lemma Encode_long:
  "4 \<le> length out \<Longrightarrow> Encode out ev = ((4, None),
     [if de_Digit ev \<noteq> 0 then (case charToEvent (de_Digit ev) of None \<Rightarrow> 0 | Some c \<Rightarrow> c) else de_Code ev,
      if de_End ev then (de_Volume ev AND 0x3f) OR push_bit 7 1 else de_Volume ev AND 0x3f] @
     put_be16 (de_Dur ev) @ drop 4 out)"
  by (simp add: Encode_def Let_def)

lemma Decode_Encode:
  assumes "4 \<le> length out"
  shows "Decode (snd (Encode out ev)) =
    (let code = (if de_Digit ev \<noteq> 0 then (case charToEvent (de_Digit ev) of None \<Rightarrow> 0 | Some c \<Rightarrow> c) else de_Code ev)
     in (\<lparr>de_Code = code, de_Digit = CodeToChar code, de_Volume = de_Volume ev AND 0x3F, de_Dur = de_Dur ev, de_End = de_End ev\<rparr>, None))"
  unfolding Encode_long [OF assms]
  by (simp add: Decode_def put_be16_def be16_round_trip CodeToChar_def end_bit Let_def)

lemma code_char: "unat c < 16 \<Longrightarrow> charToEvent (CodeToChar c) = Some c \<and> CodeToChar c \<noteq> 0"
proof -
  assume "unat c < 16"
  then have "c \<in> set (map word_of_nat [0..<16])" by (auto intro!: image_eqI [of _ _ "unat c"])
  moreover have "\<forall>c \<in> set (map word_of_nat [0..<16]). charToEvent (CodeToChar c) = Some c \<and> CodeToChar c \<noteq> 0" by code_simp
  ultimately show ?thesis by blast
qed

lemma char_code: "charToEvent b = Some c \<Longrightarrow> unat c < 16 \<and> CodeToChar c = b"
proof -
  assume "charToEvent b = Some c"
  then have "(b, c) \<in> set [(48, 0), (49, 1), (50, 2), (51, 3), (52, 4), (53, 5), (54, 6), (55, 7), (56, 8), (57, 9),
      (42, 10), (35, 11), (97, 12), (98, 13), (99, 14), (100, 15)]"
    unfolding charToEvent_def by (rule map_of_SomeD)
  moreover have "\<forall>(b, c) \<in> set [(48, 0), (49, 1), (50, 2), (51, 3), (52, 4), (53, 5), (54, 6), (55, 7), (56, 8), (57, 9),
      (42, 10), (35, 11), (97, 12), (98, 13), (99, 14), (100, 15)]. unat c < 16 \<and> CodeToChar c = b" by code_simp
  ultimately show ?thesis by blast
qed

section \<open>Lemmas on Write\<close>

text \<open>What a receiver sees of the packets: the marker and the payload.\<close>

definition marked :: "rtp_out \<Rightarrow> bool \<times> bytes" where
  "marked p = (h_Marker (fst p), snd p)"

definition event_payload :: "int \<Rightarrow> u8 \<Rightarrow> int \<Rightarrow> bool \<Rightarrow> bytes" where
  "event_payload rate code frames fin =
     snd (Encode (replicate 4 0) \<lparr>de_Code = code, de_Digit = 0, de_Volume = eventVolume,
       de_Dur = word_of_int (go_quot (DefFrameDur * frames) (go_quot 1000000000 rate)), de_End = fin\<rparr>)"

text \<open>The packets of the \<open>k\<close>th frame of a digit, of 13.\<close>

definition frame_packets :: "int \<Rightarrow> u8 \<Rightarrow> nat \<Rightarrow> (bool \<times> bytes) list" where
  "frame_packets rate code k =
     replicate (if k = 13 then 3 else 1) (k = 1, event_payload rate code (int k) (k = 13))"

lemma WriteAt_marked:
  assumes "st_manual st"
  shows "\<exists>s1. WritePayloadAtCurrent Buffer_WriteRTP data m now st s = (None, st, s1) \<and>
    map marked (sq_w s1) = map marked (sq_w s) @ [(m, data)]"
  using assms by (simp add: WritePayloadAtCurrent_def WriteEvent_def Buffer_WriteRTP_def Let_def marked_def)

lemma quot_frames: "go_quot 1000000000 DefFrameDur = 50"
  by (simp add: go_quot_def DefFrameDur_def)

lemma round_260: "roundTo eventDur DefFrameDur = DefFrameDur * 13" "roundTo delayDur DefFrameDur = DefFrameDur * 25"
  by (simp_all add: roundTo_def eventDur_def delayDur_def DefFrameDur_def go_quot_def)

text \<open>A round of a tone that has \<open>13 - j\<close> frames left.\<close>

lemma events_frame:
  assumes "0 < rate" "rate \<le> 1000000000" "st_manual st" "j < 13"
    "dl_totalDur l = DefFrameDur * 13" "dl_remaining l = DefFrameDur * int (13 - j)"
  shows "\<exists>st1 s1. dtmf_events Buffer_WriteRTP rate now l (st, s) = Some (None, st1, s1) \<and> st_manual st1 \<and>
    map marked (sq_w s1) = map marked (sq_w s) @ frame_packets rate (dl_code l) (Suc j)"
proof -
  define unit where "unit = go_quot 1000000000 rate"
  have unit: "go_div 1000000000 rate = Some unit" "unit \<noteq> 0"
    using assms(1,2) pos_imp_zdiv_pos_iff [of rate 1000000000] by (auto simp: go_div_def unit_def)
  have dur: "DefFrameDur + dl_totalDur l - dl_remaining l = DefFrameDur * int (Suc j)"
    using assms(4-6) by (simp add: of_nat_diff algebra_simps)
  have first: "dl_totalDur l = dl_remaining l \<longleftrightarrow> Suc j = 1"
    using assms(4-6) by (auto simp: DefFrameDur_def of_nat_diff)
  have fin: "dl_remaining l - DefFrameDur \<le> 0 \<longleftrightarrow> Suc j = 13"
    using assms(4,6) by (auto simp: DefFrameDur_def of_nat_diff)
  define data where "data = event_payload rate (dl_code l) (int (Suc j)) (Suc j = 13)"
  have enc: "Encode (replicate 4 0) \<lparr>de_Code = dl_code l, de_Digit = 0, de_Volume = eventVolume,
      de_Dur = word_of_int (go_quot (DefFrameDur * int (Suc j)) unit), de_End = Suc j = 13\<rparr> = ((4, None), data)"
    unfolding data_def event_payload_def unit_def by (simp add: Encode_long)
  have len: "take 4 data = data"
    unfolding data_def event_payload_def by (simp add: Encode_long put_be16_def)
  define st1 where "st1 = (if Suc j = 1 then snd (SyncTimestamp now st s) else st)"
  have st1: "st_manual st1" using assms(3) by (simp add: st1_def SyncTimestamp_def)
  obtain s1 where s1: "WritePayloadAtCurrent Buffer_WriteRTP data (Suc j = 1) now st1 s = (None, st1, s1)"
    "map marked (sq_w s1) = map marked (sq_w s) @ [(Suc j = 1, data)]" using WriteAt_marked [OF st1] by blast
  obtain s2 where s2: "WritePayloadAtCurrent Buffer_WriteRTP data (Suc j = 1) now st1 s1 = (None, st1, s2)"
    "map marked (sq_w s2) = map marked (sq_w s1) @ [(Suc j = 1, data)]" using WriteAt_marked [OF st1] by blast
  obtain s3 where s3: "WritePayloadAtCurrent Buffer_WriteRTP data (Suc j = 1) now st1 s2 = (None, st1, s3)"
    "map marked (sq_w s3) = map marked (sq_w s2) @ [(Suc j = 1, data)]" using WriteAt_marked [OF st1] by blast
  have "dtmf_events Buffer_WriteRTP rate now l (st, s) = Some (None, st1, if Suc j = 13 then s3 else s1)"
    unfolding dtmf_events_def Let_def dur first fin unit(1) bind.bind_lunit
    using unit(2) s1(1) s2(1) s3(1) by (simp only: go_div_def if_False bind.bind_lunit enc prod.case st1_def [symmetric] len) simp
  then show ?thesis
    using st1 s1(2) s2(2) s3(2) by (auto simp: frame_packets_def data_def numeral_3_eq_3)
qed

text \<open>
  Rounds with audio to a frame writer and events to a buffer: what one round does to the loop, the
  number of audio frames and the packets.
\<close>

abbreviation dtmf_run where
  "dtmf_run arate gen rate nows x \<equiv>
     dtmf_rounds (Some (frameWriter_WriteSample, arate, gen)) (Some Buffer_WriteRTP) rate (map Inr nows) x"

definition next_frame :: "dtmf_loop \<Rightarrow> dtmf_loop" where
  "next_frame l = l\<lparr>dl_remaining := dl_remaining l - DefFrameDur, dl_ts := dl_ts l + DefFrameDur\<rparr>"

definition emits ::
  "int \<Rightarrow> (ns \<Rightarrow> u32 list \<Rightarrow> nat \<Rightarrow> pcm16) \<Rightarrow> int \<Rightarrow> ns list \<Rightarrow> dtmf_loop \<Rightarrow> dtmf_loop \<Rightarrow> (bool \<times> bytes) list \<Rightarrow> bool" where
  "emits arate gen rate nows l l1 pkts \<longleftrightarrow>
     (\<forall>frames st s. st_manual st \<longrightarrow>
       (\<exists>frames1 st1 s1. dtmf_run arate gen rate nows (l, frames, st, s) = Some (Inr (l1, frames1, st1, s1)) \<and>
          length frames1 = length frames + length nows \<and> st_manual st1 \<and>
          map marked (sq_w s1) = map marked (sq_w s) @ pkts))"

lemma rounds_append:
  "dtmf_rounds audio events rate (xs @ ys) x =
    do { r \<leftarrow> dtmf_rounds audio events rate xs x;
         (case r of Inl res \<Rightarrow> Some (Inl res) | Inr x1 \<Rightarrow> dtmf_rounds audio events rate ys x1) }"
  by (induction audio events rate xs x rule: dtmf_rounds.induct) (auto split: Option.bind_split sum.split)

lemma emits_append:
  assumes "emits arate gen rate n1 l l1 p1" "emits arate gen rate n2 l1 l2 p2"
  shows "emits arate gen rate (n1 @ n2) l l2 (p1 @ p2)"
  unfolding emits_def
proof (intro allI impI)
  fix frames :: "pcm16 list" and st :: rtp_stream and s :: "rtp_out list SeqWriter"
  assume "st_manual st"
  with assms(1) obtain f1 st1 s1 where 1: "dtmf_run arate gen rate n1 (l, frames, st, s) = Some (Inr (l1, f1, st1, s1))"
    "length f1 = length frames + length n1" "st_manual st1" "map marked (sq_w s1) = map marked (sq_w s) @ p1"
    unfolding emits_def by blast
  with assms(2) obtain f2 st2 s2 where 2: "dtmf_run arate gen rate n2 (l1, f1, st1, s1) = Some (Inr (l2, f2, st2, s2))"
    "length f2 = length f1 + length n2" "st_manual st2" "map marked (sq_w s2) = map marked (sq_w s1) @ p2"
    unfolding emits_def by blast
  from 1 2 show "\<exists>frames1 st1 s1. dtmf_run arate gen rate (n1 @ n2) (l, frames, st, s) = Some (Inr (l2, frames1, st1, s1)) \<and>
      length frames1 = length frames + length (n1 @ n2) \<and> st_manual st1 \<and>
      map marked (sq_w s1) = map marked (sq_w s) @ p1 @ p2"
    by (simp add: rounds_append)
qed

lemma emits_Nil: "emits arate gen rate [] l l []"
  by (simp add: emits_def)

lemma emits_silent:
  assumes "dtmf_pick l0 = Some (Some l)" "dl_freq l = []"
  shows "emits arate gen rate [now] l0 (next_frame l) []"
  using assms by (simp add: emits_def dtmf_round_def dtmf_audio_def frameWriter_WriteSample_def next_frame_def Let_def)

lemma emits_tone:
  assumes "dtmf_pick l0 = Some (Some l)" "dl_freq l \<noteq> []" "0 < rate" "rate \<le> 1000000000" "j < 13"
    "dl_totalDur l = DefFrameDur * 13" "dl_remaining l = DefFrameDur * int (13 - j)"
  shows "emits arate gen rate [now] l0 (next_frame l) (frame_packets rate (dl_code l) (Suc j))"
  unfolding emits_def
proof (intro allI impI)
  fix frames :: "pcm16 list" and st :: rtp_stream and s :: "rtp_out list SeqWriter"
  assume st: "st_manual st"
  from events_frame [OF assms(3,4) st assms(5-7), of now s] obtain st1 s1 where
    e: "dtmf_events Buffer_WriteRTP rate now l (st, s) = Some (None, st1, s1)" "st_manual st1"
    "map marked (sq_w s1) = map marked (sq_w s) @ frame_packets rate (dl_code l) (Suc j)" by blast
  with assms(1,2) show "\<exists>frames1 st1 s1. dtmf_run arate gen rate [now] (l0, frames, st, s) = Some (Inr (next_frame l, frames1, st1, s1)) \<and>
      length frames1 = length frames + length [now] \<and> st_manual st1 \<and>
      map marked (sq_w s1) = map marked (sq_w s) @ frame_packets rate (dl_code l) (Suc j)"
    by (simp add: dtmf_round_def dtmf_audio_def frameWriter_WriteSample_def next_frame_def Let_def)
qed

lemma pick_running: "0 < dl_remaining l \<Longrightarrow> dtmf_pick l = Some (Some l)"
  by (simp add: dtmf_pick_def)

text \<open>Several rounds: the loop after \<open>n\<close> frames.\<close>

definition frames_on :: "nat \<Rightarrow> dtmf_loop \<Rightarrow> dtmf_loop" where
  "frames_on n l = l\<lparr>dl_remaining := dl_remaining l - DefFrameDur * int n, dl_ts := dl_ts l + DefFrameDur * int n\<rparr>"

lemma frames_on_Suc: "frames_on n (next_frame l) = frames_on (Suc n) l"
  by (simp add: frames_on_def next_frame_def algebra_simps)

lemma next_frame_code [simp]: "dl_code (next_frame l) = dl_code l"
  by (simp add: next_frame_def)

lemma frames_on_0 [simp]: "frames_on 0 l = l"
  by (simp add: frames_on_def)

lemma emits_silence:
  assumes "dl_freq l = []" "dl_remaining l = DefFrameDur * int (length nows)"
  shows "emits arate gen rate nows l (frames_on (length nows) l) []"
  using assms
proof (induction nows arbitrary: l)
  case Nil
  then show ?case by (simp add: emits_Nil)
next
  case (Cons now nows)
  have "dtmf_pick l = Some (Some l)" using Cons.prems by (intro pick_running) (simp add: DefFrameDur_def)
  from emits_silent [OF this Cons.prems(1)] have "emits arate gen rate [now] l (next_frame l) []" .
  moreover have "emits arate gen rate nows (next_frame l) (frames_on (length nows) (next_frame l)) []"
    by (rule Cons.IH) (use Cons.prems in \<open>simp_all add: next_frame_def algebra_simps\<close>)
  ultimately show ?case using emits_append [of arate gen rate "[now]" l "next_frame l" "[]" nows]
    by (simp add: frames_on_Suc)
qed

lemma emits_tones:
  assumes "dl_freq l \<noteq> []" "0 < rate" "rate \<le> 1000000000" "dl_totalDur l = DefFrameDur * 13"
    "length nows \<le> 13" "dl_remaining l = DefFrameDur * int (length nows)"
  shows "emits arate gen rate nows l (frames_on (length nows) l)
    (concat (map (frame_packets rate (dl_code l)) [14 - length nows..<14]))"
  using assms(1,4-)
proof (induction nows arbitrary: l)
  case Nil
  then show ?case by (simp add: emits_Nil)
next
  case (Cons now nows)
  have pick: "dtmf_pick l = Some (Some l)" using Cons.prems by (intro pick_running) (simp add: DefFrameDur_def)
  have j: "12 - length nows < 13" "dl_remaining l = DefFrameDur * int (13 - (12 - length nows))"
    using Cons.prems by simp_all
  from emits_tone [OF pick Cons.prems(1) assms(2,3) j(1) Cons.prems(2) j(2)]
  have "emits arate gen rate [now] l (next_frame l) (frame_packets rate (dl_code l) (Suc (12 - length nows)))" .
  moreover have "emits arate gen rate nows (next_frame l) (frames_on (length nows) (next_frame l))
      (concat (map (frame_packets rate (dl_code (next_frame l))) [14 - length nows..<14]))"
    by (rule Cons.IH) (use Cons.prems in \<open>simp_all add: next_frame_def algebra_simps\<close>)
  moreover have "[14 - length (now # nows)..<14] = Suc (12 - length nows) # [14 - length nows..<14]"
  proof -
    have "14 - length (now # nows) = Suc (12 - length nows)" "Suc (Suc (12 - length nows)) = 14 - length nows"
      using Cons.prems(3) by simp_all
    then show ?thesis by (subst upt_conv_Cons) simp_all
  qed
  ultimately show ?case using emits_append [of arate gen rate "[now]" l "next_frame l" _ nows]
    by (simp add: frames_on_Suc)
qed

section \<open>One digit\<close>

definition digit_packets :: "int \<Rightarrow> u8 \<Rightarrow> (bool \<times> bytes) list" where
  "digit_packets rate b =
     (case charToEvent b of None \<Rightarrow> [] | Some code \<Rightarrow> concat (map (frame_packets rate code) [1..<14]))"

definition digit_ticks :: "u8 \<Rightarrow> nat" where
  "digit_ticks b = (if b = 119 then 25 else 26)"

text \<open>Between digits.\<close>

definition between :: "bytes \<Rightarrow> dtmf_loop \<Rightarrow> bool" where
  "between ds l \<longleftrightarrow> dl_digits l = ds \<and> dl_remaining l = 0 \<and> dl_nextDelay l = 0"

lemma Tone_cases:
  "Tone b = (case charToEvent b of None \<Rightarrow> Some (0, []) | Some c \<Rightarrow> Some (c, eventFreq ! unat c))"
proof (cases "charToEvent b")
  case (Some c)
  with char_code [OF Some] show ?thesis by (simp add: Tone_def go_index_def eventFreq_def)
qed (simp add: Tone_def)

lemma eventFreq_nonempty: "charToEvent b = Some c \<Longrightarrow> eventFreq ! unat c \<noteq> []"
proof -
  assume "charToEvent b = Some c"
  then have "unat c < length eventFreq" using char_code [of b c] by (simp add: eventFreq_def)
  then have "eventFreq ! unat c \<in> set eventFreq" by simp
  moreover have "[] \<notin> set eventFreq" by (simp add: eventFreq_def)
  ultimately show ?thesis by metis
qed

lemma round_picked:
  assumes "dtmf_pick l0 = Some (Some l)" "0 < dl_remaining l"
  shows "dtmf_round audio ev rate now (l0, x) = dtmf_round audio ev rate now (l, x)"
  using assms(1) pick_running [OF assms(2)] by (simp add: dtmf_round_def split_beta)

lemma emits_picked:
  assumes "dtmf_pick l0 = Some (Some l)" "0 < dl_remaining l" "nows \<noteq> []" "emits arate gen rate nows l l1 p"
  shows "emits arate gen rate nows l0 l1 p"
proof -
  obtain now nows1 where nows: "nows = now # nows1" using assms(3) by (cases nows) auto
  from assms(4) show ?thesis by (simp add: emits_def nows round_picked [OF assms(1,2)])
qed

lemma emits_wait:
  assumes "dtmf_pick l0 = Some (Some l)" "dl_freq l = []" "dl_remaining l = DefFrameDur * int (length nows)" "nows \<noteq> []"
  shows "emits arate gen rate nows l0 (frames_on (length nows) l) []"
  by (rule emits_picked [OF assms(1) _ assms(4) emits_silence]) (use assms in \<open>simp_all add: DefFrameDur_def\<close>)

lemma emits_digit:
  assumes "0 < rate" "rate \<le> 1000000000" "between (b # ds) l" "length nows = digit_ticks b"
  shows "\<exists>l1. between ds l1 \<and> emits arate gen rate nows l l1 (digit_packets rate b)"
proof (cases "b = 119")
  case True
  define l1 where "l1 = setDelay delayDur (l\<lparr>dl_digits := ds\<rparr>)"
  have l1: "dtmf_pick l = Some (Some l1)" "dl_freq l1 = []" "dl_remaining l1 = DefFrameDur * int (length nows)" "nows \<noteq> []"
    "dl_nextDelay l1 = 0" "dl_digits l1 = ds"
    using assms(3,4) True by (auto simp: between_def dtmf_pick_def l1_def setDelay_def Let_def round_260 digit_ticks_def)
  have "charToEvent b = None" using True by (simp add: charToEvent_def)
  with emits_wait [OF l1(1-4), of arate gen rate] show ?thesis
    by (intro exI [of _ "frames_on (length nows) l1"]) (simp add: between_def frames_on_def l1 digit_packets_def)
next
  case False
  define code where "code = (case charToEvent b of None \<Rightarrow> 0 | Some c \<Rightarrow> c)"
  define freq where "freq = (case charToEvent b of None \<Rightarrow> [] | Some c \<Rightarrow> eventFreq ! unat c)"
  define l1 where "l1 = l\<lparr>dl_digits := ds, dl_code := code, dl_freq := freq, dl_remaining := DefFrameDur * 13,
    dl_nextDelay := eventDur, dl_totalDur := DefFrameDur * 13\<rparr>"
  define n1 n2 where "n1 = take 13 nows" and "n2 = drop 13 nows"
  have n: "length n1 = 13" "length n2 = 13" "nows = n1 @ n2"
    using assms(4) False by (simp_all add: n1_def n2_def digit_ticks_def)
  have pick: "dtmf_pick l = Some (Some l1)"
    using assms(3) False by (auto simp: between_def dtmf_pick_def l1_def Tone_cases round_260 code_def freq_def Let_def split: option.splits)
  have tone: "emits arate gen rate n1 l (frames_on 13 l1) (digit_packets rate b)"
  proof (cases "charToEvent b")
    case None
    then have "dl_freq l1 = []" by (simp add: l1_def freq_def)
    then have "emits arate gen rate n1 l (frames_on 13 l1) []"
      using emits_wait [OF pick, of n1 arate gen rate] n(1) by (cases n1) (auto simp: l1_def)
    with None show ?thesis by (simp add: digit_packets_def)
  next
    case (Some c)
    have "emits arate gen rate n1 l1 (frames_on (length n1) l1) (concat (map (frame_packets rate (dl_code l1)) [14 - length n1..<14]))"
      by (rule emits_tones) (use Some n(1) assms(1,2) eventFreq_nonempty [OF Some] in \<open>simp_all add: l1_def freq_def\<close>)
    then have "emits arate gen rate n1 l (frames_on (length n1) l1) (concat (map (frame_packets rate (dl_code l1)) [14 - length n1..<14]))"
      by (rule emits_picked [OF pick, rotated 2]) (use n(1) in \<open>auto simp: l1_def DefFrameDur_def\<close>)
    moreover have "concat (map (frame_packets rate (dl_code l1)) [14 - length n1..<14]) = digit_packets rate b"
      using Some n(1) by (simp add: digit_packets_def l1_def code_def)
    ultimately show ?thesis using n(1) by simp
  qed
  define l2 where "l2 = frames_on 13 l1"
  define l3 where "l3 = setDelay eventDur l2"
  have pick2: "dtmf_pick l2 = Some (Some l3)"
    by (simp add: dtmf_pick_def l2_def l3_def frames_on_def l1_def eventDur_def)
  have l3: "dl_freq l3 = []" "dl_remaining l3 = DefFrameDur * int (length n2)" "n2 \<noteq> []"
    using n(2) by (auto simp: l3_def setDelay_def Let_def round_260)
  from emits_wait [OF pick2 l3] have "emits arate gen rate n2 l2 (frames_on 13 l3) []" using n(2) by simp
  from emits_append [OF tone [folded l2_def] this] n(3)
  have "emits arate gen rate nows l (frames_on 13 l3) (digit_packets rate b)" by simp
  moreover have "between ds (frames_on 13 l3)"
    using l3(2) n(2) by (simp add: between_def frames_on_def l3_def setDelay_def Let_def round_260 l2_def l1_def)
  ultimately show ?thesis by blast
qed

lemma emits_digits:
  assumes "0 < rate" "rate \<le> 1000000000"
  shows "between ds l \<Longrightarrow> length nows = sum_list (map digit_ticks ds) \<Longrightarrow>
    \<exists>l1. between [] l1 \<and> emits arate gen rate nows l l1 (concat (map (digit_packets rate) ds))"
proof (induction ds arbitrary: l nows)
  case Nil
  then show ?case using emits_Nil [of arate gen rate l] by auto
next
  case (Cons b ds)
  define n1 n2 where "n1 = take (digit_ticks b) nows" and "n2 = drop (digit_ticks b) nows"
  have n: "length n1 = digit_ticks b" "length n2 = sum_list (map digit_ticks ds)" "nows = n1 @ n2"
    using Cons.prems(2) by (simp_all add: n1_def n2_def)
  from emits_digit [OF assms Cons.prems(1) n(1), of arate gen] obtain l1 where
    1: "between ds l1" "emits arate gen rate n1 l l1 (digit_packets rate b)" by blast
  from Cons.IH [OF 1(1) n(2)] obtain l2 where
    2: "between [] l2" "emits arate gen rate n2 l1 l2 (concat (map (digit_packets rate) ds))" by blast
  from emits_append [OF 1(2) 2(2)] 2(1) n(3) show ?case by auto
qed

section \<open>Receiving\<close>

definition decode_marked :: "bool \<times> bytes \<Rightarrow> dtmf_event option" where
  "decode_marked p = (if \<not> fst p then None else (let (ev, err) = Decode (snd p) in if err \<noteq> None then None else Some ev))"

lemma DecodeRTP_marked: "DecodeRTP p = decode_marked (marked p)"
  by (simp add: DecodeRTP_def decode_marked_def marked_def)

lemma filter_map_append: "List.map_filter f (xs @ ys) = List.map_filter f xs @ List.map_filter f ys"
  by (simp add: map_filter_def)

lemma decode_frame:
  "decode_marked (m, event_payload rate c k fin) =
    (if m then Some \<lparr>de_Code = c, de_Digit = CodeToChar c, de_Volume = eventVolume,
       de_Dur = word_of_int (go_quot (DefFrameDur * k) (go_quot 1000000000 rate)), de_End = fin\<rparr> else None)"
proof -
  have "eventVolume AND 0x3F = eventVolume" by (simp add: eventVolume_def)
  then show ?thesis by (simp add: decode_marked_def event_payload_def Decode_Encode Let_def)
qed

lemma decode_digit:
  assumes "charToEvent b = Some c"
  shows "map de_Digit (List.map_filter decode_marked (digit_packets rate b)) = [b]"
proof -
  have later: "List.map_filter decode_marked (concat (map (frame_packets rate c) ks)) = []" if "1 \<notin> set ks" for ks
    using that by (induction ks) (auto simp: frame_packets_def decode_frame map_filter_def)
  have first: "map de_Digit (List.map_filter decode_marked (frame_packets rate c 1)) = [b]"
    using char_code [OF assms] by (simp add: frame_packets_def decode_frame map_filter_def)
  have "[1..<14] = 1 # [Suc 1..<14]" by (rule upt_conv_Cons) simp
  then have "[1..<14] = 1 # [2..<14 :: nat]" unfolding Suc_1 .
  then have "digit_packets rate b = frame_packets rate c 1 @ concat (map (frame_packets rate c) [2..<14])"
    by (simp only: digit_packets_def assms option.case list.map concat.simps)
  with first later [of "[2..<14]"] show ?thesis by (simp add: filter_map_append)
qed

section \<open>Properties\<close>

text \<open>
  The DTMF payload round trip.  Into any buffer of four bytes or more, an event whose digit is the
  character of its code, or 0 for a code above 15, and whose volume fits six bits is encoded without
  error, and decoding gives back the same event; the rest of the buffer is untouched.
\<close>

theorem dtmf_round_trip:
  assumes "4 \<le> length out" "de_Digit ev = CodeToChar (de_Code ev)" "de_Volume ev AND 0x3F = de_Volume ev"
  shows "fst (Encode out ev) = (4, None) \<and> Decode (take 4 (snd (Encode out ev))) = (ev, None) \<and>
    drop 4 (snd (Encode out ev)) = drop 4 out"
proof -
  have c: "(if de_Digit ev \<noteq> 0 then (case charToEvent (de_Digit ev) of None \<Rightarrow> 0 | Some c \<Rightarrow> c) else de_Code ev) = de_Code ev"
    using code_char [of "de_Code ev"] assms(2) by (cases "unat (de_Code ev) < 16") (auto simp: CodeToChar_def eventToChar_def)
  have ev: "\<lparr>de_Code = de_Code ev, de_Digit = CodeToChar (de_Code ev), de_Volume = de_Volume ev, de_Dur = de_Dur ev,
      de_End = de_End ev\<rparr> = ev" using assms(2) by (cases ev) simp
  have "length (put_be16 v) = 2" for v by (simp add: put_be16_def)
  then have "take 4 (snd (Encode out ev)) = snd (Encode (replicate 4 0) ev)" "drop 4 (snd (Encode out ev)) = drop 4 out"
    by (simp_all add: Encode_long [OF assms(1)] Encode_long [of "replicate 4 0"])
  then show ?thesis using Decode_Encode [of "replicate 4 0" ev] assms(3) ev
    by (simp add: Let_def c Encode_long [OF assms(1)])
qed

theorem dtmf_round_trip_witness:
  "Decode (take 4 (snd (Encode (replicate 6 9) \<lparr>de_Code = 11, de_Digit = 35, de_Volume = 10, de_Dur = 2080, de_End = True\<rparr>))) =
    (\<lparr>de_Code = 11, de_Digit = 35, de_Volume = 10, de_Dur = 2080, de_End = True\<rparr>, None)"
  by (rule dtmf_round_trip [THEN conjunct2, THEN conjunct1]) (simp_all add: CodeToChar_def eventToChar_def)

text \<open>
  C21: \<open>Write\<close> sends exactly the digits.  With a valid event rate, writers that do not fail and enough
  ticks, it returns without error after one round of 20 ms more than 26 per character (25 per
  \<open>w\<close>) and one audio frame in each of those rounds.  The packets are, in order, those of the reference
  for each known digit (13 frames, the marker on the first, the end packet three times) and none for
  other characters; a receiver that decodes marker packets gets every known digit once, in order.
\<close>

theorem dtmf_Write_sends_digits:
  assumes "0 < rate" "rate \<le> 1000000000" "st_manual st" "sq_w s = []"
    and "length nows = sum_list (map digit_ticks digits) + 1"
  shows "\<exists>frames st1 s1.
    dtmf_Write (Some (frameWriter_WriteSample, arate, gen)) (Some Buffer_WriteRTP) rate (map Inr nows) digits ([], st, s) =
      Some (Inl (None, frames, st1, s1)) \<and>
    length frames = sum_list (map digit_ticks digits) \<and>
    map marked (sq_w s1) = concat (map (digit_packets rate) digits) \<and>
    map de_Digit (List.map_filter DecodeRTP (sq_w s1)) = filter (\<lambda>b. charToEvent b \<noteq> None) digits"
proof -
  have "nows \<noteq> []" using assms(5) by auto
  define n1 n2 where "n1 = butlast nows" and "n2 = last nows"
  have n: "nows = n1 @ [n2]" "length n1 = sum_list (map digit_ticks digits)"
    using assms(5) \<open>nows \<noteq> []\<close> by (simp_all add: n1_def n2_def)
  have "between digits (dtmf_start digits)" by (simp add: between_def dtmf_start_def)
  from emits_digits [OF assms(1,2) this n(2), of arate gen] obtain l1 where l1: "between [] l1"
    "emits arate gen rate n1 (dtmf_start digits) l1 (concat (map (digit_packets rate) digits))" by blast
  from l1(2) assms(3) obtain frames st1 s1 where r:
    "dtmf_run arate gen rate n1 (dtmf_start digits, [], st, s) = Some (Inr (l1, frames, st1, s1))"
    "length frames = length n1" "map marked (sq_w s1) = concat (map (digit_packets rate) digits)"
    unfolding emits_def using assms(4) by fastforce
  have pick: "dtmf_pick l1 = Some None" using l1(1) by (simp add: between_def dtmf_pick_def)
  have run: "dtmf_Write (Some (frameWriter_WriteSample, arate, gen)) (Some Buffer_WriteRTP) rate (map Inr nows) digits ([], st, s) =
      Some (Inl (None, frames, st1, s1))"
    using r(1) by (simp add: dtmf_Write_def n(1) rounds_append dtmf_round_def pick)
  have "map de_Digit (List.map_filter decode_marked (concat (map (digit_packets rate) ds))) = filter (\<lambda>b. charToEvent b \<noteq> None) ds" for ds
  proof (induction ds)
    case (Cons b ds)
    then show ?case using decode_digit [of b _ rate]
      by (cases "charToEvent b") (auto simp: filter_map_append digit_packets_def map_filter_def)
  qed (simp add: map_filter_def)
  moreover have "List.map_filter DecodeRTP ps = List.map_filter decode_marked (map marked ps)" for ps
    by (induction ps) (simp_all add: map_filter_def DecodeRTP_marked)
  ultimately show ?thesis using run r(2,3) n(2) by (intro exI [of _ frames] exI [of _ st1] exI [of _ s1]) simp
qed

theorem dtmf_Write_sends_digits_witness:
  "\<exists>frames st1 s1.
    dtmf_Write (Some (frameWriter_WriteSample, 8000, (\<lambda>ts freq n. replicate n 1))) (Some Buffer_WriteRTP) 8000
      (map Inr (replicate 78 7)) [49, 119, 35] ([], NewManualStream 101 (NewSeqWriter [] 8000 77), NewSeqWriter [] 8000 77) =
      Some (Inl (None, frames, st1, s1)) \<and>
    map de_Digit (List.map_filter DecodeRTP (sq_w s1)) = [49, 35]"
proof -
  let ?gen = "\<lambda>ts freq n. replicate n 1" and ?s = "NewSeqWriter [] 8000 77"
  have "\<exists>frames st1 s1.
    dtmf_Write (Some (frameWriter_WriteSample, 8000, ?gen)) (Some Buffer_WriteRTP) 8000
      (map Inr (replicate 78 7)) [49, 119, 35] ([], NewManualStream 101 ?s, ?s) = Some (Inl (None, frames, st1, s1)) \<and>
    length frames = sum_list (map digit_ticks [49, 119, 35]) \<and>
    map marked (sq_w s1) = concat (map (digit_packets 8000) [49, 119, 35]) \<and>
    map de_Digit (List.map_filter DecodeRTP (sq_w s1)) = filter (\<lambda>b. charToEvent b \<noteq> None) [49, 119, 35]"
    by (rule dtmf_Write_sends_digits) (simp_all add: NewManualStream_def NewSeqWriter_def digit_ticks_def)
  moreover have "filter (\<lambda>b. charToEvent b \<noteq> None) [49, 119, 35] = [49, 35]" by code_simp
  ultimately show ?thesis by metis
qed

end
