(* ===== verification/Codec_Set.thy ===== *)
theory Codec_Set
  imports Go_Strings
begin

text \<open>
  Codec types, their configurations, codec sets and the registry (\<open>codecs.go\<close>).  Codec sets are shared
  by pointers, so they live in a store and a set is its index; the global set is index 0.  A codec type
  is its information and its two functions; what \<open>Supports\<close> says beside the accepted configuration (a
  constructor) is not modelled.
\<close>

section \<open>Parameters, configurations, information\<close>

datatype kind = Unknown | Audio | Data

record codec_param =
  cp_Key :: string
  cp_Val :: string

type_synonym codec_params = "codec_param list"

fun params_Get :: "codec_params \<Rightarrow> string \<Rightarrow> string \<times> bool" where
  "params_Get [] key = ([], False)"
| "params_Get (p # ps) key = (if cp_Key p = key then (cp_Val p, True) else params_Get ps key)"

fun params_Has :: "codec_params \<Rightarrow> string \<Rightarrow> bool" where
  "params_Has [] key = False"
| "params_Has (p # ps) key = (if cp_Key p = key then True else params_Has ps key)"

fun params_HasValue :: "codec_params \<Rightarrow> string \<Rightarrow> string \<Rightarrow> bool" where
  "params_HasValue [] key val = False"
| "params_HasValue (p # ps) key val = (if cp_Key p = key then cp_Val p = val else params_HasValue ps key val)"

fun params_HasParam :: "codec_params \<Rightarrow> codec_param \<Rightarrow> bool" where
  "params_HasParam [] p2 = False"
| "params_HasParam (p # ps) p2 = (if cp_Key p = cp_Key p2 then cp_Val p = cp_Val p2 else params_HasParam ps p2)"

definition params_Add :: "codec_params \<Rightarrow> string \<Rightarrow> string \<Rightarrow> codec_params" where
  "params_Add arr key val = arr @ [\<lparr>cp_Key = key, cp_Val = val\<rparr>]"

text \<open>The loop compares index by index; a panic is impossible as the lengths agree.\<close>

fun params_eq_from :: "codec_params \<Rightarrow> codec_params \<Rightarrow> bool" where
  "params_eq_from (p1 # ps1) (p2 # ps2) = (if p1 \<noteq> p2 then False else params_eq_from ps1 ps2)"
| "params_eq_from _ _ = True"

definition params_Equals :: "codec_params \<Rightarrow> codec_params \<Rightarrow> bool" where
  "params_Equals arr arr2 = (if length arr \<noteq> length arr2 then False else params_eq_from arr arr2)"

definition param_String :: "codec_param \<Rightarrow> string" where
  "param_String p = (if cp_Val p = [] then cp_Key p else cp_Key p @ ''='' @ cp_Val p)"

definition params_String :: "codec_params \<Rightarrow> string" where
  "params_String arr = Join (map param_String arr) '';''"

record codec_config =
  cc_SampleRate :: int
  cc_Channels :: int
  cc_Params :: codec_params

text \<open>\<open>None\<close> is a nil pointer.\<close>

definition config_Equals :: "codec_config option \<Rightarrow> codec_config option \<Rightarrow> bool" where
  "config_Equals c c2 =
     (case (c, c2) of
        (None, None) \<Rightarrow> True
      | (Some a, Some b) \<Rightarrow> cc_SampleRate a = cc_SampleRate b \<and> cc_Channels a = cc_Channels b \<and>
          params_Equals (cc_Params a) (cc_Params b)
      | _ \<Rightarrow> False)"

record codec_type_info =
  ti_Name :: string
  ti_Kind :: kind
  ti_RTPDefType :: u8
  ti_RTPIsStatic :: bool
  ti_Priority :: int
  ti_FileExt :: string

record codec_info =
  ci_Type :: codec_type_info
  ci_Config :: codec_config
  ci_RTPClockRate :: int

definition SDPFullName :: "codec_info \<Rightarrow> string" where
  "SDPFullName c =
     (if cc_Channels (ci_Config c) = 0 then ti_Name (ci_Type c) @ ''/'' @ Itoa (ci_RTPClockRate c)
      else ti_Name (ci_Type c) @ ''/'' @ Itoa (ci_RTPClockRate c) @ ''/'' @ Itoa (cc_Channels (ci_Config c)))"

definition Defaults :: "codec_info \<Rightarrow> codec_info" where
  "Defaults c = (if ci_RTPClockRate c = 0 then c\<lparr>ci_RTPClockRate := cc_SampleRate (ci_Config c)\<rparr> else c)"

definition SDPName :: "codec_type_info \<Rightarrow> string" where
  "SDPName c = ti_Name c"

definition type_Info :: "codec_type_info \<Rightarrow> codec_type_info" where
  "type_Info c = c"

definition codec_Info :: "codec_info \<Rightarrow> codec_info" where
  "codec_Info c = Defaults c"

definition info_Equals :: "codec_info option \<Rightarrow> codec_info option \<Rightarrow> bool" where
  "info_Equals c c2 =
     (case (c, c2) of
        (None, None) \<Rightarrow> True
      | (Some a, Some b) \<Rightarrow> ti_Name (ci_Type a) = ti_Name (ci_Type b) \<and>
          config_Equals (Some (ci_Config a)) (Some (ci_Config b))
      | _ \<Rightarrow> False)"

section \<open>Codec sets\<close>

record codec_set =
  cs_parent :: "nat option"
  cs_enabled :: "string \<Rightarrow> bool option"

type_synonym codec_sets = "codec_set list"

definition NewCodecSet :: "codec_sets \<Rightarrow> nat \<times> codec_sets" where
  "NewCodecSet st = (length st, st @ [\<lparr>cs_parent = None, cs_enabled = (\<lambda>_. None)\<rparr>])"

definition NewSet :: "nat \<Rightarrow> codec_sets \<Rightarrow> nat \<times> codec_sets" where
  "NewSet s st = (let (c2, st1) = NewCodecSet st in (c2, st1[c2 := (st1 ! c2)\<lparr>cs_parent := Some s\<rparr>]))"

definition base_name :: "string \<Rightarrow> string" where
  "base_name name = ToLower (case cut_at (CHR ''/'') name of None \<Rightarrow> name | Some (a, _) \<Rightarrow> a)"

definition SetEnabled :: "nat \<Rightarrow> string \<Rightarrow> bool \<Rightarrow> codec_sets \<Rightarrow> codec_sets" where
  "SetEnabled s name enabled st =
     st[s := (st ! s)\<lparr>cs_enabled := (cs_enabled (st ! s))(base_name name := Some enabled)\<rparr>]"

text \<open>A map's entries come in an order the language leaves open: any list of them.\<close>

definition SetEnabledMap :: "nat \<Rightarrow> (string \<times> bool) list \<Rightarrow> codec_sets \<Rightarrow> codec_sets" where
  "SetEnabledMap s codecs st = fold (\<lambda>(name, enabled). SetEnabled s name enabled) codecs st"

text \<open>
  The walk to the parents.  A parent was there when its child was created, so its index is smaller:
  \<open>sets_ok\<close> is kept by every operation, and on such a store the guard of the recursion always holds.
\<close>

function enabled_walk :: "codec_sets \<Rightarrow> string \<Rightarrow> nat \<Rightarrow> bool" where
  "enabled_walk st name s =
     (case cs_enabled (st ! s) name of Some enabled \<Rightarrow> enabled
      | None \<Rightarrow> (case cs_parent (st ! s) of None \<Rightarrow> False
          | Some p \<Rightarrow> if p < s then enabled_walk st name p else False))"
  by pat_completeness auto

termination
  by (relation "measure (\<lambda>(st, name, s). s)") auto

declare enabled_walk.simps [simp del]

definition IsEnabledByName :: "codec_sets \<Rightarrow> nat option \<Rightarrow> string \<Rightarrow> bool" where
  "IsEnabledByName st s name = (case s of None \<Rightarrow> False | Some i \<Rightarrow> enabled_walk st (base_name name) i)"

section \<open>The registry\<close>

text \<open>\<open>ct_offer\<close> gets the store and the set it is asked for.\<close>

record codec_type =
  ct_info :: codec_type_info
  ct_offer :: "codec_sets \<Rightarrow> nat option \<Rightarrow> codec_info list"
  ct_support :: "codec_config \<Rightarrow> codec_info option"

definition IsEnabled :: "codec_sets \<Rightarrow> nat option \<Rightarrow> codec_type option \<Rightarrow> bool" where
  "IsEnabled st s c =
     (case (s, c) of (Some i, Some t) \<Rightarrow> IsEnabledByName st s (ti_Name (ct_info t)) | _ \<Rightarrow> False)"

text \<open>The global variables: the sets, the codecs, and the registration callbacks with the state each of them keeps.\<close>

record 't codec_globals =
  cg_sets :: codec_sets
  cg_codecs :: "codec_type list"
  cg_onRegister :: "((codec_type \<Rightarrow> 't \<Rightarrow> 't) \<times> 't) list"

definition codec_globals_init :: "'t codec_globals" where
  "codec_globals_init = \<lparr>cg_sets = snd (NewCodecSet []), cg_codecs = [], cg_onRegister = []\<rparr>"

definition ListEnabled :: "'t codec_globals \<Rightarrow> nat option \<Rightarrow> codec_type list" where
  "ListEnabled g s = (if s = None then [] else filter (\<lambda>c. IsEnabled (cg_sets g) s (Some c)) (cg_codecs g))"

text \<open>The functions on the global set, which is index 0.\<close>

definition GlobalCodecs :: "nat option" where
  "GlobalCodecs = Some 0"

definition Codecs :: "'t codec_globals \<Rightarrow> codec_type list" where
  "Codecs g = cg_codecs g"

definition EnabledCodecs :: "'t codec_globals \<Rightarrow> codec_type list" where
  "EnabledCodecs g = ListEnabled g GlobalCodecs"

definition CodecEnabled :: "'t codec_globals \<Rightarrow> codec_type option \<Rightarrow> bool" where
  "CodecEnabled g c = IsEnabled (cg_sets g) GlobalCodecs c"

definition CodecsSetEnabled :: "(string \<times> bool) list \<Rightarrow> 't codec_globals \<Rightarrow> 't codec_globals" where
  "CodecsSetEnabled codecs g = g\<lparr>cg_sets := SetEnabledMap 0 codecs (cg_sets g)\<rparr>"

definition CodecSetEnabled :: "string \<Rightarrow> bool \<Rightarrow> 't codec_globals \<Rightarrow> 't codec_globals" where
  "CodecSetEnabled name enabled g = g\<lparr>cg_sets := SetEnabled 0 name enabled (cg_sets g)\<rparr>"

definition CodecEnabledByName :: "'t codec_globals \<Rightarrow> string \<Rightarrow> bool" where
  "CodecEnabledByName g name = IsEnabledByName (cg_sets g) (Some 0) name"

definition OnRegister :: "(codec_type \<Rightarrow> 't \<Rightarrow> 't) \<Rightarrow> 't \<Rightarrow> 't codec_globals \<Rightarrow> 't codec_globals" where
  "OnRegister fnc t g = g\<lparr>cg_onRegister := cg_onRegister g @ [(fnc, fold fnc (cg_codecs g) t)]\<rparr>"

definition RegisterCodec :: "codec_type \<Rightarrow> 't codec_globals \<Rightarrow> 't codec_globals" where
  "RegisterCodec c g =
     g\<lparr>cg_codecs := cg_codecs g @ [c],
       cg_sets := SetEnabled 0 (ti_Name (ct_info c)) True (cg_sets g),
       cg_onRegister := map (\<lambda>(fnc, t). (fnc, fnc c t)) (cg_onRegister g)\<rparr>"

text \<open>\<open>NewCodec\<close>: \<open>None\<close> is a panic; without an offer function the default configuration is offered.\<close>

definition NewCodec ::
  "codec_type_info \<Rightarrow> (codec_sets \<Rightarrow> nat option \<Rightarrow> codec_info list) option \<Rightarrow> (codec_config \<Rightarrow> codec_info option) \<Rightarrow>
    codec_type option" where
  "NewCodec info offer support =
     (if ti_Name info = [] then None
      else if ContainsAny (ti_Name info) '' /'' then None
      else if ti_Kind info = Unknown then None
      else
        (let offer1 = (case offer of Some f \<Rightarrow> f
               | None \<Rightarrow> (\<lambda>st s. case support \<lparr>cc_SampleRate = 0, cc_Channels = 0, cc_Params = []\<rparr> of
                   None \<Rightarrow> [] | Some i \<Rightarrow> [Defaults i]))
         in Some \<lparr>ct_info = info, ct_offer = offer1, ct_support = support\<rparr>))"

definition codec_Offer :: "codec_type \<Rightarrow> codec_sets \<Rightarrow> nat option \<Rightarrow> codec_info list" where
  "codec_Offer t st s = (if \<not> IsEnabled st s (Some t) then [] else map Defaults (ct_offer t st s))"

definition codec_Supports :: "codec_type \<Rightarrow> codec_config \<Rightarrow> codec_info option" where
  "codec_Supports t c = map_option Defaults (ct_support t c)"

section \<open>Lemmas on parameters\<close>

lemma params_Get_Has: "snd (params_Get ps key) = params_Has ps key"
  by (induction ps) auto

lemma params_Has_iff: "params_Has ps key \<longleftrightarrow> key \<in> cp_Key ` set ps"
  by (induction ps) auto

lemma params_HasValue_Get: "params_HasValue ps key val \<longleftrightarrow> params_Get ps key = (val, True)"
  by (induction ps) auto

lemma params_HasParam_HasValue: "params_HasParam ps p \<longleftrightarrow> params_HasValue ps (cp_Key p) (cp_Val p)"
  by (induction ps) auto

lemma params_eq_from_eq: "length a = length b \<Longrightarrow> params_eq_from a b \<longleftrightarrow> a = b"
  by (induction a b rule: params_eq_from.induct) auto

lemma params_Equals_eq: "params_Equals a b \<longleftrightarrow> a = b"
  by (auto simp: params_Equals_def params_eq_from_eq)

section \<open>Lemmas on codec sets\<close>

definition sets_ok :: "codec_sets \<Rightarrow> bool" where
  "sets_ok st \<longleftrightarrow> (\<forall>s < length st. \<forall>p. cs_parent (st ! s) = Some p \<longrightarrow> p < s)"

lemma sets_ok_NewCodecSet: "sets_ok st \<Longrightarrow> sets_ok (snd (NewCodecSet st))"
  by (auto simp: sets_ok_def NewCodecSet_def nth_append less_Suc_eq)

lemma sets_ok_NewSet: "sets_ok st \<Longrightarrow> s < length st \<Longrightarrow> sets_ok (snd (NewSet s st))"
  by (auto simp: sets_ok_def NewSet_def NewCodecSet_def Let_def nth_append less_Suc_eq)

lemma SetEnabled_parent [simp]: "cs_parent (SetEnabled t name e st ! s) = cs_parent (st ! s)"
  by (cases "t < length st"; cases "t = s") (simp_all add: SetEnabled_def list_update_beyond)

lemma SetEnabled_length [simp]: "length (SetEnabled s name e st) = length st"
  by (simp add: SetEnabled_def)

lemma sets_ok_SetEnabled: "sets_ok st \<Longrightarrow> sets_ok (SetEnabled s name e st)"
  by (simp add: sets_ok_def)

text \<open>On such a store the walk is the code's loop, without the guard.\<close>

lemma enabled_walk_code:
  "sets_ok st \<Longrightarrow> s < length st \<Longrightarrow> enabled_walk st name s =
     (case cs_enabled (st ! s) name of Some enabled \<Rightarrow> enabled
      | None \<Rightarrow> (case cs_parent (st ! s) of None \<Rightarrow> False | Some p \<Rightarrow> enabled_walk st name p))"
  by (subst enabled_walk.simps) (auto simp: sets_ok_def split: option.split)

text \<open>A set and its ancestors, nearest first.\<close>

function ancestors :: "codec_sets \<Rightarrow> nat \<Rightarrow> nat list" where
  "ancestors st s = s # (case cs_parent (st ! s) of None \<Rightarrow> [] | Some p \<Rightarrow> if p < s then ancestors st p else [])"
  by pat_completeness auto

termination
  by (relation "measure (\<lambda>(st, s). s)") auto

declare ancestors.simps [simp del]

fun first_said :: "codec_sets \<Rightarrow> string \<Rightarrow> nat list \<Rightarrow> bool" where
  "first_said st name [] = False"
| "first_said st name (s # ss) = (case cs_enabled (st ! s) name of Some e \<Rightarrow> e | None \<Rightarrow> first_said st name ss)"

lemma enabled_walk_first: "enabled_walk st name s = first_said st name (ancestors st s)"
proof (induction s rule: less_induct)
  case (less s)
  then show ?case by (simp add: enabled_walk.simps [of st name s] ancestors.simps [of st s] split: option.split)
qed

lemma ancestors_le: "t \<in> set (ancestors st s) \<Longrightarrow> t \<le> s"
proof (induction s rule: less_induct)
  case (less s)
  then show ?case by (subst (asm) ancestors.simps) (force split: option.splits if_splits)
qed

lemma ancestors_distinct: "distinct (ancestors st s)"
proof (induction s rule: less_induct)
  case (less s)
  then show ?case
    by (subst ancestors.simps) (auto split: option.split dest: ancestors_le)
qed

lemma ancestors_SetEnabled: "ancestors (SetEnabled t name e st) s = ancestors st s"
proof (induction s rule: less_induct)
  case (less s)
  then show ?case
    by (simp add: ancestors.simps [of "SetEnabled t name e st" s] ancestors.simps [of st s] split: option.split)
qed

text \<open>Whether \<open>t\<close> decides \<open>name\<close> for the list: it is there, and nothing nearer says anything.\<close>

fun decides :: "codec_sets \<Rightarrow> string \<Rightarrow> nat \<Rightarrow> nat list \<Rightarrow> bool" where
  "decides st name t [] = False"
| "decides st name t (s # ss) = (if s = t then True else cs_enabled (st ! s) name = None \<and> decides st name t ss)"

lemma first_said_SetEnabled:
  assumes "t < length st" "distinct ss"
  shows "first_said (SetEnabled t name e st) n ss = (if n = base_name name \<and> decides st n t ss then e else first_said st n ss)"
  using assms by (induction ss) (auto simp: SetEnabled_def nth_list_update split: option.split)

section \<open>Lemmas on the registry\<close>

datatype 't registry_op = OpOnRegister "codec_type \<Rightarrow> 't \<Rightarrow> 't" 't | OpRegister codec_type

fun registry_step :: "'t registry_op \<Rightarrow> 't codec_globals \<Rightarrow> 't codec_globals" where
  "registry_step (OpOnRegister fnc t) g = OnRegister fnc t g"
| "registry_step (OpRegister c) g = RegisterCodec c g"

definition registered :: "'t registry_op list \<Rightarrow> codec_type list" where
  "registered ops = concat (map (\<lambda>x. case x of OpRegister c \<Rightarrow> [c] | OpOnRegister _ _ \<Rightarrow> []) ops)"

definition callbacks :: "'t registry_op list \<Rightarrow> ((codec_type \<Rightarrow> 't \<Rightarrow> 't) \<times> 't) list" where
  "callbacks ops = concat (map (\<lambda>x. case x of OpRegister c \<Rightarrow> [] | OpOnRegister f t \<Rightarrow> [(f, t)]) ops)"

lemma registry_run:
  "cg_codecs (fold registry_step ops g) = cg_codecs g @ registered ops \<and>
   cg_onRegister (fold registry_step ops g) =
     map (\<lambda>(f, t). (f, fold f (registered ops) t)) (cg_onRegister g) @
     map (\<lambda>(f, t). (f, fold f (cg_codecs g @ registered ops) t)) (callbacks ops)"
proof (induction ops arbitrary: g)
  case Nil
  then show ?case by (simp add: registered_def callbacks_def)
next
  case (Cons x ops)
  show ?case
  proof (cases x)
    case (OpOnRegister f t)
    with Cons.IH [of "OnRegister f t g"] show ?thesis by (simp add: OnRegister_def registered_def callbacks_def)
  next
    case (OpRegister c)
    with Cons.IH [of "RegisterCodec c g"] show ?thesis
      by (simp add: RegisterCodec_def registered_def callbacks_def split_beta comp_def)
  qed
qed

section \<open>Properties\<close>

text \<open>The global set, a child that disables PCMU, and the child's child.\<close>

definition overlay_example :: codec_sets where
  "overlay_example = SetEnabled 1 ''PCMU'' False (snd (NewSet 1 (snd (NewSet 0 (snd (NewCodecSet []))))))"

text \<open>
  C28: the overlay of codec sets.  Enabling or disabling a codec on one set, by any spelling of its name
  (letter case and a trailing clock rate do not matter), changes the answer of another set exactly when
  the first is the set itself or an ancestor and no nearer set says anything about that codec; every
  other answer stays, the ancestors' own in particular.
\<close>

theorem codec_set_overlay:
  assumes "t < length st"
  shows "IsEnabledByName (SetEnabled t name e st) (Some s) other =
    (if base_name other = base_name name \<and> decides st (base_name other) t (ancestors st s) then e
     else IsEnabledByName st (Some s) other)"
  using first_said_SetEnabled [OF assms ancestors_distinct, of name e "base_name other" st s]
  by (auto simp: IsEnabledByName_def enabled_walk_first ancestors_SetEnabled)

theorem codec_set_overlay_witness:
  "IsEnabledByName (SetEnabled 0 ''pcmu/8000'' True overlay_example) (Some 2) ''PCMU'' =
     IsEnabledByName overlay_example (Some 2) ''PCMU'' \<and>
   IsEnabledByName (SetEnabled 0 ''pcmu/8000'' True overlay_example) (Some 0) ''PCMU'' \<and>
   \<not> IsEnabledByName overlay_example (Some 0) ''PCMU''"
proof -
  have len: "0 < length overlay_example"
    by (simp add: overlay_example_def NewSet_def NewCodecSet_def Let_def)
  have name: "base_name ''PCMU'' = base_name ''pcmu/8000''" by code_simp
  have d: "\<not> decides overlay_example (base_name ''PCMU'') 0 (ancestors overlay_example 2)"
    "decides overlay_example (base_name ''PCMU'') 0 (ancestors overlay_example 0)"
    "\<not> IsEnabledByName overlay_example (Some 0) ''PCMU''" by code_simp+
  show ?thesis
    using codec_set_overlay [OF len, of "''pcmu/8000''" True 2 "''PCMU''"]
      codec_set_overlay [OF len, of "''pcmu/8000''" True 0 "''PCMU''"] name d by simp
qed

text \<open>
  The import order does not matter.  Whatever the order in which codecs are registered and callbacks
  installed, every callback has run once on each registered codec, in the order of registration.
\<close>

theorem registry_order_independent:
  "cg_codecs (fold registry_step ops codec_globals_init) = registered ops \<and>
   cg_onRegister (fold registry_step ops codec_globals_init) =
     map (\<lambda>(f, t). (f, fold f (registered ops) t)) (callbacks ops)"
  using registry_run [of ops codec_globals_init] by (simp add: codec_globals_init_def)

end
