(* ===== verification/Codec_Types.thy ===== *)
theory Codec_Types
  imports Codec_Set
begin

text \<open>
  The codecs the program registers, as far as negotiation sees them: their type information, the
  configurations they support and what they offer (the \<open>init\<close> functions of \<open>g711/ulaw.go\<close>,
  \<open>g711/alaw.go\<close>, \<open>g722/g722.go\<close>, \<open>opus/codec.go\<close>, \<open>amrwb/amrwb.go\<close> and \<open>dtmf/dtmf.go\<close>), and the contract
  SDP relies on.  The static payload types are constants of \<open>pion/rtp\<close> and arguments here; so is the
  number of the best AMR-WB mode.
\<close>

section \<open>Type information and supported configurations\<close>

definition no_config :: codec_config where
  "no_config = \<lparr>cc_SampleRate = 0, cc_Channels = 0, cc_Params = []\<rparr>"

definition mk_info :: "codec_type_info \<Rightarrow> codec_config \<Rightarrow> codec_info" where
  "mk_info info c = \<lparr>ci_Type = info, ci_Config = c, ci_RTPClockRate = 0\<rparr>"

definition ulaw_info :: "u8 \<Rightarrow> codec_type_info" where
  "ulaw_info pt = \<lparr>ti_Name = ''PCMU'', ti_Kind = Audio, ti_RTPDefType = pt, ti_RTPIsStatic = True, ti_Priority = -10,
     ti_FileExt = ''g711u''\<rparr>"

definition ulaw_Support :: "u8 \<Rightarrow> codec_config \<Rightarrow> codec_info option" where
  "ulaw_Support pt c =
     (if cc_Channels c \<noteq> 0 \<and> cc_Channels c \<noteq> 1 then None
      else let c1 = (if cc_SampleRate c = 0 then c\<lparr>cc_SampleRate := 8000\<rparr> else c)
        in if cc_SampleRate c1 \<noteq> 8000 then None
           else Some (mk_info (ulaw_info pt) (c1\<lparr>cc_Params := []\<rparr>)))"

definition alaw_info :: "u8 \<Rightarrow> codec_type_info" where
  "alaw_info pt = \<lparr>ti_Name = ''PCMA'', ti_Kind = Audio, ti_RTPDefType = pt, ti_RTPIsStatic = True, ti_Priority = -20,
     ti_FileExt = ''g711a''\<rparr>"

definition alaw_Support :: "u8 \<Rightarrow> codec_config \<Rightarrow> codec_info option" where
  "alaw_Support pt c =
     (if cc_Channels c \<noteq> 0 \<and> cc_Channels c \<noteq> 1 then None
      else let c1 = (if cc_SampleRate c = 0 then c\<lparr>cc_SampleRate := 8000\<rparr> else c)
        in if cc_SampleRate c1 \<noteq> 8000 then None
           else Some (mk_info (alaw_info pt) (c1\<lparr>cc_Params := []\<rparr>)))"

definition g722_info :: "u8 \<Rightarrow> codec_type_info" where
  "g722_info pt = \<lparr>ti_Name = ''G722'', ti_Kind = Audio, ti_RTPDefType = pt, ti_RTPIsStatic = True, ti_Priority = -5,
     ti_FileExt = ''g722''\<rparr>"

definition g722_Support :: "u8 \<Rightarrow> codec_config \<Rightarrow> codec_info option" where
  "g722_Support pt c =
     (if cc_Channels c \<noteq> 0 \<and> cc_Channels c \<noteq> 1 then None
      else let c1 = (if cc_SampleRate c = 0 then c\<lparr>cc_SampleRate := 16000\<rparr> else c)
        in if cc_SampleRate c1 \<noteq> 8000 \<and> cc_SampleRate c1 \<noteq> 16000 then None
           else Some ((mk_info (g722_info pt) (c1\<lparr>cc_SampleRate := 16000, cc_Params := []\<rparr>))\<lparr>ci_RTPClockRate := 8000\<rparr>))"

definition opus_info :: codec_type_info where
  "opus_info = \<lparr>ti_Name = ''opus'', ti_Kind = Audio, ti_RTPDefType = 0, ti_RTPIsStatic = False, ti_Priority = 10,
     ti_FileExt = ''opus''\<rparr>"

definition opus_Support :: "codec_config \<Rightarrow> codec_info option" where
  "opus_Support c =
     (if cc_Channels c \<notin> {0, 1, 2} then None
      else let c1 = (if cc_Channels c = 0 then c\<lparr>cc_Channels := 2\<rparr> else c);
               c2 = (if cc_SampleRate c1 = 0 then c1\<lparr>cc_SampleRate := 48000\<rparr> else c1)
        in if cc_SampleRate c2 \<noteq> 48000 then None
           else Some (mk_info opus_info (c2\<lparr>cc_Params := []\<rparr>)))"

definition amrwb_info :: codec_type_info where
  "amrwb_info = \<lparr>ti_Name = ''AMR-WB'', ti_Kind = Audio, ti_RTPDefType = 0, ti_RTPIsStatic = False, ti_Priority = -4,
     ti_FileExt = ''amrwb''\<rparr>"

text \<open>The loop over the modes of \<open>mode-set\<close>; \<open>None\<close> is the early return.\<close>

fun amrwb_modes :: "string list \<Rightarrow> int \<Rightarrow> int option" where
  "amrwb_modes [] maxMode = Some maxMode"
| "amrwb_modes (s # ss) maxMode =
     (if s = [] then amrwb_modes ss maxMode
      else case Atoi s of Inl _ \<Rightarrow> None | Inr m \<Rightarrow> amrwb_modes ss (max m maxMode))"

definition amrwb_Support :: "u8 \<Rightarrow> codec_config \<Rightarrow> codec_info option" where
  "amrwb_Support best c =
     (if cc_Channels c \<noteq> 0 \<and> cc_Channels c \<noteq> 1 then None
      else let c1 = (if cc_SampleRate c = 0 then c\<lparr>cc_SampleRate := 16000\<rparr> else c)
        in if cc_SampleRate c1 \<noteq> 16000 then None
           else if snd (params_Get (cc_Params c1) ''octet-align'') \<and> fst (params_Get (cc_Params c1) ''octet-align'') \<noteq> ''0'' then None
           else let accepted = params_Add [] ''octet-align'' ''0''; (v, ok) = params_Get (cc_Params c1) ''mode-set''
             in case (if ok then amrwb_modes (Split v (CHR '','')) (-1) else Some (-1)) of None \<Rightarrow> None
               | Some maxMode \<Rightarrow>
                   let accepted1 = (if maxMode \<ge> 0 then params_Add accepted ''mode-set'' (if ok then v else [])
                         else params_Add accepted ''mode-set'' (Itoa (uint best)))
                   in Some (mk_info amrwb_info (c1\<lparr>cc_Params := accepted1\<rparr>)))"

definition dtmf_info :: codec_type_info where
  "dtmf_info = \<lparr>ti_Name = ''telephone-event'', ti_Kind = Data, ti_RTPDefType = 0, ti_RTPIsStatic = False, ti_Priority = -100,
     ti_FileExt = []\<rparr>"

definition dtmf_Support :: "codec_config \<Rightarrow> codec_info option" where
  "dtmf_Support c =
     (if cc_SampleRate c = 0 then None
      else let i = go_quot (cc_SampleRate c) 8000
        in if cc_SampleRate c - 8000 * i \<noteq> 0 then None
           else Some (mk_info (dtmf_info\<lparr>ti_Priority := ti_Priority dtmf_info - i\<rparr>)
             (c\<lparr>cc_Params := [\<lparr>cp_Key = ''0-16'', cp_Val = []\<rparr>]\<rparr>)))"

text \<open>
  The rates of the events follow the other codecs.  \<open>enabled\<close> is what \<open>ListEnabled\<close> returns for the set,
  \<open>legacy\<close> the variable \<open>OfferLegacyRate\<close>.
\<close>

definition add_rate :: "codec_info \<Rightarrow> int list \<Rightarrow> int list" where
  "add_rate cc rates =
     (let rate = ci_RTPClockRate cc in if rate \<le> 0 then rates else if rate \<notin> set rates then rates @ [rate] else rates)"

fun dtmf_rates :: "codec_sets \<Rightarrow> nat option \<Rightarrow> codec_type list \<Rightarrow> int list \<Rightarrow> int list" where
  "dtmf_rates st s [] rates = rates"
| "dtmf_rates st s (c # cs) rates =
     (if ti_Name (ct_info c) = ''telephone-event'' then dtmf_rates st s cs rates
      else dtmf_rates st s cs (fold add_rate (codec_Offer c st s) rates))"

definition dtmf_Offer :: "bool \<Rightarrow> codec_type list \<Rightarrow> codec_sets \<Rightarrow> nat option \<Rightarrow> codec_info list" where
  "dtmf_Offer legacy enabled st s =
     map (\<lambda>rate. mk_info dtmf_info \<lparr>cc_SampleRate = rate, cc_Channels = 0, cc_Params = [\<lparr>cp_Key = ''0-16'', cp_Val = []\<rparr>]\<rparr>)
       (sort (dtmf_rates st s enabled (if legacy then [8000] else [])))"

section \<open>The codec types\<close>

text \<open>
  What is passed to \<open>RegisterCodec\<close>; \<open>codec_of\<close> is the type \<open>NewCodec\<close> returns, which does not panic
  (\<open>NewCodec_registered\<close>).  \<open>codecs\<close> stands for the global list of codecs, which the offer of the events
  reads when it is called.
\<close>

definition codec_of :: "codec_type_info \<Rightarrow> (codec_sets \<Rightarrow> nat option \<Rightarrow> codec_info list) option \<Rightarrow> (codec_config \<Rightarrow> codec_info option) \<Rightarrow> codec_type" where
  "codec_of info offer support = the (NewCodec info offer support)"

definition dtmf_listed :: "bool \<Rightarrow> codec_type list \<Rightarrow> codec_sets \<Rightarrow> nat option \<Rightarrow> codec_info list" where
  "dtmf_listed legacy codecs st s = dtmf_Offer legacy (filter (\<lambda>c. IsEnabled st s (Some c)) codecs) st s"

lemma NewCodec_registered:
  "NewCodec (ulaw_info pt) None (ulaw_Support pt) \<noteq> None" "NewCodec (alaw_info pt) None (alaw_Support pt) \<noteq> None"
  "NewCodec (g722_info pt) None (g722_Support pt) \<noteq> None" "NewCodec opus_info None opus_Support \<noteq> None"
  "NewCodec amrwb_info None (amrwb_Support best) \<noteq> None" "NewCodec dtmf_info (Some f) dtmf_Support \<noteq> None"
  by (simp_all add: NewCodec_def ContainsAny_def ulaw_info_def alaw_info_def g722_info_def opus_info_def amrwb_info_def dtmf_info_def)

definition ulaw_codec :: "u8 \<Rightarrow> codec_type" where "ulaw_codec pt = codec_of (ulaw_info pt) None (ulaw_Support pt)"
definition alaw_codec :: "u8 \<Rightarrow> codec_type" where "alaw_codec pt = codec_of (alaw_info pt) None (alaw_Support pt)"
definition g722_codec :: "u8 \<Rightarrow> codec_type" where "g722_codec pt = codec_of (g722_info pt) None (g722_Support pt)"
definition opus_codec :: codec_type where "opus_codec = codec_of opus_info None opus_Support"
definition amrwb_codec :: "u8 \<Rightarrow> codec_type" where "amrwb_codec best = codec_of amrwb_info None (amrwb_Support best)"
definition dtmf_codec :: "bool \<Rightarrow> codec_type list \<Rightarrow> codec_type" where
  "dtmf_codec legacy codecs = codec_of dtmf_info (Some (dtmf_listed legacy codecs)) dtmf_Support"

section \<open>The contract\<close>

text \<open>What SDP carries of an accepted configuration: the clock rate in the place of the sample rate.\<close>

definition said :: "codec_info \<Rightarrow> codec_config" where
  "said i = (ci_Config i)\<lparr>cc_SampleRate := ci_RTPClockRate i\<rparr>"

text \<open>Texts that survive the separators and the trimming of an \<open>fmtp\<close> attribute, and numbers that fit.\<close>

definition clean_text :: "string \<Rightarrow> bool" where
  "clean_text s \<longleftrightarrow> (s \<noteq> [] \<longrightarrow> \<not> is_space (hd s) \<and> \<not> is_space (last s)) \<and> CHR '';'' \<notin> set s"

definition clean_param :: "codec_param \<Rightarrow> bool" where
  "clean_param p \<longleftrightarrow> cp_Key p \<noteq> [] \<and> clean_text (cp_Key p) \<and> CHR ''='' \<notin> set (cp_Key p) \<and> clean_text (cp_Val p)"

definition int64 :: "int \<Rightarrow> bool" where
  "int64 i \<longleftrightarrow> - (2 ^ 63) \<le> i \<and> i < 2 ^ 63"

definition clean_config :: "codec_config \<Rightarrow> bool" where
  "clean_config c \<longleftrightarrow> int64 (cc_SampleRate c) \<and> int64 (cc_Channels c) \<and> list_all clean_param (cc_Params c)"

text \<open>
  The laws SDP needs of a codec type: its answers carry its own name and kind, a configuration it
  accepted is accepted again as it is printed, what it offers is understood by itself, and all of it can
  be printed.
\<close>

locale sdp_codec =
  fixes t :: codec_type
  assumes name: "ti_Name (ct_info t) \<noteq> []" "CHR ''/'' \<notin> set (ti_Name (ct_info t))" "CHR '' '' \<notin> set (ti_Name (ct_info t))"
    and kind: "ti_Kind (ct_info t) = Audio \<or> ti_Kind (ct_info t) = Data"
    and keeps_type: "codec_Supports t c = Some i \<Longrightarrow>
      ti_Name (ci_Type i) = ti_Name (ct_info t) \<and> ti_Kind (ci_Type i) = ti_Kind (ct_info t)"
    and accepts_own: "codec_Supports t c = Some i \<Longrightarrow> codec_Supports t (said i) = Some i"
    and printable: "codec_Supports t c = Some i \<Longrightarrow> clean_config c \<Longrightarrow> clean_config (said i)"
    and offers: "i \<in> set (codec_Offer t st s) \<Longrightarrow> ti_Name (ci_Type i) = ti_Name (ct_info t) \<and>
      ti_Kind (ci_Type i) = ti_Kind (ct_info t) \<and> clean_config (said i) \<and>
      (\<exists>i'. codec_Supports t (said i) = Some i' \<and> said i' = said i)"

section \<open>The registered codecs keep the contract\<close>

lemma codec_of_fields:
  assumes "NewCodec info offer support \<noteq> None"
  shows "ct_info (codec_of info offer support) = info" "ct_support (codec_of info offer support) = support"
    "ct_offer (codec_of info (Some f) support) = f \<or> NewCodec info (Some f) support = None"
    "ct_offer (codec_of info None support) = (\<lambda>st s. case support no_config of None \<Rightarrow> [] | Some i \<Rightarrow> [Defaults i])
      \<or> NewCodec info None support = None"
  using assms by (auto simp: codec_of_def NewCodec_def Let_def no_config_def split: if_splits)

text \<open>A codec without an offer function offers what it supports by default: it need only accept its own answers.\<close>

lemma Defaults_said [simp]: "Defaults (Defaults j) = Defaults j" "ci_Type (Defaults j) = ci_Type j"
  by (simp_all add: Defaults_def)

lemma sdp_codec_default:
  assumes new: "NewCodec info None support \<noteq> None"
    and named: "\<And>c i. support c = Some i \<Longrightarrow> ti_Name (ci_Type i) = ti_Name info \<and> ti_Kind (ci_Type i) = ti_Kind info"
    and own: "\<And>c i. support c = Some i \<Longrightarrow> map_option Defaults (support (said (Defaults i))) = Some (Defaults i)"
    and printable: "\<And>c i. support c = Some i \<Longrightarrow> clean_config c \<Longrightarrow> clean_config (said (Defaults i))"
  shows "sdp_codec (codec_of info None support)"
proof
  let ?t = "codec_of info None support"
  have t [simp]: "ct_info ?t = info" "ct_support ?t = support"
    and offer: "ct_offer ?t = (\<lambda>st s. case support no_config of None \<Rightarrow> [] | Some i \<Rightarrow> [Defaults i])"
    using codec_of_fields [OF new] new by auto
  show "ti_Name (ct_info ?t) \<noteq> []" "CHR ''/'' \<notin> set (ti_Name (ct_info ?t))" "CHR '' '' \<notin> set (ti_Name (ct_info ?t))"
    using new by (auto simp: NewCodec_def ContainsAny_def list_ex_iff split: if_splits)
  show "ti_Kind (ct_info ?t) = Audio \<or> ti_Kind (ct_info ?t) = Data"
    using new by (cases "ti_Kind info") (auto simp: NewCodec_def split: if_splits)
  fix c i st s
  show "ti_Name (ci_Type i) = ti_Name (ct_info ?t) \<and> ti_Kind (ci_Type i) = ti_Kind (ct_info ?t)"
    if "codec_Supports ?t c = Some i" using that named by (auto simp: codec_Supports_def)
  show "codec_Supports ?t (said i) = Some i" if "codec_Supports ?t c = Some i"
    using that own by (auto simp: codec_Supports_def)
  show "clean_config (said i)" if "codec_Supports ?t c = Some i" "clean_config c"
    using that printable by (auto simp: codec_Supports_def)
  show "ti_Name (ci_Type i) = ti_Name (ct_info ?t) \<and> ti_Kind (ci_Type i) = ti_Kind (ct_info ?t) \<and>
      clean_config (said i) \<and> (\<exists>i'. codec_Supports ?t (said i) = Some i' \<and> said i' = said i)" if "i \<in> set (codec_Offer ?t st s)"
  proof -
    from that obtain j where j: "support no_config = Some j" "i = Defaults j"
      by (cases "support no_config") (auto simp: codec_Offer_def offer split: if_splits)
    have "clean_config no_config" by (simp add: clean_config_def no_config_def int64_def)
    then show ?thesis using named [OF j(1)] own [OF j(1)] printable [OF j(1)] j(2) by (auto simp: codec_Supports_def)
  qed
qed

lemma codec_fields [simp]:
  "ct_info (ulaw_codec pt) = ulaw_info pt" "ct_support (ulaw_codec pt) = ulaw_Support pt"
  "ct_info (alaw_codec pt) = alaw_info pt" "ct_support (alaw_codec pt) = alaw_Support pt"
  "ct_info (g722_codec pt) = g722_info pt" "ct_support (g722_codec pt) = g722_Support pt"
  "ct_info opus_codec = opus_info" "ct_support opus_codec = opus_Support"
  "ct_info (amrwb_codec best) = amrwb_info" "ct_support (amrwb_codec best) = amrwb_Support best"
  "ct_info (dtmf_codec legacy codecs) = dtmf_info" "ct_support (dtmf_codec legacy codecs) = dtmf_Support"
  "ct_offer (dtmf_codec legacy codecs) = dtmf_listed legacy codecs"
  using codec_of_fields NewCodec_registered
  by (simp_all add: ulaw_codec_def alaw_codec_def g722_codec_def opus_codec_def amrwb_codec_def dtmf_codec_def) (metis option.simps(3))

named_theorems codec_defs \<open>the registered codecs\<close>
declare ulaw_info_def [codec_defs] ulaw_Support_def [codec_defs] alaw_info_def [codec_defs] alaw_Support_def [codec_defs]
  g722_info_def [codec_defs] g722_Support_def [codec_defs] opus_info_def [codec_defs] opus_Support_def [codec_defs]
  amrwb_info_def [codec_defs] amrwb_Support_def [codec_defs] dtmf_info_def [codec_defs] dtmf_Support_def [codec_defs]
  mk_info_def [codec_defs] said_def [codec_defs] Defaults_def [codec_defs] codec_Supports_def [codec_defs]
  clean_config_def [codec_defs] int64_def [codec_defs] Let_def [codec_defs]

interpretation ulaw: sdp_codec "ulaw_codec pt" for pt
  unfolding ulaw_codec_def
  by (rule sdp_codec_default [OF NewCodec_registered(1)]) (auto simp: codec_defs split: if_splits)

interpretation alaw: sdp_codec "alaw_codec pt" for pt
  unfolding alaw_codec_def
  by (rule sdp_codec_default [OF NewCodec_registered(2)]) (auto simp: codec_defs split: if_splits)

interpretation g722: sdp_codec "g722_codec pt" for pt
  unfolding g722_codec_def
  by (rule sdp_codec_default [OF NewCodec_registered(3)]) (auto simp: codec_defs split: if_splits)

interpretation opus: sdp_codec opus_codec
  unfolding opus_codec_def
  by (rule sdp_codec_default [OF NewCodec_registered(4)]) (auto simp: codec_defs split: if_splits)

text \<open>The mode set of AMR-WB is handed back as it was offered, or names the best mode alone.\<close>

lemma amrwb_best: "amrwb_modes (Split (Itoa (uint (best :: u8))) (CHR '','')) (-1) = Some (uint best)"
proof -
  have "CHR '','' \<notin> set (Itoa (uint best))" by (rule Itoa_no_char) (simp_all add: digit_val_def)
  moreover have "uint best < 2 ^ 63" "0 \<le> uint best" using unsigned_less [of best, where ?'a = int] by simp_all
  then have "Atoi (Itoa (uint best)) = Inr (uint best)" by (intro Atoi_Itoa) linarith+
  moreover have "max (uint best) (- 1) = uint best" using \<open>0 \<le> uint best\<close> by linarith
  ultimately show ?thesis by (simp add: Split_none Itoa_nonempty)
qed

lemma clean_Itoa: "clean_text (Itoa (uint (best :: u8)))"
  using itoa_ends by (simp add: clean_text_def Itoa_def itoa_no_char digit_val_def)

lemma params_Get_clean: "list_all clean_param ps \<Longrightarrow> clean_text (fst (params_Get ps key))"
  by (induction ps) (auto simp: clean_param_def clean_text_def)

lemma octet_param: "clean_param \<lparr>cp_Key = ''octet-align'', cp_Val = ''0''\<rparr>" by code_simp
lemma mode_param: "clean_text v \<Longrightarrow> clean_param \<lparr>cp_Key = ''mode-set'', cp_Val = v\<rparr>"
  by (simp add: clean_param_def) code_simp

definition amrwb_accepted :: "int \<Rightarrow> string \<Rightarrow> codec_info" where
  "amrwb_accepted ch v = mk_info amrwb_info \<lparr>cc_SampleRate = 16000, cc_Channels = ch,
     cc_Params = [\<lparr>cp_Key = ''octet-align'', cp_Val = ''0''\<rparr>, \<lparr>cp_Key = ''mode-set'', cp_Val = v\<rparr>]\<rparr>"

lemma amrwb_Support_SomeD:
  assumes "amrwb_Support best c = Some i"
  shows "\<exists>v m. i = amrwb_accepted (cc_Channels c) v \<and> amrwb_modes (Split v (CHR '','')) (-1) = Some m \<and> 0 \<le> m \<and>
    cc_Channels c \<in> {0, 1} \<and> (v = Itoa (uint best) \<or> v = fst (params_Get (cc_Params c) ''mode-set''))"
proof -
  obtain v ok where v: "params_Get (cc_Params c) ''mode-set'' = (v, ok)" by (cases "params_Get (cc_Params c) ''mode-set''")
  obtain m where m: "(if ok then amrwb_modes (Split v (CHR '','')) (-1) else Some (-1)) = Some m" and ch: "cc_Channels c \<in> {0, 1}"
    and i: "i = amrwb_accepted (cc_Channels c) (if m \<ge> 0 then v else Itoa (uint best))"
    using assms v
    by (auto simp: amrwb_Support_def amrwb_accepted_def params_Add_def mk_info_def Let_def split: if_splits option.splits)
  show ?thesis
  proof (cases "m \<ge> 0")
    case True
    with m have "ok" by (auto split: if_splits)
    with m i ch v True show ?thesis by auto
  next
    case False
    with i ch amrwb_best [of best] show ?thesis by auto
  qed
qed

lemma amrwb_again:
  assumes "amrwb_modes (Split v (CHR '','')) (-1) = Some m" "0 \<le> m" "ch \<in> {0, 1}"
  shows "amrwb_Support best (said (Defaults (amrwb_accepted ch v))) = Some (amrwb_accepted ch v)"
  using assms by (auto simp: amrwb_Support_def amrwb_accepted_def said_def Defaults_def mk_info_def params_Add_def Let_def)

interpretation amrwb: sdp_codec "amrwb_codec best" for best
  unfolding amrwb_codec_def
proof (rule sdp_codec_default [OF NewCodec_registered(5)], goal_cases)
  case (1 c i)
  then show ?case using amrwb_Support_SomeD [of best c i] by (auto simp: amrwb_accepted_def mk_info_def)
next
  case (2 c i)
  then show ?case using amrwb_Support_SomeD [of best c i] amrwb_again by auto
next
  case (3 c i)
  then show ?case
    using amrwb_Support_SomeD [of best c i] params_Get_clean [of "cc_Params c" "''mode-set''"]
    by (auto simp: amrwb_accepted_def mk_info_def said_def Defaults_def clean_config_def int64_def octet_param mode_param clean_Itoa)
qed

text \<open>The events offer only rates they accept when the other codecs run at multiples of 8 kHz, as they do.\<close>

definition audio_codecs :: "u8 \<Rightarrow> u8 \<Rightarrow> u8 \<Rightarrow> u8 \<Rightarrow> codec_type list" where
  "audio_codecs ptu pta ptg best = [ulaw_codec ptu, alaw_codec pta, g722_codec ptg, opus_codec, amrwb_codec best]"

lemma offered_rate:
  assumes "NewCodec info None support \<noteq> None" "support no_config = Some j" "i \<in> set (codec_Offer (codec_of info None support) st s)"
  shows "ci_RTPClockRate i = ci_RTPClockRate (Defaults j)"
  using assms codec_of_fields [OF assms(1)] by (auto simp: codec_Offer_def split: if_splits)

lemma audio_rates:
  assumes "t \<in> set (audio_codecs ptu pta ptg best)" "i \<in> set (codec_Offer t st s)"
  shows "8000 dvd ci_RTPClockRate i \<and> ci_RTPClockRate i \<le> 48000"
proof -
  note rates = NewCodec_registered(1-5) [THEN offered_rate]
  from assms(1) consider "t = ulaw_codec ptu" | "t = alaw_codec pta" | "t = g722_codec ptg" | "t = opus_codec" | "t = amrwb_codec best"
    by (auto simp: audio_codecs_def)
  then show ?thesis
  proof cases
    case 1
    then show ?thesis using rates(1) [of ptu] assms(2) by (simp add: ulaw_codec_def codec_defs no_config_def)
  next
    case 2
    then show ?thesis using rates(2) [of pta] assms(2) by (simp add: alaw_codec_def codec_defs no_config_def)
  next
    case 3
    then show ?thesis using rates(3) [of ptg] assms(2) by (simp add: g722_codec_def codec_defs no_config_def)
  next
    case 4
    then show ?thesis using rates(4) assms(2) by (simp add: opus_codec_def codec_defs no_config_def)
  next
    case 5
    then show ?thesis using rates(5) [of best] assms(2)
      by (simp add: amrwb_codec_def codec_defs no_config_def params_Add_def)
  qed
qed

definition event_rate :: "int \<Rightarrow> bool" where
  "event_rate r \<longleftrightarrow> 0 < r \<and> 8000 dvd r \<and> r \<le> 48000"

lemma add_rate_ok: "8000 dvd ci_RTPClockRate i \<and> ci_RTPClockRate i \<le> 48000 \<Longrightarrow> list_all event_rate rates \<Longrightarrow> list_all event_rate (add_rate i rates)"
  by (simp add: add_rate_def Let_def event_rate_def)

lemma add_rates_ok:
  "(\<And>i. i \<in> set infos \<Longrightarrow> 8000 dvd ci_RTPClockRate i \<and> ci_RTPClockRate i \<le> 48000) \<Longrightarrow> list_all event_rate rates \<Longrightarrow>
    list_all event_rate (fold add_rate infos rates)"
  by (induction infos arbitrary: rates) (simp_all add: add_rate_ok)

lemma dtmf_rates_ok:
  assumes "\<And>c i. c \<in> set cs \<Longrightarrow> i \<in> set (codec_Offer c st s) \<Longrightarrow> 8000 dvd ci_RTPClockRate i \<and> ci_RTPClockRate i \<le> 48000"
    and "list_all event_rate rates"
  shows "list_all event_rate (dtmf_rates st s cs rates)"
  using assms
proof (induction cs arbitrary: rates)
  case (Cons c cs)
  have "list_all event_rate (fold add_rate (codec_Offer c st s) rates)"
    by (rule add_rates_ok) (use Cons.prems in auto)
  moreover have "list_all event_rate (dtmf_rates st s cs rs)" if "list_all event_rate rs" for rs
    by (rule Cons.IH) (use Cons.prems that in auto)
  ultimately show ?case using Cons.prems by simp
qed simp

definition dtmf_accepted :: "codec_config \<Rightarrow> codec_info" where
  "dtmf_accepted c = \<lparr>ci_Type = dtmf_info\<lparr>ti_Priority := ti_Priority dtmf_info - go_quot (cc_SampleRate c) 8000\<rparr>,
     ci_Config = c\<lparr>cc_Params := [\<lparr>cp_Key = ''0-16'', cp_Val = []\<rparr>]\<rparr>, ci_RTPClockRate = cc_SampleRate c\<rparr>"

lemma dtmf_Supports:
  "codec_Supports (dtmf_codec legacy codecs) c =
    (if cc_SampleRate c \<noteq> 0 \<and> 8000 * go_quot (cc_SampleRate c) 8000 = cc_SampleRate c then Some (dtmf_accepted c) else None)"
  by (simp add: codec_Supports_def dtmf_Support_def Let_def dtmf_accepted_def mk_info_def Defaults_def)

lemma events_param: "clean_param \<lparr>cp_Key = ''0-16'', cp_Val = []\<rparr>" by code_simp

interpretation dtmf: sdp_codec "dtmf_codec legacy (audio_codecs ptu pta ptg best)" for legacy ptu pta ptg best
proof
  let ?t = "dtmf_codec legacy (audio_codecs ptu pta ptg best)"
  show "ti_Name (ct_info ?t) \<noteq> []" "CHR ''/'' \<notin> set (ti_Name (ct_info ?t))" "CHR '' '' \<notin> set (ti_Name (ct_info ?t))"
    "ti_Kind (ct_info ?t) = Audio \<or> ti_Kind (ct_info ?t) = Data" by (simp_all add: dtmf_info_def)
  fix c i st s
  show "ti_Name (ci_Type i) = ti_Name (ct_info ?t) \<and> ti_Kind (ci_Type i) = ti_Kind (ct_info ?t)"
    "codec_Supports ?t (said i) = Some i" "clean_config c \<Longrightarrow> clean_config (said i)" if "codec_Supports ?t c = Some i"
    using that
    by (auto simp: dtmf_Supports dtmf_accepted_def said_def clean_config_def int64_def events_param dtmf_info_def split: if_splits)
  assume "i \<in> set (codec_Offer ?t st s)"
  then obtain r where r: "r \<in> set (dtmf_rates st s (filter (\<lambda>c. IsEnabled st s (Some c)) (audio_codecs ptu pta ptg best)) (if legacy then [8000] else []))"
    and i: "i = Defaults (mk_info dtmf_info \<lparr>cc_SampleRate = r, cc_Channels = 0, cc_Params = [\<lparr>cp_Key = ''0-16'', cp_Val = []\<rparr>]\<rparr>)"
    by (auto simp: codec_Offer_def dtmf_listed_def dtmf_Offer_def split: if_splits)
  have "list_all event_rate (dtmf_rates st s (filter (\<lambda>c. IsEnabled st s (Some c)) (audio_codecs ptu pta ptg best)) (if legacy then [8000] else []))"
    by (rule dtmf_rates_ok) (use audio_rates in \<open>auto simp: event_rate_def\<close>)
  with r have "0 < r" "8000 dvd r" "r \<le> 48000" by (auto simp: list_all_iff event_rate_def)
  then show "ti_Name (ci_Type i) = ti_Name (ct_info ?t) \<and> ti_Kind (ci_Type i) = ti_Kind (ct_info ?t) \<and>
      clean_config (said i) \<and> (\<exists>i'. codec_Supports ?t (said i) = Some i' \<and> said i' = said i)"
    by (auto simp: i dtmf_Supports dtmf_accepted_def mk_info_def said_def Defaults_def clean_config_def int64_def events_param dvd_def)
qed

section \<open>Properties\<close>

text \<open>
  C23: the contract of the registered codecs.  Whatever the payload types, each of the codecs of the program,
  the telephone events included, answers with its own name and kind, accepts again, as it is printed, every
  configuration it accepted, and understands whatever it offers; all of it survives the printing.
\<close>

theorem registered_codecs_contract:
  "list_all sdp_codec (audio_codecs ptu pta ptg best @ [dtmf_codec legacy (audio_codecs ptu pta ptg best)])"
  using ulaw.sdp_codec_axioms alaw.sdp_codec_axioms g722.sdp_codec_axioms opus.sdp_codec_axioms amrwb.sdp_codec_axioms dtmf.sdp_codec_axioms
  by (simp add: audio_codecs_def)

end
