(* ===== verification/Srtp.thy ===== *)
theory Srtp
  imports Media_Prelude
begin

text \<open>
  SRTP profiles and the session wrapper (\<open>srtp/srtp.go\<close>).  The cipher suites themselves, their key and
  salt lengths and the encrypted session are \<open>pion/srtp\<close>: the lengths and the session's calls are
  parameters.  \<open>rand.Read\<close> is a parameter with its own state, and it may fail.
\<close>

section \<open>Profiles\<close>

text \<open>The constants of \<open>pion/srtp\<close> that \<open>Parse\<close> returns.\<close>

datatype protection =
    ProtectionProfileAes128CmHmacSha1_80 | ProtectionProfileAes128CmHmacSha1_32
  | ProtectionProfileAes256CmHmacSha1_80 | ProtectionProfileAes256CmHmacSha1_32

definition defaultProfiles :: "string list" where
  "defaultProfiles =
     [''AES_CM_128_HMAC_SHA1_80'', ''AES_CM_128_HMAC_SHA1_32'', ''AES_256_CM_HMAC_SHA1_80'', ''AES_256_CM_HMAC_SHA1_32'']"

definition profile_Parse :: "string \<Rightarrow> go_error + protection" where
  "profile_Parse p =
     (if p = ''AES_CM_128_HMAC_SHA1_80'' then Inr ProtectionProfileAes128CmHmacSha1_80
      else if p = ''AES_CM_128_HMAC_SHA1_32'' then Inr ProtectionProfileAes128CmHmacSha1_32
      else if p = ''AES_256_CM_HMAC_SHA1_80'' then Inr ProtectionProfileAes256CmHmacSha1_80
      else if p = ''AES_256_CM_HMAC_SHA1_32'' then Inr ProtectionProfileAes256CmHmacSha1_32
      else Inl (ErrOther ''unsupported profile''))"

record srtp_profile =
  sp_Index :: int
  sp_Profile :: string
  sp_Key :: bytes
  sp_Salt :: bytes
  sp_MKI :: bytes
  sp_Lifetime :: u64

text \<open>The lengths \<open>pion/srtp\<close> reports for a profile.\<close>

type_synonym suite_len = "protection \<Rightarrow> go_error + nat"

text \<open>\<open>rnd n s\<close> fills a buffer of \<open>n\<close> bytes.\<close>

type_synonym 's random = "nat \<Rightarrow> 's \<Rightarrow> (go_error + bytes) \<times> 's"

definition gen_profile :: "suite_len \<Rightarrow> suite_len \<Rightarrow> 's random \<Rightarrow> nat \<Rightarrow> string \<Rightarrow> 's \<Rightarrow> (go_error + srtp_profile) \<times> 's" where
  "gen_profile key_len salt_len rnd i p s =
     (case profile_Parse p of Inl e \<Rightarrow> (Inl e, s) | Inr sp \<Rightarrow>
     (case key_len sp of Inl e \<Rightarrow> (Inl e, s) | Inr kl \<Rightarrow>
     (case salt_len sp of Inl e \<Rightarrow> (Inl e, s) | Inr sl \<Rightarrow>
     (case rnd kl s of (Inl e, s1) \<Rightarrow> (Inl e, s1) | (Inr key, s1) \<Rightarrow>
     (case rnd sl s1 of (Inl e, s2) \<Rightarrow> (Inl e, s2) | (Inr salt, s2) \<Rightarrow>
       (Inr \<lparr>sp_Index = int i + 1, sp_Profile = p, sp_Key = key, sp_Salt = salt, sp_MKI = [], sp_Lifetime = 0\<rparr>, s2))))))"

fun gen_profiles :: "suite_len \<Rightarrow> suite_len \<Rightarrow> 's random \<Rightarrow> nat \<Rightarrow> string list \<Rightarrow> 's \<Rightarrow> (go_error + srtp_profile list) \<times> 's" where
  "gen_profiles key_len salt_len rnd i [] s = (Inr [], s)"
| "gen_profiles key_len salt_len rnd i (p # ps) s =
     (case gen_profile key_len salt_len rnd i p s of (Inl e, s1) \<Rightarrow> (Inl e, s1)
      | (Inr x, s1) \<Rightarrow> (case gen_profiles key_len salt_len rnd (i + 1) ps s1 of (Inl e, s2) \<Rightarrow> (Inl e, s2)
          | (Inr xs, s2) \<Rightarrow> (Inr (x # xs), s2)))"

definition DefaultProfiles :: "suite_len \<Rightarrow> suite_len \<Rightarrow> 's random \<Rightarrow> 's \<Rightarrow> (go_error + srtp_profile list) \<times> 's" where
  "DefaultProfiles key_len salt_len rnd s = gen_profiles key_len salt_len rnd 0 defaultProfiles s"

text \<open>\<open>None\<close> is a nil \<open>Options\<close>.\<close>

definition LocalProfiles ::
  "suite_len \<Rightarrow> suite_len \<Rightarrow> 's random \<Rightarrow> srtp_profile list option \<Rightarrow> 's \<Rightarrow> (go_error + srtp_profile list) \<times> 's" where
  "LocalProfiles key_len salt_len rnd opts s =
     (case opts of None \<Rightarrow> DefaultProfiles key_len salt_len rnd s
      | Some ps \<Rightarrow> if ps \<noteq> [] then (Inr ps, s) else DefaultProfiles key_len salt_len rnd s)"

section \<open>Session configuration\<close>

datatype context_option = MasterKeyIndicator bytes

record session_keys =
  sk_LocalMasterKey :: bytes
  sk_LocalMasterSalt :: bytes
  sk_RemoteMasterKey :: bytes
  sk_RemoteMasterSalt :: bytes

record srtp_config =
  sc_Keys :: session_keys
  sc_Profile :: protection
  sc_LocalOptions :: "context_option list"
  sc_RemoteOptions :: "context_option list"

section \<open>The session\<close>

text \<open>
  The wrapper keeps the read streams it has accepted, as closing the session of \<open>pion/srtp\<close> does not
  close them.  A stream is a value of type \<open>'r\<close>; \<open>'s\<close> is the state behind the calls to the library.
  \<open>AcceptStream\<close> is two steps, the call to the library and, under the lock, the record of the stream.
\<close>

record 'r srtp_session =
  ss_streams :: "'r list"

definition srtp_NewSession :: "('s \<Rightarrow> (go_error + unit) \<times> 's) \<Rightarrow> 's \<Rightarrow> (go_error + 'r srtp_session) \<times> 's" where
  "srtp_NewSession lib_new s =
     (case lib_new s of (Inl e, s1) \<Rightarrow> (Inl e, s1) | (Inr _, s1) \<Rightarrow> (Inr \<lparr>ss_streams = []\<rparr>, s1))"

definition accept_append :: "'r \<Rightarrow> 'r srtp_session \<Rightarrow> 'r srtp_session" where
  "accept_append r c = c\<lparr>ss_streams := ss_streams c @ [r]\<rparr>"

definition AcceptStream ::
  "('s \<Rightarrow> (go_error + 'r \<times> u32) \<times> 's) \<Rightarrow> 'r srtp_session \<Rightarrow> 's \<Rightarrow> (go_error + 'r \<times> u32) \<times> 'r srtp_session \<times> 's" where
  "AcceptStream lib_accept c s =
     (case lib_accept s of (Inl e, s1) \<Rightarrow> (Inl e, c, s1)
      | (Inr (r, ssrc), s1) \<Rightarrow> (Inr (r, ssrc), accept_append r c, s1))"

definition close_sweep :: "'r srtp_session \<Rightarrow> 'r list \<times> 'r srtp_session" where
  "close_sweep c = (ss_streams c, c\<lparr>ss_streams := []\<rparr>)"

text \<open>\<open>Close\<close> returns the error of the session; the errors of the streams are dropped.\<close>

definition session_Close ::
  "('s \<Rightarrow> go_error option \<times> 's) \<Rightarrow> ('r \<Rightarrow> 's \<Rightarrow> go_error option \<times> 's) \<Rightarrow> 'r srtp_session \<Rightarrow> 's \<Rightarrow>
    go_error option \<times> 'r srtp_session \<times> 's" where
  "session_Close lib_close stream_close c s =
     (let (err, s1) = lib_close s; (streams, c1) = close_sweep c
      in (err, c1, fold (\<lambda>r s. snd (stream_close r s)) streams s1))"

definition OpenWriteStream :: "('s \<Rightarrow> (go_error + 'w) \<times> 's) \<Rightarrow> 's \<Rightarrow> (go_error + 'w) \<times> 's" where
  "OpenWriteStream lib_open s = (case lib_open s of (Inl e, s1) \<Rightarrow> (Inl e, s1) | (Inr w, s1) \<Rightarrow> (Inr w, s1))"

definition srtp_WriteRTP :: "('h \<Rightarrow> bytes \<Rightarrow> 's \<Rightarrow> (go_error + nat) \<times> 's) \<Rightarrow> 'h \<Rightarrow> bytes \<Rightarrow> 's \<Rightarrow> (go_error + nat) \<times> 's" where
  "srtp_WriteRTP lib_write h payload s = lib_write h payload s"

text \<open>
  \<open>ReadRTP\<close> reads the packet into the caller's buffer, parses it there (\<open>unmarshal\<close>, \<open>pion/rtp\<close>) and moves
  the payload to the front.  The result is the count or the error, the header if it was set, and the buffer.
\<close>

definition srtp_ReadRTP ::
  "(bytes \<Rightarrow> 's \<Rightarrow> (go_error + nat) \<times> bytes \<times> 's) \<Rightarrow> (bytes \<Rightarrow> go_error + 'h \<times> bytes) \<Rightarrow> bytes \<Rightarrow> 's \<Rightarrow>
    (go_error + nat \<times> 'h) \<times> bytes \<times> 's" where
  "srtp_ReadRTP lib_read unmarshal payload s =
     (case lib_read payload s of (Inl e, buf, s1) \<Rightarrow> (Inl e, buf, s1)
      | (Inr n, buf, s1) \<Rightarrow> (case unmarshal (take n buf) of Inl e \<Rightarrow> (Inl e, buf, s1)
          | Inr (h, p) \<Rightarrow> (let (k, buf1) = go_copy buf p in (Inr (k, h), buf1, s1))))"

section \<open>Lemmas\<close>

text \<open>A profile that fits its cipher suite: a supported name and a key of the suite's length.\<close>

definition profile_fits :: "suite_len \<Rightarrow> srtp_profile \<Rightarrow> bool" where
  "profile_fits key_len p =
     (case profile_Parse (sp_Profile p) of Inl _ \<Rightarrow> False | Inr sp \<Rightarrow> key_len sp = Inr (length (sp_Key p)))"

lemma defaultProfiles_supported: "p \<in> set defaultProfiles \<longleftrightarrow> (\<exists>sp. profile_Parse p = Inr sp)"
  by (auto simp: defaultProfiles_def profile_Parse_def)

lemma gen_profile_ok:
  assumes "gen_profile key_len salt_len rnd i p s = (Inr x, s1)"
    and rnd: "\<And>n s b s'. rnd n s = (Inr b, s') \<Longrightarrow> length b = n"
  shows "sp_Profile x = p \<and> sp_Index x = int i + 1 \<and> profile_fits key_len x \<and> sp_MKI x = [] \<and> sp_Lifetime x = 0"
  using assms(1) by (auto simp: gen_profile_def profile_fits_def dest: rnd split: sum.splits prod.splits)

lemma gen_profiles_ok:
  assumes "gen_profiles key_len salt_len rnd i ps s = (Inr xs, s1)"
    and rnd: "\<And>n s b s'. rnd n s = (Inr b, s') \<Longrightarrow> length b = n"
  shows "map sp_Profile xs = ps \<and> map sp_Index xs = map (\<lambda>k. int (i + k) + 1) [0..<length ps] \<and>
    list_all (\<lambda>x. profile_fits key_len x \<and> sp_MKI x = [] \<and> sp_Lifetime x = 0) xs \<and>
    list_all (\<lambda>x. 0 < sp_Index x \<and> sp_Index x \<le> int (i + length ps)) xs"
  using assms(1)
proof (induction ps arbitrary: i s xs)
  case Nil
  then show ?case by simp
next
  case (Cons p ps)
  obtain x s2 xs' where x: "gen_profile key_len salt_len rnd i p s = (Inr x, s2)"
    and xs': "gen_profiles key_len salt_len rnd (i + 1) ps s2 = (Inr xs', s1)" "xs = x # xs'"
    using Cons.prems by (auto split: prod.splits sum.splits)
  with gen_profile_ok [OF x, OF rnd] Cons.IH [OF xs'(1)] show ?case by (auto simp: map_upt_Suc list_all_iff simp del: upt_Suc)
qed

end
