(* ===== verification/Base64.thy ===== *)
theory Base64
  imports Media_Prelude
begin

text \<open>
  The standard base64 encoding of \<open>encoding/base64\<close>, which carries SRTP keys in SDP: the padded encoder,
  and the decoder with and without padding, which skips line breaks and ignores the unused low bits of
  the last character.
\<close>

definition b64_alphabet :: string where
  "b64_alphabet = ''ABCDEFGHIJKLMNOPQRSTUVWXYZabcdefghijklmnopqrstuvwxyz0123456789+/''"

definition b64_char :: "nat \<Rightarrow> char" where
  "b64_char n = b64_alphabet ! n"

fun index_of :: "'a \<Rightarrow> 'a list \<Rightarrow> nat option" where
  "index_of x [] = None"
| "index_of x (y # ys) = (if x = y then Some 0 else map_option Suc (index_of x ys))"

definition b64_val :: "char \<Rightarrow> nat option" where
  "b64_val c = index_of c b64_alphabet"

fun b64_encode :: "bytes \<Rightarrow> string" where
  "b64_encode [] = []"
| "b64_encode [a] = [b64_char (unat a div 4), b64_char (unat a mod 4 * 16), CHR ''='', CHR ''='']"
| "b64_encode [a, b] =
     [b64_char (unat a div 4), b64_char (unat a mod 4 * 16 + unat b div 16), b64_char (unat b mod 16 * 4), CHR ''='']"
| "b64_encode (a # b # c # bs) =
     [b64_char (unat a div 4), b64_char (unat a mod 4 * 16 + unat b div 16),
      b64_char (unat b mod 16 * 4 + unat c div 64), b64_char (unat c mod 64)] @ b64_encode bs"

text \<open>The decoder after the line breaks are gone; \<open>padded\<close> is \<open>StdEncoding\<close>, otherwise \<open>RawStdEncoding\<close>.\<close>

fun b64_groups :: "bool \<Rightarrow> string \<Rightarrow> bytes option" where
  "b64_groups padded [] = Some []"
| "b64_groups padded [w, x] =
     (if padded then None
      else do { v1 \<leftarrow> b64_val w; v2 \<leftarrow> b64_val x; Some [word_of_nat (v1 * 4 + v2 div 16)] })"
| "b64_groups padded [w, x, y] =
     (if padded then None
      else do { v1 \<leftarrow> b64_val w; v2 \<leftarrow> b64_val x; v3 \<leftarrow> b64_val y;
        Some [word_of_nat (v1 * 4 + v2 div 16), word_of_nat (v2 mod 16 * 16 + v3 div 4)] })"
| "b64_groups padded (w # x # y # z # s) =
     (if padded \<and> y = CHR ''='' \<and> z = CHR ''='' \<and> s = [] then
        do { v1 \<leftarrow> b64_val w; v2 \<leftarrow> b64_val x; Some [word_of_nat (v1 * 4 + v2 div 16)] }
      else if padded \<and> z = CHR ''='' \<and> s = [] then
        do { v1 \<leftarrow> b64_val w; v2 \<leftarrow> b64_val x; v3 \<leftarrow> b64_val y;
          Some [word_of_nat (v1 * 4 + v2 div 16), word_of_nat (v2 mod 16 * 16 + v3 div 4)] }
      else
        do { v1 \<leftarrow> b64_val w; v2 \<leftarrow> b64_val x; v3 \<leftarrow> b64_val y; v4 \<leftarrow> b64_val z; bs \<leftarrow> b64_groups padded s;
          Some ([word_of_nat (v1 * 4 + v2 div 16), word_of_nat (v2 mod 16 * 16 + v3 div 4),
                 word_of_nat (v3 mod 4 * 64 + v4)] @ bs) })"
| "b64_groups padded [w] = None"

definition b64_decode :: "bool \<Rightarrow> string \<Rightarrow> bytes option" where
  "b64_decode padded s = b64_groups padded (filter (\<lambda>c. c \<noteq> CHR 0x0A \<and> c \<noteq> CHR 0x0D) s)"

section \<open>Round trip\<close>

lemma b64_val_char: "n < 64 \<Longrightarrow> b64_val (b64_char n) = Some n"
proof -
  assume "n < 64"
  moreover have "list_all (\<lambda>n. b64_val (b64_char n) = Some n) [0..<64]" by code_simp
  ultimately show ?thesis by (simp add: list_all_iff)
qed

lemma b64_char_set: "n < 64 \<Longrightarrow> b64_char n \<in> set b64_alphabet"
  unfolding b64_char_def by (rule nth_mem) (simp add: b64_alphabet_def)

lemma b64_char_not_pad: "n < 64 \<Longrightarrow> b64_char n \<noteq> CHR ''=''"
  using b64_char_set [of n] by (auto simp: b64_alphabet_def)

lemma b64_val_pad [simp]: "b64_val CHR ''='' = None"
  by (simp add: b64_val_def b64_alphabet_def)

lemma six_bits_nat:
  fixes a b c :: nat
  assumes "a < 256" "b < 256" "c < 256"
  shows "a div 4 < 64" "a mod 4 * 16 < 64" "a mod 4 * 16 + b div 16 < 64"
    "b mod 16 * 4 < 64" "b mod 16 * 4 + c div 64 < 64" "c mod 64 < 64"
proof -
  have m: "a mod 4 \<le> 3" "b mod 16 \<le> 15" "b div 16 \<le> 15" "c div 64 \<le> 3"
    using assms mod_less_divisor [of 4 a] mod_less_divisor [of 16 b] by (simp_all add: less_mult_imp_div_less div_le_mono)
  show "a div 4 < 64" "c mod 64 < 64" using assms by simp_all
  show "a mod 4 * 16 < 64" "a mod 4 * 16 + b div 16 < 64" "b mod 16 * 4 < 64" "b mod 16 * 4 + c div 64 < 64"
    using m by linarith+
qed

lemmas six_bits = six_bits_nat [OF unat_u8_less unat_u8_less unat_u8_less]

lemma small_digits [simp]:
  "unat (b :: u8) div 16 div 16 = 0" "unat b div 16 mod 16 = unat b div 16"
  "unat b div 64 div 4 = 0" "unat b div 64 mod 4 = unat b div 64"
  using unat_u8_less [of b] by (simp_all add: less_mult_imp_div_less)

lemma b64_groups_encode: "b64_groups True (b64_encode bs) = Some bs"
  by (induction bs rule: b64_encode.induct)
    (simp_all add: b64_val_char six_bits b64_char_not_pad del: of_nat_add of_nat_mult)

text \<open>Without padding the decoder accepts exactly the encodings that have none.\<close>

lemma b64_groups_raw: "b64_groups False (b64_encode bs) = (if length bs mod 3 = 0 then Some bs else None)"
proof (induction bs rule: b64_encode.induct)
  case (4 a b c bs)
  have "Suc (Suc (Suc (length bs))) mod 3 = length bs mod 3"
    by presburger
  with 4 show ?case by (simp add: b64_val_char six_bits b64_char_not_pad del: of_nat_add of_nat_mult)
qed (simp_all add: b64_val_char six_bits)

lemma b64_encode_set: "set (b64_encode bs) \<subseteq> insert CHR ''='' (set b64_alphabet)"
  by (induction bs rule: b64_encode.induct) (auto intro: b64_char_set simp: six_bits)

lemma b64_decode_encode:
  "b64_decode True (b64_encode bs) = Some bs"
  "b64_decode False (b64_encode bs) = (if length bs mod 3 = 0 then Some bs else None)"
proof -
  have "CHR 0x0A \<notin> set (b64_encode bs)" "CHR 0x0D \<notin> set (b64_encode bs)"
    using b64_encode_set [of bs] by (auto simp: b64_alphabet_def)
  then have "filter (\<lambda>c. c \<noteq> CHR 0x0A \<and> c \<noteq> CHR 0x0D) (b64_encode bs) = b64_encode bs"
    by (auto simp: filter_id_conv)
  then show "b64_decode True (b64_encode bs) = Some bs"
    "b64_decode False (b64_encode bs) = (if length bs mod 3 = 0 then Some bs else None)"
    by (simp_all add: b64_decode_def b64_groups_encode b64_groups_raw)
qed

end
