(* ===== verification/Sdp_Crypto.thy ===== *)
theory Sdp_Crypto
  imports Srtp Base64 Go_Strings
begin

text \<open>
  The \<open>a=crypto\<close> attributes of \<open>sdp/offer.go\<close>: printing and parsing of SRTP profiles, and the choice of
  a profile both sides have.
\<close>

section \<open>Parsing\<close>

definition parseLifetime :: "string \<Rightarrow> go_error + u64" where
  "parseLifetime s0 =
     (let s = TrimSpace s0
      in if HasPrefix s ''2^'' then
           (case ParseUint (drop 2 s) 64 of Inl _ \<Rightarrow> Inl (ErrOther ''invalid exponent'')
            | Inr e \<Rightarrow> if e > 63 then Inl (ErrOther ''exponent too large'') else Inr (push_bit e 1))
         else
           (case ParseUint s 64 of Inl _ \<Rightarrow> Inl (ErrOther ''invalid lifetime value'')
            | Inr v \<Rightarrow> if v = 0 then Inl (ErrOther ''lifetime must be positive'') else Inr (word_of_nat v)))"

text \<open>\<open>binary.BigEndian.PutUint64\<close>.\<close>

definition put_be64 :: "u64 \<Rightarrow> bytes" where
  "put_be64 v = map (\<lambda>i. ucast (drop_bit (56 - 8 * i) v)) [0..<8]"

text \<open>The shift of \<open>maxValue\<close> is on 64 bits: by 64 it is 0.\<close>

definition parseMKI :: "string \<Rightarrow> go_error + bytes" where
  "parseMKI s0 =
     (let parts = SplitN (TrimSpace s0) (CHR '':'') 2
      in if length parts \<noteq> 2 then Inl (ErrOther ''MKI must be in format value:length'')
         else case ParseUint (parts ! 0) 64 of Inl _ \<Rightarrow> Inl (ErrOther ''invalid MKI value'')
         | Inr value \<Rightarrow> (case ParseUint (parts ! 1) 8 of Inl _ \<Rightarrow> Inl (ErrOther ''invalid MKI length'')
         | Inr len \<Rightarrow>
             if len = 0 \<or> len > 8 then Inl (ErrOther ''supported MKI length between 1 and 8 bytes'')
             else let maxValue = push_bit (len * 8) (1 :: u64)
               in if (word_of_nat value :: u64) \<ge> maxValue then Inl (ErrOther ''value is too large'')
                  else Inr (drop (8 - len) (put_be64 (word_of_nat value)))))"

text \<open>The optional parts after the key: the lifetime and the MKI.\<close>

definition optional_part :: "(string \<Rightarrow> go_error + 'a) \<Rightarrow> 'a \<Rightarrow> nat \<Rightarrow> string list \<Rightarrow> go_error + 'a" where
  "optional_part parse dflt i parts = (if length parts > i \<and> parts ! i \<noteq> [] then parse (parts ! i) else Inr dflt)"

text \<open>\<open>Inr None\<close>: the attribute is ignored.\<close>

definition parseSRTPProfile :: "suite_len \<Rightarrow> string \<Rightarrow> go_error + srtp_profile option" where
  "parseSRTPProfile key_len val0 =
     (let sub = SplitN (TrimSpace val0) (CHR '' '') 3
      in if length sub \<noteq> 3 then Inr None
      else case Atoi (sub ! 0) of Inl e \<Rightarrow> Inl e
      | Inr ind \<Rightarrow> (case CutPrefix (sub ! 2) ''inline:'' of None \<Rightarrow> Inr None
      | Some skey \<Rightarrow>
          if ContainsAny skey [CHR '' '', CHR 0x09] then Inr None
          else let parts = Split skey (CHR ''|'')
          in case (case b64_decode False (parts ! 0) of Some k \<Rightarrow> Some k | None \<Rightarrow> b64_decode True (parts ! 0)) of
            None \<Rightarrow> Inl (ErrOther ''cannot parse crypto key'')
          | Some keys \<Rightarrow> (case optional_part parseLifetime 0 1 parts of Inl _ \<Rightarrow> Inl (ErrOther ''invalid lifetime parameter'')
          | Inr lifetime \<Rightarrow> (case optional_part parseMKI [] 2 parts of Inl _ \<Rightarrow> Inl (ErrOther ''invalid MKI parameter'')
          | Inr mki \<Rightarrow> (case profile_Parse (sub ! 1) of
                Inl _ \<Rightarrow> Inr (Some \<lparr>sp_Index = ind, sp_Profile = sub ! 1, sp_Key = keys, sp_Salt = [], sp_MKI = mki,
                  sp_Lifetime = lifetime\<rparr>)
              | Inr sp \<Rightarrow> (case key_len sp of Inl e \<Rightarrow> Inl e
                  | Inr n \<Rightarrow> if n > length keys then Inl (ErrOther ''parsed key length is greater than key buffer size'')
                      else Inr (Some \<lparr>sp_Index = ind, sp_Profile = sub ! 1, sp_Key = take n keys, sp_Salt = drop n keys,
                        sp_MKI = mki, sp_Lifetime = lifetime\<rparr>)))))))"

section \<open>Printing\<close>

text \<open>\<open>Attribute\<close> of \<open>pion/sdp\<close>; a property attribute has an empty value.\<close>

record attribute =
  at_Key :: string
  at_Value :: string

definition crypto_value :: "srtp_profile \<Rightarrow> string" where
  "crypto_value p = Itoa (sp_Index p) @ '' '' @ sp_Profile p @ '' inline:'' @ b64_encode (sp_Key p @ sp_Salt p)"

definition appendCryptoProfiles :: "attribute list \<Rightarrow> srtp_profile list \<Rightarrow> attribute list" where
  "appendCryptoProfiles attrs profiles = attrs @ map (\<lambda>p. \<lparr>at_Key = ''crypto'', at_Value = crypto_value p\<rparr>) profiles"

section \<open>Choosing a profile\<close>

definition swap_keys :: "session_keys \<Rightarrow> session_keys" where
  "swap_keys k = \<lparr>sk_LocalMasterKey = sk_RemoteMasterKey k, sk_LocalMasterSalt = sk_RemoteMasterSalt k,
     sk_RemoteMasterKey = sk_LocalMasterKey k, sk_RemoteMasterSalt = sk_LocalMasterSalt k\<rparr>"

definition mki_options :: "bytes \<Rightarrow> context_option list" where
  "mki_options mki = (if length mki > 0 then [MasterKeyIndicator mki] else [])"

definition crypto_pair :: "srtp_profile \<Rightarrow> srtp_profile \<Rightarrow> protection \<Rightarrow> bool \<Rightarrow> srtp_config \<times> srtp_profile" where
  "crypto_pair off ans sp swap =
     (let keys = \<lparr>sk_LocalMasterKey = sp_Key off, sk_LocalMasterSalt = sp_Salt off,
            sk_RemoteMasterKey = sp_Key ans, sk_RemoteMasterSalt = sp_Salt ans\<rparr>;
          localMKI = (if swap then sp_MKI ans else sp_MKI off); remoteMKI = (if swap then sp_MKI off else sp_MKI ans)
      in (\<lparr>sc_Keys = (if swap then swap_keys keys else keys), sc_Profile = sp,
           sc_LocalOptions = mki_options localMKI, sc_RemoteOptions = mki_options remoteMKI\<rparr>,
          if swap then ans\<lparr>sp_Index := sp_Index off\<rparr> else off))"

text \<open>\<open>None\<close>: no common profile; the error of the code is always nil.\<close>

fun select_answer :: "srtp_profile list \<Rightarrow> srtp_profile list \<Rightarrow> bool \<Rightarrow> (srtp_config \<times> srtp_profile) option" where
  "select_answer offer [] swap = None"
| "select_answer offer (ans # answer) swap =
     (case profile_Parse (sp_Profile ans) of Inl _ \<Rightarrow> select_answer offer answer swap
      | Inr sp \<Rightarrow> (case find (\<lambda>off. sp_Profile off = sp_Profile ans) offer of
            Some off \<Rightarrow> Some (crypto_pair off ans sp swap)
          | None \<Rightarrow> select_answer offer answer swap))"

definition SelectCrypto :: "srtp_profile list \<Rightarrow> srtp_profile list \<Rightarrow> bool \<Rightarrow> (srtp_config \<times> srtp_profile) option" where
  "SelectCrypto offer answer swap = (if offer = [] then None else select_answer offer answer swap)"

section \<open>Lemmas on printing and parsing\<close>

lemma b64_encode_chars:
  "c \<in> set (b64_encode bs) \<Longrightarrow> \<not> is_space c \<and> c \<noteq> CHR ''|''"
proof -
  assume "c \<in> set (b64_encode bs)"
  then have "c \<in> insert CHR ''='' (set b64_alphabet)" using b64_encode_set by blast
  then show ?thesis by (auto simp: b64_alphabet_def is_space_def)
qed

lemma supported_no_space: "profile_Parse p = Inr sp \<Longrightarrow> CHR '' '' \<notin> set p"
  by (auto simp: profile_Parse_def split: if_splits)

text \<open>A printed profile with the optional parts \<open>sfx\<close> behind the key.\<close>

lemma crypto_value_trim:
  assumes "0 \<le> sp_Index p" "\<forall>c \<in> set sfx. \<not> is_space c"
  shows "TrimSpace (crypto_value p @ sfx) = crypto_value p @ sfx"
proof (rule TrimSpace_id)
  let ?i = "itoa_nat (nat (sp_Index p))"
  let ?t = "''inline:'' @ b64_encode (sp_Key p @ sp_Salt p) @ sfx"
  have i: "?i \<noteq> []" by (rule itoa_nonempty)
  with assms(1) have v: "crypto_value p @ sfx = ?i @ '' '' @ sp_Profile p @ '' '' @ ?t"
    by (simp add: crypto_value_def Itoa_def)
  show "crypto_value p @ sfx \<noteq> []" using v by simp
  show "\<not> is_space (hd (crypto_value p @ sfx))"
    using i unfolding v by (auto simp: hd_append itoa_ends)
  have "last (crypto_value p @ sfx) = last ?t" unfolding v by simp
  moreover have "last ?t \<in> set ?t" by (rule last_in_set) simp
  moreover have "\<forall>c \<in> set ?t. \<not> is_space c" using b64_encode_chars assms(2) by (auto simp: is_space_def)
  ultimately show "\<not> is_space (last (crypto_value p @ sfx))" by metis
qed

lemma parse_crypto_parts:
  assumes p: "profile_fits key_len p" "0 \<le> sp_Index p" "sp_Index p < 2 ^ 63"
    and sfx: "\<forall>c \<in> set sfx. \<not> is_space c"
    and parts: "Split (b64_encode (sp_Key p @ sp_Salt p) @ sfx) (CHR ''|'') = b64_encode (sp_Key p @ sp_Salt p) # rest"
    and lt: "optional_part parseLifetime 0 1 (b64_encode (sp_Key p @ sp_Salt p) # rest) = Inr lt"
    and mki: "optional_part parseMKI [] 2 (b64_encode (sp_Key p @ sp_Salt p) # rest) = Inr mki"
  shows "parseSRTPProfile key_len (crypto_value p @ sfx) = Inr (Some (p\<lparr>sp_MKI := mki, sp_Lifetime := lt\<rparr>))"
proof -
  let ?b = "b64_encode (sp_Key p @ sp_Salt p)"
  obtain sp where sp: "profile_Parse (sp_Profile p) = Inr sp" "key_len sp = Inr (length (sp_Key p))"
    using p(1) by (auto simp: profile_fits_def split: sum.splits)
  have "CHR '' '' \<notin> set (Itoa (sp_Index p))"
    using p(2) itoa_not_space [of "CHR '' ''"] by (auto simp: Itoa_def is_space_def)
  then have sub: "SplitN (crypto_value p @ sfx) (CHR '' '') 3 = [Itoa (sp_Index p), sp_Profile p, ''inline:'' @ ?b @ sfx]"
    using supported_no_space [OF sp(1)] by (simp add: crypto_value_def numeral_3_eq_3 cut_at_append)
  have nth: "[x, y, z] ! 0 = x" "[x, y, z] ! 1 = y" "[x, y, z] ! 2 = z" for x y z :: string by simp_all
  have "\<not> ContainsAny (?b @ sfx) [CHR '' '', CHR 0x09]"
    using b64_encode_chars sfx by (auto simp: ContainsAny_def list_ex_iff is_space_def)
  moreover have "CutPrefix (''inline:'' @ ?b @ sfx) ''inline:'' = Some (?b @ sfx)" by (simp add: CutPrefix_def)
  moreover have "p\<lparr>sp_MKI := mki, sp_Lifetime := lt\<rparr> = \<lparr>sp_Index = sp_Index p, sp_Profile = sp_Profile p, sp_Key = sp_Key p,
      sp_Salt = sp_Salt p, sp_MKI = mki, sp_Lifetime = lt\<rparr>" by simp
  ultimately show ?thesis
    using sp p(2,3) nth parts lt mki
    unfolding parseSRTPProfile_def crypto_value_trim [OF p(2) sfx] sub Let_def nth
    by (cases "length (sp_Key p @ sp_Salt p) mod 3 = 0") (simp_all add: Atoi_Itoa b64_decode_encode del: append.simps)
qed

section \<open>Lemmas on master key indicators and lifetimes\<close>

definition be_value :: "bytes \<Rightarrow> nat" where
  "be_value bs = foldl (\<lambda>a b. a * 256 + unat b) 0 bs"

fun be_digits :: "nat \<Rightarrow> nat \<Rightarrow> bytes" where
  "be_digits 0 x = []"
| "be_digits (Suc n) x = be_digits n (x div 256) @ [word_of_nat (x mod 256)]"

lemma length_be_digits [simp]: "length (be_digits n x) = n"
  by (induction n arbitrary: x) auto

lemma be_value_digits: "x < 256 ^ n \<Longrightarrow> be_value (be_digits n x) = x"
proof (induction n arbitrary: x)
  case (Suc n)
  then have "x div 256 < 256 ^ n" by (simp add: less_mult_imp_div_less mult.commute)
  with Suc.IH [of "x div 256"] show ?case by (simp add: be_value_def unat_of_nat)
qed (simp add: be_value_def)

lemma drop_be_digits: "drop k (be_digits (n + k) x) = be_digits n x"
  by (induction n arbitrary: x) simp_all

lemma low_byte: "(word_of_nat (x mod 256) :: u8) = word_of_nat x"
  by (simp add: word_unat_eq_iff unat_of_nat)

lemma ucast_drop_bit: "(ucast (drop_bit k (w :: u64)) :: u8) = word_of_nat (unat w div 2 ^ k)"
  unfolding word_unat_eq_iff unsigned_ucast_eq unsigned_drop_bit_eq unat_of_nat
  using unsigned_less [of w, where ?'a = nat] by (simp add: take_bit_eq_mod drop_bit_eq_div)

lemma be_digits_map: "be_digits n x = map (\<lambda>i. word_of_nat (x div 256 ^ i)) (rev [0..<n])"
proof (induction n arbitrary: x)
  case (Suc n)
  have "rev [0..<Suc n] = map Suc (rev [0..<n]) @ [0]"
    by (simp only: upt_conv_Cons [OF zero_less_Suc] map_Suc_upt [symmetric] rev.simps rev_map)
  with Suc.IH [of "x div 256"] show ?case by (simp add: low_byte div_mult2_eq)
qed simp

lemma put_be64_digits: "put_be64 w = be_digits 8 (unat w)"
proof -
  have i: "[0..<8] = [0, 1, 2, 3, 4, 5, 6, 7 :: nat]" by (simp add: upt_rec)
  show ?thesis unfolding put_be64_def be_digits_map i by (simp add: ucast_drop_bit)
qed

lemma parseMKI_canonical:
  assumes "v < 2 ^ 64" "n < 256"
  shows "parseMKI (itoa_nat v @ '':'' @ itoa_nat n) =
    (if n = 0 \<or> n > 8 then Inl (ErrOther ''supported MKI length between 1 and 8 bytes'')
     else if n = 8 \<or> v \<ge> 256 ^ n then Inl (ErrOther ''value is too large'')
     else Inr (be_digits n v))"
proof -
  have colon: "CHR '':'' \<notin> set (itoa_nat v)" by (rule itoa_no_char) (simp add: digit_val_def)
  have "TrimSpace (itoa_nat v @ '':'' @ itoa_nat n) = itoa_nat v @ '':'' @ itoa_nat n"
    using itoa_nonempty [of v] itoa_nonempty [of n] by (intro TrimSpace_id) (auto simp: hd_append itoa_ends)
  moreover have "SplitN (itoa_nat v @ '':'' @ itoa_nat n) (CHR '':'') 2 = [itoa_nat v, itoa_nat n]"
    using colon by (simp add: numeral_2_eq_2 cut_at_append)
  moreover have "unat (push_bit (n * 8) (1 :: u64)) = (if n = 8 then 0 else 256 ^ n)" if "n \<le> 8"
  proof -
    from that have "n \<in> {0, 1, 2, 3, 4, 5, 6, 7, 8}" by auto
    then show ?thesis by (elim insertE) simp_all
  qed
  moreover have "drop (8 - n) (be_digits 8 v) = be_digits n v" if "n \<le> 8"
    using drop_be_digits [of "8 - n" n v] that by simp
  ultimately show ?thesis using assms
    by (auto simp: parseMKI_def Let_def ParseUint_Itoa word_le_nat_alt unat_of_nat put_be64_digits)
qed

section \<open>Lemmas on the choice of a profile\<close>

lemma find_hit: "find P xs = Some x \<Longrightarrow> x \<in> set xs \<and> P x"
  by (auto simp: find_Some_iff)

lemma select_answer_spec:
  "select_answer offer answer swap = Some r \<Longrightarrow>
    \<exists>off ans sp. ans \<in> set answer \<and> find (\<lambda>off. sp_Profile off = sp_Profile ans) offer = Some off \<and>
      profile_Parse (sp_Profile ans) = Inr sp \<and> r = crypto_pair off ans sp swap"
  by (induction offer answer swap rule: select_answer.induct) (force split: sum.splits option.splits)+

lemma find_offered: "find (\<lambda>off. sp_Profile off = s) offer = Some off \<Longrightarrow> s \<in> sp_Profile ` set offer"
  using find_hit [of "\<lambda>off. sp_Profile off = s" offer off] by blast

lemma find_not_offered: "find (\<lambda>off. sp_Profile off = s) offer = None \<Longrightarrow> s \<notin> sp_Profile ` set offer"
  by (auto simp: find_None_iff)

lemma select_answer_None:
  "select_answer offer answer swap = None \<longleftrightarrow>
    (\<forall>ans \<in> set answer. (\<exists>sp. profile_Parse (sp_Profile ans) = Inr sp) \<longrightarrow> sp_Profile ans \<notin> sp_Profile ` set offer)"
  by (induction offer answer swap rule: select_answer.induct)
    (auto dest: find_offered find_not_offered split: sum.splits option.splits)

lemma printed_parts: "Split (b64_encode bs @ []) (CHR ''|'') = [b64_encode bs]"
  using Split_none b64_encode_chars by fastforce

lemma parse_crypto_value:
  assumes "profile_fits key_len p" "0 \<le> sp_Index p" "sp_Index p < 2 ^ 63"
  shows "parseSRTPProfile key_len (crypto_value p) = Inr (Some (p\<lparr>sp_MKI := [], sp_Lifetime := 0\<rparr>))"
  using parse_crypto_parts [OF assms, of "[]" "[]"] printed_parts by (simp add: optional_part_def)

lemma parseLifetime_exp: "e < 64 \<Longrightarrow> parseLifetime (''2^'' @ itoa_nat e) = Inr (push_bit e 1)"
proof -
  assume e: "e < 64"
  have "TrimSpace (''2^'' @ itoa_nat e) = ''2^'' @ itoa_nat e"
    using itoa_nonempty [of e] itoa_ends [of e] by (intro TrimSpace_id) (simp_all add: is_space_def)
  then show ?thesis using e by (simp add: parseLifetime_def HasPrefix_def ParseUint_Itoa)
qed

lemma printed_rest:
  assumes "e < 64" "0 < n" "n < 8" "v < 256 ^ n"
  defines "sfx \<equiv> ''|2^'' @ itoa_nat e @ ''|'' @ itoa_nat v @ '':'' @ itoa_nat n"
  shows "\<forall>c \<in> set sfx. \<not> is_space c"
    "Split (b64_encode bs @ sfx) (CHR ''|'') = [b64_encode bs, ''2^'' @ itoa_nat e, itoa_nat v @ '':'' @ itoa_nat n]"
    "parseLifetime (''2^'' @ itoa_nat e) = Inr (push_bit e 1)"
    "parseMKI (itoa_nat v @ '':'' @ itoa_nat n) = Inr (be_digits n v)"
proof -
  have bar: "CHR ''|'' \<notin> set (itoa_nat k)" for k by (rule itoa_no_char) (simp add: digit_val_def)
  have nb: "CHR ''|'' \<notin> set (b64_encode bs)" using b64_encode_chars by blast
  show "\<forall>c \<in> set sfx. \<not> is_space c" using itoa_not_space by (auto simp: sfx_def is_space_def)
  show "Split (b64_encode bs @ sfx) (CHR ''|'') = [b64_encode bs, ''2^'' @ itoa_nat e, itoa_nat v @ '':'' @ itoa_nat n]"
    using bar nb Split_append [of "CHR ''|''" "''2^'' @ itoa_nat e"] by (simp add: sfx_def Split_append Split_none)
  show "parseLifetime (''2^'' @ itoa_nat e) = Inr (push_bit e 1)" by (rule parseLifetime_exp) fact
  have "(256 :: nat) ^ n \<le> 256 ^ 7" using assms(3) by (intro power_increasing) auto
  with assms(4) have "v < 2 ^ 64" by simp
  with assms show "parseMKI (itoa_nat v @ '':'' @ itoa_nat n) = Inr (be_digits n v)"
    using parseMKI_canonical [of v n] by simp
qed

section \<open>Properties\<close>

text \<open>The key, salt and tag of the example, for a suite with keys of 16 bytes.\<close>

definition example_profile :: srtp_profile where
  "example_profile = \<lparr>sp_Index = 1, sp_Profile = ''AES_CM_128_HMAC_SHA1_80'', sp_Key = replicate 16 7, sp_Salt = replicate 14 9,
     sp_MKI = [], sp_Lifetime = 0\<rparr>"

definition example_len :: suite_len where
  "example_len sp = (if sp = ProtectionProfileAes128CmHmacSha1_80 \<or> sp = ProtectionProfileAes128CmHmacSha1_32 then Inr 16 else Inr 32)"

text \<open>
  A crypto attribute survives the wire.  The value printed for a profile whose key has its suite's
  length parses back to the profile, whatever padding its base64 needs; with a lifetime \<open>2^e\<close> and a key
  indicator of 1 to 7 bytes behind it, as RFC 4568 allows, those are read too, the indicator big-endian.
\<close>

theorem crypto_attribute_roundtrip:
  assumes "profile_fits key_len p" "0 \<le> sp_Index p" "sp_Index p < 2 ^ 63" "e < 64" "0 < n" "n < 8" "v < 256 ^ n"
  shows "parseSRTPProfile key_len (crypto_value p) = Inr (Some (p\<lparr>sp_MKI := [], sp_Lifetime := 0\<rparr>)) \<and>
    (\<exists>mki. parseSRTPProfile key_len (crypto_value p @ ''|2^'' @ itoa_nat e @ ''|'' @ itoa_nat v @ '':'' @ itoa_nat n) =
        Inr (Some (p\<lparr>sp_MKI := mki, sp_Lifetime := push_bit e 1\<rparr>)) \<and> length mki = n \<and> be_value mki = v)"
proof (intro conjI exI [of _ "be_digits n v"])
  show "parseSRTPProfile key_len (crypto_value p) = Inr (Some (p\<lparr>sp_MKI := [], sp_Lifetime := 0\<rparr>))"
    by (rule parse_crypto_value [OF assms(1-3)])
  show "parseSRTPProfile key_len (crypto_value p @ ''|2^'' @ itoa_nat e @ ''|'' @ itoa_nat v @ '':'' @ itoa_nat n) =
      Inr (Some (p\<lparr>sp_MKI := be_digits n v, sp_Lifetime := push_bit e 1\<rparr>))"
    by (rule parse_crypto_parts [OF assms(1-3) printed_rest(1,2) [OF assms(4-7)]])
      (use printed_rest(3,4) [OF assms(4-7)] in \<open>simp_all add: optional_part_def\<close>)
qed (simp_all add: be_value_digits assms(7))

text \<open>
  C33: key indicators.  Of the canonical texts \<open>value:length\<close> exactly those with a length of 1 to 7 bytes
  that hold the value are accepted, and read big-endian.  An indicator of 8 bytes, which the length check
  lets pass, is always refused: its bound is a shift by 64 bits, which is 0.
\<close>

theorem parseMKI_exact:
  assumes "v < 2 ^ 64" "n < 256"
  shows "case parseMKI (itoa_nat v @ '':'' @ itoa_nat n) of
      Inl _ \<Rightarrow> n = 0 \<or> n \<ge> 8 \<or> v \<ge> 256 ^ n
    | Inr mki \<Rightarrow> 1 \<le> n \<and> n \<le> 7 \<and> v < 256 ^ n \<and> length mki = n \<and> be_value mki = v"
  using parseMKI_canonical [OF assms] be_value_digits [of v n] by auto

theorem parseMKI_exact_witness:
  "\<exists>e. parseMKI (itoa_nat 1 @ '':'' @ itoa_nat 8) = Inl e"
  using parseMKI_exact [of 1 8] by (auto split: sum.splits)

theorem crypto_attribute_roundtrip_witness:
  "\<exists>mki. parseSRTPProfile example_len (crypto_value example_profile @ ''|2^'' @ itoa_nat 20 @ ''|'' @ itoa_nat 258 @ '':'' @ itoa_nat 4) =
      Inr (Some (example_profile\<lparr>sp_MKI := mki, sp_Lifetime := push_bit 20 1\<rparr>)) \<and> length mki = 4 \<and> be_value mki = 258"
  by (rule crypto_attribute_roundtrip [THEN conjunct2])
    (simp_all add: example_profile_def example_len_def profile_fits_def profile_Parse_def)

text \<open>What \<open>LocalProfiles\<close> makes: a profile that the printed attribute carries whole.\<close>

definition wire_profile :: "suite_len \<Rightarrow> srtp_profile \<Rightarrow> bool" where
  "wire_profile key_len p \<longleftrightarrow> profile_fits key_len p \<and> sp_MKI p = [] \<and> sp_Lifetime p = 0 \<and> 0 \<le> sp_Index p \<and> sp_Index p < 2 ^ 63"

lemma wire_profile_parse: "wire_profile key_len p \<Longrightarrow> parseSRTPProfile key_len (crypto_value p) = Inr (Some p)"
  by (simp add: wire_profile_def parse_crypto_value)

lemma DefaultProfiles_wire:
  assumes "DefaultProfiles key_len salt_len rnd s = (Inr ps, s1)"
    and "\<And>n s b s'. rnd n s = (Inr b, s') \<Longrightarrow> length b = n"
  shows "map sp_Profile ps = defaultProfiles \<and> list_all (wire_profile key_len) ps"
proof -
  note ok = gen_profiles_ok [OF assms(1) [unfolded DefaultProfiles_def], OF assms(2)]
  then show ?thesis by (fastforce simp: list_all_iff wire_profile_def defaultProfiles_def)
qed

lemma crypto_mirrored:
  assumes "list_all (wire_profile key_len) offer" "list_all (wire_profile key_len) answer" "offer \<noteq> []"
  shows "map (parseSRTPProfile key_len \<circ> crypto_value) offer = map (Inr \<circ> Some) offer \<and>
    (case SelectCrypto offer answer True of
       None \<Rightarrow> sp_Profile ` set offer \<inter> sp_Profile ` set answer = {}
     | Some (c1, prof) \<Rightarrow> \<exists>c2 off. parseSRTPProfile key_len (crypto_value prof) = Inr (Some prof) \<and>
         SelectCrypto offer [prof] False = Some (c2, off) \<and> off \<in> set offer \<and>
         sp_Index off = sp_Index prof \<and> sp_Profile off = sp_Profile prof \<and> sc_Profile c2 = sc_Profile c1 \<and>
         sc_Keys c2 = swap_keys (sc_Keys c1))"
proof -
  have parsed: "map (parseSRTPProfile key_len \<circ> crypto_value) offer = map (Inr \<circ> Some) offer"
    using assms(1) wire_profile_parse by (auto simp: list_all_iff)
  show ?thesis
  proof (cases "SelectCrypto offer answer True")
    case None
    have "\<exists>sp. profile_Parse (sp_Profile ans) = Inr sp" if "ans \<in> set answer" for ans
      using that assms(2) by (cases "profile_Parse (sp_Profile ans)") (auto simp: list_all_iff wire_profile_def profile_fits_def)
    with None have "sp_Profile ans \<notin> sp_Profile ` set offer" if "ans \<in> set answer" for ans
      using that assms(3) select_answer_None [of offer answer True] by (simp add: SelectCrypto_def)
    then have "sp_Profile ` set offer \<inter> sp_Profile ` set answer = {}"
      unfolding disjoint_iff by (metis imageE)
    with None parsed show ?thesis by simp
  next
    case (Some r)
    obtain c1 prof where r: "r = (c1, prof)" by (cases r)
    from Some r obtain off ans sp where o: "ans \<in> set answer" "find (\<lambda>off. sp_Profile off = sp_Profile ans) offer = Some off"
      "profile_Parse (sp_Profile ans) = Inr sp" "(c1, prof) = crypto_pair off ans sp True"
      using select_answer_spec by (fastforce simp: SelectCrypto_def assms(3))
    have off: "off \<in> set offer" "sp_Profile off = sp_Profile ans" using find_hit [OF o(2)] by auto
    have prof: "prof = ans\<lparr>sp_Index := sp_Index off\<rparr>" using o(4) by (simp add: crypto_pair_def Let_def)
    have wire: "wire_profile key_len prof"
      using assms(1,2) o(1,3) off(1) unfolding prof by (auto simp: list_all_iff wire_profile_def profile_fits_def)
    have "profile_Parse (sp_Profile prof) = Inr sp" "find (\<lambda>off. sp_Profile off = sp_Profile prof) offer = Some off"
      using o(2,3) by (simp_all add: prof)
    then have sel: "SelectCrypto offer [prof] False = Some (crypto_pair off prof sp False)"
      by (simp add: SelectCrypto_def assms(3))
    have "snd (crypto_pair off prof sp False) = off" "sp_Index off = sp_Index prof" "sp_Profile off = sp_Profile prof"
      "sc_Profile (fst (crypto_pair off prof sp False)) = sc_Profile c1"
      "sc_Keys (fst (crypto_pair off prof sp False)) = swap_keys (sc_Keys c1)"
      using o(4) off(2) by (simp_all add: crypto_pair_def swap_keys_def Let_def)
    with sel off(1) wire_profile_parse [OF wire] parsed Some r show ?thesis
      by (cases "crypto_pair off prof sp False") simp
  qed
qed

text \<open>
  C15: both sides derive the same keys.  Let both sides have profiles such as \<open>LocalProfiles\<close> makes.  The
  answerer, who reads the printed offer, finds no profile only when no suite of the answer is supported
  and offered; otherwise the profile it puts into its answer, printed and parsed, makes the offerer pick
  the suite the answerer picked, under the tag of the offer, with the local and the remote keys exchanged.
\<close>

theorem crypto_agree:
  assumes "list_all (wire_profile key_len) offer" "list_all (wire_profile key_len) answer" "offer \<noteq> []"
  shows "map (parseSRTPProfile key_len \<circ> crypto_value) offer = map (Inr \<circ> Some) offer \<and>
    (case SelectCrypto offer answer True of
       None \<Rightarrow> sp_Profile ` set offer \<inter> sp_Profile ` set answer = {}
     | Some (c1, prof) \<Rightarrow> \<exists>c2 off. parseSRTPProfile key_len (crypto_value prof) = Inr (Some prof) \<and>
         SelectCrypto offer [prof] False = Some (c2, off) \<and> off \<in> set offer \<and>
         sp_Index off = sp_Index prof \<and> sp_Profile off = sp_Profile prof \<and> sc_Profile c2 = sc_Profile c1 \<and>
         sc_Keys c2 = swap_keys (sc_Keys c1))"
  by (rule crypto_mirrored [OF assms])

theorem crypto_agree_witness:
  "case SelectCrypto [example_profile\<lparr>sp_Index := 3\<rparr>] [example_profile] True of None \<Rightarrow> False
   | Some (c1, prof) \<Rightarrow> \<exists>c2 off. SelectCrypto [example_profile\<lparr>sp_Index := 3\<rparr>] [prof] False = Some (c2, off) \<and>
       sp_Index off = 3 \<and> sc_Keys c2 = swap_keys (sc_Keys c1)"
proof -
  have "list_all (wire_profile example_len) [example_profile\<lparr>sp_Index := 3\<rparr>]" "list_all (wire_profile example_len) [example_profile]"
    by (simp_all add: wire_profile_def example_profile_def example_len_def profile_fits_def profile_Parse_def)
  from crypto_agree [OF this] show ?thesis
    by (auto simp: example_profile_def split: option.splits)
qed

end
