(* ===== verification/Sdp_Media.thy ===== *)
theory Sdp_Media
  imports Codec_Types Sdp_Crypto Rtp_Mux "HOL-Library.Char_ord" "HOL-Library.List_Lexorder" "HOL-Library.Product_Lexorder"
begin

text \<open>
  The media section of an SDP description (\<open>sdp/codecs.go\<close>, \<open>sdp/helpers.go\<close> and \<open>sdp/offer.go\<close>): offering and
  answering codecs, parsing, and the choice of the audio codec.  The structures of \<open>pion/sdp\<close> are records
  with the fields the code uses; \<open>sdp.NewDirection\<close> is a parameter.
\<close>

section \<open>Codecs by name\<close>

text \<open>The codecs of the program: the registry and the tables its callbacks have filled.\<close>

record sdp_env =
  se_globals :: "unit codec_globals"
  se_byName :: "string \<Rightarrow> codec_type option"
  se_byType :: "codec_type option list"

abbreviation "se_sets e \<equiv> cg_sets (se_globals e)"

definition byName_onRegister :: "codec_type \<Rightarrow> (string \<Rightarrow> codec_type option) \<Rightarrow> string \<Rightarrow> codec_type option" where
  "byName_onRegister c byName = (let name = ti_Name (ct_info c) in if name \<noteq> [] then byName(ToLower name \<mapsto> c) else byName)"

text \<open>A nil set stands for the global one.\<close>

definition or_global :: "nat option \<Rightarrow> nat option" where
  "or_global s = (case s of None \<Rightarrow> Some 0 | Some i \<Rightarrow> Some i)"

definition CodecByNameWith :: "sdp_env \<Rightarrow> nat option \<Rightarrow> string \<Rightarrow> codec_type option" where
  "CodecByNameWith e s name =
     (let c = se_byName e (base_name name) in if \<not> IsEnabled (se_sets e) (or_global s) c then None else c)"

definition CodecByName :: "sdp_env \<Rightarrow> string \<Rightarrow> codec_type option" where
  "CodecByName e name = CodecByNameWith e GlobalCodecs name"

section \<open>Data\<close>

record sdp_codec_info =
  si_Type :: u8
  si_Codec :: "codec_type option"
  si_Info :: codec_info

definition sdp_info_Equals :: "sdp_codec_info option \<Rightarrow> sdp_codec_info option \<Rightarrow> bool" where
  "sdp_info_Equals c c2 =
     (case (c, c2) of (None, None) \<Rightarrow> True
      | (Some a, Some b) \<Rightarrow> si_Type a = si_Type b \<and> info_Equals (Some (si_Info a)) (Some (si_Info b))
      | _ \<Rightarrow> False)"

datatype encryption = EncryptionNone | EncryptionAllow | EncryptionRequire

text \<open>A direction is a number of \<open>pion/sdp\<close>; 0 is unset.\<close>

record media_desc =
  md_Audio :: "sdp_codec_info list"
  md_Data :: "sdp_codec_info list"
  md_Unknown :: "sdp_codec_info list"
  md_CryptoProfiles :: "srtp_profile list"
  md_Direction :: nat

record connection_information =
  con_NetworkType :: string
  con_AddressType :: string
  con_Address :: "string option"

record media_name =
  mn_Media :: string
  mn_Port :: int
  mn_Protos :: "string list"
  mn_Formats :: "string list"

record media_description =
  mm_MediaName :: media_name
  mm_ConnectionInformation :: "connection_information option"
  mm_Attributes :: "attribute list"

record audio_config =
  ac_Codec :: sdp_codec_info
  ac_DTMF :: "sdp_codec_info option"

section \<open>Offering\<close>

definition offer_one :: "codec_type \<Rightarrow> codec_info \<Rightarrow> u8 \<Rightarrow> sdp_codec_info \<times> u8" where
  "offer_one c ci nextType =
     (if ti_RTPIsStatic (ct_info c) then (\<lparr>si_Type = ti_RTPDefType (ct_info c), si_Codec = Some c, si_Info = ci\<rparr>, nextType)
      else (\<lparr>si_Type = nextType, si_Codec = Some c, si_Info = ci\<rparr>, nextType + 1))"

fun offer_infos :: "(codec_type \<times> codec_info) list \<Rightarrow> u8 \<Rightarrow> sdp_codec_info list" where
  "offer_infos [] nextType = []"
| "offer_infos ((c, ci) # cs) nextType = (let (info, nextType1) = offer_one c ci nextType in info # offer_infos cs nextType1)"

text \<open>\<open>slices.SortFunc\<close> by priority, highest first, then by name; the order of codecs that have both in common is left open in Go.\<close>

definition sort_codecs :: "codec_type list \<Rightarrow> codec_type list" where
  "sort_codecs = sort_key (\<lambda>c. (- ti_Priority (ct_info c), ti_Name (ct_info c)))"

definition OfferCodecsWith :: "sdp_env \<Rightarrow> nat option \<Rightarrow> sdp_codec_info list" where
  "OfferCodecsWith e s0 =
     (let s = or_global s0; codecs = sort_codecs (ListEnabled (se_globals e) s)
      in offer_infos (concat (map (\<lambda>c. map (Pair c) (codec_Offer c (se_sets e) s)) codecs)) 101)"

definition OfferCodecs :: "sdp_env \<Rightarrow> sdp_codec_info list" where
  "OfferCodecs e = OfferCodecsWith e GlobalCodecs"

definition rtpmap_value :: "u8 \<Rightarrow> codec_info \<Rightarrow> string" where
  "rtpmap_value ty ci = Itoa (uint ty) @ '' '' @ SDPFullName ci"

definition fmtp_value :: "u8 \<Rightarrow> codec_params \<Rightarrow> string" where
  "fmtp_value ty params = Itoa (uint ty) @ '' '' @ params_String params"

definition codec_lines :: "u8 \<Rightarrow> codec_info \<Rightarrow> attribute list" where
  "codec_lines ty ci =
     \<lparr>at_Key = ''rtpmap'', at_Value = rtpmap_value ty ci\<rparr> #
     (if cc_Params (ci_Config ci) \<noteq> [] then
        [\<lparr>at_Key = ''fmtp'', at_Value = fmtp_value ty (cc_Params (ci_Config ci))\<rparr>] else [])"

definition tail_attributes :: "attribute list" where
  "tail_attributes = [\<lparr>at_Key = ''ptime'', at_Value = ''20''\<rparr>, \<lparr>at_Key = ''sendrecv'', at_Value = []\<rparr>]"

definition audio_section :: "int \<Rightarrow> bool \<Rightarrow> string list \<Rightarrow> attribute list \<Rightarrow> media_description" where
  "audio_section port secure formats attrs =
     \<lparr>mm_MediaName = \<lparr>mn_Media = ''audio'', mn_Port = port, mn_Protos = [''RTP'', if secure then ''SAVP'' else ''AVP''],
        mn_Formats = formats\<rparr>, mm_ConnectionInformation = None, mm_Attributes = attrs\<rparr>"

abbreviation "si_kind c \<equiv> ti_Kind (ci_Type (si_Info c))"

text \<open>\<open>locals\<close> is \<open>opt.Srtp.LocalProfiles\<close> with the state of the random source.\<close>

definition OfferMediaWith ::
  "sdp_env \<Rightarrow> ('s \<Rightarrow> (go_error + srtp_profile list) \<times> 's) \<Rightarrow> nat option \<Rightarrow> int \<Rightarrow> encryption \<Rightarrow> 's \<Rightarrow>
    (go_error + media_desc \<times> media_description) \<times> 's" where
  "OfferMediaWith e locals s port encrypted st =
     (let codecs = filter (\<lambda>c. si_kind c \<noteq> Unknown) (OfferCodecsWith e s);
          formats = map (\<lambda>c. Itoa (uint (si_Type c))) codecs;
          attrs = concat (map (\<lambda>c. codec_lines (si_Type c) (si_Info c)) codecs)
      in case (if encrypted \<noteq> EncryptionNone then locals st else (Inr [], st)) of (Inl err, st1) \<Rightarrow> (Inl err, st1)
         | (Inr profiles, st1) \<Rightarrow>
             (Inr (\<lparr>md_Audio = filter (\<lambda>c. si_kind c = Audio) codecs, md_Data = filter (\<lambda>c. si_kind c = Data) codecs,
                 md_Unknown = [], md_CryptoProfiles = profiles, md_Direction = 0\<rparr>,
               audio_section port (encrypted \<noteq> EncryptionNone) formats (appendCryptoProfiles attrs profiles @ tail_attributes)), st1))"

definition OfferMedia ::
  "sdp_env \<Rightarrow> ('s \<Rightarrow> (go_error + srtp_profile list) \<times> 's) \<Rightarrow> int \<Rightarrow> encryption \<Rightarrow> 's \<Rightarrow>
    (go_error + media_desc \<times> media_description) \<times> 's" where
  "OfferMedia e locals port encrypted st = OfferMediaWith e locals GlobalCodecs port encrypted st"

definition AnswerMedia :: "int \<Rightarrow> audio_config \<Rightarrow> srtp_profile option \<Rightarrow> media_description" where
  "AnswerMedia port audio crypt =
     (let c = ac_Codec audio;
          formats0 = [Itoa (uint (si_Type c))]; attrs0 = codec_lines (si_Type c) (si_Info c);
          formats = (case ac_DTMF audio of None \<Rightarrow> formats0 | Some d \<Rightarrow> formats0 @ [Itoa (uint (si_Type d))]);
          attrs1 = (case ac_DTMF audio of None \<Rightarrow> attrs0 | Some d \<Rightarrow> attrs0 @ codec_lines (si_Type d) (si_Info d));
          attrs2 = (case crypt of None \<Rightarrow> attrs1 | Some p \<Rightarrow> appendCryptoProfiles attrs1 [p])
      in audio_section port (crypt \<noteq> None) formats (attrs2 @ tail_attributes))"

section \<open>Parsing\<close>

record line_codec =
  lc_Type :: int
  lc_Name :: string
  lc_Config :: codec_config

text \<open>\<open>getCodec\<close> and the update of what it points to.\<close>

fun with_codec :: "int \<Rightarrow> (line_codec \<Rightarrow> line_codec) \<Rightarrow> line_codec list \<Rightarrow> line_codec list" where
  "with_codec ty f [] = [f \<lparr>lc_Type = ty, lc_Name = [], lc_Config = no_config\<rparr>]"
| "with_codec ty f (c # cs) = (if lc_Type c = ty then f c # cs else c # with_codec ty f cs)"

definition parse_rtpmap :: "string \<Rightarrow> line_codec list \<Rightarrow> line_codec list" where
  "parse_rtpmap v codecs =
     (let sub = SplitN v (CHR '' '') 2
      in if length sub \<noteq> 2 then codecs
         else case Atoi (sub ! 0) of Inl _ \<Rightarrow> codecs
         | Inr typ \<Rightarrow> (let sname = SplitN (sub ! 1) (CHR ''/'') 4
             in if length sname < 2 \<or> length sname > 3 then codecs
                else case Atoi (sname ! 1) of Inl _ \<Rightarrow> codecs
                | Inr rate \<Rightarrow> (case (if length sname > 2 then Atoi (sname ! 2) else Inr 0) of Inl _ \<Rightarrow> codecs
                    | Inr channels \<Rightarrow>
                        with_codec typ (\<lambda>c. c\<lparr>lc_Name := sname ! 0,
                          lc_Config := (lc_Config c)\<lparr>cc_SampleRate := rate, cc_Channels := channels\<rparr>\<rparr>) codecs)))"

definition parse_param :: "string \<Rightarrow> codec_param option" where
  "parse_param par0 =
     (let par = TrimSpace par0
      in if par = [] then None
         else Some (case cut_at (CHR ''='') par of None \<Rightarrow> \<lparr>cp_Key = par, cp_Val = []\<rparr>
           | Some (k, v) \<Rightarrow> \<lparr>cp_Key = TrimSpace k, cp_Val = TrimSpace v\<rparr>))"

definition parse_fmtp :: "string \<Rightarrow> line_codec list \<Rightarrow> line_codec list" where
  "parse_fmtp v codecs =
     (let sub = SplitN v (CHR '' '') 2
      in if length sub \<noteq> 2 then codecs
         else case Atoi (sub ! 0) of Inl _ \<Rightarrow> codecs
         | Inr typ \<Rightarrow> with_codec typ (\<lambda>c. c\<lparr>lc_Config := (lc_Config c)\<lparr>cc_Params :=
               cc_Params (lc_Config c) @ List.map_filter parse_param (Split (sub ! 1) (CHR '';''))\<rparr>\<rparr>) codecs)"

record parse_state =
  ps_codecs :: "line_codec list"
  ps_crypto :: "srtp_profile list"
  ps_direction :: nat

definition parse_attribute :: "suite_len \<Rightarrow> (string \<Rightarrow> go_error + nat) \<Rightarrow> attribute \<Rightarrow> parse_state \<Rightarrow> go_error + parse_state" where
  "parse_attribute key_len newdir m ps =
     (if at_Key m = ''rtpmap'' then Inr (ps\<lparr>ps_codecs := parse_rtpmap (at_Value m) (ps_codecs ps)\<rparr>)
      else if at_Key m = ''fmtp'' then Inr (ps\<lparr>ps_codecs := parse_fmtp (at_Value m) (ps_codecs ps)\<rparr>)
      else if at_Key m = ''crypto'' then
        (case parseSRTPProfile key_len (at_Value m) of Inl _ \<Rightarrow> Inl (ErrOther ''cannot parse srtp profile'')
         | Inr None \<Rightarrow> Inr ps | Inr (Some p) \<Rightarrow> Inr (ps\<lparr>ps_crypto := ps_crypto ps @ [p]\<rparr>))
      else if at_Key m \<in> {''sendrecv'', ''sendonly'', ''recvonly'', ''inactive''} then
        (case newdir (at_Key m) of Inl _ \<Rightarrow> Inr ps | Inr dir \<Rightarrow> Inr (ps\<lparr>ps_direction := dir\<rparr>))
      else Inr ps)"

fun parse_attributes :: "suite_len \<Rightarrow> (string \<Rightarrow> go_error + nat) \<Rightarrow> attribute list \<Rightarrow> parse_state \<Rightarrow> go_error + parse_state" where
  "parse_attributes key_len newdir [] ps = Inr ps"
| "parse_attributes key_len newdir (m # ms) ps =
     (case parse_attribute key_len newdir m ps of Inl e \<Rightarrow> Inl e | Inr ps1 \<Rightarrow> parse_attributes key_len newdir ms ps1)"

definition parse_format :: "string \<Rightarrow> line_codec list \<Rightarrow> line_codec list" where
  "parse_format f codecs = (case Atoi f of Inl _ \<Rightarrow> codecs | Inr typ \<Rightarrow> with_codec typ (\<lambda>c. c) codecs)"

text \<open>\<open>media.CodecInfo{}\<close>, the information of a codec that was not found or does not support the configuration.\<close>

definition zero_info :: codec_info where
  "zero_info = \<lparr>ci_Type = \<lparr>ti_Name = [], ti_Kind = Unknown, ti_RTPDefType = 0, ti_RTPIsStatic = False, ti_Priority = 0, ti_FileExt = []\<rparr>,
     ci_Config = no_config, ci_RTPClockRate = 0\<rparr>"

text \<open>\<open>None\<close> is the panic of the lookup by payload type.\<close>

definition resolve :: "sdp_env \<Rightarrow> nat option \<Rightarrow> line_codec \<Rightarrow> sdp_codec_info option" where
  "resolve e s ci = do {
     codec \<leftarrow> (if lc_Name ci \<noteq> [] then Some (CodecByNameWith e s (lc_Name ci))
       else do { c \<leftarrow> CodecByPayloadType (se_byType e) (word_of_int (lc_Type ci));
                 Some (if \<not> IsEnabled (se_sets e) s c then None else c) });
     Some (case codec of None \<Rightarrow> \<lparr>si_Type = word_of_int (lc_Type ci), si_Codec = None, si_Info = zero_info\<rparr>
       | Some t \<Rightarrow> (case codec_Supports t (lc_Config ci) of
             None \<Rightarrow> \<lparr>si_Type = word_of_int (lc_Type ci), si_Codec = None, si_Info = zero_info\<rparr>
           | Some info \<Rightarrow> \<lparr>si_Type = word_of_int (lc_Type ci), si_Codec = Some t, si_Info = info\<rparr>)) }"

fun resolve_all :: "sdp_env \<Rightarrow> nat option \<Rightarrow> line_codec list \<Rightarrow> sdp_codec_info list option" where
  "resolve_all e s [] = Some []"
| "resolve_all e s (c # cs) = do { x \<leftarrow> resolve e s c; xs \<leftarrow> resolve_all e s cs; Some (x # xs) }"

definition ParseMediaWith ::
  "sdp_env \<Rightarrow> suite_len \<Rightarrow> (string \<Rightarrow> go_error + nat) \<Rightarrow> nat option \<Rightarrow> media_description \<Rightarrow> (go_error + media_desc) option" where
  "ParseMediaWith e key_len newdir s d =
     (case parse_attributes key_len newdir (mm_Attributes d) \<lparr>ps_codecs = [], ps_crypto = [], ps_direction = 0\<rparr> of
        Inl err \<Rightarrow> Some (Inl err)
      | Inr ps \<Rightarrow> do {
          cs \<leftarrow> resolve_all e s (fold parse_format (mn_Formats (mm_MediaName d)) (ps_codecs ps));
          Some (Inr \<lparr>md_Audio = filter (\<lambda>c. si_kind c = Audio) cs, md_Data = filter (\<lambda>c. si_kind c = Data) cs,
            md_Unknown = filter (\<lambda>c. si_kind c = Unknown) cs, md_CryptoProfiles = ps_crypto ps, md_Direction = ps_direction ps\<rparr>) })"

definition ParseMedia ::
  "sdp_env \<Rightarrow> suite_len \<Rightarrow> (string \<Rightarrow> go_error + nat) \<Rightarrow> media_description \<Rightarrow> (go_error + media_desc) option" where
  "ParseMedia e key_len newdir d = ParseMediaWith e key_len newdir GlobalCodecs d"

section \<open>The choice of the codec\<close>

text \<open>The loop stops after the first codec when the description is an answer.\<close>

fun pick_audio :: "bool \<Rightarrow> sdp_codec_info list \<Rightarrow> sdp_codec_info option \<times> int \<Rightarrow> sdp_codec_info option \<times> int" where
  "pick_audio answer [] acc = acc"
| "pick_audio answer (c # cs) (best, priority) =
     (let acc = (if Option.is_none best \<or> ti_Priority (ci_Type (si_Info c)) > priority then (Some c, ti_Priority (ci_Type (si_Info c)))
            else (best, priority))
      in if answer then acc else pick_audio answer cs acc)"

definition is_dtmf :: "sdp_codec_info \<Rightarrow> bool" where
  "is_dtmf d \<longleftrightarrow> ti_Name (ci_Type (si_Info d)) = ''telephone-event''"

abbreviation "si_rate c \<equiv> ci_RTPClockRate (si_Info c)"

text \<open>Without events at the rate of the audio, those of the highest rate below it.\<close>

fun pick_lower :: "int \<Rightarrow> sdp_codec_info list \<Rightarrow> sdp_codec_info option \<times> int \<Rightarrow> sdp_codec_info option \<times> int" where
  "pick_lower rate [] acc = acc"
| "pick_lower rate (d # ds) (best, maxRate) =
     (if \<not> is_dtmf d then pick_lower rate ds (best, maxRate)
      else if si_rate d > rate then pick_lower rate ds (best, maxRate)
      else if maxRate < 0 \<or> si_rate d > maxRate then pick_lower rate ds (Some d, si_rate d)
      else pick_lower rate ds (best, maxRate))"

definition ErrNoCommonMedia :: go_error where
  "ErrNoCommonMedia = ErrOther ''common audio codec not found''"

definition SelectAudio :: "media_desc \<Rightarrow> bool \<Rightarrow> go_error + audio_config" where
  "SelectAudio desc answer =
     (case fst (pick_audio answer (md_Audio desc) (None, 0)) of None \<Rightarrow> Inl ErrNoCommonMedia
      | Some a \<Rightarrow>
          let d = (case find (\<lambda>d. is_dtmf d \<and> si_rate d = si_rate a) (md_Data desc) of Some d \<Rightarrow> Some d
                | None \<Rightarrow> fst (pick_lower (si_rate a) (md_Data desc) (None, -1)))
          in Inr \<lparr>ac_Codec = a, ac_DTMF = d\<rparr>)"

end
