(* ===== verification/Sdp_Lines.thy ===== *)
theory Sdp_Lines
  imports Sdp_Media
begin

text \<open>
  What the attributes printed for codecs and crypto profiles parse to: the lemmas behind the agreement of
  the two sides of a negotiation.
\<close>

section \<open>Printed parameters\<close>

lemma Split_Join:
  "xs \<noteq> [] \<Longrightarrow> list_all (\<lambda>x. c \<notin> set x) xs \<Longrightarrow> Split (Join xs [c]) c = xs"
  by (induction xs "[c]" rule: Join.induct) (simp_all add: Split_none Split_append)

lemma clean_trim: "clean_text s \<Longrightarrow> TrimSpace s = s"
  by (cases "s = []") (simp_all add: TrimSpace_id clean_text_def, simp add: TrimSpace_def)

lemma clean_key_eq:
  assumes "clean_text k" "k \<noteq> []" "clean_text v" "v \<noteq> []"
  shows "TrimSpace (k @ ''='' @ v) = k @ ''='' @ v"
  using assms by (intro TrimSpace_id) (auto simp: clean_text_def hd_append)

lemma parse_param_String: "clean_param p \<Longrightarrow> parse_param (param_String p) = Some p"
proof -
  assume p: "clean_param p"
  show ?thesis
  proof (cases "cp_Val p = []")
    case True
    then show ?thesis using p by (simp add: parse_param_def param_String_def clean_param_def clean_trim cut_at_None Let_def)
  next
    case False
    then have "cut_at (CHR ''='') (cp_Key p @ ''='' @ cp_Val p) = Some (cp_Key p, cp_Val p)"
      using p cut_at_append [of "CHR ''=''" "cp_Key p" "cp_Val p"] by (simp add: clean_param_def)
    moreover have "TrimSpace (cp_Key p @ ''='' @ cp_Val p) = cp_Key p @ ''='' @ cp_Val p"
      using p False by (intro clean_key_eq) (auto simp: clean_param_def)
    ultimately show ?thesis using p False
      unfolding parse_param_def param_String_def Let_def by (simp add: clean_param_def clean_trim del: append.simps)
  qed
qed

lemma clean_no_semicolon: "clean_param p \<Longrightarrow> CHR '';'' \<notin> set (param_String p)"
  by (auto simp: param_String_def clean_param_def clean_text_def)

lemma map_filter_all: "(\<And>x. x \<in> set xs \<Longrightarrow> f (g x) = Some x) \<Longrightarrow> List.map_filter f (map g xs) = xs"
  by (induction xs) (simp_all add: List.map_filter_simps)

lemma params_parse:
  assumes "ps \<noteq> []" "list_all clean_param ps"
  shows "List.map_filter parse_param (Split (params_String ps) (CHR '';'')) = ps"
proof -
  have "Split (params_String ps) (CHR '';'') = map param_String ps"
    unfolding params_String_def
    by (rule Split_Join) (use assms clean_no_semicolon in \<open>auto simp: list_all_iff\<close>)
  then show ?thesis using assms(2) by (simp add: map_filter_all parse_param_String list_all_iff)
qed

section \<open>Printed codecs\<close>

text \<open>The information of a codec whose lines survive, and the codec they parse to.\<close>

definition printed_info :: "codec_info \<Rightarrow> bool" where
  "printed_info i \<longleftrightarrow> ti_Name (ci_Type i) \<noteq> [] \<and> CHR ''/'' \<notin> set (ti_Name (ci_Type i)) \<and>
     CHR '' '' \<notin> set (ti_Name (ci_Type i)) \<and> clean_config (said i)"

definition line_of :: "u8 \<Rightarrow> codec_info \<Rightarrow> line_codec" where
  "line_of ty i = \<lparr>lc_Type = uint ty, lc_Name = ti_Name (ci_Type i), lc_Config = said i\<rparr>"

lemma with_codec_new: "ty \<notin> lc_Type ` set cs \<Longrightarrow> with_codec ty f cs = cs @ [f \<lparr>lc_Type = ty, lc_Name = [], lc_Config = no_config\<rparr>]"
  by (induction cs) auto

lemma with_codec_last: "ty \<notin> lc_Type ` set cs \<Longrightarrow> lc_Type c = ty \<Longrightarrow> with_codec ty f (cs @ [c]) = cs @ [f c]"
  by (induction cs) auto

lemma with_codec_id: "ty \<in> lc_Type ` set cs \<Longrightarrow> with_codec ty (\<lambda>c. c) cs = cs"
  by (induction cs) auto

lemma Itoa_no_sep: "CHR '' '' \<notin> set (Itoa i)" "CHR ''/'' \<notin> set (Itoa i)"
  by (rule Itoa_no_char; simp add: digit_val_def)+

lemma Atoi_type [simp]: "Atoi (Itoa (uint (ty :: u8))) = Inr (uint ty)"
proof (rule Atoi_Itoa)
  have "- (2 ^ 63) \<le> (0 :: int)" by simp
  also have "0 \<le> uint ty" by (rule unsigned_greater_eq)
  finally show "- (2 ^ 63) \<le> uint ty" .
  show "uint ty < 2 ^ 63" using unsigned_less [of ty, where ?'a = int] by simp
qed

lemma Atoi_int64: "int64 i \<Longrightarrow> Atoi (Itoa i) = Inr i"
  by (simp add: int64_def Atoi_Itoa)

lemma parse_rtpmap_printed:
  assumes "printed_info i"
  shows "parse_rtpmap (rtpmap_value ty i) cs = with_codec (uint ty)
    (\<lambda>c. c\<lparr>lc_Name := ti_Name (ci_Type i),
       lc_Config := (lc_Config c)\<lparr>cc_SampleRate := ci_RTPClockRate i, cc_Channels := cc_Channels (ci_Config i)\<rparr>\<rparr>) cs"
proof -
  let ?n = "ti_Name (ci_Type i)"
  have n: "CHR ''/'' \<notin> set ?n" "CHR '' '' \<notin> set ?n" and r: "int64 (ci_RTPClockRate i)" "int64 (cc_Channels (ci_Config i))"
    using assms by (simp_all add: printed_info_def clean_config_def said_def)
  have sub: "SplitN (rtpmap_value ty i) (CHR '' '') 2 = [Itoa (uint ty), SDPFullName i]"
    using Itoa_no_sep(1) [of "uint ty"] by (simp add: rtpmap_value_def numeral_2_eq_2 cut_at_append)
  have nth: "[x, y] ! 0 = x" "[x, y] ! 1 = y" "[x, y, z] ! 0 = x" "[x, y, z] ! 1 = y" "[x, y, z] ! 2 = z" for x y z :: string
    by simp_all
  show ?thesis
  proof (cases "cc_Channels (ci_Config i) = 0")
    case True
    then have "SplitN (SDPFullName i) (CHR ''/'') 4 = [?n, Itoa (ci_RTPClockRate i)]"
      using n Itoa_no_sep(2) by (simp add: SDPFullName_def eval_nat_numeral cut_at_append cut_at_None)
    then show ?thesis
      unfolding parse_rtpmap_def sub Let_def nth by (simp add: True Atoi_type Atoi_int64 r)
  next
    case False
    then have "SplitN (SDPFullName i) (CHR ''/'') 4 = [?n, Itoa (ci_RTPClockRate i), Itoa (cc_Channels (ci_Config i))]"
      using n Itoa_no_sep(2) by (simp add: SDPFullName_def eval_nat_numeral cut_at_append cut_at_None)
    then show ?thesis
      unfolding parse_rtpmap_def sub Let_def nth by (simp add: Atoi_type Atoi_int64 r)
  qed
qed

lemma parse_fmtp_printed:
  assumes "ps \<noteq> []" "list_all clean_param ps"
  shows "parse_fmtp (fmtp_value ty ps) cs =
    with_codec (uint ty) (\<lambda>c. c\<lparr>lc_Config := (lc_Config c)\<lparr>cc_Params := cc_Params (lc_Config c) @ ps\<rparr>\<rparr>) cs"
proof -
  have sub: "SplitN (fmtp_value ty ps) (CHR '' '') 2 = [Itoa (uint ty), params_String ps]"
    using Itoa_no_sep(1) [of "uint ty"] by (simp add: fmtp_value_def numeral_2_eq_2 cut_at_append)
  have nth: "[x, y] ! 0 = x" "[x, y] ! 1 = y" for x y :: string by simp_all
  show ?thesis unfolding parse_fmtp_def sub Let_def nth by (simp add: Atoi_type params_parse [OF assms])
qed

lemma parse_attribute_simps [simp]:
  "parse_attribute key_len newdir \<lparr>at_Key = ''rtpmap'', at_Value = v\<rparr> ps = Inr (ps\<lparr>ps_codecs := parse_rtpmap v (ps_codecs ps)\<rparr>)"
  "parse_attribute key_len newdir \<lparr>at_Key = ''fmtp'', at_Value = v\<rparr> ps = Inr (ps\<lparr>ps_codecs := parse_fmtp v (ps_codecs ps)\<rparr>)"
  "parse_attribute key_len newdir \<lparr>at_Key = ''ptime'', at_Value = v\<rparr> ps = Inr ps"
  by (simp_all add: parse_attribute_def)

lemma parse_codec_lines:
  assumes "printed_info i" "uint ty \<notin> lc_Type ` set (ps_codecs ps)"
  shows "parse_attributes key_len newdir (codec_lines ty i @ ms) ps =
    parse_attributes key_len newdir ms (ps\<lparr>ps_codecs := ps_codecs ps @ [line_of ty i]\<rparr>)"
proof -
  have "list_all clean_param (cc_Params (ci_Config i))" using assms(1) by (simp add: printed_info_def clean_config_def said_def)
  then show ?thesis
    by (cases "ci_Config i") (simp add: codec_lines_def parse_rtpmap_printed [OF assms(1)] with_codec_new [OF assms(2)]
      parse_fmtp_printed with_codec_last [OF assms(2)] line_of_def said_def no_config_def)
qed

abbreviation "info_line c \<equiv> line_of (si_Type c) (si_Info c)"
abbreviation "info_attrs c \<equiv> codec_lines (si_Type c) (si_Info c)"
abbreviation "info_format c \<equiv> Itoa (uint (si_Type c))"

lemma parse_all_lines:
  assumes "list_all (\<lambda>c. printed_info (si_Info c)) cs" "distinct (map si_Type cs)"
    and "\<forall>c \<in> set cs. uint (si_Type c) \<notin> lc_Type ` set (ps_codecs ps)"
  shows "parse_attributes key_len newdir (concat (map info_attrs cs) @ ms) ps =
    parse_attributes key_len newdir ms (ps\<lparr>ps_codecs := ps_codecs ps @ map info_line cs\<rparr>)"
  using assms
proof (induction cs arbitrary: ps)
  case (Cons c cs)
  have "\<forall>c' \<in> set cs. uint (si_Type c') \<notin> lc_Type ` set (ps_codecs (ps\<lparr>ps_codecs := ps_codecs ps @ [info_line c]\<rparr>))"
    using Cons.prems by (auto simp: line_of_def image_iff word_uint_eq_iff)
  with Cons show ?case by (simp add: parse_codec_lines)
qed simp

lemma parse_crypto_lines:
  assumes "list_all (wire_profile key_len) profiles"
  shows "parse_attributes key_len newdir (map (\<lambda>p. \<lparr>at_Key = ''crypto'', at_Value = crypto_value p\<rparr>) profiles @ ms) ps =
    parse_attributes key_len newdir ms (ps\<lparr>ps_crypto := ps_crypto ps @ profiles\<rparr>)"
  using assms by (induction profiles arbitrary: ps) (simp_all add: parse_attribute_def wire_profile_parse)

lemma parse_tail:
  assumes "newdir ''sendrecv'' = Inr dir"
  shows "parse_attributes key_len newdir tail_attributes ps = Inr (ps\<lparr>ps_direction := dir\<rparr>)"
  using assms by (simp add: tail_attributes_def) (simp add: parse_attribute_def)

lemma parse_formats_printed:
  assumes "list_all (\<lambda>c. uint (si_Type c) \<in> lc_Type ` set codecs) cs"
  shows "fold parse_format (map info_format cs) codecs = codecs"
  using assms by (induction cs) (simp_all add: parse_format_def with_codec_id)

section \<open>Whole sections\<close>

text \<open>How a codec with a name is resolved.\<close>

definition resolved :: "sdp_env \<Rightarrow> nat option \<Rightarrow> sdp_codec_info \<Rightarrow> sdp_codec_info" where
  "resolved e s c =
     (case CodecByNameWith e s (ti_Name (ci_Type (si_Info c))) of
        None \<Rightarrow> \<lparr>si_Type = si_Type c, si_Codec = None, si_Info = zero_info\<rparr>
      | Some t \<Rightarrow> (case codec_Supports t (said (si_Info c)) of
            None \<Rightarrow> \<lparr>si_Type = si_Type c, si_Codec = None, si_Info = zero_info\<rparr>
          | Some info \<Rightarrow> \<lparr>si_Type = si_Type c, si_Codec = Some t, si_Info = info\<rparr>))"

lemma resolve_printed: "printed_info (si_Info c) \<Longrightarrow> resolve e s (info_line c) = Some (resolved e s c)"
  by (simp add: resolve_def resolved_def line_of_def printed_info_def split: option.split)

lemma resolve_all_printed:
  "list_all (\<lambda>c. printed_info (si_Info c)) cs \<Longrightarrow> resolve_all e s (map info_line cs) = Some (map (resolved e s) cs)"
  by (induction cs) (simp_all add: resolve_printed)

lemma parse_section:
  assumes "list_all (\<lambda>c. printed_info (si_Info c)) cs" "distinct (map si_Type cs)"
    and "list_all (wire_profile key_len) profiles" "newdir ''sendrecv'' = Inr dir"
  shows "ParseMediaWith e key_len newdir s (audio_section port secure (map info_format cs)
      (appendCryptoProfiles (concat (map info_attrs cs)) profiles @ tail_attributes)) =
    Some (Inr \<lparr>md_Audio = filter (\<lambda>c. si_kind c = Audio) (map (resolved e s) cs),
      md_Data = filter (\<lambda>c. si_kind c = Data) (map (resolved e s) cs),
      md_Unknown = filter (\<lambda>c. si_kind c = Unknown) (map (resolved e s) cs),
      md_CryptoProfiles = profiles, md_Direction = dir\<rparr>)"
proof -
  have "list_all (\<lambda>c. uint (si_Type c) \<in> lc_Type ` set (map info_line cs)) cs"
    by (auto simp: list_all_iff line_of_def image_iff)
  then show ?thesis
    by (simp add: ParseMediaWith_def audio_section_def appendCryptoProfiles_def parse_all_lines [OF assms(1,2)]
      parse_crypto_lines [OF assms(3)] parse_tail [where newdir = newdir, OF assms(4)] parse_formats_printed resolve_all_printed [OF assms(1)])
qed

end
