(* ===== verification/Sdp_Negotiate.thy ===== *)
theory Sdp_Negotiate
  imports Sdp_Lines
begin

text \<open>
  The negotiation as a whole: what the other side understands of an offer, the codec it answers with, and
  what the offerer makes of the answer.
\<close>

section \<open>The registry\<close>

text \<open>
  Every codec keeps the contract of \<open>sdp_codec\<close>, names differ in more than letter case, and the table of
  names is what the callback of \<open>sdp/codecs.go\<close> has made of the registered codecs.
\<close>

definition env_ok :: "sdp_env \<Rightarrow> bool" where
  "env_ok e \<longleftrightarrow> list_all sdp_codec (cg_codecs (se_globals e)) \<and>
     distinct (map (\<lambda>t. ToLower (ti_Name (ct_info t))) (cg_codecs (se_globals e))) \<and>
     se_byName e = fold byName_onRegister (cg_codecs (se_globals e)) (\<lambda>_. None)"

lemma byName_other: "name \<notin> (\<lambda>t. ToLower (ti_Name (ct_info t))) ` set cs \<Longrightarrow> fold byName_onRegister cs m name = m name"
  by (induction cs arbitrary: m) (auto simp: byName_onRegister_def Let_def)

lemma byName_registered:
  assumes "distinct (map (\<lambda>t. ToLower (ti_Name (ct_info t))) cs)" "t \<in> set cs" "ti_Name (ct_info t) \<noteq> []"
  shows "fold byName_onRegister cs m (ToLower (ti_Name (ct_info t))) = Some t"
  using assms
proof (induction cs arbitrary: m)
  case (Cons c cs)
  show ?case
  proof (cases "t = c")
    case True
    then have "ToLower (ti_Name (ct_info t)) \<notin> (\<lambda>t. ToLower (ti_Name (ct_info t))) ` set cs" using Cons.prems by simp
    with True Cons.prems(3) show ?thesis by (simp add: byName_other) (simp add: byName_onRegister_def Let_def)
  next
    case False
    with Cons show ?thesis by simp
  qed
qed simp

lemma base_name_plain: "CHR ''/'' \<notin> set name \<Longrightarrow> base_name name = ToLower name"
  by (simp add: base_name_def cut_at_None)

lemma CodecByNameWith_registered:
  assumes "env_ok e" "t \<in> set (cg_codecs (se_globals e))"
  shows "CodecByNameWith e s (ti_Name (ct_info t)) = (if IsEnabled (se_sets e) (or_global s) (Some t) then Some t else None)"
proof -
  have t: "sdp_codec t" using assms by (simp add: env_ok_def list_all_iff)
  have "se_byName e (ToLower (ti_Name (ct_info t))) = Some t"
    using assms byName_registered [OF _ assms(2) sdp_codec.name(1) [OF t]] by (simp add: env_ok_def)
  then show ?thesis by (simp add: CodecByNameWith_def base_name_plain [OF sdp_codec.name(2) [OF t]] Let_def)
qed

section \<open>Offers\<close>

text \<open>A codec as it is offered by, or was parsed from, a description: its type says so itself.\<close>

definition offered :: "sdp_env \<Rightarrow> nat option \<Rightarrow> sdp_codec_info \<Rightarrow> bool" where
  "offered e s c \<longleftrightarrow> (\<exists>t. si_Codec c = Some t \<and> t \<in> set (cg_codecs (se_globals e)) \<and> IsEnabled (se_sets e) (or_global s) (Some t) \<and>
     ti_Name (ci_Type (si_Info c)) = ti_Name (ct_info t) \<and> si_kind c = ti_Kind (ct_info t) \<and> clean_config (said (si_Info c)) \<and>
     (\<exists>i'. codec_Supports t (said (si_Info c)) = Some i' \<and> said i' = said (si_Info c)))"

lemma offer_infos_pairs: "c \<in> set (offer_infos ps ty) \<Longrightarrow> \<exists>t. si_Codec c = Some t \<and> (t, si_Info c) \<in> set ps"
  by (induction ps arbitrary: ty) (fastforce simp: offer_one_def Let_def split: if_splits)+

lemma OfferCodecsWith_offered:
  assumes "env_ok e" "c \<in> set (OfferCodecsWith e s)"
  shows "offered e s c"
proof -
  obtain t where t: "si_Codec c = Some t" "t \<in> set (ListEnabled (se_globals e) (or_global s))"
    "si_Info c \<in> set (codec_Offer t (se_sets e) (or_global s))"
    using assms(2) offer_infos_pairs by (fastforce simp: OfferCodecsWith_def Let_def sort_codecs_def)
  then have r: "t \<in> set (cg_codecs (se_globals e))" "IsEnabled (se_sets e) (or_global s) (Some t)"
    by (auto simp: ListEnabled_def split: if_splits)
  then have "sdp_codec t" using assms(1) by (simp add: env_ok_def list_all_iff)
  from sdp_codec.offers [OF this t(3)] t(1) r show ?thesis by (auto simp: offered_def)
qed

lemma offered_printed: "env_ok e \<Longrightarrow> offered e s c \<Longrightarrow> printed_info (si_Info c)"
  using sdp_codec.name by (fastforce simp: offered_def printed_info_def env_ok_def list_all_iff)

text \<open>The other side finds the codec exactly when it has it enabled; what it then has is offered by itself.\<close>

lemma resolved_offered:
  assumes "env_ok e" "offered e s1 c"
  shows "if IsEnabled (se_sets e) (or_global s2) (si_Codec c)
    then offered e s2 (resolved e s2 c) \<and> si_Codec (resolved e s2 c) = si_Codec c \<and> si_Type (resolved e s2 c) = si_Type c \<and>
      si_kind (resolved e s2 c) = si_kind c \<and> said (si_Info (resolved e s2 c)) = said (si_Info c) \<and>
      ti_Name (ci_Type (si_Info (resolved e s2 c))) = ti_Name (ci_Type (si_Info c)) \<and>
      (\<exists>t. si_Codec c = Some t \<and> codec_Supports t (said (si_Info (resolved e s2 c))) = Some (si_Info (resolved e s2 c)))
    else si_kind (resolved e s2 c) = Unknown"
proof -
  obtain t i' where t: "si_Codec c = Some t" "t \<in> set (cg_codecs (se_globals e))" "ti_Name (ci_Type (si_Info c)) = ti_Name (ct_info t)"
    "si_kind c = ti_Kind (ct_info t)" "clean_config (said (si_Info c))"
    "codec_Supports t (said (si_Info c)) = Some i'" "said i' = said (si_Info c)"
    using assms(2) by (auto simp: offered_def)
  have k: "sdp_codec t" using assms(1) t(2) by (simp add: env_ok_def list_all_iff)
  show ?thesis
    using t CodecByNameWith_registered [OF assms(1) t(2), of s2] sdp_codec.keeps_type [OF k t(6)] sdp_codec.accepts_own [OF k t(6)]
    by (auto simp: resolved_def offered_def zero_info_def)
qed

section \<open>Answers\<close>

text \<open>A codec both sides can name: a description that carries it is understood as exactly this codec.\<close>

definition settled :: "sdp_env \<Rightarrow> nat option \<Rightarrow> sdp_codec_info \<Rightarrow> bool" where
  "settled e s c \<longleftrightarrow> printed_info (si_Info c) \<and> resolved e s c = c"

lemma resolved_settled:
  assumes "env_ok e" "offered e s1 c" "IsEnabled (se_sets e) (or_global s2) (si_Codec c)"
  shows "settled e s1 (resolved e s2 c)"
proof -
  let ?r = "resolved e s2 c"
  obtain t where t: "si_Codec c = Some t" "t \<in> set (cg_codecs (se_globals e))" "IsEnabled (se_sets e) (or_global s1) (Some t)"
    "ti_Name (ci_Type (si_Info c)) = ti_Name (ct_info t)"
    using assms(2) by (auto simp: offered_def)
  have r: "offered e s2 ?r" "si_Codec ?r = Some t" "ti_Name (ci_Type (si_Info ?r)) = ti_Name (ct_info t)"
    "codec_Supports t (said (si_Info ?r)) = Some (si_Info ?r)"
    using resolved_offered [OF assms(1,2), of s2] assms(3) t by auto
  have "resolved e s1 ?r = \<lparr>si_Type = si_Type ?r, si_Codec = Some t, si_Info = si_Info ?r\<rparr>"
    using r(3,4) t(3) CodecByNameWith_registered [OF assms(1) t(2), of s1] by (subst resolved_def) simp
  also have "\<dots> = ?r" using r(2) by simp
  finally show ?thesis using offered_printed [OF assms(1) r(1)] by (simp add: settled_def)
qed

lemma answer_agrees:
  assumes a: "settled e s (ac_Codec a)" "si_kind (ac_Codec a) = Audio"
    and d: "\<And>d. ac_DTMF a = Some d \<Longrightarrow> settled e s d \<and> si_kind d = Data \<and> is_dtmf d \<and> si_rate d \<le> si_rate (ac_Codec a) \<and>
      si_Type d \<noteq> si_Type (ac_Codec a)"
    and crypt: "pred_option (wire_profile key_len) crypt" and dir: "newdir ''sendrecv'' = Inr dir"
  shows "\<exists>d2. ParseMediaWith e key_len newdir s (AnswerMedia port a crypt) = Some (Inr d2) \<and>
    md_CryptoProfiles d2 = (case crypt of None \<Rightarrow> [] | Some p \<Rightarrow> [p]) \<and> md_Direction d2 = dir \<and> SelectAudio d2 True = Inr a"
proof -
  define cs where "cs = ac_Codec a # (case ac_DTMF a of None \<Rightarrow> [] | Some d \<Rightarrow> [d])"
  define ps where "ps = (case crypt of None \<Rightarrow> [] | Some p \<Rightarrow> [p])"
  have m: "AnswerMedia port a crypt = audio_section port (crypt \<noteq> None) (map info_format cs)
      (appendCryptoProfiles (concat (map info_attrs cs)) ps @ tail_attributes)"
    by (auto simp: AnswerMedia_def cs_def ps_def Let_def appendCryptoProfiles_def split: option.split)
  have p: "list_all (\<lambda>c. printed_info (si_Info c)) cs" "map (resolved e s) cs = cs" "distinct (map si_Type cs)"
    using a(1) d by (auto simp: cs_def settled_def split: option.split)
  have w: "list_all (wire_profile key_len) ps" using crypt by (cases crypt) (simp_all add: ps_def)
  have k: "filter (\<lambda>c. si_kind c = Audio) cs = [ac_Codec a]"
    "filter (\<lambda>c. si_kind c = Data) cs = (case ac_DTMF a of None \<Rightarrow> [] | Some d \<Rightarrow> [d])"
    using a(2) d by (auto simp: cs_def split: option.split)
  have "SelectAudio \<lparr>md_Audio = [ac_Codec a], md_Data = (case ac_DTMF a of None \<Rightarrow> [] | Some d \<Rightarrow> [d]), md_Unknown = u,
      md_CryptoProfiles = ps, md_Direction = dir\<rparr> True = Inr a" for u
    using d by (cases a) (auto simp: SelectAudio_def Let_def split: option.split)
  then show ?thesis
    unfolding m parse_section [where newdir = newdir, OF p(1,3) w dir] p(2) k by (simp add: ps_def)
qed

section \<open>The choice of the codec\<close>

lemma pick_audio_in: "fst (pick_audio answer cs (best, pr)) = Some a \<Longrightarrow> a \<in> set cs \<or> best = Some a"
  by (induction cs arbitrary: best pr) (auto simp: Let_def split: if_splits)

lemma pick_audio_keeps: "fst (pick_audio answer cs (Some b, pr)) \<noteq> None"
  by (induction cs arbitrary: b pr) (auto simp: Let_def)

lemma pick_audio_None: "fst (pick_audio answer cs (None, pr)) = None \<longleftrightarrow> cs = []"
  by (cases cs) (auto simp: Let_def pick_audio_keeps [unfolded not_None_eq])

lemma pick_lower_in:
  "fst (pick_lower rate ds (best, mx)) = Some d \<Longrightarrow> (d \<in> set ds \<and> is_dtmf d \<and> si_rate d \<le> rate) \<or> best = Some d"
  by (induction ds arbitrary: best mx) (fastforce split: if_splits)+

lemma SelectAudio_in:
  assumes "SelectAudio desc answer = Inr a"
  shows "ac_Codec a \<in> set (md_Audio desc)"
    and "ac_DTMF a = Some d \<Longrightarrow> d \<in> set (md_Data desc) \<and> is_dtmf d \<and> si_rate d \<le> si_rate (ac_Codec a)"
proof -
  obtain c where c: "fst (pick_audio answer (md_Audio desc) (None, 0)) = Some c" "ac_Codec a = c"
    using assms by (auto simp: SelectAudio_def Let_def split: option.splits)
  then show "ac_Codec a \<in> set (md_Audio desc)" using pick_audio_in by blast
  assume d: "ac_DTMF a = Some d"
  show "d \<in> set (md_Data desc) \<and> is_dtmf d \<and> si_rate d \<le> si_rate (ac_Codec a)"
  proof (cases "find (\<lambda>d. is_dtmf d \<and> si_rate d = si_rate c) (md_Data desc)")
    case None
    with assms c d have "fst (pick_lower (si_rate c) (md_Data desc) (None, -1)) = Some d"
      by (auto simp: SelectAudio_def Let_def split: option.splits)
    with c show ?thesis using pick_lower_in by blast
  next
    case (Some x)
    with assms c d have "x = d" by (auto simp: SelectAudio_def Let_def split: option.splits)
    with find_hit [OF Some] c(2) show ?thesis by simp
  qed
qed

lemma SelectAudio_none: "SelectAudio desc answer = Inl err \<Longrightarrow> md_Audio desc = []"
  using pick_audio_None by (auto simp: SelectAudio_def Let_def split: option.splits)

abbreviation "si_prio c \<equiv> ti_Priority (ci_Type (si_Info c))"

lemma pick_audio_best:
  "\<exists>pre a post. b # cs = pre @ a # post \<and> fst (pick_audio False cs (Some b, si_prio b)) = Some a \<and>
    (\<forall>c \<in> set pre. si_prio c < si_prio a) \<and> (\<forall>c \<in> set post. si_prio c \<le> si_prio a)"
proof (induction cs arbitrary: b)
  case Nil
  show ?case by (rule exI [of _ "[]"]) simp
next
  case (Cons c cs)
  show ?case
  proof (cases "si_prio c > si_prio b")
    case True
    from Cons.IH [of c] obtain pre a post where p: "c # cs = pre @ a # post"
      "fst (pick_audio False cs (Some c, si_prio c)) = Some a"
      "\<forall>c \<in> set pre. si_prio c < si_prio a" "\<forall>c \<in> set post. si_prio c \<le> si_prio a" by blast
    have "si_prio b < si_prio a"
      using True p(1,3) by (cases pre) auto
    with p(2-4) p(1) [symmetric] True show ?thesis by - (rule exI [of _ "b # pre"], rule exI [of _ a], rule exI [of _ post], simp add: Let_def)
  next
    case False
    from Cons.IH [of b] obtain pre a post where p: "b # cs = pre @ a # post"
      "fst (pick_audio False cs (Some b, si_prio b)) = Some a"
      "\<forall>c \<in> set pre. si_prio c < si_prio a" "\<forall>c \<in> set post. si_prio c \<le> si_prio a" by blast
    show ?thesis
    proof (cases pre)
      case Nil
      with p False show ?thesis by - (rule exI [of _ "[]"], rule exI [of _ a], rule exI [of _ "c # post"], auto simp: Let_def)
    next
      case (Cons x pre')
      with p False show ?thesis
        by - (rule exI [of _ "b # c # pre'"], rule exI [of _ a], rule exI [of _ post], auto simp: Let_def)
    qed
  qed
qed

text \<open>The events of the highest rate not above the audio's; rates are not negative.\<close>

definition best_events :: "int \<Rightarrow> sdp_codec_info list \<Rightarrow> sdp_codec_info option \<Rightarrow> bool" where
  "best_events rate ds r \<longleftrightarrow>
     (case r of None \<Rightarrow> \<forall>d \<in> set ds. is_dtmf d \<longrightarrow> rate < si_rate d
      | Some x \<Rightarrow> x \<in> set ds \<and> is_dtmf x \<and> si_rate x \<le> rate \<and>
          (\<forall>d \<in> set ds. is_dtmf d \<longrightarrow> si_rate d \<le> rate \<longrightarrow> si_rate d \<le> si_rate x))"

lemma pick_lower_best:
  assumes "list_all (\<lambda>d. 0 \<le> si_rate d) ds"
    and "best_events rate seen best" "mx = (case best of None \<Rightarrow> -1 | Some b \<Rightarrow> si_rate b)" "list_all (\<lambda>d. 0 \<le> si_rate d) seen"
  shows "best_events rate (seen @ ds) (fst (pick_lower rate ds (best, mx)))"
  using assms
proof (induction ds arbitrary: seen best mx)
  case (Cons d ds)
  note step = Cons.IH [of "seen @ [d]", simplified]
  show ?case
  proof (cases "is_dtmf d \<and> si_rate d \<le> rate \<and> (mx < 0 \<or> si_rate d > mx)")
    case True
    with Cons.prems have "best_events rate (seen @ [d]) (Some d)"
      by (fastforce simp: best_events_def list_all_iff split: option.splits)
    with step [of "Some d" "si_rate d"] Cons.prems True show ?thesis by simp
  next
    case False
    with Cons.prems have "best_events rate (seen @ [d]) best"
      by (fastforce simp: best_events_def list_all_iff split: option.splits)
    with step [of best mx] Cons.prems False show ?thesis by auto
  qed
qed simp

section \<open>Offers at the other side\<close>

definition shared :: "sdp_env \<Rightarrow> nat option \<Rightarrow> sdp_codec_info \<Rightarrow> bool" where
  "shared e s c \<longleftrightarrow> IsEnabled (se_sets e) (or_global s) (si_Codec c)"

lemma resolved_kind:
  assumes "env_ok e" "list_all (offered e s1) cs" "k \<noteq> Unknown"
  shows "filter (\<lambda>c. si_kind c = k) (map (resolved e s2) cs) =
    map (resolved e s2) (filter (shared e s2) (filter (\<lambda>c. si_kind c = k) cs))"
  using assms(2)
proof (induction cs)
  case (Cons c cs)
  with resolved_offered [OF assms(1), of s1 c s2] assms(3) show ?case by (cases "shared e s2 c") (auto simp: shared_def)
qed simp

lemma offer_understood:
  assumes "env_ok e" "OfferMediaWith e locals s1 port enc st = (Inr (own, m), st')"
    and "distinct (map si_Type (OfferCodecsWith e s1))"
    and "list_all (wire_profile key_len) (md_CryptoProfiles own)" "newdir ''sendrecv'' = Inr dir"
  shows "\<exists>u. ParseMediaWith e key_len newdir s2 m = Some (Inr \<lparr>
      md_Audio = map (resolved e s2) (filter (shared e s2) (md_Audio own)),
      md_Data = map (resolved e s2) (filter (shared e s2) (md_Data own)),
      md_Unknown = u, md_CryptoProfiles = md_CryptoProfiles own, md_Direction = dir\<rparr>)"
    and "\<forall>c \<in> set (md_Audio own). offered e s1 c \<and> si_kind c = Audio"
    and "\<forall>c \<in> set (md_Data own). offered e s1 c \<and> si_kind c = Data"
    and "\<forall>a \<in> set (md_Audio own). \<forall>d \<in> set (md_Data own). si_Type a \<noteq> si_Type d"
proof -
  define cs where "cs = filter (\<lambda>c. si_kind c \<noteq> Unknown) (OfferCodecsWith e s1)"
  have own: "md_Audio own = filter (\<lambda>c. si_kind c = Audio) cs" "md_Data own = filter (\<lambda>c. si_kind c = Data) cs"
    and m: "m = audio_section port (enc \<noteq> EncryptionNone) (map info_format cs)
      (appendCryptoProfiles (concat (map info_attrs cs)) (md_CryptoProfiles own) @ tail_attributes)"
    using assms(2) by (auto simp: OfferMediaWith_def cs_def Let_def split: prod.splits sum.splits)
  have off: "list_all (offered e s1) cs" using OfferCodecsWith_offered [OF assms(1)] by (auto simp: cs_def list_all_iff)
  have pr: "list_all (\<lambda>c. printed_info (si_Info c)) cs" using off offered_printed [OF assms(1)] by (auto simp: list_all_iff)
  have dist: "distinct (map si_Type cs)" using assms(3) by (simp add: cs_def distinct_map_filter)
  show "\<exists>u. ParseMediaWith e key_len newdir s2 m = Some (Inr \<lparr>
      md_Audio = map (resolved e s2) (filter (shared e s2) (md_Audio own)),
      md_Data = map (resolved e s2) (filter (shared e s2) (md_Data own)),
      md_Unknown = u, md_CryptoProfiles = md_CryptoProfiles own, md_Direction = dir\<rparr>)"
    unfolding m parse_section [where newdir = newdir, OF pr dist assms(4,5)] own
      resolved_kind [OF assms(1) off kind.distinct(2)] resolved_kind [OF assms(1) off kind.distinct(4)]
    by simp
  show "\<forall>c \<in> set (md_Audio own). offered e s1 c \<and> si_kind c = Audio" "\<forall>c \<in> set (md_Data own). offered e s1 c \<and> si_kind c = Data"
    using off by (auto simp: own list_all_iff)
  show "\<forall>a \<in> set (md_Audio own). \<forall>d \<in> set (md_Data own). si_Type a \<noteq> si_Type d"
    using dist by (auto simp: own distinct_map inj_on_def)
qed

lemma media_agrees:
  assumes "env_ok e" "OfferMediaWith e locals s1 port enc st = (Inr (own, m), st')"
    and "distinct (map si_Type (OfferCodecsWith e s1))"
    and "list_all (wire_profile key_len) (md_CryptoProfiles own)" "newdir ''sendrecv'' = Inr dir"
  shows "\<exists>d. ParseMediaWith e key_len newdir s2 m = Some (Inr d) \<and>
    map (\<lambda>c. (si_Type c, si_Codec c)) (md_Audio d) = map (\<lambda>c. (si_Type c, si_Codec c)) (filter (shared e s2) (md_Audio own)) \<and>
    md_CryptoProfiles d = md_CryptoProfiles own \<and> md_Direction d = dir \<and>
    (case SelectAudio d False of
       Inl _ \<Rightarrow> filter (shared e s2) (md_Audio own) = []
     | Inr a \<Rightarrow> \<forall>port2 crypt. pred_option (wire_profile key_len) crypt \<longrightarrow>
         (\<exists>d2. ParseMediaWith e key_len newdir s1 (AnswerMedia port2 a crypt) = Some (Inr d2) \<and>
           md_CryptoProfiles d2 = (case crypt of None \<Rightarrow> [] | Some p \<Rightarrow> [p]) \<and> md_Direction d2 = dir \<and> SelectAudio d2 True = Inr a))"
proof -
  note u = offer_understood(2-4) [where newdir = newdir, OF assms]
  from offer_understood(1) [where newdir = newdir and ?s2.0 = s2, OF assms] obtain d where d: "ParseMediaWith e key_len newdir s2 m = Some (Inr d)"
    "md_Audio d = map (resolved e s2) (filter (shared e s2) (md_Audio own))"
    "md_Data d = map (resolved e s2) (filter (shared e s2) (md_Data own))"
    "md_CryptoProfiles d = md_CryptoProfiles own" "md_Direction d = dir" by fastforce
  have again: "settled e s1 x \<and> si_kind x = k \<and> (\<exists>c \<in> set cs. si_Type x = si_Type c)"
    if "x \<in> set (map (resolved e s2) (filter (shared e s2) cs))" "\<forall>c \<in> set cs. offered e s1 c \<and> si_kind c = k" for x cs k
    using that resolved_settled [OF assms(1)] resolved_offered [OF assms(1), of s1 _ s2] by (force simp: shared_def)
  have "map (\<lambda>c. (si_Type c, si_Codec c)) (md_Audio d) = map (\<lambda>c. (si_Type c, si_Codec c)) (filter (shared e s2) (md_Audio own))"
    using u(1) resolved_offered [OF assms(1), of s1 _ s2] by (auto simp: d(2) shared_def)
  moreover have "case SelectAudio d False of
       Inl _ \<Rightarrow> filter (shared e s2) (md_Audio own) = []
     | Inr a \<Rightarrow> \<forall>port2 crypt. pred_option (wire_profile key_len) crypt \<longrightarrow>
         (\<exists>d2. ParseMediaWith e key_len newdir s1 (AnswerMedia port2 a crypt) = Some (Inr d2) \<and>
           md_CryptoProfiles d2 = (case crypt of None \<Rightarrow> [] | Some p \<Rightarrow> [p]) \<and> md_Direction d2 = dir \<and> SelectAudio d2 True = Inr a)"
  proof (cases "SelectAudio d False")
    case (Inl err)
    then show ?thesis using SelectAudio_none [OF Inl] d(2) by simp
  next
    case (Inr a)
    have a: "settled e s1 (ac_Codec a) \<and> si_kind (ac_Codec a) = Audio \<and> (\<exists>c \<in> set (md_Audio own). si_Type (ac_Codec a) = si_Type c)"
      by (rule again [OF SelectAudio_in(1) [OF Inr, unfolded d(2)] u(1)])
    have x: "settled e s1 x \<and> si_kind x = Data \<and> is_dtmf x \<and> si_rate x \<le> si_rate (ac_Codec a) \<and> si_Type x \<noteq> si_Type (ac_Codec a)"
      if "ac_DTMF a = Some x" for x
      using again [OF SelectAudio_in(2) [OF Inr that, unfolded d(3), THEN conjunct1] u(2)]
        SelectAudio_in(2) [OF Inr that] a u(3) by metis
    show ?thesis
      using answer_agrees [where newdir = newdir, OF a [THEN conjunct1] a [THEN conjunct2, THEN conjunct1] x _ assms(5)]
      by (simp add: Inr)
  qed
  ultimately show ?thesis using d by blast
qed

section \<open>Properties\<close>

text \<open>
  The codecs of the program, all enabled globally; set 1 is a child that takes G722 and PCMA away.  The
  example's suite has keys of 16 bytes.
\<close>

definition example_codecs :: "codec_type list" where
  "example_codecs = audio_codecs 0 8 9 8 @ [dtmf_codec True (audio_codecs 0 8 9 8)]"

definition example_env :: sdp_env where
  "example_env = \<lparr>se_globals = (let g = fold RegisterCodec example_codecs codec_globals_init
       in g\<lparr>cg_sets := SetEnabled 1 ''g722'' False (SetEnabled 1 ''PCMA/8000'' False (snd (NewSet 0 (cg_sets g))))\<rparr>),
     se_byName = fold byName_onRegister example_codecs (\<lambda>_. None), se_byType = codecByType_init\<rparr>"

lemma example_env_codecs: "cg_codecs (se_globals example_env) = example_codecs"
  by (simp add: example_env_def example_codecs_def audio_codecs_def RegisterCodec_def codec_globals_init_def Let_def)

lemma example_env_ok: "env_ok example_env"
proof -
  have "distinct (map (\<lambda>t. ToLower (ti_Name (ct_info t))) example_codecs)"
    by (simp add: example_codecs_def audio_codecs_def ulaw_info_def alaw_info_def g722_info_def opus_info_def amrwb_info_def dtmf_info_def)
      code_simp
  moreover have "list_all sdp_codec example_codecs"
    using ulaw.sdp_codec_axioms alaw.sdp_codec_axioms g722.sdp_codec_axioms opus.sdp_codec_axioms amrwb.sdp_codec_axioms dtmf.sdp_codec_axioms
    by (simp add: example_codecs_def audio_codecs_def)
  ultimately show ?thesis by (simp add: env_ok_def example_env_codecs) (simp add: example_env_def)
qed

lemma example_types: "map si_Type (OfferCodecsWith example_env None) = [101, 102, 9, 0, 8, 103, 104, 105]"
  by code_simp

text \<open>
  C8: both sides end up with the same codec.  An offer for the codec set \<open>s1\<close>, parsed by a side with the
  set \<open>s2\<close>, is understood as exactly the offered audio codecs that \<open>s2\<close> enables, in their order, with the
  payload types of the offer, and the crypto profiles are the offered ones.  Without a common codec
  \<open>SelectAudio\<close> reports it.  Otherwise, whatever port and crypto profile the answer carries, the offerer,
  parsing it with its own set, selects the very codec the answerer selected, information and payload type
  included, and the same telephone events.
\<close>

theorem negotiation_agrees:
  assumes "env_ok e" "OfferMediaWith e locals s1 port enc st = (Inr (own, m), st')"
    and "distinct (map si_Type (OfferCodecsWith e s1))"
    and "list_all (wire_profile key_len) (md_CryptoProfiles own)" "newdir ''sendrecv'' = Inr dir"
  shows "\<exists>d. ParseMediaWith e key_len newdir s2 m = Some (Inr d) \<and>
    map (\<lambda>c. (si_Type c, si_Codec c)) (md_Audio d) = map (\<lambda>c. (si_Type c, si_Codec c)) (filter (shared e s2) (md_Audio own)) \<and>
    md_CryptoProfiles d = md_CryptoProfiles own \<and> md_Direction d = dir \<and>
    (case SelectAudio d False of
       Inl _ \<Rightarrow> filter (shared e s2) (md_Audio own) = []
     | Inr a \<Rightarrow> \<forall>port2 crypt. pred_option (wire_profile key_len) crypt \<longrightarrow>
         (\<exists>d2. ParseMediaWith e key_len newdir s1 (AnswerMedia port2 a crypt) = Some (Inr d2) \<and>
           md_CryptoProfiles d2 = (case crypt of None \<Rightarrow> [] | Some p \<Rightarrow> [p]) \<and> md_Direction d2 = dir \<and> SelectAudio d2 True = Inr a))"
  by (rule media_agrees [where newdir = newdir, OF assms])

lemma example_shared:
  "map si_Type (filter (shared example_env (Some 1)) (filter (\<lambda>c. si_kind c = Audio)
     (filter (\<lambda>c. si_kind c \<noteq> Unknown) (OfferCodecsWith example_env None)))) = [101, 102, 0]"
  by code_simp

theorem negotiation_agrees_witness:
  "\<exists>own m d. OfferMediaWith example_env (\<lambda>st. (Inr [example_profile], st)) None 5004 EncryptionAllow () = (Inr (own, m), ()) \<and>
    ParseMediaWith example_env example_len (\<lambda>_. Inr 1) (Some 1) m = Some (Inr d) \<and>
    map si_Type (md_Audio d) = [101, 102, 0] \<and> md_CryptoProfiles d = [example_profile]"
proof -
  obtain own m where o: "OfferMediaWith example_env (\<lambda>st. (Inr [example_profile], st)) None 5004 EncryptionAllow () = (Inr (own, m), ())"
    and own: "md_Audio own = filter (\<lambda>c. si_kind c = Audio) (filter (\<lambda>c. si_kind c \<noteq> Unknown) (OfferCodecsWith example_env None))"
      "md_CryptoProfiles own = [example_profile]"
    by (simp add: OfferMediaWith_def Let_def)
  have wire: "list_all (wire_profile example_len) (md_CryptoProfiles own)"
    by (simp add: own wire_profile_def example_profile_def example_len_def profile_fits_def profile_Parse_def)
  have dist: "distinct (map si_Type (OfferCodecsWith example_env None))" by (simp add: example_types)
  obtain d where d: "ParseMediaWith example_env example_len (\<lambda>_. Inr 1) (Some 1) m = Some (Inr d)"
    "map (\<lambda>c. (si_Type c, si_Codec c)) (md_Audio d) = map (\<lambda>c. (si_Type c, si_Codec c)) (filter (shared example_env (Some 1)) (md_Audio own))"
    "md_CryptoProfiles d = md_CryptoProfiles own"
    using negotiation_agrees [OF example_env_ok o dist wire, of "\<lambda>_. Inr 1" 1 "Some 1"] by auto
  have "map si_Type (md_Audio d) = map si_Type (filter (shared example_env (Some 1)) (md_Audio own))"
    using arg_cong [OF d(2), of "map fst"] by (simp add: comp_def)
  with o d own example_shared show ?thesis by auto
qed

text \<open>
  The codec chosen from an offer.  \<open>SelectAudio\<close> fails only without audio codecs; otherwise it takes the
  first of those with the highest priority and, with it, the telephone events of its own clock rate or
  else of the highest rate below, and none only when all events are faster.
\<close>

theorem SelectAudio_best:
  assumes "list_all (\<lambda>d. 0 \<le> si_rate d) (md_Data desc)"
  shows "case SelectAudio desc False of
      Inl _ \<Rightarrow> md_Audio desc = []
    | Inr a \<Rightarrow> (\<exists>pre post. md_Audio desc = pre @ ac_Codec a # post \<and>
          (\<forall>c \<in> set pre. si_prio c < si_prio (ac_Codec a)) \<and> (\<forall>c \<in> set post. si_prio c \<le> si_prio (ac_Codec a))) \<and>
        best_events (si_rate (ac_Codec a)) (md_Data desc) (ac_DTMF a)"
proof (cases "md_Audio desc")
  case Nil
  then show ?thesis by (simp add: SelectAudio_def)
next
  case (Cons b cs)
  have pick_first: "pick_audio False (b # cs) (None, 0) = pick_audio False cs (Some b, si_prio b)" by simp
  from pick_audio_best [of b cs] obtain pre a post where p: "md_Audio desc = pre @ a # post"
    "fst (pick_audio False (md_Audio desc) (None, 0)) = Some a"
    "\<forall>c \<in> set pre. si_prio c < si_prio a" "\<forall>c \<in> set post. si_prio c \<le> si_prio a"
    unfolding Cons pick_first by blast
  have low: "best_events (si_rate a) (md_Data desc) (fst (pick_lower (si_rate a) (md_Data desc) (None, -1)))"
    using pick_lower_best [OF assms, of "si_rate a" "[]" None] by (simp add: best_events_def)
  have same: "best_events (si_rate a) (md_Data desc) (Some x)"
    if "find (\<lambda>d. is_dtmf d \<and> si_rate d = si_rate a) (md_Data desc) = Some x" for x
    using find_hit [OF that] by (simp add: best_events_def)
  show ?thesis using p low same by (auto simp: SelectAudio_def Let_def split: option.split)
qed

definition select_example :: "codec_info \<Rightarrow> string \<Rightarrow> int \<Rightarrow> int \<Rightarrow> sdp_codec_info" where
  "select_example i name prio rate = \<lparr>si_Type = 0, si_Codec = None,
     si_Info = i\<lparr>ci_Type := (ci_Type i)\<lparr>ti_Name := name, ti_Priority := prio\<rparr>, ci_RTPClockRate := rate\<rparr>\<rparr>"

definition select_desc :: media_desc where
  "select_desc = \<lparr>md_Audio = [select_example zero_info ''PCMA'' (-20) 8000, select_example zero_info ''AMR-WB'' (-4) 16000],
     md_Data = [select_example zero_info ''telephone-event'' (-106) 48000, select_example zero_info ''telephone-event'' (-101) 8000],
     md_Unknown = [], md_CryptoProfiles = [], md_Direction = 0\<rparr>"

lemma select_desc_audio: "case SelectAudio select_desc False of Inl _ \<Rightarrow> False | Inr a \<Rightarrow> si_rate (ac_Codec a) = 16000"
  by code_simp

theorem SelectAudio_best_witness:
  "\<exists>a. SelectAudio select_desc False = Inr a \<and> si_rate (ac_Codec a) = 16000 \<and> best_events 16000 (md_Data select_desc) (ac_DTMF a)"
proof -
  have "list_all (\<lambda>d. 0 \<le> si_rate d) (md_Data select_desc)" by (simp add: select_desc_def select_example_def)
  from SelectAudio_best [OF this] select_desc_audio show ?thesis by (cases "SelectAudio select_desc False") auto
qed

section \<open>Payload type 255\<close>

text \<open>
  The payload types and names a description gives, read off its lines: the type and name of an \<open>rtpmap\<close>
  and the type of an \<open>fmtp\<close> that are not skipped, and the name in the last such \<open>rtpmap\<close> of a type, if any.
\<close>

definition rtpmap_name :: "string \<Rightarrow> (int \<times> string) option" where
  "rtpmap_name v =
     (case SplitN v (CHR '' '') 2 of
        [t, details] \<Rightarrow> (case (Atoi t, SplitN details (CHR ''/'') 4) of
            (Inr ty, name # rate # channels) \<Rightarrow>
              if length channels \<le> 1 \<and> list_all (\<lambda>x. \<not> isl (Atoi x)) (rate # channels) then Some (ty, name) else None
          | _ \<Rightarrow> None)
      | _ \<Rightarrow> None)"

definition fmtp_type :: "string \<Rightarrow> int option" where
  "fmtp_type v =
     (case SplitN v (CHR '' '') 2 of
        [t, details] \<Rightarrow> (case Atoi t of Inr ty \<Rightarrow> Some ty | Inl _ \<Rightarrow> None)
      | _ \<Rightarrow> None)"

definition line_name :: "attribute \<Rightarrow> (int \<times> string) option" where
  "line_name a = (if at_Key a = ''rtpmap'' then rtpmap_name (at_Value a) else None)"

definition line_type :: "attribute \<Rightarrow> int option" where
  "line_type a = (if at_Key a = ''fmtp'' then fmtp_type (at_Value a) else map_option fst (line_name a))"

definition has_type :: "int \<Rightarrow> media_description \<Rightarrow> bool" where
  "has_type ty m \<longleftrightarrow> list_ex (\<lambda>a. line_type a = Some ty) (mm_Attributes m) \<or>
     list_ex (\<lambda>f. Atoi f = Inr ty) (mn_Formats (mm_MediaName m))"

definition last_name :: "int \<Rightarrow> attribute list \<Rightarrow> string" where
  "last_name ty as = last ([] # map snd (filter (\<lambda>p. fst p = ty) (List.map_filter line_name as)))"

definition crypto_parses :: "suite_len \<Rightarrow> attribute \<Rightarrow> bool" where
  "crypto_parses key_len a \<longleftrightarrow> at_Key a \<noteq> ''crypto'' \<or> \<not> isl (parseSRTPProfile key_len (at_Value a))"

lemma map_filter_snoc: "List.map_filter f (xs @ [x]) = List.map_filter f xs @ (case f x of None \<Rightarrow> [] | Some y \<Rightarrow> [y])"
  by (simp add: List.map_filter_def split: option.split)

lemma last_name_snoc: "last_name ty (as @ [a]) =
    (case line_name a of Some (t, name) \<Rightarrow> if t = ty then name else last_name ty as | None \<Rightarrow> last_name ty as)"
  by (auto simp: last_name_def map_filter_snoc split: option.split)

text \<open>The parser's codecs have the types and names of the lines \<open>as\<close>.\<close>

definition parsed :: "attribute list \<Rightarrow> int set \<Rightarrow> line_codec list \<Rightarrow> bool" where
  "parsed as more_types cs \<longleftrightarrow> distinct (map lc_Type cs) \<and> (\<forall>c \<in> set cs. lc_Name c = last_name (lc_Type c) as) \<and>
     lc_Type ` set cs = {ty. \<exists>a \<in> set as. line_type a = Some ty} \<union> more_types"

lemma with_codec_types:
  assumes "\<And>c. lc_Type (f c) = lc_Type c"
  shows "lc_Type ` set (with_codec ty f cs) = insert ty (lc_Type ` set cs)"
  by (induction cs) (auto simp: assms)

lemma with_codec_named:
  assumes "distinct (map lc_Type cs)" "\<forall>c \<in> set cs. lc_Name c = nm (lc_Type c)" "ty \<notin> lc_Type ` set cs \<Longrightarrow> nm ty = []"
    and "\<And>c. lc_Type (f c) = lc_Type c" "\<And>c. lc_Name (f c) = g (lc_Name c)"
  shows "distinct (map lc_Type (with_codec ty f cs)) \<and>
    (\<forall>c \<in> set (with_codec ty f cs). lc_Name c = (nm(ty := g (nm ty))) (lc_Type c))"
  using assms(1-3)
proof (induction cs)
  case (Cons c cs)
  show ?case
  proof (cases "lc_Type c = ty")
    case True
    with Cons.prems(1,2) show ?thesis by (auto simp: assms(4,5)) (metis imageI)
  next
    case False
    then have IH: "distinct (map lc_Type (with_codec ty f cs))"
      "\<forall>c \<in> set (with_codec ty f cs). lc_Name c = (nm(ty := g (nm ty))) (lc_Type c)"
      using Cons by auto
    have "lc_Type c \<notin> lc_Type ` set (with_codec ty f cs)"
      using False Cons.prems(1) by (simp add: with_codec_types [of f, OF assms(4)])
    with False IH Cons.prems(2) show ?thesis by auto
  qed
qed (simp add: assms(4,5))

lemma last_name_unseen: "\<not> (\<exists>a \<in> set as. line_type a = Some ty) \<Longrightarrow> last_name ty as = []"
proof (induction as rule: rev_induct)
  case (snoc a as)
  then show ?case
    by (auto simp: last_name_snoc line_type_def line_name_def split: option.split if_splits)
qed (simp add: last_name_def List.map_filter_def)

lemma parsed_with_codec:
  assumes "parsed as T cs" "\<And>c. lc_Type (f c) = lc_Type c" "\<And>c. lc_Name (f c) = g (lc_Name c)"
  shows "distinct (map lc_Type (with_codec ty f cs)) \<and>
    (\<forall>c \<in> set (with_codec ty f cs). lc_Name c = (if lc_Type c = ty then g (last_name ty as) else last_name (lc_Type c) as)) \<and>
    lc_Type ` set (with_codec ty f cs) = insert ty ({t. \<exists>a \<in> set as. line_type a = Some t} \<union> T)"
proof -
  have "ty \<notin> lc_Type ` set cs \<Longrightarrow> last_name ty as = []"
    using assms(1) last_name_unseen [of as ty] by (auto simp: parsed_def)
  with with_codec_named [of cs "\<lambda>t. last_name t as" ty f g] assms with_codec_types [of f ty cs] show ?thesis
    by (auto simp: parsed_def)
qed

text \<open>A line is skipped or changes the codec of its type.\<close>

lemma parse_rtpmap_cases:
  obtains "rtpmap_name v = None" "\<And>cs. parse_rtpmap v cs = cs"
  | ty name f where "rtpmap_name v = Some (ty, name)" "\<And>cs. parse_rtpmap v cs = with_codec ty f cs"
      "\<And>c. lc_Type (f c) = lc_Type c" "\<And>c. lc_Name (f c) = name"
proof (cases "\<exists>t details ty name rate channels. SplitN v (CHR '' '') 2 = [t, details] \<and> Atoi t = Inr ty \<and>
    SplitN details (CHR ''/'') 4 = name # rate # channels \<and> length channels \<le> 1 \<and> \<not> isl (Atoi rate) \<and> list_all (\<lambda>x. \<not> isl (Atoi x)) channels")
  case True
  then obtain t details ty name rate channels r where l: "SplitN v (CHR '' '') 2 = [t, details]" "Atoi t = Inr ty"
    "SplitN details (CHR ''/'') 4 = name # rate # channels" "length channels \<le> 1" "Atoi rate = Inr r" "list_all (\<lambda>x. \<not> isl (Atoi x)) channels"
    by (auto simp: isl_def) (metis obj_sumE)
  define ch where "ch = (case channels of [] \<Rightarrow> 0 | x # _ \<Rightarrow> projr (Atoi x))"
  let ?f = "\<lambda>c. c\<lparr>lc_Name := name, lc_Config := (lc_Config c)\<lparr>cc_SampleRate := r, cc_Channels := ch\<rparr>\<rparr>"
  have "rtpmap_name v = Some (ty, name)" using l by (simp add: rtpmap_name_def)
  moreover have "parse_rtpmap v cs = with_codec ty ?f cs" for cs
    using l by (cases channels) (auto simp: parse_rtpmap_def Let_def ch_def isl_def split: sum.split)
  ultimately show thesis by (rule that(2)) simp_all
next
  case False
  have "rtpmap_name v = None" using False by (auto simp: rtpmap_name_def split: list.split sum.split)
  moreover have "parse_rtpmap v cs = cs" for cs
  proof (cases "length (SplitN v (CHR '' '') 2) = 2")
    case sub: True
    then obtain t details where l: "SplitN v (CHR '' '') 2 = [t, details]" by (auto simp: numeral_2_eq_2 length_Suc_conv)
    show ?thesis
    proof (cases "\<exists>name rate channels. SplitN details (CHR ''/'') 4 = name # rate # channels \<and> length channels \<le> 1")
      case True
      then obtain name rate channels where l2: "SplitN details (CHR ''/'') 4 = name # rate # channels" "length channels \<le> 1" by blast
      with False l show ?thesis
        by (cases channels) (auto simp: parse_rtpmap_def Let_def isl_def split: sum.split)
    next
      case no: False
      have "length (SplitN details (CHR ''/'') 4) < 2 \<or> length (SplitN details (CHR ''/'') 4) > 3"
      proof (cases "SplitN details (CHR ''/'') 4")
        case (Cons name xs)
        with no show ?thesis by (cases xs) auto
      qed simp
      with l show ?thesis by (auto simp: parse_rtpmap_def Let_def split: sum.split)
    qed
  qed (simp add: parse_rtpmap_def Let_def)
  ultimately show thesis by (rule that(1))
qed

lemma parse_fmtp_cases:
  obtains "fmtp_type v = None" "\<And>cs. parse_fmtp v cs = cs"
  | ty f where "fmtp_type v = Some ty" "\<And>cs. parse_fmtp v cs = with_codec ty f cs"
      "\<And>c. lc_Type (f c) = lc_Type c" "\<And>c. lc_Name (f c) = lc_Name c"
proof (cases "\<exists>t details ty. SplitN v (CHR '' '') 2 = [t, details] \<and> Atoi t = Inr ty")
  case True
  then obtain t details ty where l: "SplitN v (CHR '' '') 2 = [t, details]" "Atoi t = Inr ty" by blast
  let ?f = "\<lambda>c. c\<lparr>lc_Config := (lc_Config c)\<lparr>cc_Params :=
      cc_Params (lc_Config c) @ List.map_filter parse_param (Split details (CHR '';''))\<rparr>\<rparr>"
  have "fmtp_type v = Some ty" "\<And>cs. parse_fmtp v cs = with_codec ty ?f cs"
    using l by (simp_all add: fmtp_type_def parse_fmtp_def)
  then show thesis by (rule that(2)) simp_all
next
  case False
  have "fmtp_type v = None" using False by (auto simp: fmtp_type_def split: list.split sum.split)
  moreover have "parse_fmtp v cs = cs" for cs
    using False by (auto simp: parse_fmtp_def Let_def numeral_2_eq_2 length_Suc_conv split: sum.split)
  ultimately show thesis by (rule that(1))
qed

lemma parsed_snoc_other:
  "parsed as {} cs \<Longrightarrow> line_name a = None \<Longrightarrow> line_type a = None \<Longrightarrow> parsed (as @ [a]) {} cs"
  by (auto simp: parsed_def last_name_snoc)

lemma parsed_snoc_with_codec:
  assumes "parsed as {} cs" "\<And>c. lc_Type (f c) = lc_Type c" "\<And>c. lc_Name (f c) = g (lc_Name c)"
    and "line_type a = Some ty" "line_name a = Some (ty, name) \<and> g = (\<lambda>_. name) \<or> line_name a = None \<and> g = (\<lambda>n. n)"
  shows "parsed (as @ [a]) {} (with_codec ty f cs)"
  using parsed_with_codec [of as "{}" cs f g ty, OF assms(1-3)] assms(4,5)
  by (auto simp: parsed_def last_name_snoc)

lemma parse_attribute_parsed:
  assumes "parsed as {} (ps_codecs ps)" "crypto_parses key_len a"
  shows "\<exists>ps1. parse_attribute key_len newdir a ps = Inr ps1 \<and> parsed (as @ [a]) {} (ps_codecs ps1)"
proof -
  consider (rtpmap) "at_Key a = ''rtpmap''" | (fmtp) "at_Key a = ''fmtp''" | (other) "at_Key a \<noteq> ''rtpmap''" "at_Key a \<noteq> ''fmtp''" by blast
  then show ?thesis
  proof cases
    case rtpmap
    show ?thesis
    proof (cases rule: parse_rtpmap_cases [of "at_Value a"])
      case 1
      with rtpmap parsed_snoc_other [OF assms(1), of a] show ?thesis
        by (simp add: parse_attribute_def line_name_def line_type_def)
    next
      case (2 ty name f)
      with rtpmap parsed_snoc_with_codec [OF assms(1), of f "\<lambda>_. name" a ty name] show ?thesis
        by (simp add: parse_attribute_def line_name_def line_type_def)
    qed
  next
    case fmtp
    show ?thesis
    proof (cases rule: parse_fmtp_cases [of "at_Value a"])
      case 1
      with fmtp parsed_snoc_other [OF assms(1), of a] show ?thesis
        by (simp add: parse_attribute_def line_name_def line_type_def)
    next
      case (2 ty f)
      with fmtp parsed_snoc_with_codec [OF assms(1), of f "\<lambda>n. n" a ty] show ?thesis
        by (simp add: parse_attribute_def line_name_def line_type_def)
    qed
  next
    case other
    then have "parsed (as @ [a]) {} (ps_codecs ps)"
      by (intro parsed_snoc_other [OF assms(1)]) (simp_all add: line_name_def line_type_def)
    with other assms(2) show ?thesis
      by (auto simp: parse_attribute_def crypto_parses_def split: sum.splits option.splits)
  qed
qed

lemma parse_attributes_parsed:
  "parsed as {} (ps_codecs ps) \<Longrightarrow>
    (if list_all (crypto_parses key_len) ms
     then \<exists>ps1. parse_attributes key_len newdir ms ps = Inr ps1 \<and> parsed (as @ ms) {} (ps_codecs ps1)
     else isl (parse_attributes key_len newdir ms ps))"
proof (induction ms arbitrary: as ps)
  case (Cons m ms)
  show ?case
  proof (cases "crypto_parses key_len m")
    case True
    with parse_attribute_parsed [OF Cons.prems, of key_len m newdir] obtain ps1 where
      "parse_attribute key_len newdir m ps = Inr ps1" "parsed (as @ [m]) {} (ps_codecs ps1)" by blast
    with Cons.IH [of "as @ [m]" ps1] True show ?thesis by auto
  next
    case False
    then have "isl (parse_attribute key_len newdir m ps)"
      by (auto simp: crypto_parses_def parse_attribute_def split: sum.splits option.splits)
    with False show ?thesis by (cases "parse_attribute key_len newdir m ps") auto
  qed
qed simp

lemma parse_formats_parsed:
  "parsed as T cs \<Longrightarrow> parsed as (T \<union> {ty. list_ex (\<lambda>f. Atoi f = Inr ty) fs}) (fold parse_format fs cs)"
proof (induction fs arbitrary: T cs)
  case (Cons f fs)
  have "parsed as (T \<union> {ty. Atoi f = Inr ty}) (parse_format f cs)"
  proof (cases "Atoi f")
    case (Inr ty)
    with parsed_with_codec [OF Cons.prems, of "\<lambda>c. c" "\<lambda>n. n" ty] show ?thesis
      by (auto simp: parse_format_def parsed_def)
  qed (use Cons.prems in \<open>simp add: parse_format_def\<close>)
  from Cons.IH [OF this] show ?case by (simp add: Un_assoc Collect_disj_eq)
qed simp

lemma resolve_panics: "length (se_byType e) = 255 \<Longrightarrow> resolve e s c = None \<longleftrightarrow> lc_Name c = [] \<and> (word_of_int (lc_Type c) :: u8) = 255"
proof -
  assume len: "length (se_byType e) = 255"
  have "unat w < 255 \<longleftrightarrow> w \<noteq> 255" for w :: u8
    using unat_u8_less [of w] by (auto simp: word_unat_eq_iff)
  then show ?thesis by (auto simp: resolve_def CodecByPayloadType_def go_index_def len split: Option.bind_splits)
qed

lemma resolve_all_panics: "resolve_all e s cs = None \<longleftrightarrow> (\<exists>c \<in> set cs. resolve e s c = None)"
  by (induction cs) (auto split: Option.bind_splits)

text \<open>
  C34: a description can make the parser panic.  With the table of the codecs registered, \<open>ParseMediaWith\<close>
  panics exactly when every \<open>crypto\<close> line parses, and some payload type with the low byte 255, given by an
  \<open>rtpmap\<close>, an \<open>fmtp\<close> or a format of the media line, has no name: no \<open>rtpmap\<close> that is not skipped gives it
  one, or the last one gives it the empty name.  It returns a description or an error on every other input.
\<close>

theorem ParseMediaWith_panics:
  assumes "register_all (\<lambda>c. \<lparr>codec_static = ti_RTPIsStatic (ct_info c), codec_ptype = ti_RTPDefType (ct_info c)\<rparr>) codecs
      codecByType_init = Some (se_byType e)"
  shows "ParseMediaWith e key_len newdir s m = None \<longleftrightarrow>
    list_all (crypto_parses key_len) (mm_Attributes m) \<and>
    (\<exists>ty. has_type ty m \<and> (word_of_int ty :: u8) = 255 \<and> last_name ty (mm_Attributes m) = [])"
proof -
  define ps0 where "ps0 = \<lparr>ps_codecs = [], ps_crypto = [], ps_direction = 0\<rparr>"
  have len: "length (se_byType e) = 255" using register_all_length [OF assms] by (simp add: codecByType_init_def)
  have "parsed [] {} (ps_codecs ps0)" by (simp add: parsed_def ps0_def)
  note p = parse_attributes_parsed [OF this, of key_len "mm_Attributes m" newdir]
  show ?thesis
  proof (cases "list_all (crypto_parses key_len) (mm_Attributes m)")
    case False
    with p show ?thesis by (auto simp: ParseMediaWith_def ps0_def [symmetric] isl_def)
  next
    case True
    with p obtain ps1 where ps1: "parse_attributes key_len newdir (mm_Attributes m) ps0 = Inr ps1"
      "parsed (mm_Attributes m) {} (ps_codecs ps1)" by auto
    define cs where "cs = fold parse_format (mn_Formats (mm_MediaName m)) (ps_codecs ps1)"
    from parse_formats_parsed [OF ps1(2), of "mn_Formats (mm_MediaName m)"]
    have cs: "\<forall>c \<in> set cs. lc_Name c = last_name (lc_Type c) (mm_Attributes m)" "lc_Type ` set cs = {ty. has_type ty m}"
      by (auto simp: parsed_def cs_def has_type_def list_ex_iff)
    have "ParseMediaWith e key_len newdir s m = None \<longleftrightarrow> (\<exists>c \<in> set cs. lc_Name c = [] \<and> (word_of_int (lc_Type c) :: u8) = 255)"
      by (simp add: ParseMediaWith_def ps0_def [symmetric] ps1(1) cs_def Option.bind_eq_None_conv resolve_all_panics resolve_panics [OF len])
    also have "\<dots> \<longleftrightarrow> (\<exists>ty \<in> lc_Type ` set cs. last_name ty (mm_Attributes m) = [] \<and> (word_of_int ty :: u8) = 255)"
      using cs(1) by auto
    finally show ?thesis using True cs(2) by auto
  qed
qed

text \<open>A format without \<open>rtpmap\<close>; an \<open>rtpmap\<close> with the empty name; and no panic after a bad \<open>crypto\<close> line.\<close>

abbreviation "unnamed_255 \<equiv> audio_section 5004 False [''0'', ''255''] tail_attributes"
abbreviation "empty_name_255 \<equiv> audio_section 5004 False [''0''] [\<lparr>at_Key = ''rtpmap'', at_Value = ''255 /8000''\<rparr>]"
abbreviation "bad_crypto_255 \<equiv> audio_section 5004 False [''255''] [\<lparr>at_Key = ''crypto'', at_Value = ''x AES inline:''\<rparr>]"

definition registered_env :: sdp_env where
  "registered_env = example_env\<lparr>se_byType := the (register_all
     (\<lambda>c. \<lparr>codec_static = ti_RTPIsStatic (ct_info c), codec_ptype = ti_RTPDefType (ct_info c)\<rparr>) example_codecs codecByType_init)\<rparr>"

theorem ParseMediaWith_panics_witness:
  "ParseMediaWith registered_env example_len (\<lambda>_. Inr 2) None unnamed_255 = None \<and>
   ParseMediaWith registered_env example_len (\<lambda>_. Inr 2) None empty_name_255 = None \<and>
   ParseMediaWith registered_env example_len (\<lambda>_. Inr 2) None bad_crypto_255 \<noteq> None"
proof -
  have "\<not> Option.is_none (register_all (\<lambda>c. \<lparr>codec_static = ti_RTPIsStatic (ct_info c), codec_ptype = ti_RTPDefType (ct_info c)\<rparr>)
      example_codecs codecByType_init)" by code_simp
  then have "register_all (\<lambda>c. \<lparr>codec_static = ti_RTPIsStatic (ct_info c), codec_ptype = ti_RTPDefType (ct_info c)\<rparr>)
      example_codecs codecByType_init = Some (se_byType registered_env)" by (auto simp: registered_env_def Option.is_none_def)
  note panics = ParseMediaWith_panics [OF this, of example_len "\<lambda>_. Inr 2" None]
  have "has_type 255 unnamed_255" "has_type 255 empty_name_255"
    "list_all (crypto_parses example_len) (mm_Attributes unnamed_255)" "last_name 255 (mm_Attributes unnamed_255) = []"
    "list_all (crypto_parses example_len) (mm_Attributes empty_name_255)" "last_name 255 (mm_Attributes empty_name_255) = []"
    "\<not> list_all (crypto_parses example_len) (mm_Attributes bad_crypto_255)"
    by code_simp+
  then show ?thesis unfolding panics by (auto intro!: exI [of _ 255])
qed

end
