(* ===== verification/Sdp_Session.thy ===== *)
theory Sdp_Session
  imports Sdp_Negotiate
begin

text \<open>
  Offers and answers as whole session descriptions (\<open>sdp/offer.go\<close>, \<open>sdp/helpers.go\<close>): creating an offer,
  parsing a description, answering an offer and applying the answer.  An address of \<open>net/netip\<close> is a
  value of type \<open>'a\<close>; the calls into \<open>pion/sdp\<close>, \<open>pion/srtp\<close> and \<open>net/netip\<close> are one record of parameters,
  random session identifiers are arguments.
\<close>

section \<open>Data\<close>

record origin =
  or_Username :: string
  or_SessionID :: u64
  or_SessionVersion :: u64
  or_NetworkType :: string
  or_AddressType :: string
  or_UnicastAddress :: string

record session_description =
  sd_Version :: int
  sd_Origin :: origin
  sd_SessionName :: string
  sd_ConnectionInformation :: "connection_information option"
  sd_TimeDescriptions :: "(u64 \<times> u64) list"
  sd_Attributes :: "attribute list"
  sd_MediaDescriptions :: "media_description list"

type_synonym 'a addr_port = "'a \<times> u16"

record 'a description =
  ds_SDP :: session_description
  ds_Addr :: "'a addr_port"
  ds_MediaDesc :: media_desc

record 'a media_config =
  mc_Local :: "'a addr_port"
  mc_Remote :: "'a addr_port"
  mc_Audio :: audio_config
  mc_Crypto :: "srtp_config option"
  mc_PeerDirection :: nat

text \<open>
  The parameters: \<open>KeyLen\<close>, \<open>sdp.NewDirection\<close> and \<open>sdp.DirectionSendRecv\<close>, whether
  \<open>SessionDescription.Attribute\<close> finds a key, \<open>SessionDescription.Unmarshal\<close>, and of \<open>netip.Addr\<close> the
  text, the parser and \<open>IsValid\<close>.
\<close>

record ('a, 'd) sdp_ext =
  x_KeyLen :: suite_len
  x_NewDirection :: "string \<Rightarrow> go_error + nat"
  x_SendRecv :: nat
  x_Attribute :: "session_description \<Rightarrow> string \<Rightarrow> bool"
  x_Unmarshal :: "'d \<Rightarrow> go_error + session_description"
  x_String :: "'a \<Rightarrow> string"
  x_ParseAddr :: "string \<Rightarrow> go_error + 'a"
  x_IsValid :: "'a \<Rightarrow> bool"

definition ErrNoCommonCrypto :: go_error where "ErrNoCommonCrypto = ErrOther ''no common encryption profiles''"

section \<open>The destination of a description\<close>

definition GetAudio :: "session_description \<Rightarrow> media_description option" where
  "GetAudio s = find (\<lambda>m. mn_Media (mm_MediaName m) = ''audio'') (sd_MediaDescriptions s)"

definition connAddr :: "connection_information option \<Rightarrow> string" where
  "connAddr ci = (case ci of None \<Rightarrow> [] | Some c \<Rightarrow>
     if con_NetworkType c \<noteq> ''IN'' then [] else (case con_Address c of None \<Rightarrow> [] | Some a \<Rightarrow> a))"

definition GetAudioDest ::
  "('a, 'd) sdp_ext \<Rightarrow> session_description option \<Rightarrow> media_description option \<Rightarrow> go_error + 'a addr_port" where
  "GetAudioDest x s audio =
     (case (s, audio) of
        (Some sd, Some m) \<Rightarrow>
          (let addr0 = connAddr (mm_ConnectionInformation m);
               addr1 = (if addr0 = [] then connAddr (sd_ConnectionInformation sd) else addr0);
               addr = (if addr1 = [] \<and> or_NetworkType (sd_Origin sd) = ''IN'' then or_UnicastAddress (sd_Origin sd) else addr1)
           in if addr = [] then Inl (ErrOther ''no destination address in sdp'')
              else case x_ParseAddr x addr of Inl _ \<Rightarrow> Inl (ErrOther ''invalid destination address'')
              | Inr ip \<Rightarrow> Inr (ip, word_of_int (mn_Port (mm_MediaName m))))
      | _ \<Rightarrow> Inl (ErrOther ''no audio in sdp''))"

section \<open>Building descriptions\<close>

definition our_session :: "u64 \<Rightarrow> u64 \<Rightarrow> string \<Rightarrow> media_description \<Rightarrow> session_description" where
  "our_session sid version addr m =
     \<lparr>sd_Version = 0,
      sd_Origin = \<lparr>or_Username = ''-'', or_SessionID = sid, or_SessionVersion = version, or_NetworkType = ''IN'',
        or_AddressType = ''IP4'', or_UnicastAddress = addr\<rparr>,
      sd_SessionName = ''LiveKit'',
      sd_ConnectionInformation = Some \<lparr>con_NetworkType = ''IN'', con_AddressType = ''IP4'', con_Address = Some addr\<rparr>,
      sd_TimeDescriptions = [(0, 0)], sd_Attributes = [], sd_MediaDescriptions = [m]\<rparr>"

definition NewOfferWith ::
  "('a, 'd) sdp_ext \<Rightarrow> sdp_env \<Rightarrow> ('s \<Rightarrow> (go_error + srtp_profile list) \<times> 's) \<Rightarrow> nat option \<Rightarrow> 'a \<Rightarrow> int \<Rightarrow> encryption \<Rightarrow>
    u64 \<Rightarrow> 's \<Rightarrow> (go_error + 'a description) \<times> 's" where
  "NewOfferWith x e locals s publicIp port encrypted sessId st =
     (case OfferMediaWith e locals s port encrypted st of (Inl err, st1) \<Rightarrow> (Inl err, st1)
      | (Inr (m, mediaDesc), st1) \<Rightarrow>
          (Inr \<lparr>ds_SDP = our_session sessId sessId (x_String x publicIp) mediaDesc,
             ds_Addr = (publicIp, word_of_int port), ds_MediaDesc = m\<rparr>, st1))"

definition NewOffer ::
  "('a, 'd) sdp_ext \<Rightarrow> sdp_env \<Rightarrow> ('s \<Rightarrow> (go_error + srtp_profile list) \<times> 's) \<Rightarrow> 'a \<Rightarrow> int \<Rightarrow> encryption \<Rightarrow>
    u64 \<Rightarrow> 's \<Rightarrow> (go_error + 'a description) \<times> 's" where
  "NewOffer x e locals publicIp port encrypted sessId st = NewOfferWith x e locals GlobalCodecs publicIp port encrypted sessId st"

definition buildLocalSDP ::
  "('a, 'd) sdp_ext \<Rightarrow> u64 \<Rightarrow> u64 \<Rightarrow> 'a addr_port \<Rightarrow> audio_config \<Rightarrow> srtp_profile option \<Rightarrow> session_description" where
  "buildLocalSDP x random sessionID0 local audio sprof =
     (let sessionID = (if sessionID0 = 0 then random else sessionID0)
      in our_session sessionID (sessionID + 4) (x_String x (fst local)) (AnswerMedia (uint (snd local)) audio sprof))"

text \<open>\<open>WithLocalProfiles\<close> on the profiles of the options.\<close>

definition WithLocalProfiles :: "srtp_profile list \<Rightarrow> srtp_profile list \<Rightarrow> srtp_profile list" where
  "WithLocalProfiles profiles opts = (if profiles \<noteq> [] then profiles else opts)"

section \<open>Parsing, answering, applying\<close>

fun session_direction :: "('a, 'd) sdp_ext \<Rightarrow> session_description \<Rightarrow> string list \<Rightarrow> nat \<Rightarrow> nat" where
  "session_direction x sd [] dir = dir"
| "session_direction x sd (key # keys) dir =
     (if x_Attribute x sd key then (case x_NewDirection x key of Inl _ \<Rightarrow> 0 | Inr d \<Rightarrow> d) else session_direction x sd keys dir)"

text \<open>\<open>None\<close> is the panic of \<open>ParseMediaWith\<close>.\<close>

definition ParseWith :: "('a, 'd) sdp_ext \<Rightarrow> sdp_env \<Rightarrow> nat option \<Rightarrow> 'd \<Rightarrow> (go_error + 'a description) option" where
  "ParseWith x e s data =
     (case x_Unmarshal x data of Inl err \<Rightarrow> Some (Inl err)
      | Inr sd \<Rightarrow> (case GetAudio sd of None \<Rightarrow> Some (Inl (ErrOther ''no audio in sdp''))
      | Some audio \<Rightarrow> (case GetAudioDest x (Some sd) (Some audio) of Inl err \<Rightarrow> Some (Inl err)
      | Inr addr \<Rightarrow>
          if \<not> x_IsValid x (fst addr) \<or> snd addr = 0 then Some (Inl (ErrOther ''invalid audio address''))
          else do {
            r \<leftarrow> ParseMediaWith e (x_KeyLen x) (x_NewDirection x) s audio;
            Some (case r of Inl err \<Rightarrow> Inl err
              | Inr m \<Rightarrow>
                  (let dir0 = session_direction x sd [''sendrecv'', ''sendonly'', ''recvonly'', ''inactive''] (x_SendRecv x);
                       dir = (if md_Direction m \<noteq> 0 then md_Direction m else dir0)
                   in Inr \<lparr>ds_SDP = sd, ds_Addr = addr, ds_MediaDesc = m\<lparr>md_Direction := dir\<rparr>\<rparr>)) })))"

text \<open>\<open>Offer\<close> and \<open>Answer\<close> are the same structure as \<open>Description\<close>: the conversions keep the value.\<close>

definition ParseOfferWith :: "('a, 'd) sdp_ext \<Rightarrow> sdp_env \<Rightarrow> nat option \<Rightarrow> 'd \<Rightarrow> (go_error + 'a description) option" where
  "ParseOfferWith x e s data = do {
     r \<leftarrow> ParseWith x e s data;
     Some (case r of Inl err \<Rightarrow> Inl err | Inr d \<Rightarrow> Inr d) }"

definition ParseAnswerWith :: "('a, 'd) sdp_ext \<Rightarrow> sdp_env \<Rightarrow> nat option \<Rightarrow> 'd \<Rightarrow> (go_error + 'a description) option" where
  "ParseAnswerWith x e s data = do {
     r \<leftarrow> ParseWith x e s data;
     Some (case r of Inl err \<Rightarrow> Inl err | Inr d \<Rightarrow> Inr d) }"

definition sdp_Parse :: "('a, 'd) sdp_ext \<Rightarrow> sdp_env \<Rightarrow> 'd \<Rightarrow> (go_error + 'a description) option" where
  "sdp_Parse x e data = ParseWith x e GlobalCodecs data"

definition ParseOffer :: "('a, 'd) sdp_ext \<Rightarrow> sdp_env \<Rightarrow> 'd \<Rightarrow> (go_error + 'a description) option" where
  "ParseOffer x e data = ParseOfferWith x e GlobalCodecs data"

definition ParseAnswer :: "('a, 'd) sdp_ext \<Rightarrow> sdp_env \<Rightarrow> 'd \<Rightarrow> (go_error + 'a description) option" where
  "ParseAnswer x e data = ParseAnswerWith x e GlobalCodecs data"

text \<open>The crypto part of \<open>Answer\<close>: \<open>LocalProfiles\<close> is called only when it is needed.\<close>

definition answer_crypto ::
  "('s \<Rightarrow> (go_error + srtp_profile list) \<times> 's) \<Rightarrow> srtp_profile list \<Rightarrow> encryption \<Rightarrow> 's \<Rightarrow>
    (go_error + (srtp_config \<times> srtp_profile) option) \<times> 's" where
  "answer_crypto locals profiles enc st =
     (if profiles \<noteq> [] \<and> enc \<noteq> EncryptionNone then
        (case locals st of (Inl err, st1) \<Rightarrow> (Inl err, st1) | (Inr answer, st1) \<Rightarrow> (Inr (SelectCrypto profiles answer True), st1))
      else (Inr None, st))"

definition Offer_Answer ::
  "('a, 'd) sdp_ext \<Rightarrow> ('s \<Rightarrow> (go_error + srtp_profile list) \<times> 's) \<Rightarrow> 'a description \<Rightarrow> 'a \<Rightarrow> int \<Rightarrow> encryption \<Rightarrow> 's \<Rightarrow>
    (go_error + 'a description \<times> 'a media_config) \<times> 's" where
  "Offer_Answer x locals d publicIp port enc st =
     (case SelectAudio (ds_MediaDesc d) False of Inl err \<Rightarrow> (Inl err, st)
      | Inr audio \<Rightarrow> (case answer_crypto locals (md_CryptoProfiles (ds_MediaDesc d)) enc st of (Inl err, st1) \<Rightarrow> (Inl err, st1)
      | (Inr crypto, st1) \<Rightarrow>
          if crypto = None \<and> enc = EncryptionRequire then (Inl ErrNoCommonCrypto, st1)
          else
            (let sid = or_SessionID (sd_Origin (ds_SDP d));
                 sdp = our_session sid (sid + 2) (x_String x publicIp) (AnswerMedia port audio (map_option snd crypto));
                 src = (publicIp, word_of_int port)
             in (Inr (\<lparr>ds_SDP = sdp, ds_Addr = src,
                   ds_MediaDesc = \<lparr>md_Audio = [ac_Codec audio], md_Data = (case ac_DTMF audio of None \<Rightarrow> [] | Some t \<Rightarrow> [t]),
                     md_Unknown = [], md_CryptoProfiles = [], md_Direction = 0\<rparr>\<rparr>,
                 \<lparr>mc_Local = src, mc_Remote = ds_Addr d, mc_Audio = audio, mc_Crypto = map_option fst crypto,
                   mc_PeerDirection = md_Direction (ds_MediaDesc d)\<rparr>), st1))))"

definition Answer_apply ::
  "('a, 'd) sdp_ext \<Rightarrow> u64 \<Rightarrow> 'a description \<Rightarrow> 'a description \<Rightarrow> encryption \<Rightarrow> bool \<Rightarrow>
    go_error + 'a media_config \<times> session_description option" where
  "Answer_apply x random d offer enc generateLocalSDP =
     (case SelectAudio (ds_MediaDesc d) True of Inl err \<Rightarrow> Inl err
      | Inr audio \<Rightarrow>
          let crypto = (if md_CryptoProfiles (ds_MediaDesc d) \<noteq> [] \<and> enc \<noteq> EncryptionNone
                then SelectCrypto (md_CryptoProfiles (ds_MediaDesc offer)) (md_CryptoProfiles (ds_MediaDesc d)) False else None)
          in if crypto = None \<and> enc = EncryptionRequire then Inl ErrNoCommonCrypto
             else Inr (\<lparr>mc_Local = ds_Addr offer, mc_Remote = ds_Addr d, mc_Audio = audio, mc_Crypto = map_option fst crypto,
                  mc_PeerDirection = md_Direction (ds_MediaDesc d)\<rparr>,
               if generateLocalSDP then Some (buildLocalSDP x random (or_SessionID (sd_Origin (ds_SDP offer))) (ds_Addr offer) audio
                 (map_option snd crypto)) else None))"

definition Apply :: "('a, 'd) sdp_ext \<Rightarrow> 'a description \<Rightarrow> 'a description \<Rightarrow> encryption \<Rightarrow> go_error + 'a media_config" where
  "Apply x d offer enc = (case Answer_apply x 0 d offer enc False of Inl err \<Rightarrow> Inl err | Inr (mc, _) \<Rightarrow> Inr mc)"

definition ApplyWithLocal ::
  "('a, 'd) sdp_ext \<Rightarrow> u64 \<Rightarrow> 'a description \<Rightarrow> 'a description \<Rightarrow> encryption \<Rightarrow> go_error + 'a media_config \<times> session_description option" where
  "ApplyWithLocal x random d offer enc = Answer_apply x random d offer enc True"

section \<open>Both sides\<close>

text \<open>An address that survives its printing, and a port that fits.\<close>

definition wire_addr :: "('a, 'd) sdp_ext \<Rightarrow> 'a \<Rightarrow> int \<Rightarrow> bool" where
  "wire_addr x ip port \<longleftrightarrow> x_String x ip \<noteq> [] \<and> x_ParseAddr x (x_String x ip) = Inr ip \<and> x_IsValid x ip \<and> 0 < port \<and> port < 65536"

lemma wire_port: "0 < port \<Longrightarrow> port < 65536 \<Longrightarrow> (word_of_int port :: u16) \<noteq> 0"
proof -
  assume p: "0 < port" "port < 65536"
  then have "uint (word_of_int port :: u16) = port" by (simp add: uint_word_of_int)
  with p(1) show ?thesis by (metis less_irrefl unsigned_0)
qed

text \<open>Parsing a description of ours: the address is the sender's and the media section decides the rest.\<close>

lemma ParseWith_ours:
  assumes "x_Unmarshal x data = Inr (our_session sid v (x_String x ip) (audio_section port sec fs attrs))" "wire_addr x ip port"
    and "ParseMediaWith e (x_KeyLen x) (x_NewDirection x) s (audio_section port sec fs attrs) = Some (Inr m)" "md_Direction m \<noteq> 0"
  shows "ParseWith x e s data = Some (Inr \<lparr>ds_SDP = our_session sid v (x_String x ip) (audio_section port sec fs attrs),
    ds_Addr = (ip, word_of_int port), ds_MediaDesc = m\<rparr>)"
proof -
  have g: "GetAudio (our_session sid v (x_String x ip) (audio_section port sec fs attrs)) = Some (audio_section port sec fs attrs)"
    by (simp add: GetAudio_def our_session_def audio_section_def)
  have d: "GetAudioDest x (Some (our_session sid v (x_String x ip) (audio_section port sec fs attrs))) (Some (audio_section port sec fs attrs)) =
      Inr (ip, word_of_int port)"
    using assms(2) by (simp add: GetAudioDest_def our_session_def audio_section_def connAddr_def wire_addr_def Let_def)
  show ?thesis
    using assms wire_port [of port] by (simp add: ParseWith_def g d wire_addr_def Let_def)
qed

text \<open>The keys of the two sides: both unencrypted, or the same suite with the keys exchanged.\<close>

definition mirrored :: "srtp_config option \<Rightarrow> srtp_config option \<Rightarrow> bool" where
  "mirrored c1 c2 \<longleftrightarrow>
     (case (c1, c2) of (None, None) \<Rightarrow> True
      | (Some a, Some b) \<Rightarrow> sc_Profile a = sc_Profile b \<and> sc_Keys a = swap_keys (sc_Keys b)
      | _ \<Rightarrow> False)"

lemma AnswerMedia_section: "\<exists>sec fs attrs. AnswerMedia port a crypt = audio_section port sec fs attrs"
  by (auto simp: AnswerMedia_def Let_def)

lemma OfferMediaWith_section:
  "OfferMediaWith e locals s port enc st = (Inr (own, m), st') \<Longrightarrow>
    (\<exists>sec fs attrs. m = audio_section port sec fs attrs) \<and> (enc = EncryptionNone \<longrightarrow> md_CryptoProfiles own = [])"
  by (auto simp: OfferMediaWith_def Let_def split: prod.splits sum.splits if_splits)

lemma SelectAudio_error: "SelectAudio desc answer = Inl err \<Longrightarrow> err = ErrNoCommonMedia"
  by (auto simp: SelectAudio_def Let_def split: option.splits)

text \<open>What \<open>Answer\<close> returns, case by case.\<close>

definition answered :: "('a, 'd) sdp_ext \<Rightarrow> 'a description \<Rightarrow> 'a \<Rightarrow> int \<Rightarrow> audio_config \<Rightarrow> (srtp_config \<times> srtp_profile) option \<Rightarrow>
    'a description \<times> 'a media_config" where
  "answered x d ip port audio crypto =
     (let sid = or_SessionID (sd_Origin (ds_SDP d))
      in (\<lparr>ds_SDP = our_session sid (sid + 2) (x_String x ip) (AnswerMedia port audio (map_option snd crypto)),
            ds_Addr = (ip, word_of_int port),
            ds_MediaDesc = \<lparr>md_Audio = [ac_Codec audio], md_Data = (case ac_DTMF audio of None \<Rightarrow> [] | Some t \<Rightarrow> [t]),
              md_Unknown = [], md_CryptoProfiles = [], md_Direction = 0\<rparr>\<rparr>,
          \<lparr>mc_Local = (ip, word_of_int port), mc_Remote = ds_Addr d, mc_Audio = audio, mc_Crypto = map_option fst crypto,
            mc_PeerDirection = md_Direction (ds_MediaDesc d)\<rparr>))"

lemma Offer_Answer_eq:
  "locals st = (Inr ps, st') \<Longrightarrow>
    fst (Offer_Answer x locals d ip port enc st) =
      (case SelectAudio (ds_MediaDesc d) False of Inl err \<Rightarrow> Inl err
       | Inr audio \<Rightarrow>
           let crypto = (if md_CryptoProfiles (ds_MediaDesc d) \<noteq> [] \<and> enc \<noteq> EncryptionNone
                 then SelectCrypto (md_CryptoProfiles (ds_MediaDesc d)) ps True else None)
           in if crypto = None \<and> enc = EncryptionRequire then Inl ErrNoCommonCrypto else Inr (answered x d ip port audio crypto))"
  by (auto simp: Offer_Answer_def answer_crypto_def answered_def Let_def split: sum.split)

text \<open>The answer read by the offerer: its address, its codec, and the profile that was put into it.\<close>

lemma answer_read:
  assumes "x_Unmarshal x data = Inr (ds_SDP (fst (answered x d ip port a crypto)))" "wire_addr x ip port"
    and "ParseMediaWith e (x_KeyLen x) (x_NewDirection x) s (AnswerMedia port a (map_option snd crypto)) = Some (Inr d2)" "md_Direction d2 \<noteq> 0"
  shows "\<exists>sd. ParseWith x e s data = Some (Inr \<lparr>ds_SDP = sd, ds_Addr = (ip, word_of_int port), ds_MediaDesc = d2\<rparr>)"
proof -
  obtain sec fs attrs where "AnswerMedia port a (map_option snd crypto) = audio_section port sec fs attrs"
    using AnswerMedia_section by blast
  with assms show ?thesis using ParseWith_ours [of x data "or_SessionID (sd_Origin (ds_SDP d))"]
    by (auto simp: answered_def Let_def)
qed

lemma wire_SelectCrypto:
  assumes "list_all (wire_profile key_len) own" "list_all (wire_profile key_len) ps" "SelectCrypto own ps True = Some (c, prof)"
  shows "wire_profile key_len prof"
proof -
  obtain off ans sp where o: "ans \<in> set ps" "find (\<lambda>off. sp_Profile off = sp_Profile ans) own = Some off"
    "profile_Parse (sp_Profile ans) = Inr sp" "(c, prof) = crypto_pair off ans sp True"
    using assms(3) select_answer_spec by (fastforce simp: SelectCrypto_def split: if_splits)
  then have "prof = ans\<lparr>sp_Index := sp_Index off\<rparr>" "off \<in> set own"
    using find_hit [OF o(2)] by (simp_all add: crypto_pair_def Let_def)
  with assms(1,2) o(1,3) show ?thesis by (auto simp: list_all_iff wire_profile_def profile_fits_def)
qed

text \<open>The crypto configurations of the two sides fit.\<close>

lemma SelectCrypto_mirrored:
  assumes "list_all (wire_profile key_len) own" "list_all (wire_profile key_len) ps" "own \<noteq> []"
  shows "case SelectCrypto own ps True of None \<Rightarrow> sp_Profile ` set own \<inter> sp_Profile ` set ps = {}
    | Some (c, prof) \<Rightarrow> wire_profile key_len prof \<and>
        (\<exists>c2 off. SelectCrypto own [prof] False = Some (c2, off) \<and> mirrored (Some c2) (Some c))"
  using crypto_mirrored [OF assms] wire_SelectCrypto [OF assms(1,2)] by (auto simp: mirrored_def split: option.splits)

lemma Apply_read:
  assumes "SelectAudio d2 True = Inr a" "md_CryptoProfiles d2 = (case map_option snd crypto of None \<Rightarrow> [] | Some p \<Rightarrow> [p])"
    and "\<And>c prof. crypto = Some (c, prof) \<Longrightarrow> enc \<noteq> EncryptionNone \<and>
      (\<exists>c2 off. SelectCrypto (md_CryptoProfiles (ds_MediaDesc offer)) [prof] False = Some (c2, off) \<and> mirrored (Some c2) (Some c))"
  shows "case Apply x \<lparr>ds_SDP = sd, ds_Addr = addr, ds_MediaDesc = d2\<rparr> offer enc of
      Inl err \<Rightarrow> err = ErrNoCommonCrypto \<and> enc = EncryptionRequire \<and> crypto = None
    | Inr mc \<Rightarrow> mc_Audio mc = a \<and> mc_Local mc = ds_Addr offer \<and> mc_Remote mc = addr \<and> mirrored (mc_Crypto mc) (map_option fst crypto)"
proof (cases crypto)
  case None
  with assms(1,2) show ?thesis by (auto simp: Apply_def Answer_apply_def Let_def mirrored_def)
next
  case (Some r)
  obtain c prof where r: "r = (c, prof)" by (cases r)
  with assms(3) Some obtain c2 off where "enc \<noteq> EncryptionNone"
    "SelectCrypto (md_CryptoProfiles (ds_MediaDesc offer)) [prof] False = Some (c2, off)" "mirrored (Some c2) (Some c)" by blast
  with assms(1,2) Some r show ?thesis by (simp add: Apply_def Answer_apply_def Let_def)
qed

text \<open>
  The answer as the offerer reads it, from any text that parses to it, and what applying it gives: an error
  only when encryption is required and was left out, else the codec and the events of the answerer, the
  addresses exchanged and the keys mirrored.
\<close>

definition offerer_agrees :: "('a, 'd) sdp_ext \<Rightarrow> sdp_env \<Rightarrow> nat option \<Rightarrow> 'a description \<Rightarrow> encryption \<Rightarrow>
    'a description \<Rightarrow> 'a media_config \<Rightarrow> bool" where
  "offerer_agrees x e s1 offer enc1 answer mc2 \<longleftrightarrow>
     (\<forall>data2. x_Unmarshal x data2 = Inr (ds_SDP answer) \<longrightarrow>
       (\<exists>answer'. ParseWith x e s1 data2 = Some (Inr answer') \<and>
         (case Apply x answer' offer enc1 of
            Inl err \<Rightarrow> err = ErrNoCommonCrypto \<and> enc1 = EncryptionRequire \<and> mc_Crypto mc2 = None
          | Inr mc1 \<Rightarrow> mc_Audio mc1 = mc_Audio mc2 \<and> mc_Local mc1 = mc_Remote mc2 \<and> mc_Remote mc1 = mc_Local mc2 \<and>
              mirrored (mc_Crypto mc1) (mc_Crypto mc2))))"

text \<open>The offer as the answerer reads it.\<close>

lemma offer_read:
  assumes "env_ok e" "distinct (map si_Type (OfferCodecsWith e s1))"
    and offer: "NewOfferWith x e locals1 s1 ip1 port1 enc1 sid st1 = (Inr offer, st1')"
    and wire1: "list_all (wire_profile (x_KeyLen x)) (md_CryptoProfiles (ds_MediaDesc offer))"
    and addr: "wire_addr x ip1 port1" and dir: "x_NewDirection x ''sendrecv'' = Inr dir" "dir \<noteq> 0"
    and data1: "x_Unmarshal x data1 = Inr (ds_SDP offer)"
  shows "\<exists>d. ParseWith x e s2 data1 = Some (Inr \<lparr>ds_SDP = ds_SDP offer, ds_Addr = ds_Addr offer, ds_MediaDesc = d\<rparr>) \<and>
    md_CryptoProfiles d = md_CryptoProfiles (ds_MediaDesc offer) \<and>
    (enc1 = EncryptionNone \<longrightarrow> md_CryptoProfiles (ds_MediaDesc offer) = []) \<and>
    (case SelectAudio d False of
       Inl _ \<Rightarrow> filter (shared e s2) (md_Audio (ds_MediaDesc offer)) = []
     | Inr a \<Rightarrow> \<forall>port2 crypt. pred_option (wire_profile (x_KeyLen x)) crypt \<longrightarrow>
         (\<exists>d2. ParseMediaWith e (x_KeyLen x) (x_NewDirection x) s1 (AnswerMedia port2 a crypt) = Some (Inr d2) \<and>
           md_CryptoProfiles d2 = (case crypt of None \<Rightarrow> [] | Some p \<Rightarrow> [p]) \<and> md_Direction d2 = dir \<and> SelectAudio d2 True = Inr a))"
proof -
  obtain own m where o: "OfferMediaWith e locals1 s1 port1 enc1 st1 = (Inr (own, m), st1')"
    "offer = \<lparr>ds_SDP = our_session sid sid (x_String x ip1) m, ds_Addr = (ip1, word_of_int port1), ds_MediaDesc = own\<rparr>"
    using offer by (auto simp: NewOfferWith_def split: prod.splits sum.splits)
  obtain sec fs attrs where sec: "m = audio_section port1 sec fs attrs" and enc: "enc1 = EncryptionNone \<longrightarrow> md_CryptoProfiles own = []"
    using OfferMediaWith_section [OF o(1)] by blast
  from media_agrees [where newdir = "x_NewDirection x", OF assms(1) o(1) assms(2) _ dir(1), of "x_KeyLen x" s2] wire1
  obtain d where d: "ParseMediaWith e (x_KeyLen x) (x_NewDirection x) s2 m = Some (Inr d)"
    "md_CryptoProfiles d = md_CryptoProfiles own" "md_Direction d = dir"
    "case SelectAudio d False of
       Inl _ \<Rightarrow> filter (shared e s2) (md_Audio own) = []
     | Inr a \<Rightarrow> \<forall>port2 crypt. pred_option (wire_profile (x_KeyLen x)) crypt \<longrightarrow>
         (\<exists>d2. ParseMediaWith e (x_KeyLen x) (x_NewDirection x) s1 (AnswerMedia port2 a crypt) = Some (Inr d2) \<and>
           md_CryptoProfiles d2 = (case crypt of None \<Rightarrow> [] | Some p \<Rightarrow> [p]) \<and> md_Direction d2 = dir \<and> SelectAudio d2 True = Inr a)"
    by (auto simp: o(2))
  have "ParseWith x e s2 data1 = Some (Inr \<lparr>ds_SDP = ds_SDP offer, ds_Addr = ds_Addr offer, ds_MediaDesc = d\<rparr>)"
    using ParseWith_ours [of x data1 sid sid ip1 port1 sec fs attrs e s2 d] data1 addr d(1,3) dir(2) by (simp add: o(2) sec)
  moreover have own: "ds_MediaDesc offer = own" by (simp add: o(2))
  ultimately show ?thesis unfolding own using d enc by blast
qed

text \<open>An answer to it, with the crypto profile \<open>crypto\<close> if any, as the offerer takes it.\<close>

lemma answer_taken:
  assumes d2: "ParseMediaWith e (x_KeyLen x) (x_NewDirection x) s1 (AnswerMedia port2 a (map_option snd crypto)) = Some (Inr d2)"
      "md_CryptoProfiles d2 = (case map_option snd crypto of None \<Rightarrow> [] | Some p \<Rightarrow> [p])" "md_Direction d2 \<noteq> 0" "SelectAudio d2 True = Inr a"
    and mir: "\<And>c prof. crypto = Some (c, prof) \<Longrightarrow> enc1 \<noteq> EncryptionNone \<and>
      (\<exists>c2 off. SelectCrypto (md_CryptoProfiles (ds_MediaDesc offer)) [prof] False = Some (c2, off) \<and> mirrored (Some c2) (Some c))"
    and addr: "wire_addr x ip2 port2" "ds_Addr d = ds_Addr offer"
  shows "case answered x d ip2 port2 a crypto of (answer, mc2) \<Rightarrow> offerer_agrees x e s1 offer enc1 answer mc2"
proof -
  let ?r = "answered x d ip2 port2 a crypto"
  have "offerer_agrees x e s1 offer enc1 (fst ?r) (snd ?r)"
  proof (unfold offerer_agrees_def, intro allI impI)
    fix data2
    assume u: "x_Unmarshal x data2 = Inr (ds_SDP (fst ?r))"
    obtain sd where r: "ParseWith x e s1 data2 = Some (Inr \<lparr>ds_SDP = sd, ds_Addr = (ip2, word_of_int port2), ds_MediaDesc = d2\<rparr>)"
      using answer_read [OF u addr(1) d2(1,3)] by auto
    show "\<exists>answer'. ParseWith x e s1 data2 = Some (Inr answer') \<and>
        (case Apply x answer' offer enc1 of
           Inl err \<Rightarrow> err = ErrNoCommonCrypto \<and> enc1 = EncryptionRequire \<and> mc_Crypto (snd ?r) = None
         | Inr mc1 \<Rightarrow> mc_Audio mc1 = mc_Audio (snd ?r) \<and> mc_Local mc1 = mc_Remote (snd ?r) \<and> mc_Remote mc1 = mc_Local (snd ?r) \<and>
             mirrored (mc_Crypto mc1) (mc_Crypto (snd ?r)))"
      using Apply_read [where x = x and sd = sd and addr = "(ip2, word_of_int port2)", OF d2(4,2) mir] r addr(2)
      by (intro exI [of _ "\<lparr>ds_SDP = sd, ds_Addr = (ip2, word_of_int port2), ds_MediaDesc = d2\<rparr>"])
        (auto simp: answered_def Let_def split: sum.splits)
  qed
  then show ?thesis by (simp add: split_beta)
qed

section \<open>Properties\<close>

text \<open>
  C7: offer, answer and its application leave two configurations that fit.  Let one side make an offer and
  the other parse and answer it, with whatever codec sets, addresses and encryption policies.  The answer
  fails only for want of a common audio codec, or of a common suite when the answerer requires encryption.
  Otherwise the offerer parses the answer, and applying it fails only when the offerer requires encryption
  and the answerer left it out; else both sides have the same codec and telephone events, each has the
  other's address as its remote one, and the keys are mirrored.
\<close>

theorem session_agrees:
  assumes "env_ok e" "distinct (map si_Type (OfferCodecsWith e s1))"
    and offer: "NewOfferWith x e locals1 s1 ip1 port1 enc1 sid st1 = (Inr offer, st1')"
    and wire1: "list_all (wire_profile (x_KeyLen x)) (md_CryptoProfiles (ds_MediaDesc offer))"
    and locals2: "locals2 st2 = (Inr profiles2, st2')" and wire2: "list_all (wire_profile (x_KeyLen x)) profiles2"
    and addrs: "wire_addr x ip1 port1" "wire_addr x ip2 port2"
    and dir: "x_NewDirection x ''sendrecv'' = Inr dir" "dir \<noteq> 0"
    and data1: "x_Unmarshal x data1 = Inr (ds_SDP offer)"
  shows "\<exists>offer'. ParseWith x e s2 data1 = Some (Inr offer') \<and>
    (case fst (Offer_Answer x locals2 offer' ip2 port2 enc2 st2) of
       Inl err \<Rightarrow> err = ErrNoCommonMedia \<and> filter (shared e s2) (md_Audio (ds_MediaDesc offer)) = [] \<or>
         err = ErrNoCommonCrypto \<and> enc2 = EncryptionRequire \<and>
           sp_Profile ` set (md_CryptoProfiles (ds_MediaDesc offer)) \<inter> sp_Profile ` set profiles2 = {}
     | Inr (answer, mc2) \<Rightarrow> offerer_agrees x e s1 offer enc1 answer mc2)"
proof -
  define own where "own = md_CryptoProfiles (ds_MediaDesc offer)"
  from offer_read [OF assms(1,2) offer wire1 addrs(1) dir data1, of s2] obtain d where
    p1: "ParseWith x e s2 data1 = Some (Inr \<lparr>ds_SDP = ds_SDP offer, ds_Addr = ds_Addr offer, ds_MediaDesc = d\<rparr>)"
    and d: "md_CryptoProfiles d = own" "enc1 = EncryptionNone \<longrightarrow> own = []"
    "case SelectAudio d False of
       Inl _ \<Rightarrow> filter (shared e s2) (md_Audio (ds_MediaDesc offer)) = []
     | Inr a \<Rightarrow> \<forall>port2 crypt. pred_option (wire_profile (x_KeyLen x)) crypt \<longrightarrow>
         (\<exists>d2. ParseMediaWith e (x_KeyLen x) (x_NewDirection x) s1 (AnswerMedia port2 a crypt) = Some (Inr d2) \<and>
           md_CryptoProfiles d2 = (case crypt of None \<Rightarrow> [] | Some p \<Rightarrow> [p]) \<and> md_Direction d2 = dir \<and> SelectAudio d2 True = Inr a)"
    unfolding own_def by blast
  define offer' where "offer' = \<lparr>ds_SDP = ds_SDP offer, ds_Addr = ds_Addr offer, ds_MediaDesc = d\<rparr>"
  define crypto where "crypto = (if own \<noteq> [] \<and> enc2 \<noteq> EncryptionNone then SelectCrypto own profiles2 True else None)"
  note sel = SelectCrypto_mirrored [OF wire1 [folded own_def] wire2]
  have mir: "enc1 \<noteq> EncryptionNone \<and> wire_profile (x_KeyLen x) prof \<and>
      (\<exists>c2 off. SelectCrypto own [prof] False = Some (c2, off) \<and> mirrored (Some c2) (Some c))" if "crypto = Some (c, prof)" for c prof
    using that sel d(2) by (auto simp: crypto_def split: if_splits)
  have none: "sp_Profile ` set own \<inter> sp_Profile ` set profiles2 = {}" if "crypto = None" "enc2 = EncryptionRequire"
    using that sel by (cases "own = []") (auto simp: crypto_def split: if_splits)
  have "case fst (Offer_Answer x locals2 offer' ip2 port2 enc2 st2) of
       Inl err \<Rightarrow> err = ErrNoCommonMedia \<and> filter (shared e s2) (md_Audio (ds_MediaDesc offer)) = [] \<or>
         err = ErrNoCommonCrypto \<and> enc2 = EncryptionRequire \<and>
           sp_Profile ` set (md_CryptoProfiles (ds_MediaDesc offer)) \<inter> sp_Profile ` set profiles2 = {}
     | Inr (answer, mc2) \<Rightarrow> offerer_agrees x e s1 offer enc1 answer mc2"
  proof (cases "SelectAudio d False")
    case (Inl err)
    with d(3) SelectAudio_error [OF Inl] show ?thesis
      by (simp add: Offer_Answer_eq [of locals2 st2, OF locals2] offer'_def)
  next
    case (Inr a)
    have ans: "fst (Offer_Answer x locals2 offer' ip2 port2 enc2 st2) =
        (if crypto = None \<and> enc2 = EncryptionRequire then Inl ErrNoCommonCrypto else Inr (answered x offer' ip2 port2 a crypto))"
      by (simp add: Offer_Answer_eq [of locals2 st2, OF locals2] offer'_def Inr d(1) crypto_def Let_def)
    have "\<forall>crypt. pred_option (wire_profile (x_KeyLen x)) crypt \<longrightarrow>
         (\<exists>d2. ParseMediaWith e (x_KeyLen x) (x_NewDirection x) s1 (AnswerMedia port2 a crypt) = Some (Inr d2) \<and>
           md_CryptoProfiles d2 = (case crypt of None \<Rightarrow> [] | Some p \<Rightarrow> [p]) \<and> md_Direction d2 = dir \<and> SelectAudio d2 True = Inr a)"
      using d(3) by (simp add: Inr)
    moreover have "pred_option (wire_profile (x_KeyLen x)) (map_option snd crypto)" using mir by (cases crypto) auto
    ultimately obtain d2 where d2: "ParseMediaWith e (x_KeyLen x) (x_NewDirection x) s1 (AnswerMedia port2 a (map_option snd crypto)) = Some (Inr d2)"
      "md_CryptoProfiles d2 = (case map_option snd crypto of None \<Rightarrow> [] | Some p \<Rightarrow> [p])" "md_Direction d2 \<noteq> 0" "SelectAudio d2 True = Inr a"
      using dir(2) by blast
    have "case answered x offer' ip2 port2 a crypto of (answer, mc2) \<Rightarrow> offerer_agrees x e s1 offer enc1 answer mc2"
      by (rule answer_taken [OF d2 _ addrs(2)]) (use mir in \<open>auto simp: own_def offer'_def\<close>)
    then show ?thesis using none by (auto simp: ans own_def)
  qed
  with p1 show ?thesis unfolding offer'_def by blast
qed

definition example_ext :: "(string, session_description) sdp_ext" where
  "example_ext = \<lparr>x_KeyLen = example_len, x_NewDirection = (\<lambda>_. Inr 1), x_SendRecv = 1, x_Attribute = (\<lambda>_ _. False),
     x_Unmarshal = Inr, x_String = (\<lambda>a. a), x_ParseAddr = Inr, x_IsValid = (\<lambda>_. True)\<rparr>"

theorem session_agrees_witness:
  "\<exists>offer offer' answer mc2.
    fst (NewOfferWith example_ext example_env (\<lambda>st. (Inr [example_profile], st)) None ''10.0.0.1'' 5004 EncryptionRequire 7 ()) = Inr offer \<and>
    ParseWith example_ext example_env (Some 1) (ds_SDP offer) = Some (Inr offer') \<and>
    fst (Offer_Answer example_ext (\<lambda>st. (Inr [example_profile], st)) offer' ''10.0.0.2'' 6000 EncryptionRequire ()) = Inr (answer, mc2) \<and>
    offerer_agrees example_ext example_env None offer EncryptionRequire answer mc2"
proof -
  let ?locals = "\<lambda>st. (Inr [example_profile], st)"
  obtain offer where o: "NewOfferWith example_ext example_env ?locals None ''10.0.0.1'' 5004 EncryptionRequire 7 () = (Inr offer, ())"
    and own: "md_Audio (ds_MediaDesc offer) = filter (\<lambda>c. si_kind c = Audio) (filter (\<lambda>c. si_kind c \<noteq> Unknown) (OfferCodecsWith example_env None))"
      "md_CryptoProfiles (ds_MediaDesc offer) = [example_profile]"
    by (simp add: NewOfferWith_def OfferMediaWith_def Let_def)
  have wire: "list_all (wire_profile (x_KeyLen example_ext)) [example_profile]"
    by (simp add: example_ext_def wire_profile_def example_profile_def example_len_def profile_fits_def profile_Parse_def)
  have addr: "wire_addr example_ext ''10.0.0.1'' 5004" "wire_addr example_ext ''10.0.0.2'' 6000"
    by (simp_all add: wire_addr_def example_ext_def)
  have dist: "distinct (map si_Type (OfferCodecsWith example_env None))" by (simp add: example_types)
  have some: "filter (shared example_env (Some 1)) (md_Audio (ds_MediaDesc offer)) \<noteq> []" using example_shared own(1) by auto
  have ext: "x_NewDirection example_ext ''sendrecv'' = Inr 1" "x_Unmarshal example_ext (ds_SDP offer) = Inr (ds_SDP offer)"
    by (simp_all add: example_ext_def)
  have own_wire: "list_all (wire_profile (x_KeyLen example_ext)) (md_CryptoProfiles (ds_MediaDesc offer))" using wire own(2) by simp
  let ?answer = "\<lambda>offer'. fst (Offer_Answer example_ext ?locals offer' ''10.0.0.2'' 6000 EncryptionRequire ())"
  from session_agrees [where ?locals2.0 = ?locals and ?st2.0 = "()" and ?s2.0 = "Some 1" and ?enc2.0 = EncryptionRequire,
      OF example_env_ok dist o own_wire refl wire addr ext(1) one_neq_zero ext(2)]
  obtain offer' where p: "ParseWith example_ext example_env (Some 1) (ds_SDP offer) = Some (Inr offer')"
    and r: "case ?answer offer' of
       Inl err \<Rightarrow> err = ErrNoCommonMedia \<and> filter (shared example_env (Some 1)) (md_Audio (ds_MediaDesc offer)) = [] \<or>
         err = ErrNoCommonCrypto \<and> EncryptionRequire = EncryptionRequire \<and>
           sp_Profile ` set (md_CryptoProfiles (ds_MediaDesc offer)) \<inter> sp_Profile ` set [example_profile] = {}
     | Inr (answer, mc2) \<Rightarrow> offerer_agrees example_ext example_env None offer EncryptionRequire answer mc2" by blast
  obtain answer mc2 where "?answer offer' = Inr (answer, mc2)" "offerer_agrees example_ext example_env None offer EncryptionRequire answer mc2"
    using r some own(2) by (cases "?answer offer'") (auto simp del: One_nat_def)
  with o p show ?thesis by auto
qed

end
