(* ===== verification/Rtp_Session.thy ===== *)
theory Rtp_Session
  imports Rtp_Writer
begin

text \<open>
  RTP sessions on one connection (\<open>rtp/session.go\<close>): the accept loop that spreads packets over one read
  stream per SSRC, the hand-over between that loop and the readers, and closing.  The loop, the readers
  and the closer run concurrently; a step of the relation below is what one of them does under the lock
  of a stream, or one communication of a select.
\<close>

section \<open>Read streams\<close>

definition MTUSize :: nat where "MTUSize = 1500"
definition recv_size :: nat where "recv_size = 10"

text \<open>
  A call of \<open>ReadRTP\<close>: the caller's buffer, what has been stored in its header, whether it may take the
  signal of a direct copy, and how far it is.  The result of \<open>Returning\<close> is a count, or nothing for \<open>EOF\<close>.
\<close>

datatype read_phase = Selecting | Returning "nat option"

record reader =
  rd_phase :: read_phase
  rd_notify :: bool
  rd_hdr :: "rtp_header option"
  rd_buf :: bytes

text \<open>
  \<open>rs_recv\<close> is the channel of queued packets, \<open>rs_offer\<close> the reader whose buffers are offered (\<open>hdr\<close> and
  \<open>payload\<close>), \<open>rs_sending\<close> the count the accept loop is about to send on \<open>copied\<close>.  The last two fields
  are history: the packets written and not dropped, and the results of the calls that returned a packet,
  each with the size of its buffer.
\<close>

record read_stream =
  rs_recv :: "rtp_out list"
  rs_offer :: "nat option"
  rs_sending :: "nat option"
  rs_readers :: "nat \<Rightarrow> reader option"
  rs_kept :: "rtp_out list"
  rs_results :: "(nat \<times> rtp_header option \<times> bytes) list"

definition new_stream :: read_stream where
  "new_stream = \<lparr>rs_recv = [], rs_offer = None, rs_sending = None, rs_readers = (\<lambda>_. None), rs_kept = [], rs_results = []\<rparr>"

text \<open>\<open>write\<close> up to the select on \<open>copied\<close>.\<close>

definition stream_write :: "rtp_out \<Rightarrow> read_stream \<Rightarrow> read_stream" where
  "stream_write p r =
     (case rs_offer r of
        Some i \<Rightarrow>
          (case rs_readers r i of None \<Rightarrow> r\<lparr>rs_offer := None\<rparr>
           | Some rd \<Rightarrow>
               let (n, buf) = go_copy (rd_buf rd) (snd p)
               in r\<lparr>rs_readers := (rs_readers r)(i \<mapsto> rd\<lparr>rd_hdr := Some (fst p), rd_buf := buf\<rparr>),
                    rs_offer := None, rs_sending := Some n, rs_kept := rs_kept r @ [p]\<rparr>)
      | None \<Rightarrow> if length (rs_recv r) < recv_size then r\<lparr>rs_recv := rs_recv r @ [p], rs_kept := rs_kept r @ [p]\<rparr> else r)"

text \<open>Taking a packet out of the queue: the header and the payload are copied to the caller.\<close>

definition from_queue :: "nat \<Rightarrow> reader \<Rightarrow> rtp_out \<Rightarrow> rtp_out list \<Rightarrow> read_stream \<Rightarrow> read_stream" where
  "from_queue i rd p ps r =
     (let (n, buf) = go_copy (rd_buf rd) (snd p)
      in r\<lparr>rs_recv := ps, rs_readers := (rs_readers r)(i \<mapsto> rd\<lparr>rd_phase := Returning (Some n), rd_hdr := Some (fst p), rd_buf := buf\<rparr>)\<rparr>)"

text \<open>\<open>ReadRTP\<close> up to its select: the queue first, then the offer of the own buffers when there is none.\<close>

definition read_enter :: "nat \<Rightarrow> bytes \<Rightarrow> read_stream \<Rightarrow> read_stream" where
  "read_enter i buf r =
     (let rd = \<lparr>rd_phase = Selecting, rd_notify = (rs_offer r = None), rd_hdr = None, rd_buf = buf\<rparr>
      in case rs_recv r of
           p # ps \<Rightarrow> from_queue i (rd\<lparr>rd_notify := False\<rparr>) p ps r
         | [] \<Rightarrow> r\<lparr>rs_readers := (rs_readers r)(i \<mapsto> rd),
             rs_offer := (if rs_offer r = None then Some i else rs_offer r)\<rparr>)"

definition take_copied :: "nat \<Rightarrow> reader \<Rightarrow> nat \<Rightarrow> read_stream \<Rightarrow> read_stream" where
  "take_copied i rd n r =
     r\<lparr>rs_sending := None, rs_readers := (rs_readers r)(i \<mapsto> rd\<lparr>rd_phase := Returning (Some n)\<rparr>)\<rparr>"

definition take_closed :: "nat \<Rightarrow> reader \<Rightarrow> read_stream \<Rightarrow> read_stream" where
  "take_closed i rd r = r\<lparr>rs_readers := (rs_readers r)(i \<mapsto> rd\<lparr>rd_phase := Returning None\<rparr>)\<rparr>"

text \<open>The return of a call: the deferred function withdraws the offer if it is still the caller's.\<close>

definition read_return :: "nat \<Rightarrow> reader \<Rightarrow> nat option \<Rightarrow> read_stream \<Rightarrow> read_stream" where
  "read_return i rd res r =
     r\<lparr>rs_offer := (if rs_offer r = Some i then None else rs_offer r), rs_readers := (rs_readers r)(i := None),
       rs_results := rs_results r @ (case res of None \<Rightarrow> [] | Some n \<Rightarrow> [(length (rd_buf rd), rd_hdr rd, take n (rd_buf rd))])\<rparr>"

section \<open>Sessions\<close>

text \<open>
  The accept loop is idle, reads the connection, or is in the select of \<open>write\<close> for the stream of an SSRC
  (with what it does after: return the stream when it is new).  \<open>sn_open\<close> says that \<open>bySSRC\<close> is not nil;
  \<open>sn_accepted\<close> is the history of the streams returned.
\<close>

datatype accept_phase = Idle | Reading | Sending u32 bool

record session =
  sn_streams :: "u32 \<Rightarrow> read_stream option"
  sn_open :: bool
  sn_closed :: bool
  sn_loop :: accept_phase
  sn_accepted :: "u32 list"

definition NewSession :: session where
  "NewSession = \<lparr>sn_streams = (\<lambda>_. None), sn_open = True, sn_closed = False, sn_loop = Idle, sn_accepted = []\<rparr>"

text \<open>What the loop makes of the bytes it read: packets over the MTU and those that do not parse are ignored.\<close>

definition accept_read :: "(bytes \<Rightarrow> go_error + rtp_out) \<Rightarrow> bytes \<Rightarrow> rtp_out option" where
  "accept_read unmarshal data =
     (if length data > MTUSize then None else case unmarshal data of Inl _ \<Rightarrow> None | Inr p \<Rightarrow> Some p)"

text \<open>After the write the loop returns a new stream, or goes on.\<close>

definition after_write :: "u32 \<Rightarrow> bool \<Rightarrow> session \<Rightarrow> session" where
  "after_write ssrc isNew s =
     (if isNew then s\<lparr>sn_loop := Idle, sn_accepted := sn_accepted s @ [ssrc]\<rparr> else s\<lparr>sn_loop := Reading\<rparr>)"

definition accept_packet :: "rtp_out \<Rightarrow> session \<Rightarrow> session" where
  "accept_packet p s =
     (let ssrc = h_SSRC (fst p); isNew = (sn_streams s ssrc = None);
          r = stream_write p (case sn_streams s ssrc of None \<Rightarrow> new_stream | Some r \<Rightarrow> r);
          s1 = s\<lparr>sn_streams := (sn_streams s)(ssrc \<mapsto> r)\<rparr>
      in if rs_sending r \<noteq> None then s1\<lparr>sn_loop := Sending ssrc isNew\<rparr> else after_write ssrc isNew s1)"

definition set_stream :: "u32 \<Rightarrow> read_stream \<Rightarrow> session \<Rightarrow> session" where
  "set_stream ssrc r s = s\<lparr>sn_streams := (sn_streams s)(ssrc \<mapsto> r)\<rparr>"

text \<open>\<open>OpenWriteStream\<close> hands out the one write stream; \<open>Close\<close> is two steps, the fuse and, under the lock, the map.\<close>

definition session_OpenWriteStream :: "'w \<Rightarrow> go_error + 'w" where
  "session_OpenWriteStream w = Inr w"

definition close_fuse :: "session \<Rightarrow> session" where
  [simp]: "close_fuse s = s\<lparr>sn_closed := True\<rparr>"

definition close_detach :: "session \<Rightarrow> session" where
  [simp]: "close_detach s = s\<lparr>sn_open := False\<rparr>"

text \<open>
  The steps.  With \<open>multi\<close> any number of calls may read a stream at once; without it a stream is read by
  one call at a time.
\<close>

inductive session_step :: "(bytes \<Rightarrow> go_error + rtp_out) \<Rightarrow> bool \<Rightarrow> session \<Rightarrow> session \<Rightarrow> bool"
  for unmarshal multi where
  accept_call: "sn_loop s = Idle \<Longrightarrow> sn_open s \<Longrightarrow> session_step unmarshal multi s (s\<lparr>sn_loop := Reading\<rparr>)"
| accept_error: "sn_loop s = Reading \<Longrightarrow> session_step unmarshal multi s (s\<lparr>sn_loop := Idle\<rparr>)"
| accept: "sn_loop s = Reading \<Longrightarrow> accept_read unmarshal data = Some p \<Longrightarrow> session_step unmarshal multi s (accept_packet p s)"
| send_closed: "sn_loop s = Sending ssrc isNew \<Longrightarrow> sn_closed s \<Longrightarrow> sn_streams s ssrc = Some r \<Longrightarrow>
    session_step unmarshal multi s (after_write ssrc isNew (set_stream ssrc (r\<lparr>rs_sending := None\<rparr>) s))"
| read_call: "sn_streams s ssrc = Some r \<Longrightarrow> ssrc \<in> set (sn_accepted s) \<Longrightarrow> rs_readers r i = None \<Longrightarrow>
    multi \<or> rs_readers r = (\<lambda>_. None) \<Longrightarrow> session_step unmarshal multi s (set_stream ssrc (read_enter i buf r) s)"
| read_queue: "sn_streams s ssrc = Some r \<Longrightarrow> rs_readers r i = Some rd \<Longrightarrow> rd_phase rd = Selecting \<Longrightarrow> rs_recv r = p # ps \<Longrightarrow>
    session_step unmarshal multi s (set_stream ssrc (from_queue i rd p ps r) s)"
| read_closed: "sn_streams s ssrc = Some r \<Longrightarrow> rs_readers r i = Some rd \<Longrightarrow> rd_phase rd = Selecting \<Longrightarrow> sn_closed s \<Longrightarrow>
    session_step unmarshal multi s (set_stream ssrc (take_closed i rd r) s)"
| read_copied: "sn_loop s = Sending ssrc isNew \<Longrightarrow> sn_streams s ssrc = Some r \<Longrightarrow> rs_sending r = Some n \<Longrightarrow>
    rs_readers r i = Some rd \<Longrightarrow> rd_phase rd = Selecting \<Longrightarrow> rd_notify rd \<Longrightarrow>
    session_step unmarshal multi s (after_write ssrc isNew (set_stream ssrc (take_copied i rd n r) s))"
| read_return: "sn_streams s ssrc = Some r \<Longrightarrow> rs_readers r i = Some rd \<Longrightarrow> rd_phase rd = Returning res \<Longrightarrow>
    session_step unmarshal multi s (set_stream ssrc (read_return i rd res r) s)"
| close: "session_step unmarshal multi s (close_fuse s)"
| close_map: "sn_closed s \<Longrightarrow> sn_loop s = Idle \<Longrightarrow> session_step unmarshal multi s (close_detach s)"

abbreviation "session_reach unmarshal multi \<equiv> (session_step unmarshal multi)\<^sup>*\<^sup>* NewSession"

section \<open>The writing side\<close>

text \<open>\<open>WriteRTP\<close>: \<open>marshal\<close> is the header's \<open>MarshalTo\<close>, \<open>wr\<close> the connection.\<close>

definition writeStream_WriteRTP ::
  "(rtp_header \<Rightarrow> go_error + bytes) \<Rightarrow> (bytes \<Rightarrow> 's \<Rightarrow> (go_error + nat) \<times> 's) \<Rightarrow> rtp_header \<Rightarrow> bytes \<Rightarrow> 's \<Rightarrow> (go_error + nat) \<times> 's" where
  "writeStream_WriteRTP marshal wr h payload s =
     (case marshal h of Inl e \<Rightarrow> (Inl e, s) | Inr hdr \<Rightarrow> wr (hdr @ payload) s)"

section \<open>Streams with one reader\<close>

text \<open>A call that returned a packet got its header and as much of its payload as its buffer holds.\<close>

definition read_ok :: "rtp_out \<Rightarrow> nat \<times> rtp_header option \<times> bytes \<Rightarrow> bool" where
  "read_ok p res \<longleftrightarrow> res = (fst res, Some (fst p), take (fst res) (snd p))"

text \<open>\<open>accounted mid r\<close>: the packets kept are those returned, those in \<open>mid\<close> and those queued, in this order.\<close>

definition accounted :: "rtp_out list \<Rightarrow> read_stream \<Rightarrow> bool" where
  "accounted mid r \<longleftrightarrow> length (rs_recv r) \<le> recv_size \<and>
     (\<exists>done. rs_kept r = done @ mid @ rs_recv r \<and> list_all2 read_ok done (rs_results r))"

text \<open>The states of a stream with one reader at a time, before the session is closed.\<close>

inductive stream_ok :: "read_stream \<Rightarrow> bool" where
  quiet: "rs_readers r = (\<lambda>_. None) \<Longrightarrow> rs_offer r = None \<Longrightarrow> rs_sending r = None \<Longrightarrow> accounted [] r \<Longrightarrow> stream_ok r"
| waiting: "rs_readers r = [i \<mapsto> rd] \<Longrightarrow> rd_phase rd = Selecting \<Longrightarrow> rd_notify rd \<Longrightarrow> rs_offer r = Some i \<Longrightarrow>
    rs_sending r = None \<Longrightarrow> rs_recv r = [] \<Longrightarrow> accounted [] r \<Longrightarrow> stream_ok r"
| copied: "rs_readers r = [i \<mapsto> rd] \<Longrightarrow> rd_phase rd = Selecting \<Longrightarrow> rd_notify rd \<Longrightarrow> rs_offer r = None \<Longrightarrow>
    rs_sending r = Some n \<Longrightarrow> rs_recv r = [] \<Longrightarrow> accounted [p] r \<Longrightarrow>
    read_ok p (length (rd_buf rd), rd_hdr rd, take n (rd_buf rd)) \<Longrightarrow> stream_ok r"
| returning: "rs_readers r = [i \<mapsto> rd] \<Longrightarrow> rd_phase rd = Returning (Some n) \<Longrightarrow> rs_offer r = None \<Longrightarrow>
    rs_sending r = None \<Longrightarrow> accounted [p] r \<Longrightarrow>
    read_ok p (length (rd_buf rd), rd_hdr rd, take n (rd_buf rd)) \<Longrightarrow> stream_ok r"

lemma copy_ok:
  "go_copy buf payload = (n, buf') \<Longrightarrow> read_ok (h, payload) (length buf', Some h, take n buf')"
  by (auto simp: go_copy_def Let_def read_ok_def min_def)

lemma stream_ok_new: "stream_ok new_stream"
  by (rule quiet) (simp_all add: new_stream_def accounted_def)

lemma accounted_snoc:
  assumes "accounted [p] r" "read_ok p res" "rs_kept r' = rs_kept r" "rs_recv r' = rs_recv r" "rs_results r' = rs_results r @ [res]"
  shows "accounted [] r'"
proof -
  obtain dn where "rs_kept r = dn @ [p] @ rs_recv r" "list_all2 read_ok dn (rs_results r)"
    using assms(1) by (auto simp: accounted_def)
  then have "rs_kept r' = (dn @ [p]) @ [] @ rs_recv r'" "list_all2 read_ok (dn @ [p]) (rs_results r')"
    using assms by (simp_all add: list_all2_appendI)
  with assms(1,4) show ?thesis unfolding accounted_def by metis
qed

lemma stream_ok_write:
  assumes "stream_ok r" "rs_sending r = None"
  shows "stream_ok (stream_write p r)"
  using assms(1)
proof cases
  case quiet
  then show ?thesis
    by (intro stream_ok.quiet) (auto simp: stream_write_def accounted_def)
next
  case (waiting i rd)
  obtain n buf where c: "go_copy (rd_buf rd) (snd p) = (n, buf)" by (cases "go_copy (rd_buf rd) (snd p)")
  show ?thesis
    by (rule stream_ok.copied [of _ i "rd\<lparr>rd_hdr := Some (fst p), rd_buf := buf\<rparr>" n p])
      (use waiting c copy_ok [OF c, of "fst p"] in \<open>auto simp: stream_write_def accounted_def fun_eq_iff\<close>)
next
  case (returning i rd n q)
  then show ?thesis
    by (intro stream_ok.returning [of _ i rd n q]) (auto simp: stream_write_def accounted_def)
qed (use assms(2) in simp)

lemma stream_ok_enter:
  assumes "stream_ok r" "rs_readers r = (\<lambda>_. None)"
  shows "stream_ok (read_enter i buf r)"
  using assms(1)
proof cases
  case quiet
  show ?thesis
  proof (cases "rs_recv r")
    case Nil
    with quiet show ?thesis
      by (intro stream_ok.waiting [of _ i "\<lparr>rd_phase = Selecting, rd_notify = True, rd_hdr = None, rd_buf = buf\<rparr>"])
        (auto simp: read_enter_def accounted_def)
  next
    case (Cons p ps)
    obtain n buf' where c: "go_copy buf (snd p) = (n, buf')" by (cases "go_copy buf (snd p)")
    show ?thesis
      by (rule stream_ok.returning [of _ i "\<lparr>rd_phase = Returning (Some n), rd_notify = False, rd_hdr = Some (fst p), rd_buf = buf'\<rparr>" n p])
        (use quiet Cons c copy_ok [OF c, of "fst p"] in \<open>auto simp: read_enter_def from_queue_def accounted_def\<close>)
  qed
qed (metis assms(2) map_upd_nonempty)+

lemma stream_ok_copied:
  assumes "stream_ok r" "rs_sending r = Some n" "rs_readers r i = Some rd"
  shows "stream_ok (take_copied i rd n r)"
  using assms(1)
proof cases
  case (copied i' rd' n' p)
  then have "i' = i" "rd' = rd" "n' = n" using assms(2,3) by (auto split: if_splits)
  with copied show ?thesis
    by (intro stream_ok.returning [of _ i "rd\<lparr>rd_phase := Returning (Some n)\<rparr>" n p])
      (auto simp: take_copied_def accounted_def fun_eq_iff)
qed (use assms(2) in simp_all)

lemma stream_ok_return:
  assumes "stream_ok r" "rs_readers r i = Some rd" "rd_phase rd = Returning res"
  shows "stream_ok (read_return i rd res r)"
  using assms(1)
proof cases
  case (returning i' rd' n p)
  then have e: "i' = i" "rd' = rd" "res = Some n" using assms(2,3) by (auto split: if_splits)
  have "accounted [] (read_return i rd res r)"
    by (rule accounted_snoc [OF returning(5,6)]) (simp_all add: read_return_def e)
  with returning e show ?thesis by (intro stream_ok.quiet) (auto simp: read_return_def fun_eq_iff)
qed (use assms(2,3) in \<open>auto split: if_splits\<close>)

text \<open>With one reader nobody takes a packet out of the queue in the select: it is empty while a reader waits.\<close>

lemma stream_ok_select: "stream_ok r \<Longrightarrow> rs_readers r i = Some rd \<Longrightarrow> rd_phase rd = Selecting \<Longrightarrow> rs_recv r = []"
  by (cases rule: stream_ok.cases) (auto split: if_splits)

section \<open>Sessions with one reader per stream\<close>

definition session_ok :: "session \<Rightarrow> bool" where
  "session_ok s \<longleftrightarrow> (\<forall>ssrc r. sn_streams s ssrc = Some r \<longrightarrow> stream_ok r \<and>
       (rs_sending r \<noteq> None \<longleftrightarrow> sn_loop s = Sending ssrc False) \<and> ssrc \<in> set (sn_accepted s)) \<and>
     distinct (sn_accepted s) \<and> (\<forall>ssrc \<in> set (sn_accepted s). sn_streams s ssrc \<noteq> None) \<and>
     (\<forall>ssrc isNew. sn_loop s = Sending ssrc isNew \<longrightarrow> \<not> isNew \<and> sn_streams s ssrc \<noteq> None)"

lemma session_okD:
  assumes "session_ok s" "sn_streams s ssrc = Some r"
  shows "stream_ok r" "rs_sending r \<noteq> None \<longleftrightarrow> sn_loop s = Sending ssrc False" "ssrc \<in> set (sn_accepted s)"
  using assms by (auto simp: session_ok_def)

text \<open>A step of one stream that leaves the accept loop alone.\<close>

lemma session_ok_stream:
  assumes "session_ok s" "sn_streams s ssrc = Some r" "stream_ok r'" "rs_sending r' = rs_sending r"
  shows "session_ok (set_stream ssrc r' s)"
  using assms by (auto simp: session_ok_def set_stream_def)

lemma session_ok_packet:
  assumes "session_ok s" "sn_loop s = Reading"
  shows "session_ok (accept_packet p s)"
proof -
  define ssrc where "ssrc = h_SSRC (fst p)"
  define r where "r = (case sn_streams s ssrc of None \<Rightarrow> new_stream | Some r \<Rightarrow> r)"
  have r: "stream_ok r" "rs_sending r = None"
    using assms session_okD [OF assms(1), of ssrc]
    by (auto simp: r_def stream_ok_new split: option.splits) (simp_all add: new_stream_def)
  have w: "stream_ok (stream_write p r)" by (rule stream_ok_write [OF r])
  have n: "sn_streams s ssrc = None \<Longrightarrow> rs_sending (stream_write p r) = None \<and> ssrc \<notin> set (sn_accepted s)"
    using assms(1) by (auto simp: r_def new_stream_def stream_write_def session_ok_def)
  have others: "rs_sending r' = None" if "sn_streams s x = Some r'" for x r'
    using session_okD(2) [OF assms(1) that] assms(2) by simp
  have e: "accept_packet p s = (let s1 = s\<lparr>sn_streams := (sn_streams s)(ssrc \<mapsto> stream_write p r)\<rparr>; isNew = (sn_streams s ssrc = None)
      in if rs_sending (stream_write p r) \<noteq> None then s1\<lparr>sn_loop := Sending ssrc isNew\<rparr> else after_write ssrc isNew s1)"
    by (simp add: accept_packet_def Let_def ssrc_def r_def)
  show ?thesis
  proof (cases "sn_streams s ssrc")
    case None
    with n w assms(1) show ?thesis
      unfolding e Let_def by (auto simp: after_write_def session_ok_def others)
  next
    case (Some r0)
    with w assms(1) session_okD(3) [OF assms(1) Some] others show ?thesis
      unfolding e Let_def by (auto simp: after_write_def session_ok_def)
  qed
qed

lemma session_ok_copied:
  assumes "session_ok s" "sn_loop s = Sending ssrc isNew" "sn_streams s ssrc = Some r" "stream_ok r'" "rs_sending r' = None"
  shows "session_ok (after_write ssrc isNew (set_stream ssrc r' s))"
proof -
  have "\<not> isNew" using assms(1,2) by (simp add: session_ok_def)
  moreover have "rs_sending r'' = None" if "sn_streams s x = Some r''" "x \<noteq> ssrc" for x r''
    using session_okD(2) [OF assms(1) that(1)] assms(2) that(2) by auto
  ultimately show ?thesis using assms by (auto simp: session_ok_def after_write_def set_stream_def)
qed

lemma session_step_closed: "session_step unmarshal multi s s' \<Longrightarrow> sn_closed s \<Longrightarrow> sn_closed s'"
  by (induction rule: session_step.induct) (auto simp: accept_packet_def after_write_def set_stream_def Let_def)

lemma session_step_ok:
  assumes "session_step unmarshal False s s'" "session_ok s" "\<not> sn_closed s'"
  shows "session_ok s'"
  using assms(1)
proof cases
  case (accept data p)
  then show ?thesis using session_ok_packet [OF assms(2)] by simp
next
  case (read_call ssrc r i buf)
  have "rs_sending r = None" "rs_sending (read_enter i buf r) = None"
    using session_okD(1) [OF assms(2) read_call(2)] read_call
    by (auto elim!: stream_ok.cases simp: read_enter_def from_queue_def split_beta Let_def split: list.splits)
  with read_call show ?thesis
    using session_ok_stream [OF assms(2) read_call(2)] stream_ok_enter [OF session_okD(1) [OF assms(2) read_call(2)]] by auto
next
  case (read_queue ssrc r i rd p ps)
  then show ?thesis using stream_ok_select [OF session_okD(1) [OF assms(2) read_queue(2)]] by simp
next
  case (read_copied ssrc isNew r n i rd)
  have "stream_ok (take_copied i rd n r)"
    by (rule stream_ok_copied [OF session_okD(1) [OF assms(2) read_copied(3)] read_copied(4,5)])
  then show ?thesis
    unfolding read_copied(1) by (rule session_ok_copied [OF assms(2) read_copied(2,3)]) (simp add: take_copied_def)
next
  case (read_return ssrc r i rd res)
  then show ?thesis
    using session_ok_stream [OF assms(2) read_return(2) stream_ok_return [OF session_okD(1) [OF assms(2) read_return(2)] read_return(3,4)]]
    by (simp add: read_return_def)
next
  case accept_call
  then show ?thesis using assms(2) by (auto simp: session_ok_def)
next
  case accept_error
  then show ?thesis using assms(2) by (auto simp: session_ok_def)
next
  case close_map
  then show ?thesis using assms(2) by (auto simp: session_ok_def)
qed (use assms(3) session_step_closed [OF assms(1)] in \<open>auto simp: set_stream_def after_write_def\<close>)

lemma session_reach_ok: "session_reach unmarshal False s \<Longrightarrow> \<not> sn_closed s \<Longrightarrow> session_ok s"
proof (induction rule: rtranclp_induct)
  case base
  show ?case by (simp add: session_ok_def NewSession_def)
next
  case (step s s')
  then show ?case using session_step_ok session_step_closed by metis
qed

text \<open>While a copy waits to be noticed, its reader is in the select and may take the signal.\<close>

lemma stream_ok_sending:
  assumes "stream_ok r" "rs_sending r = Some n"
  shows "\<exists>i rd. rs_readers r i = Some rd \<and> rd_phase rd = Selecting \<and> rd_notify rd"
  using assms by cases (auto intro: exI)

section \<open>Properties\<close>

text \<open>A packet of the example, its stream, and the run that the first property's witness and the race share.\<close>

definition race_packet :: rtp_out where
  "race_packet = (\<lparr>h_Version = 2, h_Marker = False, h_PayloadType = 0, h_SequenceNumber = 1, h_Timestamp = 0, h_SSRC = 7\<rparr>, [1, 2, 3])"

abbreviation "race_parse \<equiv> (\<lambda>_ :: bytes. Inr race_packet :: go_error + rtp_out)"

text \<open>The stream is accepted with its first packet queued; call 0 takes that packet, then offers its buffer.\<close>

definition race_start :: session where
  "race_start = accept_packet race_packet (NewSession\<lparr>sn_loop := Reading\<rparr>)"

definition race_stream :: "session \<Rightarrow> read_stream" where
  "race_stream s = the (sn_streams s 7)"

definition race_read :: "nat \<Rightarrow> bytes \<Rightarrow> session \<Rightarrow> session" where
  "race_read i buf s = set_stream 7 (read_enter i buf (race_stream s)) s"

definition race_return :: "nat \<Rightarrow> session \<Rightarrow> session" where
  "race_return i s = (let rd = the (rs_readers (race_stream s) i)
     in set_stream 7 (read_return i rd (case rd_phase rd of Returning n \<Rightarrow> n | Selecting \<Rightarrow> None) (race_stream s)) s)"

definition race_offered :: session where
  "race_offered = race_read 0 [0, 0] (race_return 0 (race_read 0 [0, 0] race_start))"

definition race_copied :: session where
  "race_copied = accept_packet race_packet (race_offered\<lparr>sn_loop := Reading\<rparr>)"

lemmas race_defs = race_start_def race_stream_def race_read_def race_return_def race_offered_def race_copied_def race_packet_def
  accept_packet_def NewSession_def new_stream_def stream_write_def read_enter_def from_queue_def read_return_def set_stream_def
  after_write_def go_copy_def recv_size_def Let_def

lemma race_copied_reach: "session_reach race_parse multi race_copied"
proof -
  let ?r = "session_step race_parse multi"
  have p: "accept_read race_parse [] = Some race_packet" by (simp add: accept_read_def)
  have "?r\<^sup>*\<^sup>* NewSession (NewSession\<lparr>sn_loop := Reading\<rparr>)"
    by (rule r_into_rtranclp, rule session_step.accept_call) (simp_all add: NewSession_def)
  also have "?r\<^sup>*\<^sup>* (NewSession\<lparr>sn_loop := Reading\<rparr>) race_start"
    unfolding race_start_def by (rule r_into_rtranclp, rule session_step.accept [OF _ p]) simp
  also have "?r\<^sup>*\<^sup>* race_start (race_read 0 [0, 0] race_start)"
    unfolding race_read_def by (rule r_into_rtranclp, rule session_step.read_call) (simp_all add: race_defs)
  also have "?r\<^sup>*\<^sup>* (race_read 0 [0, 0] race_start) (race_return 0 (race_read 0 [0, 0] race_start))"
    unfolding race_return_def Let_def by (rule r_into_rtranclp, rule session_step.read_return) (simp_all add: race_defs)
  also have "?r\<^sup>*\<^sup>* (race_return 0 (race_read 0 [0, 0] race_start)) race_offered"
    unfolding race_offered_def
    by (subst (2) race_read_def) (rule r_into_rtranclp, rule session_step.read_call, simp_all add: race_defs)
  also have "?r\<^sup>*\<^sup>* race_offered (race_offered\<lparr>sn_loop := Reading\<rparr>)"
    by (rule r_into_rtranclp, rule session_step.accept_call) (simp_all add: race_defs)
  also have "?r\<^sup>*\<^sup>* (race_offered\<lparr>sn_loop := Reading\<rparr>) race_copied"
    unfolding race_copied_def by (rule r_into_rtranclp, rule session_step.accept [OF _ p]) simp
  finally show ?thesis .
qed

text \<open>
  C11: with one reader per stream nothing is lost, reordered or stuck.  Until the session is closed, in every
  reachable state the packets a stream took are those its calls have returned, each with its header and as
  much of the payload as the caller's buffer held, then at most one on its way to the reader, then at most
  ten queued, in order; every SSRC is accepted once; and when the accept loop waits for a reader to notice a
  direct copy, that reader is there, so the loop can go on.
\<close>

theorem session_in_order:
  assumes "session_reach unmarshal False s" "\<not> sn_closed s" "sn_streams s ssrc = Some r"
  shows "(\<exists>returned mid. rs_kept r = returned @ mid @ rs_recv r \<and> list_all2 read_ok returned (rs_results r) \<and>
      length mid \<le> 1 \<and> length (rs_recv r) \<le> recv_size) \<and>
    distinct (sn_accepted s) \<and>
    (\<forall>x isNew. sn_loop s = Sending x isNew \<longrightarrow> (\<exists>s'. session_step unmarshal False s s' \<and> sn_loop s' = Reading))"
proof (intro conjI allI impI)
  have ok: "session_ok s" by (rule session_reach_ok [OF assms(1,2)])
  have "\<exists>mid. length mid \<le> 1 \<and> accounted mid r"
    using session_okD(1) [OF ok assms(3)] by cases force+
  then show "\<exists>returned mid. rs_kept r = returned @ mid @ rs_recv r \<and> list_all2 read_ok returned (rs_results r) \<and>
      length mid \<le> 1 \<and> length (rs_recv r) \<le> recv_size" by (auto simp: accounted_def)
  show "distinct (sn_accepted s)" using ok by (simp add: session_ok_def)
  fix x isNew
  assume l: "sn_loop s = Sending x isNew"
  with ok obtain r' where r': "sn_streams s x = Some r'" "\<not> isNew" by (auto simp: session_ok_def)
  with session_okD(2) [OF ok r'(1)] l obtain n where n: "rs_sending r' = Some n" by auto
  obtain i rd where "rs_readers r' i = Some rd" "rd_phase rd = Selecting" "rd_notify rd"
    using stream_ok_sending [OF session_okD(1) [OF ok r'(1)] n] by blast
  from session_step.read_copied [OF l r'(1) n this, of unmarshal False] r'(2)
  show "\<exists>s'. session_step unmarshal False s s' \<and> sn_loop s' = Reading" by (force simp: after_write_def)
qed

theorem session_in_order_witness:
  "\<exists>returned mid. rs_kept (race_stream race_copied) = returned @ mid @ rs_recv (race_stream race_copied) \<and>
    list_all2 read_ok returned (rs_results (race_stream race_copied)) \<and> length mid \<le> 1 \<and>
    rs_results (race_stream race_copied) = [(2, Some (fst race_packet), [1, 2])] \<and> length (rs_kept (race_stream race_copied)) = 2"
proof -
  have "\<not> sn_closed race_copied" "sn_streams race_copied 7 = Some (race_stream race_copied)"
    "rs_results (race_stream race_copied) = [(2, Some (fst race_packet), [1, 2])]" "length (rs_kept (race_stream race_copied)) = 2"
    by (simp_all add: race_defs)
  with session_in_order [OF race_copied_reach this(1,2)] show ?thesis by blast
qed

text \<open>
  C35: with two calls on one stream the signal of a copy can wake the wrong one.  There is a run in which a
  call returns the count of a packet that was copied into the buffers of another call: its own buffer and
  header are as it passed them, while the other call, with the packet in its buffers, still waits.
\<close>

theorem session_two_readers_race:
  "\<exists>s r rd. session_reach race_parse True s \<and> \<not> sn_closed s \<and> sn_streams s 7 = Some r \<and>
    last (rs_results r) = (4, None, [8, 8]) \<and>
    rs_readers r 0 = Some rd \<and> rd_phase rd = Selecting \<and> rd_hdr rd = Some (fst race_packet) \<and> rd_buf rd = [1, 2]"
proof -
  let ?r = "session_step race_parse True"
  define s1 where "s1 = race_read 1 [8, 8, 8, 8] race_copied"
  define s2 where "s2 = after_write 7 False (set_stream 7 (take_copied 1 (the (rs_readers (race_stream s1) 1)) 2 (race_stream s1)) s1)"
  define s3 where "s3 = race_return 1 s2"
  note run_defs = s3_def s2_def s1_def take_copied_def race_defs
  note race_copied_reach [of True]
  also have "?r\<^sup>*\<^sup>* race_copied s1"
    unfolding s1_def race_read_def by (rule r_into_rtranclp, rule session_step.read_call) (simp_all add: race_defs)
  also have "?r\<^sup>*\<^sup>* s1 s2"
    unfolding s2_def by (rule r_into_rtranclp, rule session_step.read_copied) (simp_all add: s1_def race_defs)
  also have "?r\<^sup>*\<^sup>* s2 s3"
    unfolding s3_def race_return_def Let_def
    by (rule r_into_rtranclp, rule session_step.read_return) (simp_all add: s2_def s1_def take_copied_def race_defs)
  finally have "session_reach race_parse True s3" .
  moreover have "\<not> sn_closed s3" "sn_streams s3 7 = Some (race_stream s3)" "last (rs_results (race_stream s3)) = (4, None, [8, 8])"
    by (simp_all add: run_defs)
  moreover have "rs_readers (race_stream s3) 0 = Some \<lparr>rd_phase = Selecting, rd_notify = True, rd_hdr = Some (fst race_packet), rd_buf = [1, 2]\<rparr>"
    by (simp add: run_defs)
  ultimately show ?thesis by fastforce
qed

end
