(* ===== verification/G711.thy ===== *)
theory G711
  imports Media_Bytes
begin

text \<open>
  G.711 A-law and mu-law (\<open>g711/g711.go\<close>, \<open>g711/alaw.go\<close>, \<open>g711/ulaw.go\<close>): the expansion of a code, the
  tables built when the package starts, and the frame coders.  The two laws share one development: a locale
  of companding laws, interpreted on both expansions.
\<close>

unbundle bit_operations_syntax

section \<open>Expansion\<close>

definition signBit :: u8 where "signBit = 0x80"
definition quantMask :: u8 where "quantMask = 0xf"
definition segShift :: nat where "segShift = 4"
definition segMask :: u8 where "segMask = 0x70"
definition law_bias :: int where "law_bias = 0x84"

definition alaw2linear :: "u8 \<Rightarrow> int" where
  "alaw2linear v0 =
     (let v = v0 XOR 0x55; t = uint (v AND quantMask); seg = unat (drop_bit segShift (v AND segMask));
          t1 = (if seg \<noteq> 0 then push_bit (seg + 2) (t + t + 1 + 32) else push_bit 3 (t + t + 1))
      in if v AND signBit \<noteq> 0 then t1 else - t1)"

definition ulaw2linear :: "u8 \<Rightarrow> int" where
  "ulaw2linear v0 =
     (let v = NOT v0; t = push_bit (unat (drop_bit segShift (v AND segMask))) (push_bit 3 (uint (v AND quantMask)) + law_bias)
      in if v AND signBit \<noteq> 0 then law_bias - t else t - law_bias)"

section \<open>Tables\<close>

text \<open>An index is a Go \<open>int\<close>, so it can be negative.\<close>

definition law_put :: "bytes \<Rightarrow> int \<Rightarrow> u8 \<Rightarrow> bytes option" where
  "law_put table i v = (if 0 \<le> i then go_update table (nat i) v else None)"

definition buildLinTable :: "pcm16 \<Rightarrow> (u8 \<Rightarrow> int) \<Rightarrow> pcm16" where
  "buildLinTable table log2lin = map (\<lambda>i. word_of_int (log2lin (word_of_nat i))) [0..<length table]"

text \<open>The inner loops: from \<open>j\<close> up to \<open>v\<close>, the code of level \<open>i\<close> with either sign.\<close>

function law_fill :: "int \<Rightarrow> int \<Rightarrow> int \<Rightarrow> int \<Rightarrow> bytes \<Rightarrow> (int \<times> bytes) option" where
  "law_fill i msk v j table =
     (if j < v then do {
        t1 \<leftarrow> law_put table (8192 - j) (word_of_int (i XOR (msk XOR 0x80)));
        t2 \<leftarrow> law_put t1 (8192 + j) (word_of_int (i XOR msk));
        law_fill i msk v (j + 1) t2
      } else Some (j, table))"
  by pat_completeness auto

termination by (relation "measure (\<lambda>(i, msk, v, j, t). nat (v - j))") auto

declare law_fill.simps [simp del]

fun law_loop :: "(u8 \<Rightarrow> int) \<Rightarrow> int \<Rightarrow> nat list \<Rightarrow> int \<Rightarrow> bytes \<Rightarrow> (int \<times> bytes) option" where
  "law_loop log2lin msk [] j table = Some (j, table)"
| "law_loop log2lin msk (i # is) j table = do {
     let v1 = log2lin (word_of_int (int i XOR msk));
     let v2 = log2lin (word_of_int ((int i + 1) XOR msk));
     (j1, t1) \<leftarrow> law_fill (int i) msk (drop_bit 3 (v1 + v2 + 4)) j table;
     law_loop log2lin msk is j1 t1
   }"

definition buildLawTable :: "bytes \<Rightarrow> (u8 \<Rightarrow> int) \<Rightarrow> int \<Rightarrow> bytes option" where
  "buildLawTable table log2lin msk = do {
     t0 \<leftarrow> law_put table 8192 (word_of_int msk);
     (j, t1) \<leftarrow> law_loop log2lin msk [0..<127] 1 t0;
     (j2, t2) \<leftarrow> law_fill 127 msk 8192 j t1;
     c \<leftarrow> go_index t2 1;
     law_put t2 0 c
   }"

text \<open>The package variables and their \<open>init\<close>.\<close>

record g711_tables =
  ulaw2lin :: pcm16
  alaw2lin :: pcm16
  lin2ulaw :: bytes
  lin2alaw :: bytes

definition g711_vars :: g711_tables where
  "g711_vars = \<lparr>ulaw2lin = replicate 256 0, alaw2lin = replicate 256 0, lin2ulaw = replicate 16384 0, lin2alaw = replicate 16384 0\<rparr>"

definition g711_init :: "g711_tables option" where
  "g711_init = do {
     u \<leftarrow> buildLawTable (lin2ulaw g711_vars) ulaw2linear 0xff;
     a \<leftarrow> buildLawTable (lin2alaw g711_vars) alaw2linear 0xd5;
     Some \<lparr>ulaw2lin = buildLinTable (ulaw2lin g711_vars) ulaw2linear, alaw2lin = buildLinTable (alaw2lin g711_vars) alaw2linear,
       lin2ulaw = u, lin2alaw = a\<rparr>
   }"

section \<open>Frames\<close>

fun law_encode :: "bytes \<Rightarrow> bytes \<Rightarrow> nat \<Rightarrow> pcm16 \<Rightarrow> bytes option" where
  "law_encode table out i [] = Some out"
| "law_encode table out i (v # buf) = do {
     c \<leftarrow> go_index table (nat (drop_bit 2 (sint v + 32768)));
     out1 \<leftarrow> go_update out i c;
     law_encode table out1 (Suc i) buf
   }"

fun law_decode :: "pcm16 \<Rightarrow> pcm16 \<Rightarrow> nat \<Rightarrow> bytes \<Rightarrow> pcm16 option" where
  "law_decode table out i [] = Some out"
| "law_decode table out i (v # buf) = do {
     x \<leftarrow> go_index table (unat v);
     out1 \<leftarrow> go_update out i x;
     law_decode table out1 (Suc i) buf
   }"

definition EncodeALawTo :: "g711_tables \<Rightarrow> bytes \<Rightarrow> pcm16 \<Rightarrow> bytes option" where
  "EncodeALawTo T out buf = law_encode (lin2alaw T) out 0 buf"

definition DecodeALawTo :: "g711_tables \<Rightarrow> pcm16 \<Rightarrow> bytes \<Rightarrow> pcm16 option" where
  "DecodeALawTo T out buf = law_decode (alaw2lin T) out 0 buf"

definition EncodeULawTo :: "g711_tables \<Rightarrow> bytes \<Rightarrow> pcm16 \<Rightarrow> bytes option" where
  "EncodeULawTo T out buf = law_encode (lin2ulaw T) out 0 buf"

definition DecodeULawTo :: "g711_tables \<Rightarrow> pcm16 \<Rightarrow> bytes \<Rightarrow> pcm16 option" where
  "DecodeULawTo T out buf = law_decode (ulaw2lin T) out 0 buf"

text \<open>\<open>ALawSample\<close> and \<open>ULawSample\<close>.\<close>

definition law_Size :: "bytes \<Rightarrow> nat" where
  "law_Size s = length s"

definition law_CopyTo :: "bytes \<Rightarrow> bytes \<Rightarrow> (nat \<times> go_error option) \<times> bytes" where
  "law_CopyTo s dst = (if length dst < length s then ((0, Some ErrShortBuffer), dst) else (let (n, d) = go_copy dst s in ((n, None), d)))"

definition ALaw_Decode :: "g711_tables \<Rightarrow> bytes \<Rightarrow> pcm16 option" where
  "ALaw_Decode T s = DecodeALawTo T (replicate (length s) 0) s"

definition ALaw_Encode :: "g711_tables \<Rightarrow> pcm16 \<Rightarrow> bytes option" where
  "ALaw_Encode T data = EncodeALawTo T (replicate (length data) 0) data"

definition ULaw_Decode :: "g711_tables \<Rightarrow> bytes \<Rightarrow> pcm16 option" where
  "ULaw_Decode T s = DecodeULawTo T (replicate (length s) 0) s"

definition ULaw_Encode :: "g711_tables \<Rightarrow> pcm16 \<Rightarrow> bytes option" where
  "ULaw_Encode T data = EncodeULawTo T (replicate (length data) 0) data"

text \<open>
  The decoder and the encoder in front of a writer.  \<open>lw_buf\<close> is the backing array of the reused buffer,
  as long as its capacity; the write panics (\<open>None\<close>) when a table lookup does.
\<close>

record ('b, 'w) law_writer =
  lw_w :: 'w
  lw_buf :: "'b list"

definition law_WriteSample ::
  "('b::zero list \<Rightarrow> 'a list \<Rightarrow> 'b list option) \<Rightarrow> ('b list, 'w) write_fn \<Rightarrow> 'a list \<Rightarrow> ('b, 'w) law_writer \<Rightarrow>
    (go_error option \<times> ('b, 'w) law_writer) option" where
  "law_WriteSample code_to wr data d =
     (let back = (if length data \<ge> length (lw_buf d) then replicate (length data) 0 else lw_buf d)
      in do {
        frame \<leftarrow> code_to (take (length data) back) data;
        let (err, w1) = wr frame (lw_w d);
        Some (err, \<lparr>lw_w = w1, lw_buf = frame @ drop (length data) back\<rparr>)
      })"

text \<open>The two laws' own methods are these on their tables and types.\<close>

definition ULaw_Size :: "bytes \<Rightarrow> nat" where
  "ULaw_Size s = length s"

definition ULaw_CopyTo :: "bytes \<Rightarrow> bytes \<Rightarrow> (nat \<times> go_error option) \<times> bytes" where
  "ULaw_CopyTo s dst = (if length dst < length s then ((0, Some ErrShortBuffer), dst) else (let (n, d) = go_copy dst s in ((n, None), d)))"

interpretation alaw_frame: byte_frame law_Size law_CopyTo "\<lambda>s. s"
  by unfold_locales (simp_all add: law_Size_def law_CopyTo_def go_copy_def)

interpretation ulaw_frame: byte_frame ULaw_Size ULaw_CopyTo "\<lambda>s. s"
  by unfold_locales (simp_all add: ULaw_Size_def ULaw_CopyTo_def go_copy_def)

definition ALawDecoder_WriteSample :: "g711_tables \<Rightarrow> (pcm16, 'w) write_fn \<Rightarrow> bytes \<Rightarrow> (i16, 'w) law_writer \<Rightarrow> (go_error option \<times> (i16, 'w) law_writer) option" where
  "ALawDecoder_WriteSample T = law_WriteSample (DecodeALawTo T)"

definition ALawEncoder_WriteSample :: "g711_tables \<Rightarrow> (bytes, 'w) write_fn \<Rightarrow> pcm16 \<Rightarrow> (u8, 'w) law_writer \<Rightarrow> (go_error option \<times> (u8, 'w) law_writer) option" where
  "ALawEncoder_WriteSample T = law_WriteSample (EncodeALawTo T)"

definition ULawDecoder_WriteSample :: "g711_tables \<Rightarrow> (pcm16, 'w) write_fn \<Rightarrow> bytes \<Rightarrow> (i16, 'w) law_writer \<Rightarrow> (go_error option \<times> (i16, 'w) law_writer) option" where
  "ULawDecoder_WriteSample T = law_WriteSample (DecodeULawTo T)"

definition ULawEncoder_WriteSample :: "g711_tables \<Rightarrow> (bytes, 'w) write_fn \<Rightarrow> pcm16 \<Rightarrow> (u8, 'w) law_writer \<Rightarrow> (go_error option \<times> (u8, 'w) law_writer) option" where
  "ULawEncoder_WriteSample T = law_WriteSample (EncodeULawTo T)"

definition law_Close :: "'w close_fn \<Rightarrow> ('b, 'w) law_writer close_fn" where
  "law_Close cl d = (let (err, w1) = cl (lw_w d) in (err, d\<lparr>lw_w := w1\<rparr>))"

definition law_SampleRate :: "('w \<Rightarrow> int) \<Rightarrow> ('b, 'w) law_writer \<Rightarrow> int" where
  "law_SampleRate rate d = rate (lw_w d)"

text \<open>\<open>DecodeALaw\<close> and \<open>EncodeALaw\<close>: a decoder resamples, an encoder panics.\<close>

definition law_NewDecoder :: "('w \<Rightarrow> int) \<Rightarrow> ('w \<Rightarrow> int \<Rightarrow> 'w) \<Rightarrow> 'w \<Rightarrow> (i16, 'w) law_writer" where
  "law_NewDecoder rate resample w = \<lparr>lw_w = (if rate w = 8000 then w else resample w 8000), lw_buf = []\<rparr>"

definition law_NewEncoder :: "('w \<Rightarrow> int) \<Rightarrow> 'w \<Rightarrow> (u8, 'w) law_writer option" where
  "law_NewEncoder rate w = (if rate w = 8000 then Some \<lparr>lw_w = w, lw_buf = []\<rparr> else None)"

text \<open>The mu-law file has its own constructors and accessors.\<close>

definition DecodeULaw :: "('w \<Rightarrow> int) \<Rightarrow> ('w \<Rightarrow> int \<Rightarrow> 'w) \<Rightarrow> 'w \<Rightarrow> (i16, 'w) law_writer" where
  "DecodeULaw rate resample w = (let w1 = (if rate w \<noteq> 8000 then resample w 8000 else w) in \<lparr>lw_w = w1, lw_buf = []\<rparr>)"

definition EncodeULaw :: "('w \<Rightarrow> int) \<Rightarrow> 'w \<Rightarrow> (u8, 'w) law_writer option" where
  "EncodeULaw rate w = (if rate w \<noteq> 8000 then None else Some \<lparr>lw_w = w, lw_buf = []\<rparr>)"

definition ULaw_SampleRate :: "('w \<Rightarrow> int) \<Rightarrow> ('b, 'w) law_writer \<Rightarrow> int" where
  "ULaw_SampleRate rate d = rate (lw_w d)"

definition ULaw_Close :: "'w close_fn \<Rightarrow> ('b, 'w) law_writer close_fn" where
  "ULaw_Close cl d = (let (err, w1) = cl (lw_w d) in (err, d\<lparr>lw_w := w1\<rparr>))"

lemma ULaw_same [simp]:
  "DecodeULaw = law_NewDecoder" "EncodeULaw = law_NewEncoder" "ULaw_SampleRate = law_SampleRate" "ULaw_Close = law_Close"
  by (intro ext, simp add: DecodeULaw_def law_NewDecoder_def EncodeULaw_def law_NewEncoder_def ULaw_SampleRate_def law_SampleRate_def
      ULaw_Close_def law_Close_def Let_def)+

section \<open>Companding laws\<close>

text \<open>
  What the table builder relies on.  \<open>lin\<close> expands a code; with \<open>msk\<close>, the codes of the levels 0 to 127 are
  \<open>pos\<close> and \<open>neg\<close>.  The levels ascend in steps of multiples of four, are symmetric, and fit the table.
\<close>

locale g711_law =
  fixes lin :: "u8 \<Rightarrow> int" and msk :: int and pos neg :: "nat \<Rightarrow> u8"
  assumes pos_eq: "pos i = word_of_int (int i XOR msk)"
    and neg_eq: "neg i = word_of_int (int i XOR (msk XOR 0x80))"
    and step: "i < 127 \<Longrightarrow> lin (pos i) < lin (pos (Suc i))"
    and symmetric: "i < 128 \<Longrightarrow> lin (neg i) = - lin (pos i)"
    and fours: "i < 128 \<Longrightarrow> 4 dvd lin (pos i)"
    and low: "0 \<le> lin (pos 0)"
    and high: "lin (pos 127) \<le> 32764"
    and cover: "\<exists>i<128. c = pos i \<or> c = neg i"
begin

definition th :: "nat \<Rightarrow> int" where
  "th i = (lin (pos i) + lin (pos (Suc i)) + 4) div 8"

definition is_level :: "nat \<Rightarrow> int \<Rightarrow> bool" where
  "is_level i k \<longleftrightarrow> i < 128 \<and> (i < 127 \<longrightarrow> k < th i) \<and> (0 < i \<longrightarrow> th (i - 1) \<le> k)"

definition good :: "int \<Rightarrow> bytes \<Rightarrow> bool" where
  "good j table \<longleftrightarrow> length table = 16384 \<and> table ! 8192 = pos 0 \<and>
     (\<forall>k. 1 \<le> k \<and> int k < j \<longrightarrow> (\<exists>i. is_level i (int k) \<and> table ! (8192 + k) = pos i \<and> table ! (8192 - k) = neg i))"

lemma ascending: "i < j \<Longrightarrow> j < 128 \<Longrightarrow> lin (pos i) < lin (pos j)"
proof (induction j)
  case (Suc j)
  with step [of j] show ?case by (cases "i = j") auto
qed simp

lemma level_range: "i < 128 \<Longrightarrow> 0 \<le> lin (pos i) \<and> lin (pos i) \<le> 32764"
  using ascending [of 0 i] ascending [of i 127] low high by (cases "i = 0"; cases "i = 127") auto

lemma th_le: "i < 127 \<Longrightarrow> th i \<le> 8191"
  using level_range [of i] level_range [of "Suc i"] by (simp add: th_def; linarith)

lemma law_fill_good:
  assumes "1 \<le> j" "v \<le> 8192" "good j table" "\<And>k. j \<le> k \<Longrightarrow> k < v \<Longrightarrow> is_level i k"
  shows "\<exists>table'. law_fill (int i) msk v j table = Some (max j v, table') \<and> good (max j v) table'"
  using assms
proof (induction "nat (v - j)" arbitrary: j table)
  case 0
  then show ?case by (simp add: law_fill.simps max_def)
next
  case (Suc d)
  define t1 where "t1 = table[nat (8192 - j) := neg i]"
  define t2 where "t2 = t1[nat (8192 + j) := pos i]"
  have j: "j < v" "1 \<le> j" "v \<le> 8192" and len: "length table = 16384" using Suc by (simp_all add: good_def)
  then have puts: "law_put table (8192 - j) (word_of_int (int i XOR (msk XOR 0x80))) = Some t1"
    "law_put t1 (8192 + j) (word_of_int (int i XOR msk)) = Some t2"
    by (auto simp: law_put_def go_update_def t1_def t2_def pos_eq neg_eq)
  have "good (j + 1) t2"
    unfolding good_def
  proof (intro conjI allI impI)
    show "length t2 = 16384" "t2 ! 8192 = pos 0"
      using j len Suc.prems(3) by (auto simp: t1_def t2_def good_def nth_list_update)
    fix k :: nat assume k: "1 \<le> k \<and> int k < j + 1"
    have nats: "nat (8192 + int k) = 8192 + k" "nat (8192 - int k) = 8192 - k" by linarith+
    show "\<exists>i. is_level i (int k) \<and> t2 ! (8192 + k) = pos i \<and> t2 ! (8192 - k) = neg i"
    proof (cases "int k = j")
      case True
      with j len Suc.prems(4) [of j] show ?thesis by (auto simp: t1_def t2_def nats intro!: exI [of _ i])
    next
      case False
      with k have "int k < j" by simp
      with k Suc.prems(3) obtain l where "is_level l (int k)" "table ! (8192 + k) = pos l" "table ! (8192 - k) = neg l"
        by (auto simp: good_def)
      with \<open>int k < j\<close> j len k show ?thesis by (intro exI [of _ l]) (auto simp: t1_def t2_def nth_list_update)
    qed
  qed
  moreover have "max (j + 1) v = max j v" using j by simp
  ultimately obtain t where "law_fill (int i) msk v (j + 1) t2 = Some (max j v, t)" "good (max j v) t"
    using Suc.hyps(1) [of "j + 1" t2] Suc.hyps(2) Suc.prems j by fastforce
  with j puts show ?case by (subst law_fill.simps) simp
qed

lemma law_loop_good:
  assumes "n \<le> 127" "1 \<le> j" "j \<le> 8192" "0 < n \<longrightarrow> th (n - 1) \<le> j" "good j table"
  shows "\<exists>j' table'. law_loop lin msk [n..<127] j table = Some (j', table') \<and>
    1 \<le> j' \<and> j' \<le> 8192 \<and> th 126 \<le> j' \<and> good j' table'"
  using assms
proof (induction "127 - n" arbitrary: n j table)
  case 0
  then show ?case by simp
next
  case (Suc d)
  let ?v = "th n"
  have v: "drop_bit 3 (lin (word_of_int (int n XOR msk)) + lin (word_of_int ((int n + 1) XOR msk)) + 4) = ?v"
    using pos_eq [of n] pos_eq [of "Suc n"] by (simp add: th_def drop_bit_eq_div add.commute)
  have n: "n < 127" using Suc by simp
  have "?v \<le> 8192" using th_le [OF n] by simp
  moreover have "is_level n k" if "j \<le> k" "k < ?v" for k using that n Suc.prems by (auto simp: is_level_def)
  ultimately obtain t where t: "law_fill (int n) msk ?v j table = Some (max j ?v, t)" "good (max j ?v) t"
    using law_fill_good [of j ?v table n] Suc.prems by auto
  have "\<exists>j' table'. law_loop lin msk [Suc n..<127] (max j ?v) t = Some (j', table') \<and>
      1 \<le> j' \<and> j' \<le> 8192 \<and> th 126 \<le> j' \<and> good j' table'"
    using Suc.hyps n Suc.prems t(2) th_le [OF n] by (intro Suc.hyps(1)) auto
  moreover have "[n..<127] = n # [Suc n..<127]" using n by (rule upt_conv_Cons)
  ultimately show ?case using t(1) v by (simp only: law_loop.simps Let_def) simp
qed

text \<open>The table maps magnitude \<open>k\<close>, in units of four, to the code of its level.\<close>

definition law_table :: "bytes \<Rightarrow> bool" where
  "law_table table \<longleftrightarrow> good 8192 table \<and> table ! 0 = table ! 1"

lemma buildLawTable_ok: "\<exists>table. buildLawTable (replicate 16384 0) lin msk = Some table \<and> law_table table"
proof -
  define t0 :: bytes where "t0 = (replicate 16384 0)[8192 := pos 0]"
  have put0: "law_put (replicate 16384 0) 8192 (word_of_int msk) = Some t0"
    by (simp add: law_put_def go_update_def t0_def pos_eq)
  have "good 1 t0" by (auto simp: good_def t0_def)
  then obtain j t1 where l: "law_loop lin msk [0..<127] 1 t0 = Some (j, t1)" "1 \<le> j" "j \<le> 8192" "th 126 \<le> j" "good j t1"
    using law_loop_good [of 0 1 t0] by auto
  moreover have "is_level 127 k" if "j \<le> k" for k using that l by (auto simp: is_level_def)
  ultimately obtain t2 where t2: "law_fill 127 msk 8192 j t1 = Some (8192, t2)" "good 8192 t2"
    using law_fill_good [of j 8192 t1 127] by auto
  have len: "length t2 = 16384" "t2 \<noteq> []" using t2(2) by (auto simp: good_def)
  with put0 l(1) t2(1) have "buildLawTable (replicate 16384 0) lin msk = Some (t2[0 := t2 ! 1])"
    by (simp add: buildLawTable_def go_index_def law_put_def go_update_def del: upt_rec_numeral)
  moreover have "law_table (t2[0 := t2 ! 1])"
    using t2(2) by (auto simp: law_table_def good_def nth_list_update)
  ultimately show ?thesis by blast
qed

section \<open>Looking up a code\<close>

lemma level_zero: "is_level 0 0"
proof -
  have "4 dvd lin (pos 1) - lin (pos 0)" using fours by simp
  moreover have "lin (pos 0) < lin (pos 1)" using step [of 0] by simp
  ultimately have "lin (pos 0) + 4 \<le> lin (pos 1)" using zdvd_imp_le [of 4 "lin (pos 1) - lin (pos 0)"] by simp
  with low show ?thesis by (simp add: is_level_def th_def)
qed

lemma level_last: "is_level i 8191 \<Longrightarrow> is_level i 8192"
  using th_le [of i] by (cases "i < 127") (auto simp: is_level_def)

text \<open>The code of a sample: a level of its magnitude, with its sign.\<close>

lemma law_code:
  assumes "law_table table" "- 32768 \<le> x" "x < 32768"
  obtains (positive) k i where "is_level i (int k)" "4 * int k \<le> x" "x \<le> 4 * int k + 3" "table ! nat (drop_bit 2 (x + 32768)) = pos i"
  | (negative) k i where "is_level i (int k)" "0 < k" "- 4 * int k \<le> x" "x \<le> - 4 * int k + 3" "table ! nat (drop_bit 2 (x + 32768)) = neg i"
proof -
  define m where "m = drop_bit 2 (x + 32768)"
  have m: "m = (x + 32768) div 4" by (simp add: m_def drop_bit_eq_div)
  have tab: "\<exists>i. is_level i (int k) \<and> table ! (8192 + k) = pos i \<and> table ! (8192 - k) = neg i" if "1 \<le> k" "k < 8192" for k
    using assms(1) that by (auto simp: law_table_def good_def)
  consider "8192 < m" | "m = 8192" | "0 < m" "m < 8192" | "m = 0" using assms m by linarith
  then show ?thesis
  proof cases
    case 1
    define k where "k = nat (m - 8192)"
    have k: "1 \<le> k" "k < 8192" "int k = m - 8192" "nat m = 8192 + k" using 1 assms m by (auto simp: k_def)
    from tab [OF k(1,2)] obtain i where i: "is_level i (int k)" "table ! (8192 + k) = pos i" by blast
    show ?thesis by (rule positive [OF i(1)]) (use i(2) k m in \<open>auto simp: m_def\<close>)
  next
    case 2
    have "table ! nat m = pos 0" using assms(1) 2 by (simp add: law_table_def good_def)
    with level_zero 2 m positive [of 0 0] show ?thesis by (auto simp: m_def)
  next
    case 3
    define k where "k = nat (8192 - m)"
    have k: "1 \<le> k" "k < 8192" "int k = 8192 - m" "nat m = 8192 - k" using 3 by (auto simp: k_def)
    from tab [OF k(1,2)] obtain i where i: "is_level i (int k)" "table ! (8192 - k) = neg i" by blast
    show ?thesis by (rule negative [OF i(1)]) (use i(2) k m in \<open>auto simp: m_def\<close>)
  next
    case 4
    obtain i where "is_level i 8191" "table ! 1 = neg i" using tab [of 8191] by auto
    with assms(1) have i: "is_level i (int 8192)" "table ! nat m = neg i" using 4 level_last by (auto simp: law_table_def)
    show ?thesis by (rule negative [OF i(1)]) (use i(2) 4 m assms in \<open>auto simp: m_def\<close>)
  qed
qed

text \<open>Its level is the nearest one to the middle of the four samples of its magnitude.\<close>

lemma level_sums:
  assumes "is_level i k" "l < 128"
  shows "i < l \<Longrightarrow> 8 * k + 4 \<le> lin (pos i) + lin (pos l)" "l < i \<Longrightarrow> lin (pos i) + lin (pos l) \<le> 8 * k"
proof -
  assume "i < l"
  then have "Suc i = l \<or> Suc i < l" by linarith
  then have "k < th i" "lin (pos (Suc i)) \<le> lin (pos l)"
    using assms ascending [of "Suc i" l] \<open>i < l\<close> by (auto simp: is_level_def)
  then show "8 * k + 4 \<le> lin (pos i) + lin (pos l)" by (simp add: th_def)
next
  assume "l < i"
  then have "l = i - 1 \<or> l < i - 1 \<and> i - 1 < 128" using assms by (auto simp: is_level_def)
  then have i: "i < 128" "th (i - 1) \<le> k" "lin (pos l) \<le> lin (pos (i - 1))"
    using assms ascending [of l "i - 1"] \<open>l < i\<close> by (auto simp: is_level_def)
  then have "lin (pos (i - 1)) + lin (pos i) + 4 < 8 * k + 8" using \<open>l < i\<close> unfolding th_def by simp
  moreover obtain a b where "lin (pos i) = 4 * a" "lin (pos l) = 4 * b" using fours [OF i(1)] fours [OF assms(2)] unfolding dvd_def by blast
  ultimately have "4 * a + 4 * b < 8 * k + 4" "lin (pos i) + lin (pos l) = 4 * a + 4 * b" using i(3) by simp_all
  then show "lin (pos i) + lin (pos l) \<le> 8 * k" by presburger
qed

lemma level_nearest:
  assumes "is_level i k" "l < 128"
  shows "4 * k \<le> x \<Longrightarrow> x \<le> 4 * k + 3 \<Longrightarrow> \<bar>lin (pos i) - x\<bar> \<le> \<bar>lin (pos l) - x\<bar> + 2"
    "4 * k - 3 \<le> x \<Longrightarrow> x \<le> 4 * k \<Longrightarrow> \<bar>lin (pos i) - x\<bar> \<le> \<bar>lin (pos l) - x\<bar> + 6"
proof -
  obtain a b where ab: "lin (pos i) = 4 * a" "lin (pos l) = 4 * b"
    using fours [of i] fours [OF assms(2)] assms(1) unfolding dvd_def is_level_def by blast
  consider "i < l" "8 * k + 4 \<le> 4 * a + 4 * b" "a < b" | "l < i" "4 * a + 4 * b \<le> 8 * k" "b < a" | "a = b"
    using level_sums [OF assms] ascending [of i l] ascending [of l i] assms ab
    by (cases i l rule: linorder_cases) (auto simp: is_level_def)
  note cs = this
  show "4 * k \<le> x \<Longrightarrow> x \<le> 4 * k + 3 \<Longrightarrow> \<bar>lin (pos i) - x\<bar> \<le> \<bar>lin (pos l) - x\<bar> + 2"
    using cs unfolding ab by cases linarith+
  show "4 * k - 3 \<le> x \<Longrightarrow> x \<le> 4 * k \<Longrightarrow> \<bar>lin (pos i) - x\<bar> \<le> \<bar>lin (pos l) - x\<bar> + 6"
    using cs unfolding ab by cases linarith+
qed

lemma law_nearest:
  assumes "law_table table" "- 32768 \<le> x" "x < 32768"
  shows "\<bar>lin (table ! nat (drop_bit 2 (x + 32768))) - x\<bar> \<le> \<bar>lin c - x\<bar> + (if 0 \<le> x then 2 else 6)"
proof -
  obtain l where l: "l < 128" "c = pos l \<or> c = neg l" using cover by blast
  then have c: "lin c = lin (pos l) \<or> lin c = - lin (pos l)" "0 \<le> lin (pos l)" using symmetric level_range by auto
  from assms show ?thesis
  proof (cases rule: law_code)
    case (positive k i)
    with level_nearest(1) [OF positive(1) l(1), of x] c show ?thesis by auto
  next
    case (negative k i)
    then have "lin (neg i) = - lin (pos i)" "x < 0" using symmetric by (auto simp: is_level_def)
    with negative level_nearest(2) [OF negative(1) l(1), of "- x"] c show ?thesis by auto
  qed
qed

text \<open>A level is its own code.\<close>

lemma level_unique: "is_level i k \<Longrightarrow> is_level l k \<Longrightarrow> i = l"
proof (induction i l rule: linorder_wlog)
  case (le i l)
  show ?case
  proof (rule ccontr)
    assume "i \<noteq> l"
    with le have "i < l" by simp
    with le level_sums [OF le(2), of l] level_sums [OF le(3), of i] show False by (auto simp: is_level_def)
  qed
qed simp

lemma level_of_level:
  assumes "i < 128" "lin (pos i) = 4 * k"
  shows "is_level i k"
proof -
  have four: "lin (pos l) + 4 \<le> lin (pos (Suc l))" if "l < 127" for l
    using step [OF that] zdvd_imp_le [of 4 "lin (pos (Suc l)) - lin (pos l)"] fours [of l] fours [of "Suc l"] that by simp
  show ?thesis
    unfolding is_level_def
  proof (intro conjI impI)
    show "k < th i" if "i < 127" using four [OF that] assms by (simp add: th_def)
    show "th (i - 1) \<le> k" if "0 < i"
    proof -
      have "lin (pos (i - 1)) + 4 \<le> 4 * k" using four [of "i - 1"] that assms by simp
      with that assms show ?thesis by (simp add: th_def)
    qed
  qed (rule assms(1))
qed

lemma law_stable:
  assumes "law_table table"
  shows "table ! nat (drop_bit 2 (lin c + 32768)) = (if lin c = 0 then pos 0 else c)"
proof -
  obtain l where l: "l < 128" "c = pos l \<or> c = neg l" using cover by blast
  obtain a where a: "lin (pos l) = 4 * a" using fours [OF l(1)] by auto
  have lev: "is_level l a" by (rule level_of_level [OF l(1) a])
  have range: "- 32768 \<le> lin c" "lin c < 32768" "0 \<le> a" using l level_range [OF l(1)] symmetric a by auto
  have zero: "is_level i 0 \<Longrightarrow> i = 0" for i using level_unique level_zero by blast
  have pos0: "l = 0" if "a = 0" using zero lev that by simp
  from assms range(1,2) show ?thesis
  proof (cases rule: law_code)
    case (positive k i)
    then have k: "int k = a" "a = 0 \<or> c = pos l" using l symmetric [OF l(1)] a range by auto
    then have "i = l" using level_unique [OF positive(1)] lev by simp
    moreover have "lin c = 0 \<longleftrightarrow> a = 0" using l symmetric [OF l(1)] a by auto
    ultimately show ?thesis using positive(4) k(2) pos0 by auto
  next
    case (negative k i)
    then have k: "int k = a" "lin c \<noteq> 0" "c = neg l" using l symmetric [OF l(1)] a range by auto
    with negative(5) level_unique [OF negative(1), of l] lev show ?thesis by simp
  qed
qed

end

section \<open>The two laws\<close>

lemma all_bytes: "list_all (\<lambda>n. P (word_of_nat n)) [0..<256] \<Longrightarrow> P (c :: u8)"
proof -
  assume "list_all (\<lambda>n. P (word_of_nat n)) [0..<256]"
  moreover have "unat c \<in> set [0..<256]" using unat_u8_less [of c] by simp
  ultimately have "P (word_of_nat (unat c))" unfolding list_all_iff by blast
  then show ?thesis by simp
qed

lemma all_below: "list_all P [0..<n] \<Longrightarrow> i < n \<Longrightarrow> P i"
  by (simp add: list_all_iff)

text \<open>The checks that evaluation makes of a law: all its levels and all its codes.\<close>

definition law_levels_ok :: "(u8 \<Rightarrow> int) \<Rightarrow> (nat \<Rightarrow> u8) \<Rightarrow> (nat \<Rightarrow> u8) \<Rightarrow> bool" where
  "law_levels_ok lin pos neg \<longleftrightarrow>
     list_all (\<lambda>i. lin (pos i) < lin (pos (Suc i))) [0..<127] \<and>
     list_all (\<lambda>i. lin (neg i) = - lin (pos i) \<and> lin (pos i) mod 4 = 0) [0..<128] \<and>
     0 \<le> lin (pos 0) \<and> lin (pos 127) \<le> 32764"

definition law_cover_ok :: "(nat \<Rightarrow> u8) \<Rightarrow> (nat \<Rightarrow> u8) \<Rightarrow> u8 \<Rightarrow> bool" where
  "law_cover_ok pos neg c \<longleftrightarrow> (let i = unat ((c XOR pos 0) AND 0x7f) in i < 128 \<and> (c = pos i \<or> c = neg i))"

lemma g711_law_by_evaluation:
  assumes "\<And>i. pos i = word_of_int (int i XOR msk)" "\<And>i. neg i = word_of_int (int i XOR (msk XOR 0x80))"
    and "law_levels_ok lin pos neg" "list_all (\<lambda>n. law_cover_ok pos neg (word_of_nat n)) [0..<256]"
  shows "g711_law lin msk pos neg"
proof
  show "\<exists>i<128. c = pos i \<or> c = neg i" for c
    using all_bytes [OF assms(4), of c] unfolding law_cover_ok_def Let_def by blast
qed (use assms(1-3) all_below in \<open>auto simp: law_levels_ok_def dvd_eq_mod_eq_0 list_all_iff\<close>)

definition ulaw_pos :: "nat \<Rightarrow> u8" where "ulaw_pos i = word_of_int (int i XOR 0xff)"
definition ulaw_neg :: "nat \<Rightarrow> u8" where "ulaw_neg i = word_of_int (int i XOR (0xff XOR 0x80))"
definition alaw_pos :: "nat \<Rightarrow> u8" where "alaw_pos i = word_of_int (int i XOR 0xd5)"
definition alaw_neg :: "nat \<Rightarrow> u8" where "alaw_neg i = word_of_int (int i XOR (0xd5 XOR 0x80))"

lemma ulaw_levels: "law_levels_ok ulaw2linear ulaw_pos ulaw_neg" by code_simp
lemma alaw_levels: "law_levels_ok alaw2linear alaw_pos alaw_neg" by code_simp
lemma ulaw_cover: "list_all (\<lambda>n. law_cover_ok ulaw_pos ulaw_neg (word_of_nat n)) [0..<256]" by code_simp
lemma alaw_cover: "list_all (\<lambda>n. law_cover_ok alaw_pos alaw_neg (word_of_nat n)) [0..<256]" by code_simp

interpretation ulaw: g711_law ulaw2linear "0xff" ulaw_pos ulaw_neg
  by (rule g711_law_by_evaluation [OF ulaw_pos_def ulaw_neg_def ulaw_levels ulaw_cover])

interpretation alaw: g711_law alaw2linear "0xd5" alaw_pos alaw_neg
  by (rule g711_law_by_evaluation [OF alaw_pos_def alaw_neg_def alaw_levels alaw_cover])

lemma g711_init_ok:
  obtains T where "g711_init = Some T" "ulaw.law_table (lin2ulaw T)" "alaw.law_table (lin2alaw T)"
    "ulaw2lin T = buildLinTable (replicate 256 0) ulaw2linear" "alaw2lin T = buildLinTable (replicate 256 0) alaw2linear"
proof -
  obtain u where u: "buildLawTable (replicate 16384 0) ulaw2linear 0xff = Some u" "ulaw.law_table u"
    using ulaw.buildLawTable_ok by blast
  obtain a where a: "buildLawTable (replicate 16384 0) alaw2linear 0xd5 = Some a" "alaw.law_table a"
    using alaw.buildLawTable_ok by blast
  show ?thesis
    by (rule that [of "\<lparr>ulaw2lin = buildLinTable (replicate 256 0) ulaw2linear,
          alaw2lin = buildLinTable (replicate 256 0) alaw2linear, lin2ulaw = u, lin2alaw = a\<rparr>"])
      (use u a in \<open>simp_all add: g711_init_def g711_vars_def\<close>)
qed

section \<open>Frames\<close>

lemma sint_range_i16: "- 32768 \<le> sint (x :: i16)" "sint (x :: i16) < 32768"
  using sint_greater_eq [of x] sint_less [of x] by simp_all

lemma law_encode_eq:
  "length table = 16384 \<Longrightarrow> i + length buf \<le> length out \<Longrightarrow>
    law_encode table out i buf = Some (take i out @ map (\<lambda>x. table ! nat (drop_bit 2 (sint x + 32768))) buf @ drop (i + length buf) out)"
proof (induction buf arbitrary: out i)
  case (Cons x buf)
  let ?n = "nat (drop_bit 2 (sint x + 32768))"
  have "?n < 16384" using sint_range_i16 [of x] by (simp add: drop_bit_eq_div)
  with Cons.prems have "law_encode table out i (x # buf) = law_encode table (out[i := table ! ?n]) (Suc i) buf"
    by (simp add: go_index_def go_update_def)
  with Cons show ?case by (simp add: take_Suc_conv_app_nth)
qed simp

lemma law_decode_eq:
  "length table = 256 \<Longrightarrow> i + length buf \<le> length out \<Longrightarrow>
    law_decode table out i buf = Some (take i out @ map (\<lambda>c. table ! unat c) buf @ drop (i + length buf) out)"
proof (induction buf arbitrary: out i)
  case (Cons c buf)
  have "unat c < 256" using unat_u8_less [of c] by simp
  with Cons.prems have "law_decode table out i (c # buf) = law_decode table (out[i := table ! unat c]) (Suc i) buf"
    by (simp add: go_index_def go_update_def)
  with Cons show ?case by (simp add: take_Suc_conv_app_nth)
qed simp

lemma buildLinTable_nth: "buildLinTable (replicate 256 0) lin ! unat c = word_of_int (lin c)" "length (buildLinTable (replicate 256 0) lin) = 256"
  using unat_u8_less [of c] by (simp_all add: buildLinTable_def del: upt_rec_numeral)

text \<open>What the four coders make of a frame, whatever the output slice held.\<close>

lemma law_coders_eq:
  assumes "ulaw.law_table (lin2ulaw T)" "alaw.law_table (lin2alaw T)"
    "ulaw2lin T = buildLinTable (replicate 256 0) ulaw2linear" "alaw2lin T = buildLinTable (replicate 256 0) alaw2linear"
  shows EncodeULawTo_eq: "length out = length s \<Longrightarrow> EncodeULawTo T out s = Some (map (\<lambda>x. lin2ulaw T ! nat (drop_bit 2 (sint x + 32768))) s)"
    and EncodeALawTo_eq: "length out = length s \<Longrightarrow> EncodeALawTo T out s = Some (map (\<lambda>x. lin2alaw T ! nat (drop_bit 2 (sint x + 32768))) s)"
    and DecodeULawTo_eq: "length out1 = length bs \<Longrightarrow> DecodeULawTo T out1 bs = Some (map (\<lambda>c. word_of_int (ulaw2linear c)) bs)"
    and DecodeALawTo_eq: "length out1 = length bs \<Longrightarrow> DecodeALawTo T out1 bs = Some (map (\<lambda>c. word_of_int (alaw2linear c)) bs)"
  using assms
  by (simp_all add: EncodeULawTo_def EncodeALawTo_def DecodeULawTo_def DecodeALawTo_def law_encode_eq law_decode_eq
      buildLinTable_nth ulaw.law_table_def ulaw.good_def alaw.law_table_def alaw.good_def)

text \<open>A decoder or encoder writer passes on exactly the coded frame, and its error, whatever its buffer holds.\<close>

lemma law_WriteSample_eq:
  assumes "\<And>out. length out = length data \<Longrightarrow> code_to out data = Some frame"
  shows "\<exists>buf. law_WriteSample code_to wr data d = Some (let (err, w1) = wr frame (lw_w d) in (err, \<lparr>lw_w = w1, lw_buf = buf\<rparr>))"
  using assms [of "take (length data) (if length data \<ge> length (lw_buf d) then replicate (length data) 0 else lw_buf d)"]
  by (auto simp: law_WriteSample_def Let_def split_beta)

section \<open>Properties\<close>

text \<open>\<open>nearest lin x c\<close>: no code is closer to the sample \<open>x\<close> than \<open>c\<close>, but for the two bits an index drops.\<close>

definition nearest :: "(u8 \<Rightarrow> int) \<Rightarrow> i16 \<Rightarrow> u8 \<Rightarrow> bool" where
  "nearest lin x c \<longleftrightarrow> (\<forall>c'. \<bar>lin c - sint x\<bar> \<le> \<bar>lin c' - sint x\<bar> + (if 0 \<le> sint x then 2 else 6))"

text \<open>
  C12: the package starts without a panic, and its tables encode every frame of 16-bit samples to the
  nearest codes of either law: no code of the 256 is closer to the sample by more than 2, or by more than
  6 for a negative sample, which is the effect of the two bits that the table index drops.
\<close>

theorem g711_codes_nearest:
  "\<exists>T. g711_init = Some T \<and>
    (\<forall>s. \<exists>a u. ALaw_Encode T s = Some a \<and> ULaw_Encode T s = Some u \<and>
      list_all2 (nearest alaw2linear) s a \<and> list_all2 (nearest ulaw2linear) s u)"
proof -
  obtain T where T: "g711_init = Some T" "ulaw.law_table (lin2ulaw T)" "alaw.law_table (lin2alaw T)"
    "ulaw2lin T = buildLinTable (replicate 256 0) ulaw2linear" "alaw2lin T = buildLinTable (replicate 256 0) alaw2linear"
    by (rule g711_init_ok)
  have "nearest alaw2linear x (lin2alaw T ! nat (drop_bit 2 (sint x + 32768)))"
    "nearest ulaw2linear x (lin2ulaw T ! nat (drop_bit 2 (sint x + 32768)))" for x
    using alaw.law_nearest [OF T(3) sint_range_i16] ulaw.law_nearest [OF T(2) sint_range_i16] by (simp_all add: nearest_def)
  with T show ?thesis
    by (auto simp: ALaw_Encode_def ULaw_Encode_def EncodeALawTo_eq EncodeULawTo_eq list.rel_map list.rel_refl)
qed

lemma law_int16:
  "sint (word_of_int (alaw2linear c) :: i16) = alaw2linear c" "sint (word_of_int (ulaw2linear c) :: i16) = ulaw2linear c"
proof -
  have "list_all (\<lambda>n. \<bar>alaw2linear (word_of_nat n)\<bar> < 32768 \<and> \<bar>ulaw2linear (word_of_nat n)\<bar> < 32768) [0..<256]" by code_simp
  from all_bytes [OF this, of c] show "sint (word_of_int (alaw2linear c) :: i16) = alaw2linear c"
    "sint (word_of_int (ulaw2linear c) :: i16) = ulaw2linear c"
    by (auto intro!: sint_of_int_i16)
qed

lemma law_zero: "alaw2linear c \<noteq> 0" "(if ulaw2linear c = 0 then ulaw_pos 0 else c) = (if c = 0x7f then 0xff else c)"
proof -
  have "list_all (\<lambda>n. alaw2linear (word_of_nat n) \<noteq> 0 \<and> (ulaw2linear (word_of_nat n) = 0) = (word_of_nat n = (0x7f :: u8) \<or> word_of_nat n = (0xff :: u8))) [0..<256]"
    by code_simp
  from all_bytes [OF this, of c] show "alaw2linear c \<noteq> 0" "(if ulaw2linear c = 0 then ulaw_pos 0 else c) = (if c = 0x7f then 0xff else c)"
    by (auto simp: ulaw_pos_def)
qed

text \<open>
  C36: transcoding is stable.  Every byte stream of either law decodes to exactly the expanded samples, and
  encoding those gives the bytes back, but for the mu-law negative zero \<open>0x7f\<close>, which becomes \<open>0xff\<close>.
\<close>

theorem g711_transcoding_stable:
  "\<exists>T. g711_init = Some T \<and>
    (\<forall>bs. \<exists>a u. ALaw_Decode T bs = Some a \<and> map sint a = map alaw2linear bs \<and> ALaw_Encode T a = Some bs \<and>
      ULaw_Decode T bs = Some u \<and> map sint u = map ulaw2linear bs \<and>
      ULaw_Encode T u = Some (map (\<lambda>c. if c = 0x7f then 0xff else c) bs))"
proof -
  obtain T where T: "g711_init = Some T" "ulaw.law_table (lin2ulaw T)" "alaw.law_table (lin2alaw T)"
    "ulaw2lin T = buildLinTable (replicate 256 0) ulaw2linear" "alaw2lin T = buildLinTable (replicate 256 0) alaw2linear"
    by (rule g711_init_ok)
  have "lin2alaw T ! nat (drop_bit 2 (alaw2linear c + 32768)) = c"
    "lin2ulaw T ! nat (drop_bit 2 (ulaw2linear c + 32768)) = (if c = 0x7f then 0xff else c)" for c
    using alaw.law_stable [OF T(3), of c] ulaw.law_stable [OF T(2), of c] law_zero [of c] by simp_all
  with T show ?thesis
    by (auto simp: ALaw_Encode_def ULaw_Encode_def ALaw_Decode_def ULaw_Decode_def EncodeALawTo_eq EncodeULawTo_eq
        DecodeALawTo_eq DecodeULawTo_eq law_int16 o_def)
qed

end
