(* ===== verification/Go_Float.thy ===== *)
theory Go_Float
  imports Complex_Main Media_Prelude
begin

text \<open>
  The floating-point operations that the program uses.  HOL has no IEEE \<open>float64\<close>, so a computation on
  floats is written over a record of operations, in the order the code performs them; what is proved holds
  for every choice of them, rounding included.
\<close>

record 'f go_float =
  fl_of_int :: "int \<Rightarrow> 'f"
  fl_add :: "'f \<Rightarrow> 'f \<Rightarrow> 'f"
  fl_sub :: "'f \<Rightarrow> 'f \<Rightarrow> 'f"
  fl_mul :: "'f \<Rightarrow> 'f \<Rightarrow> 'f"
  fl_div :: "'f \<Rightarrow> 'f \<Rightarrow> 'f"
  fl_int :: "'f \<Rightarrow> int"
  fl_i16 :: "'f \<Rightarrow> i16"
  fl_sin :: "'f \<Rightarrow> 'f"
  fl_pi :: 'f
  fl_infnan :: "'f \<Rightarrow> bool"

text \<open>A wrapping 64-bit integer, and \<open>Duration.Seconds\<close>.\<close>

definition int64 :: "int \<Rightarrow> int" where
  "int64 x = sint (word_of_int x :: 64 word)"

definition go_rem :: "int \<Rightarrow> int \<Rightarrow> int" where
  "go_rem a b = a - b * go_quot a b"

definition Seconds :: "('f, 'z) go_float_scheme \<Rightarrow> ns \<Rightarrow> 'f" where
  "Seconds F d = fl_add F (fl_of_int F (go_quot d 1000000000))
     (fl_div F (fl_of_int F (go_rem d 1000000000)) (fl_of_int F 1000000000))"

text \<open>Exact arithmetic, for examples.\<close>

definition go_trunc :: "rat \<Rightarrow> int" where
  "go_trunc x = (if x < 0 then - \<lfloor>- x\<rfloor> else \<lfloor>x\<rfloor>)"

definition rat_float :: "rat go_float" where
  "rat_float = \<lparr>fl_of_int = of_int, fl_add = (+), fl_sub = (-), fl_mul = (*), fl_div = (/),
     fl_int = go_trunc, fl_i16 = (\<lambda>x. word_of_int (go_trunc x)), fl_sin = (\<lambda>_. 0), fl_pi = 0, fl_infnan = (\<lambda>_. False)\<rparr>"

end
