(* ===== verification/Tones.thy ===== *)
theory Tones
  imports Go_Float Go_Strings Media_Frames
begin

text \<open>
  Call progress tones (\<open>tones/tones.go\<close>): the sine generator, the ringing tones by region, and the endless
  playing of a list of tones and silences, one frame a tick.
\<close>

section \<open>Tones\<close>

text \<open>\<open>Generate\<close> overwrites the whole buffer; the products of durations wrap at 64 bits.\<close>

definition gen_sample :: "'f go_float \<Rightarrow> i16 \<Rightarrow> u32 list \<Rightarrow> ns \<Rightarrow> i16" where
  "gen_sample F amp freq phi =
     (if freq = [] then 0
      else let total = fold (\<lambda>hz acc. fl_add F acc
             (fl_sin F (fl_mul F (Seconds F (int64 (int64 (phi * uint hz) * 2))) (fl_pi F)))) freq (fl_of_int F 0)
      in fl_i16 F (fl_div F (fl_mul F (fl_of_int F (sint amp)) total) (fl_of_int F (int (length freq)))))"

definition Generate :: "'f go_float \<Rightarrow> pcm16 \<Rightarrow> ns \<Rightarrow> ns \<Rightarrow> i16 \<Rightarrow> u32 list \<Rightarrow> pcm16 \<times> ns" where
  "Generate F buf ts dur amp freq =
     (map (\<lambda>i. gen_sample F amp freq (ts + go_quot (dur * int i) (int (length buf)))) [0..<length buf], ts + dur)"

record tone =
  Freq :: "u32 list"
  Dur :: ns
  Silence :: ns

abbreviation "time_Second \<equiv> 1000000000 :: ns"
abbreviation "time_Millisecond \<equiv> 1000000 :: ns"

definition ETSIDial :: "tone list" where "ETSIDial = [\<lparr>Freq = [425], Dur = 0, Silence = 0\<rparr>]"
definition ETSIRinging :: "tone list" where "ETSIRinging = [\<lparr>Freq = [425], Dur = time_Second, Silence = 4 * time_Second\<rparr>]"
definition ETSIBusy :: "tone list" where "ETSIBusy = [\<lparr>Freq = [425], Dur = time_Second div 2, Silence = time_Second div 2\<rparr>]"
definition USRinging :: "tone list" where "USRinging = [\<lparr>Freq = [440, 480], Dur = 2 * time_Second, Silence = 4 * time_Second\<rparr>]"
definition UKRinging :: "tone list" where
  "UKRinging = [\<lparr>Freq = [400, 450], Dur = 400 * time_Millisecond, Silence = 200 * time_Millisecond\<rparr>,
     \<lparr>Freq = [400, 450], Dur = 400 * time_Millisecond, Silence = 2 * time_Second\<rparr>]"
definition JPRinging :: "tone list" where "JPRinging = [\<lparr>Freq = [400], Dur = time_Second, Silence = 2 * time_Second\<rparr>]"
definition AURinging :: "tone list" where
  "AURinging = [\<lparr>Freq = [400, 450], Dur = 400 * time_Millisecond, Silence = 200 * time_Millisecond\<rparr>,
     \<lparr>Freq = [400, 450], Dur = 400 * time_Millisecond, Silence = 2 * time_Second\<rparr>]"

definition upper_char :: "char \<Rightarrow> char" where
  "upper_char c = (let n = of_char c :: nat in if 97 \<le> n \<and> n \<le> 122 then char_of (n - 32) else c)"

definition ToUpper :: "string \<Rightarrow> string" where
  "ToUpper s = map upper_char s"

definition RingingByRegion :: "string \<Rightarrow> tone list" where
  "RingingByRegion code =
     (let c = ToUpper (TrimSpace code)
      in if c = ''US'' \<or> c = ''CA'' then USRinging
         else if c = ''GB'' \<or> c = ''UK'' then UKRinging
         else if c = ''JP'' then JPRinging
         else if c = ''AU'' then AURinging
         else ETSIRinging)"

section \<open>Playing\<close>

definition DefFrameDur :: ns where "DefFrameDur = 20 * time_Millisecond"
definition DefFramesPerSec :: int where "DefFramesPerSec = time_Second div DefFrameDur"

record play_state =
  pl_ts :: ns
  pl_freq :: "u32 list"
  pl_remaining :: ns
  pl_ind :: int

definition play_init :: play_state where
  "play_init = \<lparr>pl_ts = 0, pl_freq = [], pl_remaining = 0, pl_ind = - 1\<rparr>"

text \<open>\<open>next\<close>: the tone, whether its silence is meant, and the index; it panics without tones.\<close>

definition play_next :: "tone list \<Rightarrow> int \<Rightarrow> (tone \<times> bool \<times> int) option" where
  "play_next tones ind =
     (if tones = [] then None
      else let ind1 = (ind + 1) mod (int (length tones) * 2)
           in Some (tones ! nat (ind1 div 2), ind1 mod 2 \<noteq> 0, ind1))"

definition play_pick :: "tone list \<Rightarrow> play_state \<Rightarrow> play_state option" where
  "play_pick tones st =
     (if pl_remaining st \<le> 0 then do {
        (t1, silence1, ind1) \<leftarrow> play_next tones (pl_ind st);
        (t, silence, ind) \<leftarrow> (if silence1 \<and> Silence t1 = 0 then play_next tones ind1 else Some (t1, silence1, ind1));
        Some (if \<not> silence then st\<lparr>pl_freq := Freq t, pl_remaining := Dur t, pl_ind := ind\<rparr>
              else st\<lparr>pl_freq := [], pl_remaining := Silence t, pl_ind := ind\<rparr>)
      } else Some st)"

text \<open>One tick: the frame to write and the state after it.\<close>

definition play_tick :: "'f go_float \<Rightarrow> i16 \<Rightarrow> tone list \<Rightarrow> pcm16 \<Rightarrow> play_state \<Rightarrow> (pcm16 \<times> play_state) option" where
  "play_tick F vol tones pcmBuf st = do {
     st1 \<leftarrow> play_pick tones st;
     let buf = (if pl_freq st1 = [] then pcm_Clear pcmBuf else fst (Generate F pcmBuf (pl_ts st1) DefFrameDur vol (pl_freq st1)));
     Some (buf, st1\<lparr>pl_remaining := pl_remaining st1 - DefFrameDur, pl_ts := pl_ts st1 + DefFrameDur\<rparr>)
   }"

text \<open>
  \<open>Play\<close>, given what its \<open>select\<close> sees in turn.  The outer \<open>None\<close> is a panic; the inner one says that the
  call is still waiting when the events end.
\<close>

fun play_loop ::
  "'f go_float \<Rightarrow> (pcm16, 'w) write_fn \<Rightarrow> i16 \<Rightarrow> tone list \<Rightarrow> play_event list \<Rightarrow> pcm16 \<Rightarrow> play_state \<Rightarrow> 'w \<Rightarrow>
    (go_error option \<times> 'w) option option" where
  "play_loop F wr vol tones [] pcmBuf st w = Some None"
| "play_loop F wr vol tones (CtxDone e # evs) pcmBuf st w = Some (Some (Some e, w))"
| "play_loop F wr vol tones (Tick # evs) pcmBuf st w = do {
     (buf, st1) \<leftarrow> play_tick F vol tones pcmBuf st;
     let (err, w1) = wr buf w;
     if err \<noteq> None then Some (Some (err, w1)) else play_loop F wr vol tones evs buf st1 w1
   }"

definition Play ::
  "'f go_float \<Rightarrow> (pcm16, 'w) write_fn \<Rightarrow> int \<Rightarrow> i16 \<Rightarrow> tone list \<Rightarrow> play_event list \<Rightarrow> 'w \<Rightarrow>
    (go_error option \<times> 'w) option option" where
  "Play F wr rate vol tones evs w =
     (let sz = go_quot rate DefFramesPerSec
      in if sz < 0 then None else play_loop F wr vol tones evs (replicate (nat sz) 0) play_init w)"

section \<open>The cadence\<close>

text \<open>
  The specification: a phase of duration \<open>d\<close> lasts the frames that cover it and at least one, except that a
  silence of 0 is left out; the cadence repeats.
\<close>

definition cover_frames :: "ns \<Rightarrow> nat" where
  "cover_frames d = nat ((d + (DefFrameDur - 1)) div DefFrameDur)"

definition phase_frames :: "ns \<Rightarrow> nat" where
  "phase_frames d = max 1 (cover_frames d)"

definition cadence :: "tone list \<Rightarrow> u32 list list" where
  "cadence tones = concat (map (\<lambda>t. replicate (phase_frames (Dur t)) (Freq t) @
     replicate (if Silence t = 0 then 0 else phase_frames (Silence t)) []) tones)"

text \<open>Frame number \<open>k\<close>: silence, or the sound from the time of the frame on.\<close>

definition cadence_frame :: "'f go_float \<Rightarrow> nat \<Rightarrow> i16 \<Rightarrow> tone list \<Rightarrow> nat \<Rightarrow> pcm16" where
  "cadence_frame F sz vol tones k =
     (let freq = cadence tones ! (k mod length (cadence tones))
      in if freq = [] then replicate sz 0
         else fst (Generate F (replicate sz 0) (int k * DefFrameDur) DefFrameDur vol freq))"

section \<open>Lemmas\<close>

text \<open>The phases as \<open>ind\<close> numbers them: tone and silence in turn.\<close>

definition ph_freq :: "tone list \<Rightarrow> nat \<Rightarrow> u32 list" where
  "ph_freq tones b = (if even b then Freq (tones ! (b div 2)) else [])"

definition ph_dur :: "tone list \<Rightarrow> nat \<Rightarrow> ns" where
  "ph_dur tones b = (if even b then Dur (tones ! (b div 2)) else Silence (tones ! (b div 2)))"

definition ph_len :: "tone list \<Rightarrow> nat \<Rightarrow> nat" where
  "ph_len tones b = (if odd b \<and> ph_dur tones b = 0 then 0 else phase_frames (ph_dur tones b))"

definition ph_start :: "tone list \<Rightarrow> nat \<Rightarrow> nat" where
  "ph_start tones b = (\<Sum>c<b. ph_len tones c)"

lemma cadence_phases: "cadence tones = concat (map (\<lambda>b. replicate (ph_len tones b) (ph_freq tones b)) [0..<2 * length tones])"
proof (induction tones rule: rev_induct)
  case (snoc t tones)
  let ?f = "\<lambda>ts b. replicate (ph_len ts b) (ph_freq ts b)" and ?n = "2 * length tones"
  have "map (?f (tones @ [t])) [0..<?n] = map (?f tones) [0..<?n]"
    by (auto simp: ph_len_def ph_freq_def ph_dur_def nth_append)
  moreover have "[0..<2 * length (tones @ [t])] = [0..<?n] @ [?n, Suc ?n]"
    using upt_add_eq_append [of 0 ?n 2] by (simp add: upt_rec)
  moreover have "?f (tones @ [t]) ?n @ ?f (tones @ [t]) (Suc ?n) = cadence [t]"
    by (simp add: cadence_def ph_len_def ph_freq_def ph_dur_def nth_append)
  ultimately have "concat (map (?f (tones @ [t])) [0..<2 * length (tones @ [t])]) = concat (map (?f tones) [0..<?n]) @ cadence [t]"
    by (simp only: map_append concat_append list.map concat.simps append_Nil2)
  with snoc have "concat (map (?f (tones @ [t])) [0..<2 * length (tones @ [t])]) = cadence tones @ cadence [t]" by simp
  then show ?case by (simp add: cadence_def)
qed (simp add: cadence_def)

lemma length_phases: "length (concat (map (\<lambda>b. replicate (len b) (x b)) [0..<n])) = (\<Sum>c<n. len c)"
  by (induction n) simp_all

lemma length_cadence: "length (cadence tones) = ph_start tones (2 * length tones)"
  by (simp only: cadence_phases length_phases ph_start_def)

lemma cadence_nth:
  assumes "b < 2 * length tones" "j < ph_len tones b"
  shows "ph_start tones b + j < length (cadence tones)" "cadence tones ! (ph_start tones b + j) = ph_freq tones b"
proof -
  let ?f = "\<lambda>b. replicate (ph_len tones b) (ph_freq tones b)"
  have "[0..<2 * length tones] = [0..<b] @ b # [Suc b..<2 * length tones]"
    using assms(1) upt_add_eq_append [of 0 b "2 * length tones - b"] upt_conv_Cons [of b "2 * length tones"] by simp
  then have eq: "cadence tones = concat (map ?f [0..<b]) @ ?f b @ concat (map ?f [Suc b..<2 * length tones])"
    by (simp add: cadence_phases)
  show "ph_start tones b + j < length (cadence tones)" "cadence tones ! (ph_start tones b + j) = ph_freq tones b"
    unfolding eq ph_start_def using assms(2) length_phases [of "ph_len tones" "ph_freq tones" b] by (simp_all add: nth_append)
qed

lemma cover_frames_minus: "cover_frames (r - DefFrameDur) = cover_frames r - 1"
proof -
  have "(r - DefFrameDur + (DefFrameDur - 1)) div DefFrameDur = (r + (DefFrameDur - 1)) div DefFrameDur - 1"
    by (simp add: DefFrameDur_def; linarith)
  then show ?thesis by (simp add: cover_frames_def nat_diff_distrib')
qed

lemma cover_frames_pos: "0 < cover_frames r \<longleftrightarrow> 0 < r"
  by (simp add: cover_frames_def DefFrameDur_def; linarith)

lemma cover_frames_phase: "cover_frames (d - DefFrameDur) = phase_frames d - 1"
  by (simp add: cover_frames_minus phase_frames_def)

section \<open>The state follows the cadence\<close>

text \<open>
  Before frame \<open>k\<close>: the phase in play is \<open>b\<close>, and what remains of it ends where the next one starts, up to
  whole cycles.  At the beginning \<open>b\<close> is the last phase, with nothing left.
\<close>

definition play_at :: "tone list \<Rightarrow> nat \<Rightarrow> play_state \<Rightarrow> bool" where
  "play_at tones k st \<longleftrightarrow> pl_ts st = int k * DefFrameDur \<and>
     (\<exists>b < 2 * length tones. pl_ind st mod int (2 * length tones) = int b \<and>
       (0 < cover_frames (pl_remaining st) \<longrightarrow> pl_freq st = ph_freq tones b \<and> pl_ind st = int b) \<and>
       cover_frames (pl_remaining st) \<le> ph_len tones b \<and>
       (\<exists>q. k + length (cadence tones) + cover_frames (pl_remaining st) = ph_start tones (Suc b) + q * length (cadence tones)))"

text \<open>A picked phase: its frames are at \<open>k\<close> and there is at least one left.\<close>

definition play_picked :: "tone list \<Rightarrow> nat \<Rightarrow> play_state \<Rightarrow> bool" where
  "play_picked tones k st \<longleftrightarrow> pl_ts st = int k * DefFrameDur \<and>
     (\<exists>b < 2 * length tones. pl_ind st = int b \<and> pl_freq st = ph_freq tones b \<and>
       1 \<le> phase_frames (pl_remaining st) \<and> phase_frames (pl_remaining st) \<le> ph_len tones b \<and>
       (\<exists>q. k + length (cadence tones) + phase_frames (pl_remaining st) = ph_start tones (Suc b) + q * length (cadence tones)))"

lemma ph_start_Suc: "ph_start tones (Suc b) = ph_start tones b + ph_len tones b"
  by (simp add: ph_start_def)

lemma picked_frame:
  assumes "play_picked tones k st"
  shows "cadence tones ! (k mod length (cadence tones)) = pl_freq st"
proof -
  obtain b q where b: "b < 2 * length tones" "pl_freq st = ph_freq tones b" "1 \<le> phase_frames (pl_remaining st)"
    "phase_frames (pl_remaining st) \<le> ph_len tones b"
    "k + length (cadence tones) + phase_frames (pl_remaining st) = ph_start tones (Suc b) + q * length (cadence tones)"
    using assms by (auto simp: play_picked_def)
  define j where "j = ph_len tones b - phase_frames (pl_remaining st)"
  have j: "j < ph_len tones b" "k + length (cadence tones) = ph_start tones b + j + q * length (cadence tones)"
    using b by (auto simp: j_def ph_start_Suc)
  have "k mod length (cadence tones) = (k + length (cadence tones)) mod length (cadence tones)" by simp
  also have "\<dots> = ph_start tones b + j" using cadence_nth(1) [OF b(1) j(1)] unfolding j(2) by simp
  finally show ?thesis using cadence_nth(2) [OF b(1) j(1)] b(2) by simp
qed

lemma picked_next:
  assumes "play_picked tones k st"
  shows "play_at tones (Suc k) (st\<lparr>pl_remaining := pl_remaining st - DefFrameDur, pl_ts := pl_ts st + DefFrameDur\<rparr>)"
proof -
  obtain b q where b: "b < 2 * length tones" "pl_ind st = int b" "pl_freq st = ph_freq tones b" "1 \<le> phase_frames (pl_remaining st)"
    "phase_frames (pl_remaining st) \<le> ph_len tones b"
    "k + length (cadence tones) + phase_frames (pl_remaining st) = ph_start tones (Suc b) + q * length (cadence tones)"
    using assms by (auto simp: play_picked_def)
  show ?thesis
    unfolding play_at_def
    by (intro conjI exI [of _ b] exI [of _ q]) (use b assms in \<open>auto simp: cover_frames_phase play_picked_def algebra_simps\<close>)
qed

lemma next_start:
  "b < 2 * length tones \<Longrightarrow>
    \<exists>q'. ph_start tones (Suc b) + q * length (cadence tones) = ph_start tones (Suc b mod (2 * length tones)) + q' * length (cadence tones)"
proof (cases "Suc b < 2 * length tones")
  case False
  moreover assume "b < 2 * length tones"
  ultimately have "Suc b = 2 * length tones" by simp
  then show ?thesis by (intro exI [of _ "Suc q"]) (simp add: length_cadence ph_start_def)
qed auto

lemma play_next_at:
  assumes "tones \<noteq> []" "ind mod int (2 * length tones) = int b" "b' = Suc b mod (2 * length tones)"
  shows "play_next tones ind = Some (tones ! (b' div 2), odd b', int b')" "b' < 2 * length tones"
proof -
  have "(ind + 1) mod int (2 * length tones) = (int b + 1) mod int (2 * length tones)"
    using assms(2) mod_add_left_eq [of ind "int (2 * length tones)" 1] by simp
  also have "\<dots> = int b'" using assms(3) by (simp add: zmod_int add.commute)
  finally show "play_next tones ind = Some (tones ! (b' div 2), odd b', int b')"
    using assms(1) by (auto simp: play_next_def Let_def mult.commute nat_div_distrib; presburger)
  show "b' < 2 * length tones" using assms by simp
qed

lemma play_pick_at:
  assumes "tones \<noteq> []" "play_at tones k st"
  shows "\<exists>st'. play_pick tones st = Some st' \<and> play_picked tones k st'"
proof -
  let ?n = "2 * length tones" and ?r = "pl_remaining st"
  obtain b q where b: "b < ?n" "pl_ind st mod int ?n = int b" "0 < cover_frames ?r \<longrightarrow> pl_freq st = ph_freq tones b \<and> pl_ind st = int b"
    "cover_frames ?r \<le> ph_len tones b" "k + length (cadence tones) + cover_frames ?r = ph_start tones (Suc b) + q * length (cadence tones)"
    and ts: "pl_ts st = int k * DefFrameDur"
    using assms(2) unfolding play_at_def by (elim conjE exE) (rule that; assumption)
  show ?thesis
  proof (cases "0 < ?r")
    case True
    then have "phase_frames ?r = cover_frames ?r" "0 < cover_frames ?r" using cover_frames_pos [of ?r] by (simp_all add: phase_frames_def max_def)
    with True b ts show ?thesis
      by (intro exI [of _ st]) (auto simp: play_pick_def play_picked_def intro!: exI [of _ b] exI [of _ q])
  next
    case False
    then have k: "k + length (cadence tones) = ph_start tones (Suc b) + q * length (cadence tones)" using b(5) cover_frames_pos [of ?r] by simp
    define b1 where "b1 = Suc b mod ?n"
    note n1 = play_next_at [OF assms(1) b(2) b1_def]
    obtain q1 where q1: "k + length (cadence tones) = ph_start tones b1 + q1 * length (cadence tones)" using next_start [OF b(1)] k b1_def by metis
    define b2 where "b2 = (if odd b1 \<and> ph_dur tones b1 = 0 then Suc b1 mod ?n else b1)"
    have n2: "(if odd b1 \<and> Silence (tones ! (b1 div 2)) = 0 then play_next tones (int b1) else Some (tones ! (b1 div 2), odd b1, int b1)) =
        Some (tones ! (b2 div 2), odd b2, int b2)"
      using play_next_at(1) [OF assms(1), of "int b1" b1 "Suc b1 mod ?n"] n1(2) by (auto simp: b2_def ph_dur_def)
    have "\<exists>q2. k + length (cadence tones) = ph_start tones b2 + q2 * length (cadence tones)"
    proof (cases "odd b1 \<and> ph_dur tones b1 = 0")
      case True
      then have "ph_start tones (Suc b1) = ph_start tones b1" by (simp add: ph_start_Suc ph_len_def)
      with True q1 next_start [OF n1(2), of q1] show ?thesis by (simp add: b2_def)
    qed (use q1 b2_def in auto)
    then obtain q2 where q2: "k + length (cadence tones) = ph_start tones b2 + q2 * length (cadence tones)" by blast
    have "b2 < ?n" using n1(2) assms(1) by (auto simp: b2_def)
    have "ph_len tones b2 = phase_frames (ph_dur tones b2)"
      by (auto simp: b2_def ph_len_def dvd_mod_iff)
    then have len: "ph_start tones (Suc b2) + q2 * length (cadence tones) = k + length (cadence tones) + phase_frames (ph_dur tones b2)"
      using q2 by (simp add: ph_start_Suc)
    define st' where "st' = st\<lparr>pl_freq := ph_freq tones b2, pl_remaining := ph_dur tones b2, pl_ind := int b2\<rparr>"
    have "play_pick tones st = Some st'"
      using False n1(1) n2 by (auto simp: play_pick_def st'_def ph_freq_def ph_dur_def)
    moreover have "play_picked tones k st'"
      unfolding play_picked_def
      by (intro conjI exI [of _ b2] exI [of _ q2])
        (use \<open>b2 < ?n\<close> ts len \<open>ph_len tones b2 = _\<close> in \<open>simp_all add: st'_def phase_frames_def\<close>)
    ultimately show ?thesis by blast
  qed
qed

lemma play_tick_at:
  assumes "tones \<noteq> []" "play_at tones k st" "length pcmBuf = sz"
  shows "\<exists>st'. play_tick F vol tones pcmBuf st = Some (cadence_frame F sz vol tones k, st') \<and> play_at tones (Suc k) st'"
proof -
  obtain st1 where st1: "play_pick tones st = Some st1" "play_picked tones k st1" using play_pick_at [OF assms(1,2)] by blast
  moreover from st1(2) have "pl_ts st1 = int k * DefFrameDur" by (simp add: play_picked_def)
  ultimately show ?thesis
    using picked_next [OF st1(2)] picked_frame [OF st1(2)] assms(3)
    by (auto simp: play_tick_def cadence_frame_def Let_def pcm_Clear_def Generate_def map_replicate_const)
qed

lemma length_cadence_frame [simp]: "length (cadence_frame F sz vol tones k) = sz"
  by (simp add: cadence_frame_def Let_def Generate_def)

lemma play_loop_at:
  "tones \<noteq> [] \<Longrightarrow> play_at tones k st \<Longrightarrow> length pcmBuf = sz \<Longrightarrow>
    play_loop F wr vol tones evs pcmBuf st w =
      Some (PlayAudio wr evs (map (cadence_frame F sz vol tones) [k..<Suc (k + length evs)]) w)"
proof (induction evs arbitrary: k st pcmBuf w)
  case (Cons ev evs)
  have up: "[k..<Suc (Suc (k + length evs))] = k # [Suc k..<Suc (Suc (k + length evs))]" by (simp add: upt_conv_Cons del: upt_Suc)
  show ?case
  proof (cases ev)
    case Tick
    obtain st' where t: "play_tick F vol tones pcmBuf st = Some (cadence_frame F sz vol tones k, st')" "play_at tones (Suc k) st'"
      using play_tick_at [OF Cons.prems] by blast
    with Cons.IH [OF Cons.prems(1) t(2) length_cadence_frame [of F sz vol tones k]] Tick show ?thesis
      by (simp add: up split_beta del: upt_Suc)
  qed (simp add: up del: upt_Suc)
qed simp

lemma play_at_init: "tones \<noteq> [] \<Longrightarrow> play_at tones 0 play_init"
  unfolding play_at_def
  by (intro conjI exI [of _ "2 * length tones - 1"] exI [of _ 0])
    (auto simp: play_init_def cover_frames_def DefFrameDur_def length_cadence zmod_minus1 of_nat_diff Suc_le_eq)

section \<open>Properties\<close>

text \<open>
  C19: \<open>Play\<close> is \<open>PlayAudio\<close> of the endless cadence.  For any tones but none, whatever the ticks and the end
  of the context and whatever the writer answers, the frames written are those of the cadence in order: each
  tone for the frames that cover its duration, then its silence, a silence of 0 left out, the sound of a frame
  computed at the frame's own time; the call ends with the context or at the first error, and does not panic.
  It panics exactly when the writer's sample rate makes the frame length negative, or without tones at the
  first tick, unless the context ends before.
\<close>

theorem Play_cadence:
  "Play F wr rate vol tones evs w =
    (if go_quot rate DefFramesPerSec < 0 then None
     else if tones = [] then (case evs of [] \<Rightarrow> Some None | CtxDone e # _ \<Rightarrow> Some (Some (Some e, w)) | Tick # _ \<Rightarrow> None)
     else Some (PlayAudio wr evs (map (cadence_frame F (nat (go_quot rate DefFramesPerSec)) vol tones) [0..<Suc (length evs)]) w))"
proof (cases "tones = []")
  case True
  then show ?thesis
    by (auto simp: Play_def Let_def play_tick_def play_pick_def play_next_def play_init_def split: list.split play_event.split)
next
  case False
  then show ?thesis
    by (simp add: Play_def Let_def play_loop_at [OF False play_at_init [OF False] length_replicate] del: upt_Suc)
qed

text \<open>A tone of two frames and a frame of silence; and no tones.\<close>

theorem Play_cadence_witness:
  "Play (rat_float\<lparr>fl_sin := \<lambda>_. 1\<rparr>) frameWriter_WriteSample 100 9 [\<lparr>Freq = [400], Dur = 30000000, Silence = 20000000\<rparr>]
      [Tick, Tick, Tick, CtxDone EOF] [] = Some (Some (Some EOF, [[9, 9], [9, 9], [0, 0]])) \<and>
    Play rat_float frameWriter_WriteSample 100 9 [] [Tick] [] = None"
proof -
  have "map (cadence_frame (rat_float\<lparr>fl_sin := \<lambda>_. 1\<rparr>) 2 9 [\<lparr>Freq = [400], Dur = 30000000, Silence = 20000000\<rparr>]) [0..<Suc (Suc (Suc (Suc (Suc 0))))] =
      [[9, 9], [9, 9], [0, 0], [9, 9], [9, 9]]" by code_simp
  with Play_cadence [of "rat_float\<lparr>fl_sin := \<lambda>_. 1\<rparr>" frameWriter_WriteSample 100 9
      "[\<lparr>Freq = [400], Dur = 30000000, Silence = 20000000\<rparr>]" "[Tick, Tick, Tick, CtxDone EOF]" "[]"]
    Play_cadence [of rat_float frameWriter_WriteSample 100 9 "[]" "[Tick]" "[]"]
  show ?thesis by (simp add: DefFramesPerSec_def DefFrameDur_def frameWriter_WriteSample_def del: upt_Suc)
qed

end
