(* ===== verification/Beep.thy ===== *)
theory Beep
  imports Go_Float Media_Writers
begin

text \<open>
  The predictable resampler (\<open>resampler_beep.go\<close>, \<open>resample_beep.go\<close>): polynomial interpolation over the
  samples around a position, with two buffers that slide over the source.  A source is the slice of samples
  still to be read, as both callers have it: \<open>bufferReader_ReadSample\<close> copies from its front.
\<close>

section \<open>Interpolation\<close>

record 'f point =
  pt_X :: 'f
  pt_Y :: 'f

definition lagrange :: "'f go_float \<Rightarrow> 'f point list \<Rightarrow> 'f \<Rightarrow> 'f" where
  "lagrange F pts x =
     fold (\<lambda>j y. fl_add F y (fl_mul F (pt_Y (pts ! j))
         (fold (\<lambda>m l. if j = m then l
             else fl_mul F l (fl_div F (fl_sub F x (pt_X (pts ! m))) (fl_sub F (pt_X (pts ! j)) (pt_X (pts ! m)))))
           [0..<length pts] (fl_of_int F 1))))
       [0..<length pts] (fl_of_int F 0)"

section \<open>The resampler\<close>

text \<open>\<open>br_pts\<close> is the number of interpolation points; their array is overwritten for every sample.\<close>

record 'f beepResampler =
  br_ratio :: 'f
  br_first :: bool
  br_buf1 :: pcm16
  br_buf2 :: pcm16
  br_pts :: nat
  br_off :: int
  br_pos :: int

definition beepResampleRatio :: "'f go_float \<Rightarrow> int \<Rightarrow> 'f \<Rightarrow> 'f beepResampler option" where
  "beepResampleRatio F quality ratio =
     (if quality < 1 \<or> 64 < quality then None
      else if fl_infnan F ratio then None
      else Some \<lparr>br_ratio = ratio, br_first = True, br_buf1 = replicate 512 0, br_buf2 = replicate 512 0,
        br_pts = nat (quality * 2), br_off = 0, br_pos = 0\<rparr>)"

definition beepResample :: "'f go_float \<Rightarrow> int \<Rightarrow> int \<Rightarrow> int \<Rightarrow> 'f beepResampler option" where
  "beepResample F quality old new = beepResampleRatio F quality (fl_div F (fl_of_int F old) (fl_of_int F new))"

definition beep_SetRatio :: "'f go_float \<Rightarrow> 'f \<Rightarrow> 'f beepResampler \<Rightarrow> 'f beepResampler option" where
  "beep_SetRatio F ratio r =
     (if fl_infnan F ratio then None
      else Some (r\<lparr>br_pos := fl_int F (fl_div F (fl_mul F (fl_of_int F (br_pos r)) (br_ratio r)) ratio), br_ratio := ratio\<rparr>))"

definition beep_Ratio :: "'f beepResampler \<Rightarrow> 'f" where
  "beep_Ratio r = br_ratio r"

text \<open>
  The points of one sample.  \<open>ij\<close> is \<open>int(j)\<close>.  The loop over the points ends with all of them, runs out of
  source, or has loaded a buffer and starts again; the resampler and the source are those after it.
\<close>

datatype 'f scan = Points "'f point list" | Drained | Again

definition beep_point :: "'f go_float \<Rightarrow> int \<Rightarrow> i16 \<Rightarrow> 'f point" where
  "beep_point F k y = \<lparr>pt_X = fl_of_int F k, pt_Y = fl_div F (fl_of_int F (sint y)) (fl_of_int F 32767)\<rparr>"

fun beep_scan :: "'f go_float \<Rightarrow> int \<Rightarrow> nat list \<Rightarrow> 'f point list \<Rightarrow> 'f beepResampler \<Rightarrow> pcm16 \<Rightarrow>
    ('f scan \<times> 'f beepResampler \<times> pcm16) option" where
  "beep_scan F ij [] pts r src = Some (Points pts, r, src)"
| "beep_scan F ij (ix # ixs) pts r src =
     (let k = ij + int ix - int (br_pts r div 2) + 1; lim = br_off r + int (length (br_buf2 r))
      in if k < br_off r then
           (let i = int (length (br_buf1 r)) + k - br_off r
            in if i < 0 then None
               else do { y \<leftarrow> go_index (br_buf1 r) (nat i); beep_scan F ij ixs (pts @ [beep_point F k y]) r src })
         else if k < lim then
           do { y \<leftarrow> go_index (br_buf2 r) (nat (k - br_off r)); beep_scan F ij ixs (pts @ [beep_point F k y]) r src }
         else
           (let ((sn, _), data, src1) = bufferReader_ReadSample (br_buf1 r) src; r1 = r\<lparr>br_buf1 := data\<rparr>
            in if ij \<ge> lim + int sn then Some (Drained, r1, src1)
               else if k \<ge> lim + int sn then beep_scan F ij ixs (pts @ [beep_point F k 0]) r1 src1
               else Some (Again, r1\<lparr>br_off := lim, br_buf1 := br_buf2 r, br_buf2 := take sn data\<rparr>, src1)))"

definition beep_at :: "'f go_float \<Rightarrow> 'f beepResampler \<Rightarrow> 'f" where
  "beep_at F r = fl_mul F (fl_of_int F (br_pos r)) (br_ratio r)"

text \<open>\<open>goto again\<close> only follows a load of some samples, so it ends.\<close>

lemma beep_scan_Again:
  "beep_scan F ij ixs pts r src = Some (Again, r', src') \<Longrightarrow> length src' < length src"
proof (induction F ij ixs pts r src rule: beep_scan.induct)
  case (2 F ij ix ixs pts r src)
  then show ?case
    by (simp add: Let_def bufferReader_ReadSample_def go_copy_def split: if_splits bind_splits) fastforce+
qed simp

text \<open>One sample, or nothing when the source is drained.\<close>

function beep_sample :: "'f go_float \<Rightarrow> 'f beepResampler \<Rightarrow> pcm16 \<Rightarrow> (i16 option \<times> 'f beepResampler \<times> pcm16) option" where
  "beep_sample F r src =
     (case beep_scan F (fl_int F (beep_at F r)) [0..<br_pts r] [] r src of
        None \<Rightarrow> None
      | Some (Points pts, r1, src1) \<Rightarrow>
          Some (Some (fl_i16 F (fl_mul F (lagrange F pts (beep_at F r)) (fl_of_int F 32767))), r1\<lparr>br_pos := br_pos r1 + 1\<rparr>, src1)
      | Some (Drained, r1, src1) \<Rightarrow> Some (None, r1, src1)
      | Some (Again, r1, src1) \<Rightarrow> beep_sample F r1 src1)"
  by pat_completeness auto

termination
  by (relation "measure (\<lambda>(F, r, src). length src)") (auto dest!: beep_scan_Again sym [where t = "beep_scan _ _ _ _ _ _"])

declare beep_sample.simps [simp del]

fun beep_loop :: "'f go_float \<Rightarrow> nat \<Rightarrow> 'f beepResampler \<Rightarrow> pcm16 \<Rightarrow> (pcm16 \<times> bool \<times> 'f beepResampler \<times> pcm16) option" where
  "beep_loop F 0 r src = Some ([], False, r, src)"
| "beep_loop F (Suc n) r src =
     (case beep_sample F r src of
        None \<Rightarrow> None
      | Some (None, r1, src1) \<Rightarrow> Some ([], True, r1, src1)
      | Some (Some v, r1, src1) \<Rightarrow> do { (vs, drained, r2, src2) \<leftarrow> beep_loop F n r1 src1; Some (v # vs, drained, r2, src2) })"

text \<open>\<open>Stream\<close> into a slice of \<open>n\<close> samples: the samples written to its front, and \<open>ok\<close>.\<close>

definition beep_first :: "'f beepResampler \<Rightarrow> pcm16 \<Rightarrow> 'f beepResampler \<times> pcm16" where
  "beep_first r src =
     (if br_first r then let ((sn, _), data, src1) = bufferReader_ReadSample (br_buf2 r) src
        in (r\<lparr>br_buf2 := take sn data, br_first := False\<rparr>, src1)
      else (r, src))"

definition beep_Stream :: "'f go_float \<Rightarrow> nat \<Rightarrow> 'f beepResampler \<Rightarrow> pcm16 \<Rightarrow> (pcm16 \<times> bool \<times> 'f beepResampler \<times> pcm16) option" where
  "beep_Stream F n r src = do {
     let (r0, src0) = beep_first r src;
     (vs, drained, r1, src1) \<leftarrow> beep_loop F n r0 src0;
     Some (vs, (if drained then vs \<noteq> [] else True), r1, src1)
   }"

section \<open>Whole buffers and writers\<close>

definition beepQuality :: int where "beepQuality = 3"

text \<open>How many samples the callers ask for.\<close>

definition beep_size :: "int \<Rightarrow> int \<Rightarrow> nat \<Rightarrow> int option" where
  "beep_size dstRate srcRate n =
     (if dstRate < srcRate then do { d \<leftarrow> go_div srcRate dstRate; go_div (int n) d }
      else do { m \<leftarrow> go_div dstRate srcRate; Some (int n * m) })"

definition resampleBufferBeep :: "'f go_float \<Rightarrow> pcm16 \<Rightarrow> int \<Rightarrow> pcm16 \<Rightarrow> int \<Rightarrow> pcm16 option" where
  "resampleBufferBeep F dst dstRate src srcRate = do {
     r \<leftarrow> beepResample F beepQuality srcRate dstRate;
     sz \<leftarrow> beep_size dstRate srcRate (length src);
     (if sz < 0 then None else do {
        (out, _, _, _) \<leftarrow> beep_Stream F (nat sz) r src;
        Some (dst @ out)
      })
   }"

record ('f, 'w) resampleWriterBeep =
  wb_w :: 'w
  wb_r :: "'f beepResampler"
  wb_inbuf :: pcm16
  wb_srcRate :: int
  wb_dstRate :: int

definition newResampleWriterBeep :: "'f go_float \<Rightarrow> ('w \<Rightarrow> int) \<Rightarrow> 'w \<Rightarrow> int \<Rightarrow> ('f, 'w) resampleWriterBeep option" where
  "newResampleWriterBeep F rate w sampleRate = do {
     r \<leftarrow> beepResample F beepQuality sampleRate (rate w);
     Some \<lparr>wb_w = w, wb_r = r, wb_inbuf = [], wb_srcRate = sampleRate, wb_dstRate = rate w\<rparr>
   }"

definition wb_SampleRate :: "('f, 'w) resampleWriterBeep \<Rightarrow> int" where
  "wb_SampleRate b = wb_srcRate b"

definition wb_Close :: "'w close_fn \<Rightarrow> ('f, 'w) resampleWriterBeep close_fn" where
  "wb_Close cl b = (let (err, w1) = cl (wb_w b) in (err, b\<lparr>wb_w := w1\<rparr>))"

text \<open>The writer is the source of its resampler: the count, the error, the caller's slice and the writer.\<close>

definition wb_ReadSample :: "pcm16 \<Rightarrow> ('f, 'w) resampleWriterBeep \<Rightarrow> (nat \<times> go_error option) \<times> pcm16 \<times> ('f, 'w) resampleWriterBeep" where
  "wb_ReadSample data b = (let (n, data1) = go_copy data (wb_inbuf b) in ((n, None), data1, b\<lparr>wb_inbuf := drop n (wb_inbuf b)\<rparr>))"

lemma wb_ReadSample_source:
  "wb_ReadSample data b = (let (res, data1, inbuf) = bufferReader_ReadSample data (wb_inbuf b) in (res, data1, b\<lparr>wb_inbuf := inbuf\<rparr>))"
  by (simp add: wb_ReadSample_def bufferReader_ReadSample_def split_beta Let_def)

text \<open>\<open>WriteSample\<close>: the output slice is cut to what \<open>Stream\<close> filled, so its old content does not show.\<close>

definition wb_WriteSample :: "'f go_float \<Rightarrow> (pcm16, 'w) write_fn \<Rightarrow> pcm16 \<Rightarrow> ('f, 'w) resampleWriterBeep \<Rightarrow>
    (go_error option \<times> ('f, 'w) resampleWriterBeep) option" where
  "wb_WriteSample F wr data b = do {
     let inbuf = wb_inbuf b @ data;
     sz \<leftarrow> beep_size (wb_dstRate b) (wb_srcRate b) (length data);
     (if sz < 0 then None else do {
        (out, _, r1, inbuf1) \<leftarrow> beep_Stream F (nat sz) (wb_r b) inbuf;
        let (err, w1) = wr out (wb_w b);
        Some (err, b\<lparr>wb_w := w1, wb_r := r1, wb_inbuf := inbuf1\<rparr>)
      })
   }"

section \<open>The reference\<close>

text \<open>A sample of the whole source, which is zero outside, and the interpolated sample at a position.\<close>

definition ref_y :: "pcm16 \<Rightarrow> int \<Rightarrow> i16" where
  "ref_y S k = (if k < 0 \<or> k \<ge> int (length S) then 0 else S ! nat k)"

definition ref_at :: "'f go_float \<Rightarrow> 'f \<Rightarrow> nat \<Rightarrow> 'f" where
  "ref_at F ratio p = fl_mul F (fl_of_int F (int p)) ratio"

definition ref_point :: "'f go_float \<Rightarrow> pcm16 \<Rightarrow> nat \<Rightarrow> int \<Rightarrow> nat \<Rightarrow> 'f point" where
  "ref_point F S n ij ix = (let k = ij + int ix - int (n div 2) + 1 in beep_point F k (ref_y S k))"

definition ref_sample :: "'f go_float \<Rightarrow> pcm16 \<Rightarrow> nat \<Rightarrow> 'f \<Rightarrow> nat \<Rightarrow> i16" where
  "ref_sample F S n ratio p =
     (let j = ref_at F ratio p
      in fl_i16 F (fl_mul F (lagrange F (map (ref_point F S n (fl_int F j)) [0..<n]) j) (fl_of_int F 32767)))"

section \<open>Lemmas\<close>

text \<open>
  The buffers are windows on the source \<open>S\<close>: what \<open>buf1\<close> holds ends where \<open>buf2\<close> starts, and the rest of the
  source follows \<open>buf2\<close>.  A short buffer is the last one.
\<close>

definition beep_window :: "pcm16 \<Rightarrow> nat \<Rightarrow> 'f beepResampler \<Rightarrow> pcm16 \<Rightarrow> bool" where
  "beep_window S off r src \<longleftrightarrow> br_off r = int off \<and> drop off S = br_buf2 r @ src \<and> off \<le> length S \<and>
     length (br_buf1 r) = 512 \<and> (src = [] \<or> length (br_buf2 r) = 512) \<and>
     (\<forall>i < 512. br_buf1 r ! i = ref_y S (int off - 512 + int i))"

lemma window_length: "beep_window S off r src \<Longrightarrow> length S = off + length (br_buf2 r) + length src"
  using length_drop [of off S] by (auto simp: beep_window_def)

lemma window_buf2:
  "beep_window S off r src \<Longrightarrow> i < length (br_buf2 r) \<Longrightarrow> br_buf2 r ! i = ref_y S (int off + int i)"
proof -
  assume a: "beep_window S off r src" "i < length (br_buf2 r)"
  then have "S ! (off + i) = br_buf2 r ! i" by (metis beep_window_def nth_append nth_drop)
  with a window_length [OF a(1)] show "br_buf2 r ! i = ref_y S (int off + int i)" by (simp add: ref_y_def nat_add_distrib)
qed

text \<open>A read into the first buffer, and the windows after a load.\<close>

lemma window_load:
  assumes "beep_window S off r src" "src \<noteq> []" "bufferReader_ReadSample (br_buf1 r) src = ((sn, e), data, src1)"
  shows "0 < sn" "sn \<le> 512" "sn < 512 \<Longrightarrow> length S = off + 512 + sn"
    "beep_window S (off + 512) (r\<lparr>br_off := int off + 512, br_buf1 := br_buf2 r, br_buf2 := take sn data\<rparr>) src1"
proof -
  have w: "length (br_buf1 r) = 512" "length (br_buf2 r) = 512" "drop off S = br_buf2 r @ src" using assms(1,2) by (auto simp: beep_window_def)
  have sn: "sn = min 512 (length src)" "take sn data = take sn src" "src1 = drop sn src"
    using assms(3) w by (auto simp: bufferReader_ReadSample_def go_copy_def Let_def)
  show "0 < sn" "sn \<le> 512" using sn(1) assms(2) by auto
  show "sn < 512 \<Longrightarrow> length S = off + 512 + sn" using sn(1) w window_length [OF assms(1)] by auto
  have "drop (off + 512) S = drop 512 (drop off S)" by (simp add: add.commute)
  then have "drop (off + 512) S = src" using w by simp
  with sn w window_buf2 [OF assms(1)] window_length [OF assms(1)]
  show "beep_window S (off + 512) (r\<lparr>br_off := int off + 512, br_buf1 := br_buf2 r, br_buf2 := take sn data\<rparr>) src1"
    by (auto simp: beep_window_def min_def)
qed

definition scan_ready :: "pcm16 \<Rightarrow> nat \<Rightarrow> nat \<Rightarrow> int \<Rightarrow> 'f beepResampler \<Rightarrow> pcm16 \<Rightarrow> bool" where
  "scan_ready S off q ij r src \<longleftrightarrow> beep_window S off r src \<and> br_pts r = 2 * q \<and> 1 \<le> q \<and> q \<le> 64 \<and> 0 \<le> ij \<and>
     int off \<le> ij + int q \<and> (src = [] \<or> ij < int (off + length (br_buf2 r) + 512))"

lemma beep_scan_window:
  assumes "scan_ready S off q ij r src" "m \<le> 2 * q"
    "src = [] \<or> m = 0 \<or> ij + int m - int q + 1 \<le> int (off + length (br_buf2 r))"
  shows "\<exists>res r' src'. beep_scan F ij [m..<2 * q] pts r src = Some (res, r', src') \<and>
    (case res of
       Points pts' \<Rightarrow> r' = r \<and> src' = src \<and> pts' = pts @ map (ref_point F S (2 * q) ij) [m..<2 * q] \<and>
         (m < 2 * q \<longrightarrow> ij < int (length S) \<and> (src = [] \<or> ij + int q < int (off + length (br_buf2 r))))
     | Drained \<Rightarrow> int (length S) \<le> ij
     | Again \<Rightarrow> \<exists>off'. scan_ready S off' q ij r' src' \<and> br_pos r' = br_pos r \<and> br_ratio r' = br_ratio r)"
  using assms
proof (induction "2 * q - m" arbitrary: m pts)
  case 0
  then show ?case by simp
next
  case (Suc d)
  let ?k = "ij + int m - int q + 1" and ?lim = "int off + int (length (br_buf2 r))"
  have m: "m < 2 * q" "[m..<2 * q] = m # [Suc m..<2 * q]" using Suc.hyps(2) by (simp_all add: upt_conv_Cons)
  have r: "beep_window S off r src" "br_pts r = 2 * q" "br_off r = int off" "1 \<le> q" "q \<le> 64" "0 \<le> ij" "int off \<le> ij + int q"
    "length (br_buf1 r) = 512"
    using Suc.prems(1) by (auto simp: scan_ready_def beep_window_def)
  have pt: "ref_point F S (2 * q) ij m = beep_point F ?k (ref_y S ?k)" by (simp add: ref_point_def Let_def algebra_simps)
  have IH: "\<exists>res r' src'. beep_scan F ij [Suc m..<2 * q] pts' r src = Some (res, r', src') \<and>
    (case res of
       Points pts'' \<Rightarrow> r' = r \<and> src' = src \<and> pts'' = pts' @ map (ref_point F S (2 * q) ij) [Suc m..<2 * q] \<and>
         (Suc m < 2 * q \<longrightarrow> ij < int (length S) \<and> (src = [] \<or> ij + int q < int (off + length (br_buf2 r))))
     | Drained \<Rightarrow> int (length S) \<le> ij
     | Again \<Rightarrow> \<exists>off'. scan_ready S off' q ij r' src' \<and> br_pos r' = br_pos r \<and> br_ratio r' = br_ratio r)"
    if "src = [] \<or> ?k < ?lim" for pts'
    using Suc.hyps(1) [of "Suc m" pts'] Suc.hyps(2) Suc.prems m that by auto
  have lim: "?lim \<le> int (length S)" using window_length [OF r(1)] by simp
  define goal where "goal = (\<lambda>x. \<exists>res r' src'. x = Some (res, r', src') \<and>
    (case res of
       Points pts' \<Rightarrow> r' = r \<and> src' = src \<and> pts' = pts @ map (ref_point F S (2 * q) ij) [m..<2 * q] \<and>
         (m < 2 * q \<longrightarrow> ij < int (length S) \<and> (src = [] \<or> ij + int q < int (off + length (br_buf2 r))))
     | Drained \<Rightarrow> int (length S) \<le> ij
     | Again \<Rightarrow> \<exists>off'. scan_ready S off' q ij r' src' \<and> br_pos r' = br_pos r \<and> br_ratio r' = br_ratio r))"
  have cont: "goal (beep_scan F ij [Suc m..<2 * q] (pts @ [beep_point F ?k (ref_y S ?k)]) r src)"
    if "src = [] \<or> ?k < ?lim" "?k < ?lim \<or> ij < int (length S)"
  proof -
    have last: "ij < int (length S) \<and> (src = [] \<or> ij + int q < ?lim)" if "\<not> Suc m < 2 * q"
    proof -
      have "?k = ij + int q" using that m(1) by simp
      with \<open>src = [] \<or> ?k < ?lim\<close> \<open>?k < ?lim \<or> ij < int (length S)\<close> lim r(4) show ?thesis by linarith
    qed
    show ?thesis
      using IH [OF that(1), of "pts @ [beep_point F ?k (ref_y S ?k)]"] last pt m
      unfolding goal_def by (fastforce split: scan.splits)
  qed
  have "goal (beep_scan F ij (m # [Suc m..<2 * q]) pts r src)"
  proof -
    consider "?k < int off" | "int off \<le> ?k" "?k < ?lim" | "?lim \<le> ?k" by linarith
    then show ?thesis
    proof cases
      case 1
      have i: "0 \<le> 512 + ?k - int off" "nat (512 + ?k - int off) < 512" using r 1 by linarith+
      have "br_buf1 r ! nat (512 + ?k - int off) = ref_y S (int off - 512 + int (nat (512 + ?k - int off)))"
        using r(1) i(2) by (simp add: beep_window_def)
      also have "int off - 512 + int (nat (512 + ?k - int off)) = ?k" using i(1) by simp
      finally have y: "br_buf1 r ! nat (512 + ?k - int off) = ref_y S ?k" .
      have "beep_scan F ij (m # [Suc m..<2 * q]) pts r src =
          beep_scan F ij [Suc m..<2 * q] (pts @ [beep_point F ?k (ref_y S ?k)]) r src"
        using 1 r i y by (simp add: Let_def go_index_def)
      then show ?thesis using cont 1 by simp
    next
      case 2
      have "br_buf2 r ! nat (?k - int off) = ref_y S ?k"
        using window_buf2 [OF r(1), of "nat (?k - int off)"] 2 by (simp add: nat_less_iff)
      with 2 have "beep_scan F ij (m # [Suc m..<2 * q]) pts r src =
          beep_scan F ij [Suc m..<2 * q] (pts @ [beep_point F ?k (ref_y S ?k)]) r src"
        using r by (simp add: Let_def go_index_def nat_less_iff)
      then show ?thesis using cont 2 by simp
    next
      case 3
      obtain sn e data src1 where rd: "bufferReader_ReadSample (br_buf1 r) src = ((sn, e), data, src1)"
        by (metis prod.exhaust)
      have scan: "beep_scan F ij (m # [Suc m..<2 * q]) pts r src =
          (if ij \<ge> ?lim + int sn then Some (Drained, r\<lparr>br_buf1 := data\<rparr>, src1)
           else if ?k \<ge> ?lim + int sn then beep_scan F ij [Suc m..<2 * q] (pts @ [beep_point F ?k 0]) (r\<lparr>br_buf1 := data\<rparr>) src1
           else Some (Again, r\<lparr>br_off := ?lim, br_buf1 := br_buf2 r, br_buf2 := take sn data\<rparr>, src1))"
        using 3 r rd by (simp add: Let_def)
      show ?thesis
      proof (cases "src = []")
        case True
        with rd have rd0: "sn = 0" "data = br_buf1 r" "src1 = []" by (auto simp: bufferReader_ReadSample_def go_copy_def Let_def)
        have len: "?lim = int (length S)" using window_length [OF r(1)] True by simp
        then have "ref_y S ?k = 0" using 3 by (simp add: ref_y_def)
        with scan rd0 3 True cont len show ?thesis by (auto simp: goal_def)
      next
        case False
        note ld = window_load [OF r(1) False rd]
        have b2: "length (br_buf2 r) = 512" using r(1) False by (simp add: beep_window_def)
        have ij: "ij < int (off + 1024)" using Suc.prems(1) False b2 by (simp add: scan_ready_def)
        show ?thesis
        proof (cases "ij \<ge> ?lim + int sn")
          case True
          with ij b2 have "sn < 512" by simp
          with ld(3) True b2 scan show ?thesis by (simp add: goal_def)
        next
          case notdrained: False
          have k: "?k < ?lim + int sn" using Suc.prems(3) False notdrained ld(1) b2 r(4) by auto
          have "scan_ready S (off + 512) q ij (r\<lparr>br_off := ?lim, br_buf1 := br_buf2 r, br_buf2 := take sn data\<rparr>) src1"
            unfolding scan_ready_def
          proof (intro conjI)
            show "beep_window S (off + 512) (r\<lparr>br_off := ?lim, br_buf1 := br_buf2 r, br_buf2 := take sn data\<rparr>) src1"
              using ld(4) b2 by simp
            have "?k \<le> ij + int q" using m(1) by simp
            with 3 b2 show "int (off + 512) \<le> ij + int q" by simp
            have "length data = 512" using rd r(8) by (auto simp: bufferReader_ReadSample_def go_copy_def Let_def)
            with notdrained b2 ld(2) show "src1 = [] \<or> ij < int (off + 512 + length (br_buf2 (r\<lparr>br_off := ?lim, br_buf1 := br_buf2 r, br_buf2 := take sn data\<rparr>)) + 512)"
              by simp
          qed (use r in simp_all)
          with scan k notdrained show ?thesis by (auto simp: goal_def)
        qed
      qed
    qed
  qed
  then show ?case unfolding goal_def m(2) by simp
qed

text \<open>One sample: the reference sample while the position is inside the source, and nothing after it.\<close>

lemma beep_sample_ref:
  "scan_ready S off q (fl_int F (beep_at F r)) r src \<Longrightarrow>
    \<exists>x r' src'. beep_sample F r src = Some (x, r', src') \<and>
     (case x of None \<Rightarrow> int (length S) \<le> fl_int F (beep_at F r)
      | Some v \<Rightarrow> v = fl_i16 F (fl_mul F (lagrange F (map (ref_point F S (2 * q) (fl_int F (beep_at F r))) [0..<2 * q]) (beep_at F r)) (fl_of_int F 32767)) \<and>
          fl_int F (beep_at F r) < int (length S) \<and> br_pos r' = br_pos r + 1 \<and> br_ratio r' = br_ratio r \<and>
          (\<exists>off'. scan_ready S off' q (fl_int F (beep_at F r)) r' src' \<and>
             (src' = [] \<or> fl_int F (beep_at F r) + int q < int (off' + length (br_buf2 r')))))"
proof (induction src arbitrary: off r rule: measure_induct_rule [of length])
  case (less src)
  let ?ij = "fl_int F (beep_at F r)"
  have q: "br_pts r = 2 * q" "1 \<le> q" using less.prems by (simp_all add: scan_ready_def)
  obtain res r1 src1 where sc: "beep_scan F ?ij [0..<2 * q] [] r src = Some (res, r1, src1)"
    and res: "case res of
       Points pts' \<Rightarrow> r1 = r \<and> src1 = src \<and> pts' = [] @ map (ref_point F S (2 * q) ?ij) [0..<2 * q] \<and>
         (0 < 2 * q \<longrightarrow> ?ij < int (length S) \<and> (src = [] \<or> ?ij + int q < int (off + length (br_buf2 r))))
     | Drained \<Rightarrow> int (length S) \<le> ?ij
     | Again \<Rightarrow> \<exists>off'. scan_ready S off' q ?ij r1 src1 \<and> br_pos r1 = br_pos r \<and> br_ratio r1 = br_ratio r"
    using beep_scan_window [OF less.prems, of 0 F "[]"] by auto
  show ?case
  proof (cases res)
    case (Points pts)
    have "scan_ready S off q ?ij (r\<lparr>br_pos := br_pos r + 1\<rparr>) src" using less.prems by (simp add: scan_ready_def beep_window_def)
    with Points sc res q show ?thesis by (subst (1) beep_sample.simps) (auto intro!: exI [of _ off])
  next
    case Drained
    with sc res q show ?thesis by (subst (1) beep_sample.simps) auto
  next
    case Again
    then obtain off' where off': "scan_ready S off' q ?ij r1 src1" "br_pos r1 = br_pos r" "br_ratio r1 = br_ratio r" using res by auto
    then have at: "beep_at F r1 = beep_at F r" by (simp add: beep_at_def)
    have "beep_sample F r src = beep_sample F r1 src1" using sc q Again by (subst (1) beep_sample.simps) simp
    moreover have "length src1 < length src" using sc Again by (simp add: beep_scan_Again)
    note less.IH [OF this, of off' r1, unfolded at off'(2,3), OF off'(1)]
    ultimately show ?thesis by (simp only:)
  qed
qed

text \<open>The positions do not go back, and not past a whole buffer at once.\<close>

definition steps_ok :: "'f go_float \<Rightarrow> 'f \<Rightarrow> nat \<Rightarrow> bool" where
  "steps_ok F ratio n \<longleftrightarrow> fl_int F (ref_at F ratio 0) = 0 \<and>
     list_all (\<lambda>p. fl_int F (ref_at F ratio p) \<le> fl_int F (ref_at F ratio (Suc p)) \<and>
       fl_int F (ref_at F ratio (Suc p)) \<le> fl_int F (ref_at F ratio p) + 512) [0..<n]"

definition ref_samples :: "'f go_float \<Rightarrow> pcm16 \<Rightarrow> nat \<Rightarrow> 'f \<Rightarrow> nat list \<Rightarrow> pcm16" where
  "ref_samples F S n ratio ps =
     map (ref_sample F S n ratio) (takeWhile (\<lambda>p. fl_int F (ref_at F ratio p) < int (length S)) ps)"

lemma beep_loop_ref:
  assumes "scan_ready S off q (fl_int F (ref_at F ratio p)) r src" "br_pos r = int p" "br_ratio r = ratio" "steps_ok F ratio (p + n)"
  shows "\<exists>drained r' src'. beep_loop F n r src = Some (ref_samples F S (2 * q) ratio [p..<p + n], drained, r', src')"
  using assms
proof (induction n arbitrary: off p r src)
  case 0
  then show ?case by (auto simp: ref_samples_def)
next
  case (Suc n)
  let ?ij = "\<lambda>p. fl_int F (ref_at F ratio p)"
  have at: "beep_at F r = ref_at F ratio p" using Suc.prems by (simp add: beep_at_def ref_at_def)
  have up: "[p..<p + Suc n] = p # [Suc p..<Suc p + n]" by (simp add: upt_conv_Cons del: upt_Suc)
  obtain x r1 src1 where x: "beep_sample F r src = Some (x, r1, src1)"
    and res: "case x of None \<Rightarrow> int (length S) \<le> ?ij p
      | Some v \<Rightarrow> v = ref_sample F S (2 * q) ratio p \<and> ?ij p < int (length S) \<and> br_pos r1 = br_pos r + 1 \<and> br_ratio r1 = br_ratio r \<and>
          (\<exists>off'. scan_ready S off' q (?ij p) r1 src1 \<and> (src1 = [] \<or> ?ij p + int q < int (off' + length (br_buf2 r1))))"
    using beep_sample_ref [of S off q F r src] Suc.prems(1) unfolding at ref_sample_def Let_def by blast
  show ?case
  proof (cases x)
    case None
    with x res up show ?thesis by (auto simp: ref_samples_def simp del: upt_Suc)
  next
    case (Some v)
    then obtain off' where off': "scan_ready S off' q (?ij p) r1 src1" "src1 = [] \<or> ?ij p + int q < int (off' + length (br_buf2 r1))"
      using res by auto
    have "p \<in> set [0..<p + Suc n]" by auto
    then have "?ij p \<le> ?ij (Suc p)" "?ij (Suc p) \<le> ?ij p + 512"
      using Suc.prems(4) unfolding steps_ok_def list_all_iff by blast+
    with off' have "scan_ready S off' q (?ij (Suc p)) r1 src1" by (auto simp: scan_ready_def)
    from Suc.IH [OF this] Suc.prems res Some
    obtain dr r2 src2 where "beep_loop F n r1 src1 = Some (ref_samples F S (2 * q) ratio [Suc p..<Suc p + n], dr, r2, src2)"
      by auto
    with x Some res up show ?thesis by (simp add: ref_samples_def del: upt_Suc)
  qed
qed

lemma beep_first_window:
  assumes "beepResampleRatio F quality ratio = Some r" "beep_first r src = (r0, src0)" "quality = int q"
  shows "scan_ready src 0 q 0 r0 src0" "br_pos r0 = 0" "br_ratio r0 = ratio"
proof -
  have r: "1 \<le> q" "q \<le> 64" "r = \<lparr>br_ratio = ratio, br_first = True, br_buf1 = replicate 512 0, br_buf2 = replicate 512 0,
        br_pts = 2 * q, br_off = 0, br_pos = 0\<rparr>"
    using assms by (auto simp: beepResampleRatio_def nat_mult_distrib split: if_splits)
  with assms(2) have r0: "r0 = r\<lparr>br_buf2 := take 512 src, br_first := False\<rparr>" "src0 = drop 512 src"
    by (auto simp: beep_first_def bufferReader_ReadSample_def go_copy_def Let_def min_def)
  then show "br_pos r0 = 0" "br_ratio r0 = ratio" using r by simp_all
  have "replicate 512 (0 :: i16) ! i = ref_y src (int i - 512)" if "i < 512" for i
    using that by (simp add: ref_y_def)
  then show "scan_ready src 0 q 0 r0 src0"
    using r r0 by (auto simp: scan_ready_def beep_window_def)
qed

section \<open>The writer after an empty first frame\<close>

fun wb_run :: "'f go_float \<Rightarrow> (pcm16, 'w) write_fn \<Rightarrow> pcm16 list \<Rightarrow> ('f, 'w) resampleWriterBeep \<Rightarrow>
    (go_error option list \<times> ('f, 'w) resampleWriterBeep) option" where
  "wb_run F wr [] b = Some ([], b)"
| "wb_run F wr (x # xs) b = do {
     (err, b1) \<leftarrow> wb_WriteSample F wr x b;
     (errs, b2) \<leftarrow> wb_run F wr xs b1;
     Some (err # errs, b2)
   }"

text \<open>A frame asks for a sample if it is not empty and, downsampling, is as long as the ratio of the rates.\<close>

definition asks_sample :: "int \<Rightarrow> int \<Rightarrow> pcm16 \<Rightarrow> bool" where
  "asks_sample srcRate dstRate x \<longleftrightarrow> x \<noteq> [] \<and> (dstRate < srcRate \<longrightarrow> srcRate div dstRate \<le> int (length x))"

lemma beep_size_asks:
  assumes "0 < srcRate" "0 < dstRate"
  obtains sz where "beep_size dstRate srcRate (length x) = Some sz" "0 \<le> sz" "0 < sz \<longleftrightarrow> asks_sample srcRate dstRate x"
proof (cases "dstRate < srcRate")
  case True
  then have d: "0 < srcRate div dstRate" using assms(2) by (simp add: pos_imp_zdiv_pos_iff)
  have "0 < int (length x) div (srcRate div dstRate) \<longleftrightarrow> asks_sample srcRate dstRate x"
    using d True by (cases "x = []") (auto simp: asks_sample_def pos_imp_zdiv_pos_iff)
  with True d assms that [of "int (length x) div (srcRate div dstRate)"] show thesis
    by (simp add: beep_size_def go_div_def pos_imp_zdiv_nonneg_iff)
next
  case False
  then have "0 < dstRate div srcRate" using assms(1) by (simp add: pos_imp_zdiv_pos_iff)
  with False assms that [of "int (length x) * (dstRate div srcRate)"] show thesis
    by (simp add: beep_size_def go_div_def asks_sample_def zero_less_mult_iff)
qed

text \<open>The second buffer is empty and no sample was read yet.\<close>

definition emptied :: "'f go_float \<Rightarrow> int \<Rightarrow> int \<Rightarrow> ('f, 'w) resampleWriterBeep \<Rightarrow> bool" where
  "emptied F srcRate dstRate b \<longleftrightarrow> wb_srcRate b = srcRate \<and> wb_dstRate b = dstRate \<and>
     wb_r b = \<lparr>br_ratio = fl_div F (fl_of_int F srcRate) (fl_of_int F dstRate), br_first = False, br_buf1 = replicate 512 0,
       br_buf2 = [], br_pts = 6, br_off = 0, br_pos = 0\<rparr>"

lemma emptied_Stream:
  assumes "emptied F srcRate dstRate b" "data \<noteq> []"
    and "fl_int F (ref_at F (fl_div F (fl_of_int F srcRate) (fl_of_int F dstRate)) 0) = 0"
  shows "beep_Stream F (Suc n) (wb_r b) data = None"
proof -
  define r0 where "r0 = wb_r b"
  note r0 = r0_def [unfolded assms(1) [unfolded emptied_def, THEN conjunct2, THEN conjunct2]]
  have ij: "fl_int F (beep_at F r0) = 0" using assms(3) by (simp add: beep_at_def ref_at_def r0)
  obtain x xs where data: "data = x # xs" using assms(2) by (cases data) auto
  have six: "[0..<6] = [0, 1, 2, 3, 4, 5 :: nat]" by code_simp
  obtain d1 s1 where scan: "beep_scan F 0 [0..<6] [] r0 data = Some (Again, r0\<lparr>br_buf1 := [], br_buf2 := d1\<rparr>, s1)"
    unfolding data six by (simp add: r0 Let_def bufferReader_ReadSample_def go_copy_def go_index_def)
  define r1 where "r1 = r0\<lparr>br_buf1 := [], br_buf2 := d1\<rparr>"
  have "beep_scan F 0 [0..<6] [] r1 s1 = None" unfolding six by (simp add: r1_def r0 Let_def)
  moreover have "fl_int F (beep_at F r1) = 0" using ij by (simp add: beep_at_def r1_def)
  ultimately have "beep_sample F r1 s1 = None" by (subst beep_sample.simps) (simp add: r1_def r0)
  with scan ij have "beep_sample F r0 data = None" by (subst beep_sample.simps) (simp add: r1_def r0)
  then show ?thesis by (simp add: beep_Stream_def beep_first_def r0 r0_def [symmetric])
qed

lemma emptied_run:
  assumes "0 < srcRate" "0 < dstRate"
    and "fl_int F (ref_at F (fl_div F (fl_of_int F srcRate) (fl_of_int F dstRate)) 0) = 0"
  shows "emptied F srcRate dstRate b \<Longrightarrow> wb_run F wr xs b = None \<longleftrightarrow> (\<exists>x \<in> set xs. asks_sample srcRate dstRate x)"
proof (induction xs arbitrary: b)
  case (Cons x xs)
  have rates: "wb_srcRate b = srcRate" "wb_dstRate b = dstRate" using Cons.prems by (simp_all add: emptied_def)
  obtain sz where sz: "beep_size dstRate srcRate (length x) = Some sz" "0 \<le> sz" "0 < sz \<longleftrightarrow> asks_sample srcRate dstRate x"
    by (rule beep_size_asks [OF assms(1,2)])
  show ?case
  proof (cases "asks_sample srcRate dstRate x")
    case True
    then obtain n where n: "nat sz = Suc n" using sz(3) by (cases "nat sz") auto
    have "wb_inbuf b @ x \<noteq> []" using True by (simp add: asks_sample_def)
    from emptied_Stream [OF Cons.prems this assms(3), of n] sz True n show ?thesis
      by (simp add: wb_WriteSample_def rates)
  next
    case False
    with sz have "sz = 0" by simp
    obtain err w1 where "wr [] (wb_w b) = (err, w1)" by fastforce
    then have "wb_WriteSample F wr x b = Some (err, b\<lparr>wb_w := w1, wb_inbuf := wb_inbuf b @ x\<rparr>)"
      using sz(1) \<open>sz = 0\<close> Cons.prems
      by (simp add: wb_WriteSample_def rates beep_Stream_def beep_first_def emptied_def Let_def)
    moreover have "emptied F srcRate dstRate (b\<lparr>wb_w := w1, wb_inbuf := wb_inbuf b @ x\<rparr>)"
      using Cons.prems by (simp add: emptied_def)
    ultimately show ?thesis using Cons.IH [of "b\<lparr>wb_w := w1, wb_inbuf := wb_inbuf b @ x\<rparr>"] False
      by (simp add: Option.bind_eq_None_conv split_beta)
  qed
qed simp

section \<open>Properties\<close>

text \<open>
  C13: resampling a whole buffer is interpolation over the whole source.  The two sliding buffers, the loads
  and the restarts do not show: for any quality and source, the samples appended are those of the reference,
  each interpolated from the points around its position with zeros outside the source, for the positions
  inside the source and at most the size asked for; no index is out of range and the loop ends.  The
  hypotheses say that the ratio is finite and that the rounded positions start at 0, do not go back and do
  not skip a buffer.
\<close>

theorem resampleBufferBeep_interpolates:
  assumes "0 < dstRate" "0 < srcRate" "ratio = fl_div F (fl_of_int F srcRate) (fl_of_int F dstRate)"
    "\<not> fl_infnan F ratio" "sz = (if dstRate < srcRate then length src div nat (srcRate div dstRate) else length src * nat (dstRate div srcRate))"
    "steps_ok F ratio sz"
  shows "resampleBufferBeep F dst dstRate src srcRate = Some (dst @ ref_samples F src 6 ratio [0..<sz])"
proof -
  obtain r where r: "beepResampleRatio F 3 ratio = Some r" using assms(4) by (simp add: beepResampleRatio_def)
  obtain r0 src0 where r0: "beep_first r src = (r0, src0)" by fastforce
  note w = beep_first_window [OF r r0, of 3, simplified]
  have "fl_int F (ref_at F ratio 0) = 0" using assms(6) by (simp add: steps_ok_def)
  with w beep_loop_ref [of src 0 3 F ratio 0 r0 src0 sz] assms(6)
  obtain dr r1 src1 where "beep_loop F sz r0 src0 = Some (ref_samples F src 6 ratio [0..<sz], dr, r1, src1)" by auto
  then have "\<exists>ok r1 src1. beep_Stream F sz r src = Some (ref_samples F src 6 ratio [0..<sz], ok, r1, src1)"
    using r0 by (simp add: beep_Stream_def Let_def)
  moreover have "beep_size dstRate srcRate (length src) = Some (int sz)"
  proof (cases "dstRate < srcRate")
    case True
    then have "0 < srcRate div dstRate" using assms(1) by (simp add: pos_imp_zdiv_pos_iff)
    then show ?thesis using True assms(1,2,5) by (simp add: beep_size_def go_div_def zdiv_int)
  next
    case False
    then have "0 \<le> dstRate div srcRate" using assms(1,2) by (simp add: pos_imp_zdiv_nonneg_iff)
    then show ?thesis using False assms(1,2,5) by (simp add: beep_size_def go_div_def)
  qed
  ultimately show ?thesis
    using r assms(3) by (auto simp: resampleBufferBeep_def beepResample_def beepQuality_def)
qed

theorem resampleBufferBeep_interpolates_witness:
  "resampleBufferBeep rat_float [7] 2 [300, 600] 1 = Some [7, 300, 527, 600, 322]"
proof -
  have "steps_ok rat_float (1 / 2) 4" "ref_samples rat_float [300, 600] 6 (1 / 2) [0..<4] = [300, 527, 600, 322]"
    by code_simp+
  with resampleBufferBeep_interpolates [of 2 1 "1 / 2" rat_float 4 "[300, 600]" "[7]"]
  show ?thesis by (simp add: rat_float_def)
qed

text \<open>
  C37: an empty first frame breaks the predictable resampling writer.  It makes the second buffer empty for
  good, the first write that asks for a sample swaps it to the front, and the interpolation indexes it below
  zero.  So after an empty first frame a sequence of writes panics exactly when one of them asks for a sample:
  a frame that is not empty and, when downsampling, is at least as long as the ratio of the rates.  Shorter
  frames in between do not repair it.  The hypotheses are positive rates and that the position 0 is rounded
  to 0.
\<close>

theorem resampleWriterBeep_empty_frame_panics:
  assumes "newResampleWriterBeep F rate w srcRate = Some b" "0 < srcRate" "0 < rate w"
    "fl_int F (ref_at F (fl_div F (fl_of_int F srcRate) (fl_of_int F (rate w))) 0) = 0"
  shows "wb_run F wr ([] # xs) b = None \<longleftrightarrow> (\<exists>x \<in> set xs. asks_sample srcRate (rate w) x)"
proof -
  obtain err w1 where wr: "wr [] w = (err, w1)" by fastforce
  have "beep_size (rate w) srcRate 0 = Some 0"
    using beep_size_asks [OF assms(2,3), of "[]"] by (auto simp: asks_sample_def)
  with wr assms(1) obtain b1 where "wb_WriteSample F wr [] b = Some (err, b1)" "emptied F srcRate (rate w) b1"
    by (auto simp: newResampleWriterBeep_def beepResample_def beepResampleRatio_def beepQuality_def emptied_def wb_WriteSample_def
        beep_Stream_def beep_first_def bufferReader_ReadSample_def go_copy_def Let_def split: if_splits bind_splits)
  with emptied_run [OF assms(2-4), of b1 wr xs] show ?thesis
    by (simp add: Option.bind_eq_None_conv split_beta)
qed

text \<open>From 48 to 16 kHz: two samples after an empty frame ask for nothing, the next 480 panic.\<close>

theorem resampleWriterBeep_empty_frame_panics_witness:
  "\<exists>b. newResampleWriterBeep rat_float (\<lambda>_. 16000) ([] :: pcm16 list) 48000 = Some b \<and>
    wb_run rat_float frameWriter_WriteSample [[], [1, 1]] b \<noteq> None \<and>
    wb_run rat_float frameWriter_WriteSample [[], [1, 1], replicate 480 1] b = None"
proof -
  obtain b where b: "newResampleWriterBeep rat_float (\<lambda>_. 16000) ([] :: pcm16 list) 48000 = Some b"
    by (auto simp: newResampleWriterBeep_def beepResample_def beepResampleRatio_def beepQuality_def rat_float_def)
  have "fl_int rat_float (ref_at rat_float (fl_div rat_float (fl_of_int rat_float 48000) (fl_of_int rat_float 16000)) 0) = 0"
    by (simp add: rat_float_def ref_at_def go_trunc_def)
  note panics = resampleWriterBeep_empty_frame_panics [OF b _ _ this, of frameWriter_WriteSample]
  have "\<not> asks_sample 48000 16000 [1, 1]" "asks_sample 48000 16000 (replicate 480 1)" by (simp_all add: asks_sample_def)
  with panics [of "[[1, 1]]"] panics [of "[[1, 1], replicate 480 1]"] b show ?thesis
    by (intro exI [of _ b] conjI) simp_all
qed

end
