(* ===== verification/Resample.thy ===== *)
theory Resample
  imports Beep Go_Strings
begin

text \<open>
  Resampling (\<open>resample.go\<close>) and its default implementation over libsoxr (\<open>resample_soxr.go\<close>).  The C
  library is a parameter: \<open>create\<close> for \<open>soxr_create\<close>, \<open>proc c data n\<close> for \<open>soxr_process\<close> with input \<open>data\<close> and
  room for \<open>n\<close> samples, which gives the error string, the count read, the samples written and the state after it.
  The builds without cgo (\<open>resample_nocgo.go\<close>) use the predictable resampler in its place.
\<close>

section \<open>The soxr wrapper\<close>

type_synonym 'c soxr_process = "'c \<Rightarrow> pcm16 \<Rightarrow> nat \<Rightarrow> string option \<times> nat \<times> pcm16 \<times> 'c"

type_synonym 'c soxr_create = "int \<Rightarrow> int \<Rightarrow> string option \<times> 'c"

text \<open>The library's errors are C strings; some of them mean success.\<close>

definition soxrErr :: "string option \<Rightarrow> go_error option" where
  "soxrErr e =
     (case e of None \<Rightarrow> None
      | Some estr \<Rightarrow> if estr = [] \<or> estr = ''0'' then None else Some (ErrOther estr))"

text \<open>\<open>sx_freed\<close> counts the calls of \<open>soxr_delete\<close>.\<close>

record 'c soxrResampler =
  sx_ptr :: "'c option"
  sx_srcRate :: int
  sx_dstRate :: int
  sx_maxIn :: nat
  sx_done :: bool
  sx_freed :: nat

definition newSoxr :: "'c soxr_create \<Rightarrow> int \<Rightarrow> int \<Rightarrow> go_error + 'c soxrResampler" where
  "newSoxr create dstRate srcRate =
     (let (e, p) = create srcRate dstRate
      in case soxrErr e of Some err \<Rightarrow> Inl err
         | None \<Rightarrow> Inr \<lparr>sx_ptr = Some p, sx_srcRate = srcRate, sx_dstRate = dstRate, sx_maxIn = 0, sx_done = False, sx_freed = 0\<rparr>)"

definition soxrCleanup :: "'c soxrResampler \<Rightarrow> 'c soxrResampler" where
  "soxrCleanup r = (if \<not> sx_done r then r\<lparr>sx_done := True, sx_freed := sx_freed r + 1\<rparr> else r)"

definition soxr_Close :: "'c soxrResampler \<Rightarrow> 'c soxrResampler" where
  "soxr_Close r = (if sx_ptr r = None then r else (soxrCleanup r)\<lparr>sx_ptr := None\<rparr>)"

text \<open>
  The garbage collector runs \<open>soxrCleanup\<close> too, when nothing refers to the resampler any more, so after the
  last \<open>Close\<close> if there is one: the library's memory is freed exactly once.
\<close>

lemma soxr_freed_once:
  assumes "newSoxr create dstRate srcRate = Inr r"
  shows "sx_freed (soxrCleanup ((soxr_Close ^^ n) r)) = 1"
proof -
  have r: "sx_ptr r \<noteq> None" "\<not> sx_done r" "sx_freed r = 0"
    using assms by (auto simp: newSoxr_def split: prod.splits option.splits)
  have "(soxr_Close ^^ n) r = (if n = 0 then r else soxr_Close r)" by (induction n) (auto simp: soxr_Close_def)
  with r show ?thesis by (simp add: soxr_Close_def soxrCleanup_def)
qed

text \<open>
  The loop of \<open>Resample\<close>: the error, the samples written and the library's state; \<open>None\<close> when it does not
  return or panics.  What is left of the input when the output is full is not looked at again.
\<close>

partial_function (option) soxr_loop :: "'c soxr_process \<Rightarrow> 'c \<Rightarrow> pcm16 \<Rightarrow> nat \<Rightarrow> pcm16 \<Rightarrow> (go_error option \<times> pcm16 \<times> 'c) option" where
  "soxr_loop proc c data room written =
     (if room = 0 then Some (None, written, c)
      else (let (err, rd, out, c1) = proc c data room; data1 = drop (if data = [] then 0 else rd) data
            in if soxrErr err \<noteq> None then Some (soxrErr err, [], c1)
               else if data \<noteq> [] \<and> length data < rd \<or> room < length out then None
               else if data1 = [] then Some (None, written @ out, c1)
               else soxr_loop proc c1 data1 (room - length out) (written @ out)))"

text \<open>\<open>spare\<close> is \<open>cap(out) - len(out)\<close>, which the runtime decides.  The result is \<open>out\<close> after the call and the error.\<close>

definition soxr_Resample :: "'c soxr_process \<Rightarrow> nat \<Rightarrow> pcm16 \<Rightarrow> pcm16 \<Rightarrow> 'c soxrResampler \<Rightarrow>
    ((pcm16 \<times> nat \<times> go_error option) \<times> 'c soxrResampler) option" where
  "soxr_Resample proc spare out data r =
     (case sx_ptr r of
        None \<Rightarrow> Some ((out, 0, Some (ErrOther ''resampler is closed'')), r)
      | Some c \<Rightarrow>
          if sx_done r then Some ((out, 0, Some (ErrOther ''resampler is closed'')), r)
          else do {
            let maxIn = max (sx_maxIn r) (length data);
            n0 \<leftarrow> go_div (int (length data) * sx_dstRate r) (sx_srcRate r);
            n1 \<leftarrow> go_div (int maxIn * sx_dstRate r) (sx_srcRate r);
            let dstN = (if n0 = 0 then max n1 (max (int spare) 1024) else n0);
            (if dstN < 0 then None else do {
               (err, new, c1) \<leftarrow> soxr_loop proc c data (nat dstN) [];
               let r1 = r\<lparr>sx_ptr := Some c1, sx_maxIn := maxIn\<rparr>;
               Some (if err \<noteq> None then ((out, 0, err), r1) else ((out @ new, length new, None), r1))
             })
          })"

section \<open>The resampling writer\<close>

definition resampleSize :: "int \<Rightarrow> int \<Rightarrow> nat \<Rightarrow> int option" where
  "resampleSize dstRate srcRate n =
     (if dstRate < srcRate then do { d \<leftarrow> go_div srcRate dstRate; go_div (int n) d }
      else do { m \<leftarrow> go_div dstRate srcRate; Some (int n * m) })"

record ('c, 'w) resampleWriter =
  rw_w :: 'w
  rw_r :: "'c soxrResampler"
  rw_srcRate :: int
  rw_dstRate :: int
  rw_dstFrame :: int
  rw_buffer :: int
  rw_buf :: pcm16

definition newResampleWriter :: "'c soxr_create \<Rightarrow> ('w \<Rightarrow> int) \<Rightarrow> 'w \<Rightarrow> int \<Rightarrow> ('c, 'w) resampleWriter option" where
  "newResampleWriter create rate w sampleRate =
     (case newSoxr create (rate w) sampleRate of Inl _ \<Rightarrow> None
      | Inr r \<Rightarrow> Some \<lparr>rw_w = w, rw_r = r, rw_srcRate = sampleRate, rw_dstRate = rate w, rw_dstFrame = 0, rw_buffer = 0, rw_buf = []\<rparr>)"

definition rw_SampleRate :: "('c, 'w) resampleWriter \<Rightarrow> int" where
  "rw_SampleRate w = rw_srcRate w"

text \<open>The loop of \<open>flush\<close>: it goes on after an error and returns the last one.  The frame is never empty, see \<open>rw_flush\<close>.\<close>

function rw_flush_loop :: "(pcm16, 'w) write_fn \<Rightarrow> nat \<Rightarrow> int \<Rightarrow> pcm16 \<Rightarrow> go_error option \<Rightarrow> 'w \<Rightarrow> go_error option \<times> pcm16 \<times> 'w" where
  "rw_flush_loop wr frame minSize buf lst w =
     (if 0 < length buf \<and> minSize \<le> int (length buf) \<and> 0 < frame then
        let sz = min frame (length buf); (err, w1) = wr (take sz buf) w
        in rw_flush_loop wr frame minSize (drop sz buf) (if err \<noteq> None then err else lst) w1
      else (lst, buf, w))"
  by pat_completeness auto

termination by (relation "measure (\<lambda>(wr, frame, minSize, buf, lst, w). length buf)") auto

declare rw_flush_loop.simps [simp del]

definition rw_flush :: "(pcm16, 'w) write_fn \<Rightarrow> int \<Rightarrow> ('c, 'w) resampleWriter \<Rightarrow> go_error option \<times> ('c, 'w) resampleWriter" where
  "rw_flush wr minSize w =
     (if rw_buf w = [] then (None, w)
      else let frame = (if rw_dstFrame w = 0 then length (rw_buf w) else nat (rw_dstFrame w));
               (lst, buf, w1) = rw_flush_loop wr frame minSize (rw_buf w) None (rw_w w)
           in (lst, w\<lparr>rw_buf := buf, rw_w := w1\<rparr>))"

definition rw_WriteSample :: "'c soxr_process \<Rightarrow> nat \<Rightarrow> (pcm16, 'w) write_fn \<Rightarrow> pcm16 \<Rightarrow> ('c, 'w) resampleWriter \<Rightarrow>
    (go_error option \<times> ('c, 'w) resampleWriter) option" where
  "rw_WriteSample proc spare wr data w =
     (if data = [] then Some (None, w)
      else do {
        ((buf, _, err), r1) \<leftarrow> soxr_Resample proc spare (rw_buf w) data (rw_r w);
        let w1 = w\<lparr>rw_buf := buf, rw_r := r1\<rparr>;
        (if err \<noteq> None then Some (err, w1)
         else do {
           dstFrame \<leftarrow> resampleSize (rw_dstRate w) (rw_srcRate w) (length data);
           let w2 = w1\<lparr>rw_dstFrame := max (rw_dstFrame w1) dstFrame\<rparr>;
           Some (rw_flush wr (rw_dstFrame w2 * (1 + rw_buffer w2)) w2)
         })
      })"

definition rw_Close :: "'c soxr_process \<Rightarrow> nat \<Rightarrow> (pcm16, 'w) write_fn \<Rightarrow> 'w close_fn \<Rightarrow> ('c, 'w) resampleWriter \<Rightarrow>
    (go_error option \<times> ('c, 'w) resampleWriter) option" where
  "rw_Close proc spare wr cl w = do {
     ((buf, _, err), r1) \<leftarrow> soxr_Resample proc spare (rw_buf w) [] (rw_r w);
     let w1 = w\<lparr>rw_buf := buf, rw_r := r1\<rparr>;
     (if err \<noteq> None then Some (err, w1)
      else let w2 = w1\<lparr>rw_r := soxr_Close (rw_r w1)\<rparr>; (_, w3) = rw_flush wr 0 w2; (err2, w4) = cl (rw_w w3)
           in Some (if err2 \<noteq> None then err2 else err, w3\<lparr>rw_w := w4\<rparr>))
   }"

definition resampleBuffer :: "'c soxr_create \<Rightarrow> 'c soxr_process \<Rightarrow> nat \<Rightarrow> pcm16 \<Rightarrow> int \<Rightarrow> pcm16 \<Rightarrow> int \<Rightarrow> pcm16 option" where
  "resampleBuffer create proc spare dst dstRate src srcRate = do {
     b \<leftarrow> NewPCM16BufferWriter (Some dst) dstRate;
     w \<leftarrow> newResampleWriter create bufferWriter_SampleRate b srcRate;
     (err, w1) \<leftarrow> rw_WriteSample proc spare bufferWriter_WriteSample src w;
     (_, w2) \<leftarrow> rw_Close proc spare bufferWriter_WriteSample bufferWriter_Close w1;
     (if err \<noteq> None then None else Some (bw_buf (rw_w w2)))
   }"

text \<open>The same functions in a build without cgo.\<close>

definition nocgo_resampleBuffer :: "'f go_float \<Rightarrow> pcm16 \<Rightarrow> int \<Rightarrow> pcm16 \<Rightarrow> int \<Rightarrow> pcm16 option" where
  "nocgo_resampleBuffer F dst dstRate src srcRate = resampleBufferBeep F dst dstRate src srcRate"

definition nocgo_newResampleWriter :: "'f go_float \<Rightarrow> ('w \<Rightarrow> int) \<Rightarrow> 'w \<Rightarrow> int \<Rightarrow> ('f, 'w) resampleWriterBeep option" where
  "nocgo_newResampleWriter F rate w sampleRate = newResampleWriterBeep F rate w sampleRate"

section \<open>Choosing a resampler\<close>

record resampleOptions =
  Predictable :: bool
  DumpInput :: string
  DumpOutput :: string

datatype ResampleOption = WithPredictableResample bool | WithResampleDump string string

fun apply_resample_option :: "ResampleOption \<Rightarrow> resampleOptions \<Rightarrow> resampleOptions" where
  "apply_resample_option (WithPredictableResample enable) opts = opts\<lparr>Predictable := enable\<rparr>"
| "apply_resample_option (WithResampleDump inputName outputName) opts = opts\<lparr>DumpInput := inputName, DumpOutput := outputName\<rparr>"

text \<open>\<open>defaults\<close> is \<open>DefaultResampleOptions\<close>.\<close>

definition resample_opts :: "ResampleOption list \<Rightarrow> ResampleOption list \<Rightarrow> resampleOptions" where
  "resample_opts defaults opts =
     fold apply_resample_option (if opts = [] then defaults else opts) \<lparr>Predictable = False, DumpInput = [], DumpOutput = []\<rparr>"

text \<open>\<open>buffer\<close> is \<open>resampleBuffer\<close> as the build has it.\<close>

definition Resample :: "'f go_float \<Rightarrow> (pcm16 \<Rightarrow> int \<Rightarrow> pcm16 \<Rightarrow> int \<Rightarrow> pcm16 option) \<Rightarrow> ResampleOption list \<Rightarrow>
    pcm16 \<Rightarrow> int \<Rightarrow> pcm16 \<Rightarrow> int \<Rightarrow> ResampleOption list \<Rightarrow> pcm16 option" where
  "Resample F buffer defaults dst dstRate src srcRate opts =
     (if dstRate = srcRate then Some (dst @ src)
      else if Predictable (resample_opts defaults opts) then resampleBufferBeep F dst dstRate src srcRate
      else buffer dst dstRate src srcRate)"

text \<open>
  \<open>ResampleWriter\<close> over any type of writers with their \<open>SampleRate\<close>: \<open>dump\<close> is \<open>DumpWriterPCM16\<close>, \<open>beep\<close> and
  \<open>soxr\<close> make the two resamplers (\<open>newResampleWriter\<close> as the build has it), \<open>toFile\<close> holds the number of the pair of files if all writers are dumped.
\<close>

definition ResampleWriter :: "('w \<Rightarrow> int) \<Rightarrow> (string \<Rightarrow> 'w \<Rightarrow> 'w) \<Rightarrow> ('w \<Rightarrow> int \<Rightarrow> 'w option) \<Rightarrow> ('w \<Rightarrow> int \<Rightarrow> 'w option) \<Rightarrow>
    ResampleOption list \<Rightarrow> nat option \<Rightarrow> 'w \<Rightarrow> int \<Rightarrow> ResampleOption list \<Rightarrow> 'w option" where
  "ResampleWriter rate dump beep soxr defaults toFile w srcRate opts =
     (if rate w = srcRate then Some w
      else do {
        let opt = resample_opts defaults opts;
        let opt1 = (case toFile of None \<Rightarrow> opt
          | Some num \<Rightarrow> opt\<lparr>DumpInput := ''sip_resample_'' @ Itoa (int num) @ ''_in'', DumpOutput := ''sip_resample_'' @ Itoa (int num) @ ''_out''\<rparr>);
        let w1 = (if DumpOutput opt1 \<noteq> [] then dump (DumpOutput opt1) w else w);
        w2 \<leftarrow> (if Predictable opt1 then beep w1 srcRate else soxr w1 srcRate);
        Some (if DumpInput opt1 \<noteq> [] then dump (DumpInput opt1) w2 else w2)
      })"

text \<open>Without cgo the choice of a resampler does not matter.\<close>

lemma Resample_nocgo:
  "Resample F (nocgo_resampleBuffer F) defaults dst dstRate src srcRate opts =
    (if dstRate = srcRate then Some (dst @ src) else resampleBufferBeep F dst dstRate src srcRate)"
  by (simp add: Resample_def nocgo_resampleBuffer_def)

text \<open>The result takes samples of the source rate; dumping does not change the rate of a writer.\<close>

lemma ResampleWriter_rate:
  assumes "ResampleWriter rate dump beep soxr defaults toFile w srcRate opts = Some w'"
    and "\<And>name v. rate (dump name v) = rate v"
    and "\<And>v v'. beep v srcRate = Some v' \<Longrightarrow> rate v' = srcRate" "\<And>v v'. soxr v srcRate = Some v' \<Longrightarrow> rate v' = srcRate"
  shows "rate w' = srcRate"
  using assms by (auto simp: ResampleWriter_def Let_def split: if_splits bind_splits option.splits)

section \<open>The interface of the library\<close>

text \<open>
  What the wrapper needs of \<open>soxr_process\<close>: it reads and writes no more than it is given room for, and
  while there is input and room it reads or writes something.  \<open>sent\<close> is the history of what it has written.
\<close>

definition soxr_contract :: "'c soxr_process \<Rightarrow> ('c \<Rightarrow> pcm16) \<Rightarrow> bool" where
  "soxr_contract proc sent \<longleftrightarrow>
     (\<forall>c data n. case proc c data n of (err, rd, out, c1) \<Rightarrow>
        soxrErr err = None \<and> sent c1 = sent c @ out \<and> length out \<le> n \<and> rd \<le> length data \<and> (data = [] \<or> n = 0 \<or> 0 < rd \<or> out \<noteq> []))"

lemma soxr_contractE:
  assumes "soxr_contract proc sent"
  obtains err rd out c1 where "proc c data n = (err, rd, out, c1)" "soxrErr err = None" "sent c1 = sent c @ out" "length out \<le> n" "rd \<le> length data"
    "data = [] \<or> n = 0 \<or> 0 < rd \<or> out \<noteq> []"
proof -
  obtain err rd out c1 where p: "proc c data n = (err, rd, out, c1)" by (metis prod.exhaust)
  from assms [unfolded soxr_contract_def, THEN spec, of c, THEN spec, of data, THEN spec, of n]
  have "soxrErr err = None \<and> sent c1 = sent c @ out \<and> length out \<le> n \<and> rd \<le> length data \<and> (data = [] \<or> n = 0 \<or> 0 < rd \<or> out \<noteq> [])"
    unfolding p prod.case .
  then show thesis using p by (intro that [of err rd out c1]) simp_all
qed

lemma soxr_loop_returns:
  "soxr_contract proc sent \<Longrightarrow>
    \<exists>new c'. soxr_loop proc c data room written = Some (None, written @ new, c') \<and> sent c' = sent c @ new"
proof (induction "length data + room" arbitrary: c data room written rule: less_induct)
  case less
  obtain err rd out c1 where p: "proc c data room = (err, rd, out, c1)" "soxrErr err = None"
    and c1: "sent c1 = sent c @ out" "length out \<le> room" "rd \<le> length data" and progress: "data = [] \<or> room = 0 \<or> 0 < rd \<or> out \<noteq> []"
    by (rule soxr_contractE [OF less.prems])
  show ?case
  proof (cases "room = 0 \<or> drop (if data = [] then 0 else rd) data = []")
    case True
    with p c1 show ?thesis by (subst soxr_loop.simps) (auto simp: Let_def)
  next
    case False
    then have "data \<noteq> []" "0 < room" by auto
    moreover from this progress have "0 < rd \<or> 0 < length out" by auto
    moreover have "0 < length data" using \<open>data \<noteq> []\<close> by simp
    ultimately have "length (drop rd data) + (room - length out) < length data + room" using c1(2,3) unfolding length_drop by linarith
    from less.hyps [OF this less.prems, of c1 "written @ out"] obtain new c' where
      "soxr_loop proc c1 (drop rd data) (room - length out) (written @ out) = Some (None, (written @ out) @ new, c')"
      "sent c' = sent c1 @ new" by auto
    with p c1 False \<open>data \<noteq> []\<close> show ?thesis by (subst soxr_loop.simps) (auto simp: Let_def)
  qed
qed

lemma soxr_Resample_returns:
  assumes "soxr_contract proc sent" "sx_ptr r = Some c" "\<not> sx_done r" "0 < sx_srcRate r" "0 < sx_dstRate r"
  shows "\<exists>new c' m. soxr_Resample proc spare out data r =
      Some ((out @ new, length new, None), r\<lparr>sx_ptr := Some c', sx_maxIn := m\<rparr>) \<and> sent c' = sent c @ new"
proof -
  let ?n = "\<lambda>k. int k * sx_dstRate r div sx_srcRate r"
  have div: "go_div (int k * sx_dstRate r) (sx_srcRate r) = Some (?n k)" "0 \<le> ?n k" for k
    using assms(4,5) by (simp_all add: go_div_def pos_imp_zdiv_nonneg_iff)
  define maxIn where "maxIn = max (sx_maxIn r) (length data)"
  define N where "N = (if ?n (length data) = 0 then max (?n maxIn) (max (int spare) 1024) else ?n (length data))"
  obtain new c' where new: "soxr_loop proc c data (nat N) [] = Some (None, new, c')" "sent c' = sent c @ new"
    using soxr_loop_returns [OF assms(1)] by fastforce
  have "0 \<le> N" using div(2) by (auto simp: N_def le_max_iff_disj)
  have "soxr_Resample proc spare out data r = (if N < 0 then None else do {
      (err, new, c1) \<leftarrow> soxr_loop proc c data (nat N) [];
      let r1 = r\<lparr>sx_ptr := Some c1, sx_maxIn := maxIn\<rparr>;
      Some (if err \<noteq> None then ((out, 0, err), r1) else ((out @ new, length new, None), r1)) })"
    using assms(2,3) div(1) by (simp only: soxr_Resample_def Let_def N_def maxIn_def option.case if_False bind.bind_lunit)
  with new \<open>0 \<le> N\<close> show ?thesis by (intro exI [of _ new] exI [of _ c'] exI [of _ maxIn]) simp
qed

section \<open>The writer over a sink\<close>

lemma resampleSize_ok: "0 < dstRate \<Longrightarrow> 0 < srcRate \<Longrightarrow> \<exists>n\<ge>0. resampleSize dstRate srcRate k = Some n"
  by (auto simp: resampleSize_def go_div_def pos_imp_zdiv_pos_iff pos_imp_zdiv_nonneg_iff zdiv_eq_0_iff)

lemma rw_flush_loop_offers:
  "0 < frame \<Longrightarrow> rw_flush_loop (history_write answer) frame minSize buf lst h = (err, buf', h') \<Longrightarrow>
    \<exists>fs. h' = h @ fs \<and> concat fs @ buf' = buf \<and> [] \<notin> set fs \<and> (buf' = [] \<or> int (length buf') < minSize)"
proof (induction "length buf" arbitrary: buf lst h rule: less_induct)
  case less
  show ?case
  proof (cases "0 < length buf \<and> minSize \<le> int (length buf)")
    case True
    let ?sz = "min frame (length buf)"
    have "rw_flush_loop (history_write answer) frame minSize (drop ?sz buf)
        (if answer h (take ?sz buf) \<noteq> None then answer h (take ?sz buf) else lst) (h @ [take ?sz buf]) = (err, buf', h')"
      using less.prems True by (subst (asm) rw_flush_loop.simps) (simp add: Let_def history_write_def)
    from less.hyps [OF _ less.prems(1) this] True less.prems(1)
    obtain fs where "h' = (h @ [take ?sz buf]) @ fs" "concat fs @ buf' = drop ?sz buf" "[] \<notin> set fs"
      "buf' = [] \<or> int (length buf') < minSize" by auto
    moreover have "take ?sz buf \<noteq> []" using True less.prems(1) by auto
    ultimately show ?thesis by (intro exI [of _ "take ?sz buf # fs"]) simp
  next
    case False
    with less.prems show ?thesis by (auto simp: rw_flush_loop.simps [of _ frame])
  qed
qed

lemma rw_flush_offers:
  assumes "rw_flush (history_write answer) minSize w = (err, w')" "0 \<le> rw_dstFrame w"
  shows "\<exists>fs buf. w' = w\<lparr>rw_buf := buf, rw_w := rw_w w @ fs\<rparr> \<and> concat fs @ buf = rw_buf w \<and> [] \<notin> set fs \<and>
    (buf = [] \<or> int (length buf) < minSize)"
proof (cases "rw_buf w = []")
  case True
  with assms(1) show ?thesis by (intro exI [of _ "[]"]) (auto simp: rw_flush_def)
next
  case False
  define frame where "frame = (if rw_dstFrame w = 0 then length (rw_buf w) else nat (rw_dstFrame w))"
  have "0 < frame" using False assms(2) by (simp add: frame_def)
  obtain lst buf h where l: "rw_flush_loop (history_write answer) frame minSize (rw_buf w) None (rw_w w) = (lst, buf, h)"
    by (metis prod.exhaust)
  with assms(1) False have "w' = w\<lparr>rw_buf := buf, rw_w := h\<rparr>" unfolding rw_flush_def frame_def [symmetric] Let_def by auto
  with rw_flush_loop_offers [OF \<open>0 < frame\<close> l] show ?thesis by auto
qed

text \<open>What holds between the calls: the frames offered and the buffer are what the library has written.\<close>

definition rw_ok :: "('c \<Rightarrow> pcm16) \<Rightarrow> ('c, pcm16 list) resampleWriter \<Rightarrow> bool" where
  "rw_ok sent w \<longleftrightarrow> 0 < rw_srcRate w \<and> 0 < rw_dstRate w \<and> 0 \<le> rw_dstFrame w \<and> rw_buffer w = 0 \<and>
     sx_srcRate (rw_r w) = rw_srcRate w \<and> sx_dstRate (rw_r w) = rw_dstRate w \<and> \<not> sx_done (rw_r w) \<and> [] \<notin> set (rw_w w) \<and>
     (rw_buf w = [] \<or> int (length (rw_buf w)) < rw_dstFrame w) \<and>
     (\<exists>c. sx_ptr (rw_r w) = Some c \<and> concat (rw_w w) @ rw_buf w = sent c)"

lemma rw_WriteSample_ok:
  assumes "soxr_contract proc sent" "rw_ok sent w"
  shows "\<exists>err w'. rw_WriteSample proc spare (history_write answer) data w = Some (err, w') \<and> rw_ok sent w'"
proof (cases "data = []")
  case True
  with assms show ?thesis by (simp add: rw_WriteSample_def)
next
  case False
  obtain c where c: "sx_ptr (rw_r w) = Some c" "concat (rw_w w) @ rw_buf w = sent c" using assms(2) by (auto simp: rw_ok_def)
  obtain new c' m where s: "soxr_Resample proc spare (rw_buf w) data (rw_r w) =
      Some ((rw_buf w @ new, length new, None), (rw_r w)\<lparr>sx_ptr := Some c', sx_maxIn := m\<rparr>)" "sent c' = sent c @ new"
    using soxr_Resample_returns [OF assms(1) c(1), of spare "rw_buf w" data] assms(2) by (auto simp: rw_ok_def)
  obtain n where n: "resampleSize (rw_dstRate w) (rw_srcRate w) (length data) = Some n" "0 \<le> n"
    using resampleSize_ok [of "rw_dstRate w" "rw_srcRate w" "length data"] assms(2) by (auto simp: rw_ok_def)
  define w2 where "w2 = w\<lparr>rw_buf := rw_buf w @ new, rw_r := (rw_r w)\<lparr>sx_ptr := Some c', sx_maxIn := m\<rparr>, rw_dstFrame := max (rw_dstFrame w) n\<rparr>"
  obtain err w' where f: "rw_flush (history_write answer) (rw_dstFrame w2 * (1 + rw_buffer w2)) w2 = (err, w')" by fastforce
  have "rw_WriteSample proc spare (history_write answer) data w = Some (err, w')"
    using False s n f by (simp add: rw_WriteSample_def w2_def)
  moreover have "0 \<le> rw_dstFrame w2" using n by (simp add: w2_def)
  then obtain fs buf where fs: "w' = w2\<lparr>rw_buf := buf, rw_w := rw_w w2 @ fs\<rparr>" "concat fs @ buf = rw_buf w2" "[] \<notin> set fs"
    "buf = [] \<or> int (length buf) < rw_dstFrame w2 * (1 + rw_buffer w2)"
    using rw_flush_offers [OF f] by blast
  have "concat (rw_w w @ fs) @ buf = sent c'" using fs(2) c(2) s(2) by (simp add: w2_def)
  with fs(1,3,4) assms(2) n have "rw_ok sent w'" by (simp add: rw_ok_def w2_def)
  ultimately show ?thesis by blast
qed

fun rw_run :: "'c soxr_process \<Rightarrow> (pcm16, 'w) write_fn \<Rightarrow> (nat \<times> pcm16) list \<Rightarrow> ('c, 'w) resampleWriter \<Rightarrow> ('c, 'w) resampleWriter option" where
  "rw_run proc wr [] w = Some w"
| "rw_run proc wr ((spare, data) # ops) w = do { (_, w1) \<leftarrow> rw_WriteSample proc spare wr data w; rw_run proc wr ops w1 }"

lemma rw_run_ok:
  "soxr_contract proc sent \<Longrightarrow> rw_ok sent w \<Longrightarrow> \<exists>w'. rw_run proc (history_write answer) ops w = Some w' \<and> rw_ok sent w'"
proof (induction ops arbitrary: w)
  case (Cons op ops)
  obtain spare data where "op = (spare, data)" by fastforce
  with Cons rw_WriteSample_ok [OF Cons.prems, of spare answer data] show ?case by fastforce
qed simp

section \<open>Properties\<close>

text \<open>
  C20: the resampling writer keeps every sample.  If the library makes progress and reports no error, every
  write returns; whatever the downstream writer answers, the frames offered to it followed by the buffer are
  exactly what the library has written, no frame is empty, and less than one frame is held back; closing
  offers everything that is left and what the library still held, and a second close does nothing but return
  an error.
\<close>

theorem resampleWriter_lossless:
  assumes "soxr_contract proc sent" "create srcRate dstRate = (e0, ci)" "soxrErr e0 = None" "sent ci = []" "0 < srcRate" "0 < dstRate"
  shows "\<exists>w0 w c new w' r. newResampleWriter create (\<lambda>_. dstRate) [] srcRate = Some w0 \<and>
    rw_run proc (history_write answer) ops w0 = Some w \<and> sx_ptr (rw_r w) = Some c \<and>
    concat (rw_w w) @ rw_buf w = sent c \<and> [] \<notin> set (rw_w w) \<and>
    (rw_buf w = [] \<or> int (length (rw_buf w)) < rw_dstFrame w) \<and>
    soxr_Resample proc spare (rw_buf w) [] (rw_r w) = Some ((rw_buf w @ new, length new, None), r) \<and>
    rw_Close proc spare (history_write answer) (Pair e) w = Some (e, w') \<and> concat (rw_w w') = sent c @ new \<and>
    rw_Close proc spare (history_write answer) (Pair e) w' = Some (Some (ErrOther ''resampler is closed''), w')"
proof -
  define w0 where "w0 = \<lparr>rw_w = [] :: pcm16 list, rw_r = \<lparr>sx_ptr = Some ci, sx_srcRate = srcRate, sx_dstRate = dstRate, sx_maxIn = 0, sx_done = False, sx_freed = 0\<rparr>,
    rw_srcRate = srcRate, rw_dstRate = dstRate, rw_dstFrame = 0, rw_buffer = 0, rw_buf = []\<rparr>"
  have new0: "newResampleWriter create (\<lambda>_. dstRate) [] srcRate = Some w0"
    using assms(2,3) by (simp add: newResampleWriter_def newSoxr_def w0_def)
  have "rw_ok sent w0" using assms by (simp add: rw_ok_def w0_def)
  then obtain w where w: "rw_run proc (history_write answer) ops w0 = Some w" "rw_ok sent w" using rw_run_ok assms(1) by blast
  then obtain c where c: "sx_ptr (rw_r w) = Some c" "concat (rw_w w) @ rw_buf w = sent c" by (auto simp: rw_ok_def)
  obtain new c' m where s: "soxr_Resample proc spare (rw_buf w) [] (rw_r w) =
      Some ((rw_buf w @ new, length new, None), (rw_r w)\<lparr>sx_ptr := Some c', sx_maxIn := m\<rparr>)"
    using soxr_Resample_returns [OF assms(1) c(1), of spare "rw_buf w" "[]"] w(2) by (auto simp: rw_ok_def)
  define w2 where "w2 = w\<lparr>rw_buf := rw_buf w @ new, rw_r := soxr_Close ((rw_r w)\<lparr>sx_ptr := Some c', sx_maxIn := m\<rparr>)\<rparr>"
  obtain fe w' where f: "rw_flush (history_write answer) 0 w2 = (fe, w')" by fastforce
  have "0 \<le> rw_dstFrame w2" using w(2) by (simp add: w2_def rw_ok_def)
  then obtain fs where fs: "w' = w2\<lparr>rw_buf := [], rw_w := rw_w w2 @ fs\<rparr>" "concat fs = rw_buf w2"
    using rw_flush_offers [OF f] by auto
  have "rw_Close proc spare (history_write answer) (Pair e) w = Some (e, w')"
    using s f by (simp add: rw_Close_def w2_def)
  moreover have "concat (rw_w w') = sent c @ new" using fs c(2) by (simp add: w2_def)
  moreover have "sx_ptr (rw_r w') = None" by (simp add: fs(1) w2_def soxr_Close_def)
  ultimately show ?thesis
    using new0 w c s by (intro exI conjI) (auto simp: rw_ok_def rw_Close_def soxr_Resample_def)
qed

text \<open>A library that copies: every sample it takes it writes at once, as far as there is room.\<close>

definition copy_process :: "pcm16 soxr_process" where
  "copy_process c data n = (Some [], min n (length data), take n data, c @ take n data)"

theorem resampleWriter_lossless_witness:
  "\<exists>w0 w c. newResampleWriter (\<lambda>_ _. (Some ''0'', [] :: pcm16)) (\<lambda>_. 16000) ([] :: pcm16 list) 8000 = Some w0 \<and>
    rw_run copy_process (history_write (\<lambda>_ _. Some EOF)) [(0, [1, 2, 3]), (5, [4])] w0 = Some w \<and>
    sx_ptr (rw_r w) = Some c \<and> concat (rw_w w) @ rw_buf w = c"
proof -
  have "soxr_contract copy_process (\<lambda>c. c)" by (auto simp: soxr_contract_def copy_process_def soxrErr_def)
  from resampleWriter_lossless [OF this, where create = "\<lambda>_ _. (Some ''0'', [])" and srcRate = 8000 and dstRate = 16000 and ci = "[]"
      and answer = "\<lambda>_ _. Some EOF" and ops = "[(0, [1, 2, 3]), (5, [4])]",
      OF refl _ refl zero_less_numeral zero_less_numeral]
  show ?thesis by (simp add: soxrErr_def) blast
qed

end
