(* ===== verification/Codec_Writers.thy ===== *)
theory Codec_Writers
  imports Media_Bytes Go_Strings
begin

text \<open>
  The frame writers around the codec libraries: AMR-WB (\<open>amrwb/amrwb.go\<close>), Opus (\<open>opus/opus.go\<close>), G.722
  (\<open>g722/g722.go\<close>), and the WebM block writer (\<open>webm/writer.go\<close>).  The libraries' coders are parameters,
  functions of their state; \<open>None\<close> is a panic, or a loop that does not end.
\<close>

section \<open>AMR-WB\<close>

definition amr_Size :: "bytes \<Rightarrow> nat" where
  "amr_Size s = length s"

definition amr_CopyTo :: "bytes \<Rightarrow> bytes \<Rightarrow> (nat \<times> go_error option) \<times> bytes" where
  "amr_CopyTo s dst = (if length dst < length s then ((0, Some ErrShortBuffer), dst) else (let (n, d) = go_copy dst s in ((n, None), d)))"

interpretation amr_frame: byte_frame amr_Size amr_CopyTo "\<lambda>s. s"
  by unfold_locales (simp_all add: amr_Size_def amr_CopyTo_def go_copy_def)

record ('d, 'w) amr_decoder =
  ad_w :: 'w
  ad_d :: 'd

type_synonym 'd amr_decode = "bytes \<Rightarrow> 'd \<Rightarrow> (go_error + nat \<times> pcm16) \<times> 'd"

partial_function (option) amr_decode_loop :: "'d amr_decode \<Rightarrow> bytes \<Rightarrow> pcm16 \<Rightarrow> 'd \<Rightarrow> (pcm16 \<times> go_error option \<times> 'd) option" where
  "amr_decode_loop dec data buf d =
     (if data = [] then Some (buf, None, d)
      else case dec data d of
        (Inl e, d1) \<Rightarrow> Some (buf, Some e, d1)
      | (Inr (n, frame), d1) \<Rightarrow> if length data < n then None else amr_decode_loop dec (drop n data) (buf @ frame) d1)"

definition amr_Decoder_WriteSample :: "'d amr_decode \<Rightarrow> (pcm16, 'w) write_fn \<Rightarrow> bytes \<Rightarrow> ('d, 'w) amr_decoder \<Rightarrow>
    (go_error option \<times> ('d, 'w) amr_decoder) option" where
  "amr_Decoder_WriteSample dec wr data d = do {
     (buf, blockErr, d1) \<leftarrow> amr_decode_loop dec data [] (ad_d d);
     Some (if buf \<noteq> [] then
         (let (err, w1) = wr buf (ad_w d) in (if err \<noteq> None then err else blockErr, \<lparr>ad_w = w1, ad_d = d1\<rparr>))
       else (blockErr, d\<lparr>ad_d := d1\<rparr>))
   }"

definition amr_Decoder_Close :: "('d \<Rightarrow> 'd) \<Rightarrow> 'w close_fn \<Rightarrow> ('d, 'w) amr_decoder close_fn" where
  "amr_Decoder_Close closeD cl d = (let (err, w1) = cl (ad_w d) in (err, \<lparr>ad_w = w1, ad_d = closeD (ad_d d)\<rparr>))"

definition amr_Decoder_SampleRate :: "('d, 'w) amr_decoder \<Rightarrow> int" where
  "amr_Decoder_SampleRate d = 16000"

text \<open>\<open>Decode\<close>; the formats and modes are the library's.\<close>

definition amr_NewDecoder :: "('w \<Rightarrow> int) \<Rightarrow> ('w \<Rightarrow> int \<Rightarrow> 'w) \<Rightarrow> ('fmt \<Rightarrow> 'd) \<Rightarrow> 'w \<Rightarrow> 'fmt \<Rightarrow> ('d, 'w) amr_decoder" where
  "amr_NewDecoder rate resample newDec w format =
     \<lparr>ad_w = (if rate w \<noteq> 16000 then resample w 16000 else w), ad_d = newDec format\<rparr>"

text \<open>The encoder: \<open>psz\<close> is the library's \<open>PCMFrameSize\<close>, \<open>enc\<close> encodes one frame of that size.\<close>

record ('e, 'w) amr_encoder =
  ae_w :: 'w
  ae_e :: 'e
  ae_done :: bool

type_synonym 'e amr_encode = "pcm16 \<Rightarrow> 'e \<Rightarrow> bytes \<times> 'e"

function amr_encode_loop :: "nat \<Rightarrow> 'e amr_encode \<Rightarrow> pcm16 \<Rightarrow> bytes \<Rightarrow> bool \<Rightarrow> 'e \<Rightarrow> bytes \<times> bool \<times> 'e" where
  "amr_encode_loop psz enc data buf fin e =
     (if data = [] \<or> psz = 0 then (buf, fin, e)
      else let short = length data < psz;
               data1 = (if short then data @ replicate (psz - length data) 0 else data);
               (out, e1) = enc (take psz data1) e
           in amr_encode_loop psz enc (drop psz data1) (buf @ out) (fin \<or> short) e1)"
  by pat_completeness auto

termination by (relation "measure (\<lambda>(psz, enc, data, buf, fin, e). length data)") auto

declare amr_encode_loop.simps [simp del]

definition amr_block_error :: go_error where
  "amr_block_error = ErrOther ''amrwb: writing frame after a short previous frame''"

definition amr_Encoder_WriteSample :: "nat \<Rightarrow> 'e amr_encode \<Rightarrow> (bytes, 'w) write_fn \<Rightarrow> pcm16 \<Rightarrow> ('e, 'w) amr_encoder \<Rightarrow>
    go_error option \<times> ('e, 'w) amr_encoder" where
  "amr_Encoder_WriteSample psz enc wr data a =
     (if data = [] then (None, a)
      else let blockErr = (if ae_done a then Some amr_block_error else None);
               (buf, fin, e1) = amr_encode_loop psz enc data [] (ae_done a) (ae_e a)
           in if buf \<noteq> [] then
                (let (err, w1) = wr buf (ae_w a) in (if err \<noteq> None then err else blockErr, \<lparr>ae_w = w1, ae_e = e1, ae_done = fin\<rparr>))
              else (blockErr, a\<lparr>ae_e := e1, ae_done := fin\<rparr>))"

definition amr_EncodeWith :: "('w \<Rightarrow> int) \<Rightarrow> ('fmt \<Rightarrow> 'm \<Rightarrow> 'e) \<Rightarrow> 'w \<Rightarrow> 'fmt \<Rightarrow> 'm \<Rightarrow> ('e, 'w) amr_encoder option" where
  "amr_EncodeWith rate newEnc w format mode =
     (if rate w \<noteq> 16000 then None else Some \<lparr>ae_w = w, ae_e = newEnc format mode, ae_done = False\<rparr>)"

definition amr_Encode :: "'m \<Rightarrow> ('w \<Rightarrow> int) \<Rightarrow> ('fmt \<Rightarrow> 'm \<Rightarrow> 'e) \<Rightarrow> 'w \<Rightarrow> 'fmt \<Rightarrow> ('e, 'w) amr_encoder option" where
  "amr_Encode best rate newEnc w format = amr_EncodeWith rate newEnc w format best"

definition amr_Encoder_SampleRate :: "('e, 'w) amr_encoder \<Rightarrow> int" where
  "amr_Encoder_SampleRate a = 16000"

definition amr_Encoder_Close :: "'w close_fn \<Rightarrow> ('e, 'w) amr_encoder close_fn" where
  "amr_Encoder_Close cl a = (let (err, w1) = cl (ae_w a) in (err, a\<lparr>ae_w := w1\<rparr>))"

section \<open>Opus\<close>

definition opus_Size :: "bytes \<Rightarrow> nat" where
  "opus_Size s = length s"

definition opus_CopyTo :: "bytes \<Rightarrow> bytes \<Rightarrow> (nat \<times> go_error option) \<times> bytes" where
  "opus_CopyTo s dst = (if length dst < length s then ((0, Some ErrShortBuffer), dst) else (let (n, d) = go_copy dst s in ((n, None), d)))"

interpretation opus_frame: byte_frame opus_Size opus_CopyTo "\<lambda>s. s"
  by unfold_locales (simp_all add: opus_Size_def opus_CopyTo_def go_copy_def)

text \<open>
  \<open>od_room\<close> is the length of the buffer: 120 ms of samples for every channel.  Its computation wraps at
  64 bits, and making a buffer of negative length panics: the outer \<open>None\<close>.
\<close>

record ('d, 'w) opus_decoder =
  od_w :: 'w
  od_dec :: 'd
  od_room :: nat
  od_channels :: nat
  od_successiveErrorCount :: nat

definition opus_Decode :: "('w \<Rightarrow> int) \<Rightarrow> (int \<Rightarrow> int \<Rightarrow> go_error + 'd) \<Rightarrow> 'w \<Rightarrow> int \<Rightarrow> (go_error + ('d, 'w) opus_decoder) option" where
  "opus_Decode rate newDec w channels =
     (if channels \<noteq> 1 \<and> channels \<noteq> 2 then Some (Inl (ErrOther ''opus decoder only supports mono or stereo output''))
      else case newDec (rate w) channels of Inl e \<Rightarrow> Some (Inl e)
        | Inr d \<Rightarrow>
            let room = go_int64 (go_quot (go_int64 (rate w * 120000000)) 1000000000 * channels)
            in if room < 0 then None
               else Some (Inr \<lparr>od_w = w, od_dec = d, od_room = nat room, od_channels = nat channels, od_successiveErrorCount = 0\<rparr>))"

text \<open>The library's \<open>Decode\<close> gives the count of samples per channel and the buffer after the call.\<close>

type_synonym 'd opus_decode = "bytes \<Rightarrow> nat \<Rightarrow> 'd \<Rightarrow> (go_error + nat \<times> pcm16) \<times> 'd"

definition opus_decoder_WriteSample :: "(go_error \<Rightarrow> bool) \<Rightarrow> 'd opus_decode \<Rightarrow> (pcm16, 'w) write_fn \<Rightarrow> bytes \<Rightarrow> ('d, 'w) opus_decoder \<Rightarrow>
    (go_error option \<times> ('d, 'w) opus_decoder) option" where
  "opus_decoder_WriteSample invalid dec wr data d =
     (if data = [] then Some (None, d)
      else case dec data (od_room d) (od_dec d) of
        (Inl err, d1) \<Rightarrow>
          (if \<not> invalid err \<or> od_successiveErrorCount d \<ge> 5 then Some (Some err, d\<lparr>od_dec := d1\<rparr>)
           else Some (None, d\<lparr>od_dec := d1, od_successiveErrorCount := od_successiveErrorCount d + 1\<rparr>))
      | (Inr (n, buf), d1) \<Rightarrow> do {
          frame \<leftarrow> go_slice buf 0 (n * od_channels d);
          let (err, w1) = wr frame (od_w d);
          Some (err, d\<lparr>od_dec := d1, od_successiveErrorCount := 0, od_w := w1\<rparr>)
        })"

definition opus_decoder_SampleRate :: "('w \<Rightarrow> int) \<Rightarrow> ('d, 'w) opus_decoder \<Rightarrow> int" where
  "opus_decoder_SampleRate rate d = rate (od_w d)"

definition opus_decoder_Close :: "'w close_fn \<Rightarrow> ('d, 'w) opus_decoder close_fn" where
  "opus_decoder_Close cl d = (let (err, w1) = cl (od_w d) in (err, d\<lparr>od_w := w1\<rparr>))"

record EncodeOptions =
  Bitrate :: int
  Complexity :: int
  FEC :: bool
  PacketLossPercent :: int
  MaxPlaybackRate :: int

datatype opus_bandwidth = Narrowband | Mediumband | Wideband | SuperWideband | Fullband

definition maxBandwidth :: "int \<Rightarrow> opus_bandwidth" where
  "maxBandwidth rate =
     (if rate \<le> 8000 then Narrowband else if rate \<le> 12000 then Mediumband else if rate \<le> 16000 then Wideband
      else if rate \<le> 24000 then SuperWideband else Fullband)"

datatype opus_setting = SetBitrate int | SetComplexity int | SetInBandFEC bool | SetPacketLossPerc int | SetMaxBandwidth opus_bandwidth

definition opus_settings :: "EncodeOptions \<Rightarrow> (opus_setting \<times> string) list" where
  "opus_settings opts =
     (if Bitrate opts > 0 then [(SetBitrate (Bitrate opts), ''opus set bitrate'')] else []) @
     (if Complexity opts > 0 then [(SetComplexity (Complexity opts), ''opus set complexity'')] else []) @
     (if FEC opts then (SetInBandFEC True, ''opus set fec'') #
        (if PacketLossPercent opts > 0 then [(SetPacketLossPerc (PacketLossPercent opts), ''opus set packet loss'')] else []) else []) @
     (if MaxPlaybackRate opts > 0 then [(SetMaxBandwidth (maxBandwidth (MaxPlaybackRate opts)), ''opus set max bandwidth'')] else [])"

text \<open>The settings are made in this order, up to the first that fails; its error is wrapped in the message.\<close>

fun opus_apply :: "(opus_setting \<Rightarrow> 'e \<Rightarrow> go_error option \<times> 'e) \<Rightarrow> (opus_setting \<times> string) list \<Rightarrow> 'e \<Rightarrow> go_error + 'e" where
  "opus_apply setf [] e = Inr e"
| "opus_apply setf ((x, msg) # xs) e =
     (case setf x e of (Some _, _) \<Rightarrow> Inl (ErrOther msg) | (None, e1) \<Rightarrow> opus_apply setf xs e1)"

record ('e, 'w) opus_encoder =
  oe_w :: 'w
  oe_enc :: 'e
  oe_room :: nat

definition opus_EncodeWith :: "('w \<Rightarrow> int) \<Rightarrow> (int \<Rightarrow> int \<Rightarrow> go_error + 'e) \<Rightarrow> (opus_setting \<Rightarrow> 'e \<Rightarrow> go_error option \<times> 'e) \<Rightarrow>
    'w \<Rightarrow> int \<Rightarrow> EncodeOptions \<Rightarrow> (go_error + ('e, 'w) opus_encoder) option" where
  "opus_EncodeWith rate newEnc setf w channels opts =
     (case newEnc (rate w) channels of Inl e \<Rightarrow> Some (Inl e)
      | Inr enc \<Rightarrow> case opus_apply setf (opus_settings opts) enc of Inl e \<Rightarrow> Some (Inl e)
        | Inr enc1 \<Rightarrow>
            let room = go_int64 (go_quot (rate w) 50 * channels)
            in if room < 0 then None else Some (Inr \<lparr>oe_w = w, oe_enc = enc1, oe_room = nat room\<rparr>))"

definition opus_Encode :: "('w \<Rightarrow> int) \<Rightarrow> (int \<Rightarrow> int \<Rightarrow> go_error + 'e) \<Rightarrow> (opus_setting \<Rightarrow> 'e \<Rightarrow> go_error option \<times> 'e) \<Rightarrow>
    'w \<Rightarrow> int \<Rightarrow> (go_error + ('e, 'w) opus_encoder) option" where
  "opus_Encode rate newEnc setf w channels =
     opus_EncodeWith rate newEnc setf w channels
       \<lparr>Bitrate = 0, Complexity = 0, FEC = False, PacketLossPercent = 0, MaxPlaybackRate = 0\<rparr>"

definition opus_encoder_SampleRate :: "('w \<Rightarrow> int) \<Rightarrow> ('e, 'w) opus_encoder \<Rightarrow> int" where
  "opus_encoder_SampleRate rate e = rate (oe_w e)"

definition opus_encoder_Close :: "'w close_fn \<Rightarrow> ('e, 'w) opus_encoder close_fn" where
  "opus_encoder_Close cl e = (let (err, w1) = cl (oe_w e) in (err, e\<lparr>oe_w := w1\<rparr>))"

definition opus_encoder_WriteSample :: "(pcm16 \<Rightarrow> nat \<Rightarrow> 'e \<Rightarrow> (go_error + nat \<times> bytes) \<times> 'e) \<Rightarrow> (bytes, 'w) write_fn \<Rightarrow> pcm16 \<Rightarrow>
    ('e, 'w) opus_encoder \<Rightarrow> (go_error option \<times> ('e, 'w) opus_encoder) option" where
  "opus_encoder_WriteSample enc wr data e =
     (case enc data (oe_room e) (oe_enc e) of
        (Inl err, e1) \<Rightarrow> Some (Some err, e\<lparr>oe_enc := e1\<rparr>)
      | (Inr (n, buf), e1) \<Rightarrow> do {
          frame \<leftarrow> go_slice buf 0 n;
          let (err, w1) = wr frame (oe_w e);
          Some (err, e\<lparr>oe_enc := e1, oe_w := w1\<rparr>)
        })"

section \<open>G.722\<close>

definition g722_Size :: "bytes \<Rightarrow> nat" where
  "g722_Size s = length s"

definition g722_CopyTo :: "bytes \<Rightarrow> bytes \<Rightarrow> (nat \<times> go_error option) \<times> bytes" where
  "g722_CopyTo s dst = (if length dst < length s then ((0, Some ErrShortBuffer), dst) else (let (n, d) = go_copy dst s in ((n, None), d)))"

interpretation g722_frame: byte_frame g722_Size g722_CopyTo "\<lambda>s. s"
  by unfold_locales (simp_all add: g722_Size_def g722_CopyTo_def go_copy_def)

text \<open>\<open>g_8k\<close> is the flag \<open>FlagSampleRate8000\<close>; \<open>g_buf\<close> is the reused buffer, as long as its capacity.\<close>

record ('b, 'c, 'w) g722_writer =
  g_w :: 'w
  g_8k :: bool
  g_coder :: 'c
  g_buf :: "'b list"

definition g722_decodeSize :: "bool \<Rightarrow> nat \<Rightarrow> nat" where
  "g722_decodeSize is8k n = n * (if is8k then 1 else 2)"

definition g722_encodeSize :: "bool \<Rightarrow> nat \<Rightarrow> nat" where
  "g722_encodeSize is8k n = (let d = (if is8k then 1 else 2); m = n div d in if n mod d \<noteq> 0 then m + 1 else m)"

text \<open>\<open>WriteSample\<close> of the decoder, which that of the encoder repeats with its sizes: a buffer of the size, then \<open>code buf data\<close> gives the count and the buffer after it.\<close>

definition g722_WriteSample :: "(bool \<Rightarrow> nat \<Rightarrow> nat) \<Rightarrow> ('b::zero list \<Rightarrow> 'a list \<Rightarrow> 'c \<Rightarrow> nat \<times> 'b list \<times> 'c) \<Rightarrow> ('b list, 'w) write_fn \<Rightarrow>
    'a list \<Rightarrow> ('b, 'c, 'w) g722_writer \<Rightarrow> (go_error option \<times> ('b, 'c, 'w) g722_writer) option" where
  "g722_WriteSample size_of code wr data g =
     (let sz = size_of (g_8k g) (length data);
          buf = (if length (g_buf g) < sz then replicate sz 0 else g_buf g);
          (n, buf1, c1) = code buf data (g_coder g)
      in do {
        frame \<leftarrow> go_slice buf1 0 n;
        let (err, w1) = wr frame (g_w g);
        Some (err, g\<lparr>g_w := w1, g_coder := c1, g_buf := buf1\<rparr>)
      })"

definition g722_Encoder_WriteSample :: "(u8 list \<Rightarrow> pcm16 \<Rightarrow> 'c \<Rightarrow> nat \<times> u8 list \<times> 'c) \<Rightarrow> (bytes, 'w) write_fn \<Rightarrow>
    pcm16 \<Rightarrow> (u8, 'c, 'w) g722_writer \<Rightarrow> (go_error option \<times> (u8, 'c, 'w) g722_writer) option" where
  "g722_Encoder_WriteSample enc wr data g = g722_WriteSample g722_encodeSize enc wr data g"

definition g722_SampleRate :: "('w \<Rightarrow> int) \<Rightarrow> ('b, 'c, 'w) g722_writer \<Rightarrow> int" where
  "g722_SampleRate rate g = rate (g_w g)"

definition g722_Close :: "'w close_fn \<Rightarrow> ('b, 'c, 'w) g722_writer close_fn" where
  "g722_Close cl g = (let (err, w1) = cl (g_w g) in (err, g\<lparr>g_w := w1\<rparr>))"

text \<open>
  The constructors.  \<open>toFile\<close> is the number of the pair of files if the writers are dumped; \<open>dump_w\<close> and
  \<open>dump_w2\<close> dump what is written to the writer below and to the result, \<open>mk\<close> is the result as such a writer.
\<close>

definition g722_Decode :: "('w \<Rightarrow> int) \<Rightarrow> ('w \<Rightarrow> int \<Rightarrow> 'w) \<Rightarrow> (bool \<Rightarrow> 'c) \<Rightarrow> (string \<Rightarrow> 'w \<Rightarrow> 'w option) \<Rightarrow> (string \<Rightarrow> 'v \<Rightarrow> 'v option) \<Rightarrow>
    ((i16, 'c, 'w) g722_writer \<Rightarrow> 'v) \<Rightarrow> nat option \<Rightarrow> 'w \<Rightarrow> 'v option" where
  "g722_Decode rate resample newCoder dump_w dump_w2 mk toFile w =
     (let is8k = (rate w = 8000); w1 = (if rate w = 8000 \<or> rate w = 16000 then w else resample w 16000)
      in case toFile of
        None \<Rightarrow> Some (mk \<lparr>g_w = w1, g_8k = is8k, g_coder = newCoder is8k, g_buf = []\<rparr>)
      | Some num \<Rightarrow> do {
          let pref = ''sip_g722_dec_'' @ Itoa (int num);
          w2 \<leftarrow> dump_w (pref @ ''_out'') w1;
          dump_w2 (pref @ ''_in'') (mk \<lparr>g_w = w2, g_8k = is8k, g_coder = newCoder is8k, g_buf = []\<rparr>) })"

definition g722_Encode :: "('w \<Rightarrow> int) \<Rightarrow> (bool \<Rightarrow> 'c) \<Rightarrow> (string \<Rightarrow> 'w \<Rightarrow> 'w option) \<Rightarrow> (string \<Rightarrow> 'v \<Rightarrow> 'v option) \<Rightarrow>
    ((u8, 'c, 'w) g722_writer \<Rightarrow> 'v) \<Rightarrow> nat option \<Rightarrow> 'w \<Rightarrow> 'v option" where
  "g722_Encode rate newCoder dump_w dump_w2 mk toFile w =
     (if rate w \<noteq> 8000 \<and> rate w \<noteq> 16000 then None
      else let is8k = (rate w = 8000)
        in case toFile of
          None \<Rightarrow> Some (mk \<lparr>g_w = w, g_8k = is8k, g_coder = newCoder is8k, g_buf = []\<rparr>)
        | Some num \<Rightarrow> do {
            let pref = ''sip_g722_enc_'' @ Itoa (int num);
            w1 \<leftarrow> dump_w (pref @ ''_out'') w;
            dump_w2 (pref @ ''_in'') (mk \<lparr>g_w = w1, g_8k = is8k, g_coder = newCoder is8k, g_buf = []\<rparr>) })"

section \<open>WebM blocks\<close>

text \<open>The writer of simple blocks is a parameter, called with the timestamp in milliseconds and the bytes.\<close>

record webm_track =
  tr_Name :: string
  tr_TrackNumber :: nat
  tr_TrackUID :: u64
  tr_CodecID :: string
  tr_TrackType :: nat
  tr_DefaultDuration :: u64
  tr_SamplingFrequency :: int
  tr_Channels :: u64

record 'w webm_writer =
  wm_codec :: string
  wm_ws :: 'w
  wm_channels :: int
  wm_sampleRate :: int
  wm_dur :: ns
  wm_ts :: int
  wm_buf :: bytes

text \<open>
  \<open>create\<close> is the library's constructor of the container, with a writer for every track, and \<open>uid\<close> the random
  number; \<open>None\<close> is a panic.
\<close>

definition webm_NewWriter :: "('f \<Rightarrow> webm_track list \<Rightarrow> go_error + 'w list) \<Rightarrow> u64 \<Rightarrow> 'f \<Rightarrow> string \<Rightarrow> int \<Rightarrow> int \<Rightarrow> ns \<Rightarrow> 'w webm_writer option" where
  "webm_NewWriter create uid w codec channels sampleRate sampleDur =
     (case create w [\<lparr>tr_Name = ''Audio'', tr_TrackNumber = 1, tr_TrackUID = uid, tr_CodecID = codec, tr_TrackType = 2,
         tr_DefaultDuration = word_of_int sampleDur, tr_SamplingFrequency = sampleRate, tr_Channels = word_of_int channels\<rparr>] of
        Inl _ \<Rightarrow> None
      | Inr ws \<Rightarrow> do {
          ws0 \<leftarrow> go_index ws 0;
          Some \<lparr>wm_codec = codec, wm_ws = ws0, wm_channels = channels, wm_sampleRate = sampleRate, wm_dur = sampleDur, wm_ts = 0, wm_buf = []\<rparr> })"

definition webm_NewPCM16Writer :: "('f \<Rightarrow> webm_track list \<Rightarrow> go_error + 'w list) \<Rightarrow> u64 \<Rightarrow> 'f \<Rightarrow> int \<Rightarrow> int \<Rightarrow> ns \<Rightarrow> 'w webm_writer option" where
  "webm_NewPCM16Writer create uid w sampleRate channels sampleDur = webm_NewWriter create uid w ''A_PCM/INT/LIT'' channels sampleRate sampleDur"

definition opus_NewWebmWriter :: "('f \<Rightarrow> webm_track list \<Rightarrow> go_error + 'w list) \<Rightarrow> u64 \<Rightarrow> 'f \<Rightarrow> int \<Rightarrow> int \<Rightarrow> ns \<Rightarrow> 'w webm_writer option" where
  "opus_NewWebmWriter create uid w sampleRate channels sampleDur = webm_NewWriter create uid w ''A_OPUS'' channels sampleRate sampleDur"

definition webm_String :: "'w webm_writer \<Rightarrow> string" where
  "webm_String w = ''WEBM('' @ wm_codec w @ '','' @ Itoa (wm_channels w) @ '','' @ Itoa (wm_sampleRate w) @ '')''"

definition webm_SampleRate :: "'w webm_writer \<Rightarrow> int" where
  "webm_SampleRate w = wm_sampleRate w"

definition webm_WriteSample :: "('f \<Rightarrow> nat) \<Rightarrow> ('f \<Rightarrow> bytes \<Rightarrow> (nat \<times> go_error option) \<times> bytes) \<Rightarrow> (int \<times> bytes, 'w) write_fn \<Rightarrow>
    ('f, 'w webm_writer) write_fn" where
  "webm_WriteSample size_of copy_to wr sample w =
     (let sz = size_of sample;
          back = (if length (wm_buf w) < sz then replicate sz 0 else wm_buf w);
          ((n, err), buf) = copy_to sample (take sz back);
          w1 = w\<lparr>wm_buf := buf @ drop sz back\<rparr>
      in if err \<noteq> None then (err, w1)
         else (let (err2, ws1) = wr (wm_ts w, take n buf) (wm_ws w)
               in (err2, w1\<lparr>wm_ws := ws1, wm_ts := wm_ts w + go_quot (wm_dur w) 1000000\<rparr>)))"

definition webm_Close :: "'w close_fn \<Rightarrow> 'w webm_writer close_fn" where
  "webm_Close cl w = (let (err, ws1) = cl (wm_ws w) in (err, w\<lparr>wm_ws := ws1\<rparr>))"

context byte_frame
begin

lemma webm_WriteSample_frame:
  "\<exists>buf. webm_WriteSample size_of copy_to wr s w =
     (let (err, ws1) = wr (wm_ts w, bytes_of s) (wm_ws w)
      in (err, w\<lparr>wm_buf := buf, wm_ws := ws1, wm_ts := wm_ts w + go_quot (wm_dur w) 1000000\<rparr>))"
  using reused [of s "wm_buf w"] size [of s] by (auto simp: webm_WriteSample_def Let_def split_beta)

end

text \<open>Frames written one after the other, with the errors.\<close>

fun webm_run :: "('f, 'w webm_writer) write_fn \<Rightarrow> 'f list \<Rightarrow> 'w webm_writer \<Rightarrow> go_error option list \<times> 'w webm_writer" where
  "webm_run wr [] w = ([], w)"
| "webm_run wr (x # xs) w = (let (err, w1) = wr x w; (errs, w2) = webm_run wr xs w1 in (err # errs, w2))"

text \<open>The blocks of the frames: each with its own bytes, a whole number of milliseconds after the one before.\<close>

fun webm_blocks :: "('f \<Rightarrow> bytes) \<Rightarrow> ns \<Rightarrow> int \<Rightarrow> 'f list \<Rightarrow> (int \<times> bytes) list" where
  "webm_blocks bytes_of dur ts [] = []"
| "webm_blocks bytes_of dur ts (x # xs) = (ts, bytes_of x) # webm_blocks bytes_of dur (ts + go_quot dur 1000000) xs"

lemma webm_blocks_length [simp]: "length (webm_blocks bytes_of dur ts xs) = length xs"
  by (induction xs arbitrary: ts) simp_all

lemma webm_blocks_nth: "i < length xs \<Longrightarrow> webm_blocks bytes_of dur ts xs ! i = (ts + int i * go_quot dur 1000000, bytes_of (xs ! i))"
  by (induction xs arbitrary: i ts) (auto simp: nth_Cons algebra_simps split: nat.splits)

context byte_frame
begin

lemma webm_run_blocks:
  assumes "webm_run (webm_WriteSample size_of copy_to (history_write answer)) xs w = (errs, w')"
  shows "wm_ws w' = wm_ws w @ webm_blocks bytes_of (wm_dur w) (wm_ts w) xs \<and> length errs = length xs \<and>
    (\<forall>i < length xs. errs ! i = answer (wm_ws w @ take i (webm_blocks bytes_of (wm_dur w) (wm_ts w) xs))
        (webm_blocks bytes_of (wm_dur w) (wm_ts w) xs ! i))"
  using assms
proof (induction xs arbitrary: w errs)
  case (Cons x xs)
  obtain buf where x: "webm_WriteSample size_of copy_to (history_write answer) x w = (answer (wm_ws w) (wm_ts w, bytes_of x),
      w\<lparr>wm_buf := buf, wm_ws := wm_ws w @ [(wm_ts w, bytes_of x)], wm_ts := wm_ts w + go_quot (wm_dur w) 1000000\<rparr>)"
    using webm_WriteSample_frame [of "history_write answer" x w] by (auto simp: history_write_def)
  define w1 where "w1 = w\<lparr>wm_buf := buf, wm_ws := wm_ws w @ [(wm_ts w, bytes_of x)], wm_ts := wm_ts w + go_quot (wm_dur w) 1000000\<rparr>"
  obtain errs1 w1' where r: "webm_run (webm_WriteSample size_of copy_to (history_write answer)) xs w1 = (errs1, w1')" by fastforce
  then have "w1' = w'" "errs = answer (wm_ws w) (wm_ts w, bytes_of x) # errs1"
    using Cons.prems x by (simp_all add: w1_def)
  with r Cons.IH [of w1 errs1] show ?case by (auto simp: w1_def nth_Cons split: nat.splits)
qed simp

end

section \<open>AMR-WB frames\<close>

text \<open>A decoder that makes progress ends; an encoder sees its input in frames, the last one padded.\<close>

lemma amr_decode_loop_returns:
  assumes "\<And>x d n frame d1. x \<noteq> [] \<Longrightarrow> dec x d = (Inr (n, frame), d1) \<Longrightarrow> 0 < n \<and> n \<le> length x"
  shows "\<exists>r. amr_decode_loop dec data buf d = Some r"
proof (induction "length data" arbitrary: data buf d rule: less_induct)
  case less
  obtain res d1 where d: "dec data d = (res, d1)" by fastforce
  show ?case
  proof (cases "data = [] \<or> isl res")
    case True
    with d show ?thesis by (subst amr_decode_loop.simps) (auto simp: isl_def)
  next
    case False
    then obtain n frame where n: "res = Inr (n, frame)" by (metis isl_def old.prod.exhaust old.sum.exhaust)
    with assms [of data d n frame d1] d False have "0 < n \<and> n \<le> length data" by simp
    with less.hyps [of "drop n data" "buf @ frame" d1] d n False show ?thesis by (subst amr_decode_loop.simps) auto
  qed
qed

definition pad_to :: "nat \<Rightarrow> pcm16 \<Rightarrow> pcm16" where
  "pad_to psz x = x @ replicate ((psz - length x mod psz) mod psz) 0"

fun encode_all :: "'e amr_encode \<Rightarrow> pcm16 list \<Rightarrow> 'e \<Rightarrow> bytes \<times> 'e" where
  "encode_all enc [] e = ([], e)"
| "encode_all enc (f # fs) e = (let (out, e1) = enc f e; (rest, e2) = encode_all enc fs e1 in (out @ rest, e2))"

lemma pad_to_short: "0 < psz \<Longrightarrow> x \<noteq> [] \<Longrightarrow> length x < psz \<Longrightarrow> pad_to psz x = x @ replicate (psz - length x) 0"
  by (simp add: pad_to_def)

lemma pad_to_drop: "psz \<le> length x \<Longrightarrow> drop psz (pad_to psz x) = pad_to psz (drop psz x)"
  by (simp add: pad_to_def le_mod_geq)

lemma amr_encode_loop_frames:
  assumes "0 < psz"
  shows "amr_encode_loop psz enc data buf fin e =
    (let (out, e1) = encode_all enc (chunks psz (pad_to psz data)) e in (buf @ out, fin \<or> length data mod psz \<noteq> 0, e1))"
proof (induction "length data" arbitrary: data buf fin e rule: less_induct)
  case less
  consider "data = []" | "data \<noteq> []" "length data < psz" | "psz \<le> length data" by linarith
  then show ?case
  proof cases
    case 1
    with assms show ?thesis by (simp add: amr_encode_loop.simps [of psz] pad_to_def)
  next
    case 2
    then have "chunks psz (pad_to psz data) = [pad_to psz data]" "pad_to psz data = data @ replicate (psz - length data) 0"
      using assms by (simp_all add: pad_to_short chunks_short)
    with 2 assms show ?thesis
      by (subst amr_encode_loop.simps) (simp add: Let_def split_beta amr_encode_loop.simps [of psz enc "[]"])
  next
    case 3
    with assms have ne: "data \<noteq> []" "pad_to psz data \<noteq> []" by (auto simp: pad_to_def)
    have "take psz (pad_to psz data) = take psz data" using 3 by (simp add: pad_to_def)
    then have "chunks psz (pad_to psz data) = take psz data # chunks psz (pad_to psz (drop psz data))"
      using 3 assms ne by (simp add: chunks_step pad_to_drop)
    moreover have "length data mod psz = length (drop psz data) mod psz" using 3 assms by (simp add: le_mod_geq)
    moreover have "length (drop psz data) < length data" using 3 assms ne by simp
    ultimately show ?thesis
      using 3 assms ne less.hyps [of "drop psz data"]
      by (subst amr_encode_loop.simps) (simp add: Let_def split_beta)
  qed
qed

fun amr_run :: "nat \<Rightarrow> 'e amr_encode \<Rightarrow> (bytes, 'w) write_fn \<Rightarrow> pcm16 list \<Rightarrow> ('e, 'w) amr_encoder \<Rightarrow> go_error option list \<times> ('e, 'w) amr_encoder" where
  "amr_run psz enc wr [] a = ([], a)"
| "amr_run psz enc wr (x # xs) a =
     (let (err, a1) = amr_Encoder_WriteSample psz enc wr x a; (errs, a2) = amr_run psz enc wr xs a1 in (err # errs, a2))"

lemma encode_all_append: "encode_all enc (xs @ ys) e =
    (let (a, e1) = encode_all enc xs e; (b, e2) = encode_all enc ys e1 in (a @ b, e2))"
  by (induction xs arbitrary: e) (simp_all add: split_beta Let_def)

text \<open>
  Any frames written to the encoder are encoded in order in frames of the library's size, each write padded to
  them; the error is reported exactly for the non-empty writes after one that had to be padded, which are
  encoded all the same.
\<close>

theorem amr_encoder_frames:
  assumes "0 < psz" "amr_run psz enc frameWriter_WriteSample xs a = (errs, a')"
  shows "length errs = length xs" "concat (ae_w a') = concat (ae_w a) @ fst (encode_all enc (concat (map (\<lambda>x. chunks psz (pad_to psz x)) xs)) (ae_e a))"
    "ae_done a' = (ae_done a \<or> list_ex (\<lambda>x. length x mod psz \<noteq> 0) xs)"
    "\<And>i. i < length xs \<Longrightarrow> errs ! i = (if xs ! i \<noteq> [] \<and> (ae_done a \<or> list_ex (\<lambda>x. length x mod psz \<noteq> 0) (take i xs))
        then Some amr_block_error else None)"
proof -
  have "length errs = length xs \<and> concat (ae_w a') = concat (ae_w a) @ fst (encode_all enc (concat (map (\<lambda>x. chunks psz (pad_to psz x)) xs)) (ae_e a)) \<and>
    ae_done a' = (ae_done a \<or> list_ex (\<lambda>x. length x mod psz \<noteq> 0) xs) \<and>
    (\<forall>i < length xs. errs ! i = (if xs ! i \<noteq> [] \<and> (ae_done a \<or> list_ex (\<lambda>x. length x mod psz \<noteq> 0) (take i xs))
        then Some amr_block_error else None))"
    using assms(2)
  proof (induction xs arbitrary: a errs)
    case (Cons x xs)
    obtain err a1 where w: "amr_Encoder_WriteSample psz enc frameWriter_WriteSample x a = (err, a1)" by fastforce
    define errs1 where "errs1 = fst (amr_run psz enc frameWriter_WriteSample xs a1)"
    have r: "amr_run psz enc frameWriter_WriteSample xs a1 = (errs1, a')" "errs = err # errs1"
      using Cons.prems w by (auto simp: split_beta errs1_def)
    obtain out e1 where enc: "encode_all enc (chunks psz (pad_to psz x)) (ae_e a) = (out, e1)" by fastforce
    have a1: "concat (ae_w a1) = concat (ae_w a) @ out" "ae_e a1 = e1" "ae_done a1 = (ae_done a \<or> length x mod psz \<noteq> 0)"
      "err = (if x \<noteq> [] \<and> ae_done a then Some amr_block_error else None)"
      using w enc assms(1)
      by (auto simp: amr_Encoder_WriteSample_def amr_encode_loop_frames Let_def split_beta frameWriter_WriteSample_def pad_to_def split: if_splits)
    show ?case
      using Cons.IH [OF r(1)] a1 enc r(2) by (auto simp: encode_all_append split_beta Let_def nth_Cons take_Cons' split: nat.splits)
  qed simp
  then show "length errs = length xs" "concat (ae_w a') = concat (ae_w a) @ fst (encode_all enc (concat (map (\<lambda>x. chunks psz (pad_to psz x)) xs)) (ae_e a))"
    "ae_done a' = (ae_done a \<or> list_ex (\<lambda>x. length x mod psz \<noteq> 0) xs)"
    "\<And>i. i < length xs \<Longrightarrow> errs ! i = (if xs ! i \<noteq> [] \<and> (ae_done a \<or> list_ex (\<lambda>x. length x mod psz \<noteq> 0) (take i xs))
        then Some amr_block_error else None)" by blast+
qed

section \<open>Opus errors\<close>

text \<open>A run of packets, and what the library makes of each of them: nothing of an empty one.\<close>

fun opus_run :: "(go_error \<Rightarrow> bool) \<Rightarrow> 'd opus_decode \<Rightarrow> (pcm16, 'w) write_fn \<Rightarrow> bytes list \<Rightarrow> ('d, 'w) opus_decoder \<Rightarrow>
    (go_error option list \<times> ('d, 'w) opus_decoder) option" where
  "opus_run invalid dec wr [] d = Some ([], d)"
| "opus_run invalid dec wr (p # ps) d = do {
     (err, d1) \<leftarrow> opus_decoder_WriteSample invalid dec wr p d;
     (errs, d2) \<leftarrow> opus_run invalid dec wr ps d1;
     Some (err # errs, d2)
   }"

fun opus_outcomes :: "'d opus_decode \<Rightarrow> nat \<Rightarrow> bytes list \<Rightarrow> 'd \<Rightarrow> (go_error + nat \<times> pcm16) option list" where
  "opus_outcomes dec room [] d = []"
| "opus_outcomes dec room (p # ps) d =
     (if p = [] then None # opus_outcomes dec room ps d
      else let (res, d1) = dec p room d in Some res # opus_outcomes dec room ps d1)"

definition opus_results :: "(go_error + nat \<times> pcm16) option list \<Rightarrow> (go_error + nat \<times> pcm16) list" where
  "opus_results outs = map the (filter (\<lambda>r. r \<noteq> None) outs)"

lemma opus_results_append [simp]: "opus_results (xs @ ys) = opus_results xs @ opus_results ys"
  by (simp add: opus_results_def)

lemma opus_results_simps [simp]: "opus_results [] = []" "opus_results (None # outs) = opus_results outs"
  "opus_results (Some r # outs) = r # opus_results outs"
  by (simp_all add: opus_results_def)

text \<open>The invalid packets since the last one that decoded, in a history of results.\<close>

definition invalid_since :: "(go_error \<Rightarrow> bool) \<Rightarrow> (go_error + nat \<times> pcm16) list \<Rightarrow> nat" where
  "invalid_since invalid outs = length (filter (\<lambda>r. invalid (projl r)) (takeWhile isl (rev outs)))"

definition opus_frames :: "nat \<Rightarrow> (go_error + nat \<times> pcm16) list \<Rightarrow> pcm16 list" where
  "opus_frames channels outs = map (\<lambda>r. take (fst (projr r) * channels) (snd (projr r))) (filter (\<lambda>r. \<not> isl r) outs)"

text \<open>
  What the \<open>i\<close>th write returns: the answer of the writer below, which got \<open>w\<close> and the frames decoded
  before, to a frame that decoded; the error of a failed one, unless it is hidden.
\<close>

definition opus_result :: "(go_error \<Rightarrow> bool) \<Rightarrow> (pcm16 list \<Rightarrow> pcm16 \<Rightarrow> go_error option) \<Rightarrow> pcm16 list \<Rightarrow> nat \<Rightarrow>
    (go_error + nat \<times> pcm16) option list \<Rightarrow> nat \<Rightarrow> go_error option" where
  "opus_result invalid answer w channels outs i =
     (let before = opus_results (take i outs)
      in case outs ! i of None \<Rightarrow> None
         | Some (Inr (n, buf)) \<Rightarrow> answer (w @ opus_frames channels before) (take (n * channels) buf)
         | Some (Inl e) \<Rightarrow> if invalid e \<and> invalid_since invalid before < 5 then None else Some e)"

lemma opus_frames_append: "opus_frames channels (xs @ ys) = opus_frames channels xs @ opus_frames channels ys"
  by (simp add: opus_frames_def)

lemma invalid_since_snoc:
  "invalid_since invalid (outs @ [Inr x]) = 0"
  "invalid_since invalid (outs @ [Inl e]) = invalid_since invalid outs + (if invalid e then 1 else 0)"
  by (simp_all add: invalid_since_def)

text \<open>One packet: the state of the decoder speaks of the results so far.\<close>

definition opus_state :: "(go_error \<Rightarrow> bool) \<Rightarrow> pcm16 list \<Rightarrow> (go_error + nat \<times> pcm16) option list \<Rightarrow>
    ('d, pcm16 list) opus_decoder \<Rightarrow> bool" where
  "opus_state invalid w before d \<longleftrightarrow> od_successiveErrorCount d = min 5 (invalid_since invalid (opus_results before)) \<and>
     od_w d = w @ opus_frames (od_channels d) (opus_results before)"

lemma opus_write_outcome:
  assumes "opus_state invalid w before d" "outs = opus_outcomes dec (od_room d) (p # ps) (od_dec d)"
    and "\<And>n buf d1. dec p (od_room d) (od_dec d) = (Inr (n, buf), d1) \<Longrightarrow> n * od_channels d \<le> length buf"
  shows "\<exists>d1. opus_decoder_WriteSample invalid dec (history_write answer) p d =
      Some (opus_result invalid answer w (od_channels d) (before @ outs) (length before), d1) \<and>
    opus_state invalid w (before @ [hd outs]) d1 \<and> od_room d1 = od_room d \<and> od_channels d1 = od_channels d \<and>
    tl outs = opus_outcomes dec (od_room d1) ps (od_dec d1)"
proof (cases "p = []")
  case True
  with assms(1,2) show ?thesis
    by (auto simp: opus_decoder_WriteSample_def opus_result_def opus_state_def)
next
  case False
  obtain res c1 where dec: "dec p (od_room d) (od_dec d) = (res, c1)" by fastforce
  have outs: "outs = Some res # opus_outcomes dec (od_room d) ps c1" using assms(2) dec False by simp
  show ?thesis
  proof (cases res)
    case (Inl e)
    with False dec assms(1) outs show ?thesis
      by (auto simp: opus_decoder_WriteSample_def opus_result_def opus_state_def invalid_since_snoc opus_frames_append
          opus_frames_def [of _ "[Inl e]"])
  next
    case (Inr nb)
    obtain n buf where nb: "nb = (n, buf)" by fastforce
    with Inr dec assms(3) [of n buf c1] have "n * od_channels d \<le> length buf" by simp
    with False dec Inr nb assms(1) outs show ?thesis
      by (auto simp: opus_decoder_WriteSample_def opus_result_def opus_state_def invalid_since_snoc opus_frames_append
          opus_frames_def [of _ "[Inr (n, buf)]"] go_slice_def history_write_def)
  qed
qed

lemma opus_run_outcomes:
  assumes "\<And>p d n buf d1. dec p (od_room d0) d = (Inr (n, buf), d1) \<Longrightarrow> n * od_channels d0 \<le> length buf"
    "od_room d = od_room d0" "od_channels d = od_channels d0" "opus_state invalid w before d"
    "outs = opus_outcomes dec (od_room d) ps (od_dec d)"
  shows "\<exists>d'. opus_run invalid dec (history_write answer) ps d =
      Some (map (\<lambda>i. opus_result invalid answer w (od_channels d0) (before @ outs) (length before + i)) [0..<length ps], d') \<and>
    od_w d' = w @ opus_frames (od_channels d0) (opus_results (before @ outs))"
  using assms(2-)
proof (induction ps arbitrary: d before outs)
  case Nil
  then show ?case by (simp add: opus_state_def)
next
  case (Cons p ps)
  have room: "dec p (od_room d) (od_dec d) = (Inr (n, buf), d1) \<Longrightarrow> n * od_channels d \<le> length buf" for n buf d1
    using assms(1) [of p "od_dec d" n buf d1] Cons.prems(1,2) by simp
  obtain d1 where
    d1: "opus_decoder_WriteSample invalid dec (history_write answer) p d =
      Some (opus_result invalid answer w (od_channels d) (before @ outs) (length before), d1)"
    "opus_state invalid w (before @ [hd outs]) d1" "od_room d1 = od_room d" "od_channels d1 = od_channels d"
    "tl outs = opus_outcomes dec (od_room d1) ps (od_dec d1)"
    using opus_write_outcome [where answer = answer, OF Cons.prems(3,4)] room by blast
  have outs: "(before @ [hd outs]) @ tl outs = before @ outs"
    using Cons.prems(4) by (cases outs) (auto simp: split_beta split: if_splits)
  from Cons.IH [OF _ _ d1(2,5)] d1(3,4) Cons.prems(1,2) obtain d' where
    "opus_run invalid dec (history_write answer) ps d1 =
      Some (map (\<lambda>i. opus_result invalid answer w (od_channels d0) (before @ outs) (length (before @ [hd outs]) + i)) [0..<length ps], d')"
    "od_w d' = w @ opus_frames (od_channels d0) (opus_results (before @ outs))" unfolding outs by auto
  moreover have "[0..<length (p # ps)] = 0 # map Suc [0..<length ps]" by (simp add: upt_conv_Cons map_Suc_upt del: upt_Suc)
  moreover have "length (before @ [hd outs]) + i = length before + Suc i" for i by simp
  ultimately show ?case using d1(1) Cons.prems(2)
    by (simp only: opus_run.simps bind.bind_lunit prod.case list.map map_map o_def add_0_right) blast
qed

section \<open>Properties\<close>

text \<open>
  C39: a WebM file keeps every PCM16 frame as a block of its own.  Whatever the container answers, frame \<open>i\<close>
  is passed to it once and in order, as its little-endian samples, whatever sizes the frames before it had;
  its timestamp is \<open>i\<close> times the whole milliseconds of the frame duration, also after errors, and the error of a
  write is the container's.  So frames that do not last whole milliseconds are stamped too early.
\<close>

theorem webm_PCM16_blocks:
  assumes "webm_NewPCM16Writer create uid f rate channels dur = Some w" "create f [tr] = Inr ([] # others)"
    "tr = \<lparr>tr_Name = ''Audio'', tr_TrackNumber = 1, tr_TrackUID = uid, tr_CodecID = ''A_PCM/INT/LIT'', tr_TrackType = 2,
       tr_DefaultDuration = word_of_int dur, tr_SamplingFrequency = rate, tr_Channels = word_of_int channels\<rparr>"
    "webm_run (webm_WriteSample pcm_Size pcm_CopyTo (history_write answer)) xs w = (errs, w')"
  shows "length (wm_ws w') = length xs \<and> length errs = length xs \<and>
    (\<forall>i < length xs. wm_ws w' ! i = (int i * go_quot dur 1000000, concat (map put_le16 (xs ! i))) \<and>
       errs ! i = answer (take i (wm_ws w')) (wm_ws w' ! i))"
proof -
  have w: "wm_ws w = []" "wm_dur w = dur" "wm_ts w = 0"
    using assms(1-3) by (auto simp: webm_NewPCM16Writer_def webm_NewWriter_def go_index_def)
  from pcm_frame.webm_run_blocks [OF assms(4)] show ?thesis
    unfolding w by (simp add: webm_blocks_nth pcm_bytes_def)
qed

theorem webm_PCM16_blocks_witness:
  "\<exists>w errs w'. webm_NewPCM16Writer (\<lambda>_ _. Inr [[] :: (int \<times> bytes) list]) 7 () 8000 1 2500000 = Some w \<and>
    webm_run (webm_WriteSample pcm_Size pcm_CopyTo (history_write (\<lambda>_ _. None))) [[1, 2], [], [3]] w = (errs, w') \<and>
    length (wm_ws w') = 3 \<and> fst (wm_ws w' ! 1) = 2 \<and> fst (wm_ws w' ! 2) = 4"
proof -
  obtain w where w: "webm_NewPCM16Writer (\<lambda>_ _. Inr [[] :: (int \<times> bytes) list]) 7 () 8000 1 2500000 = Some w"
    by (simp add: webm_NewPCM16Writer_def webm_NewWriter_def go_index_def)
  obtain errs w' where r: "webm_run (webm_WriteSample pcm_Size pcm_CopyTo (history_write (\<lambda>_ _. None))) [[1, 2], [], [3]] w = (errs, w')"
    by fastforce
  from webm_PCM16_blocks [OF w refl refl r] have "length (wm_ws w') = 3"
    "\<forall>i < 3. fst (wm_ws w' ! i) = int i * go_quot 2500000 1000000" by simp_all
  moreover have "go_quot 2500000 1000000 = 2" by (simp add: go_quot_def)
  ultimately show ?thesis using w r by simp
qed

text \<open>
  C38: the Opus decoder hides at most five invalid packets in a row.  For any packets, any behaviour of the
  library and any answers of the writer below, an empty packet does nothing; a packet that decodes is passed
  to the writer below as the samples the library counted, and the write returns what that writer answers; a
  packet that does not decode writes nothing, and its error is returned unless the library calls the packet
  invalid and fewer than five invalid ones came since the last that decoded.  The hypothesis is that the
  library does not count more samples than it has written to the buffer.
\<close>

theorem opus_hides_five_invalid:
  assumes "opus_Decode rate newDec w channels = Some (Inr d)"
    "\<And>p x n buf x1. dec p (od_room d) x = (Inr (n, buf), x1) \<Longrightarrow> n * od_channels d \<le> length buf"
    "outs = opus_outcomes dec (od_room d) ps (od_dec d)"
  shows "\<exists>d'. opus_run invalid dec (history_write answer) ps d =
      Some (map (opus_result invalid answer w (nat channels) outs) [0..<length ps], d') \<and>
    od_w d' = w @ opus_frames (nat channels) (opus_results outs)"
proof -
  have d: "opus_state invalid w [] d" "od_channels d = nat channels"
    using assms(1)
    by (auto simp: opus_Decode_def opus_state_def invalid_since_def opus_frames_def Let_def split: if_splits sum.splits)
  from opus_run_outcomes [OF assms(2) refl refl d(1) assms(3)] d(2) show ?thesis by simp
qed

text \<open>
  A decoder without state: the packet \<open>[0]\<close> is invalid, others are one sample.  The writer below fails on
  its second frame.
\<close>

definition toy_opus :: "unit opus_decode" where
  "toy_opus p room d = (if p = [0] then Inl (ErrOther ''invalid packet'') else Inr (1, [9]), ())"

theorem opus_hides_five_invalid_witness:
  "\<exists>d d'. opus_Decode (\<lambda>_. 48000) (\<lambda>_ _. Inr ()) ([] :: pcm16 list) 1 = Some (Inr d) \<and>
    opus_run (\<lambda>_. True) toy_opus (history_write (\<lambda>h _. if h = [] then None else Some ErrClosedPipe)) (replicate 6 [0] @ [[1], [], [0], [2]]) d =
      Some (replicate 5 None @ [Some (ErrOther ''invalid packet''), None, None, None, Some ErrClosedPipe], d') \<and> od_w d' = [[9], [9]]"
proof -
  let ?answer = "\<lambda>h (_ :: pcm16). if h = [] then None else Some ErrClosedPipe"
  let ?ps = "replicate 6 [0] @ [[1], [], [0], [2 :: u8]]"
  define d where "d = \<lparr>od_w = [] :: pcm16 list, od_dec = (), od_room = 5760, od_channels = 1, od_successiveErrorCount = 0\<rparr>"
  define outs where "outs = opus_outcomes toy_opus (od_room d) ?ps (od_dec d)"
  have d: "opus_Decode (\<lambda>_. 48000) (\<lambda>_ _. Inr ()) ([] :: pcm16 list) 1 = Some (Inr d)" unfolding d_def by code_simp
  have "map (opus_result (\<lambda>_. True) ?answer [] (nat 1) outs) [0..<length ?ps] =
      replicate 5 None @ [Some (ErrOther ''invalid packet''), None, None, None, Some ErrClosedPipe]"
    "[] @ opus_frames (nat 1) (opus_results outs) = [[9], [9]]" unfolding outs_def d_def by code_simp+
  moreover have "\<exists>d'. opus_run (\<lambda>_. True) toy_opus (history_write ?answer) ?ps d =
      Some (map (opus_result (\<lambda>_. True) ?answer [] (nat 1) outs) [0..<length ?ps], d') \<and>
    od_w d' = [] @ opus_frames (nat 1) (opus_results outs)"
    by (rule opus_hides_five_invalid [OF d _ outs_def]) (auto simp: toy_opus_def d_def split: if_splits)
  ultimately show ?thesis using d by (simp only:) blast
qed

end
