(* ===== verification/Media_Dump.thy ===== *)
theory Media_Dump
  imports Media_Bytes Go_Strings
begin

text \<open>
  Dumping frames to files (\<open>dump.go\<close>): the raw s16le file of a list of frames, and the writer that copies
  what passes through it to a file.
\<close>

section \<open>A list of frames\<close>

fun dump_loop :: "('a, 'w) write_fn \<Rightarrow> 'a list \<Rightarrow> 'w \<Rightarrow> go_error option \<times> 'w" where
  "dump_loop wr [] w = (None, w)"
| "dump_loop wr (x # xs) w = (let (err, w1) = wr x w in if err \<noteq> None then (err, w1) else dump_loop wr xs w1)"

text \<open>The two deferred closes, in the order they run.\<close>

definition dump_deferred :: "(bytes, 'f) write_fn \<Rightarrow> 'f close_fn \<Rightarrow> 'f bufio byteEncoder \<Rightarrow> 'f" where
  "dump_deferred wr cl e = snd (cl (bo_w (be_w (snd (be_Close (fw_Close wr cl) e)))))"

text \<open>\<open>isClosed\<close> is \<open>errors.Is(err, fs.ErrClosed)\<close>.\<close>

definition DumpFramesPCM16 :: "(bytes, 'f) write_fn \<Rightarrow> 'f close_fn \<Rightarrow> (go_error \<Rightarrow> bool) \<Rightarrow> 'f \<Rightarrow> int \<Rightarrow> pcm16 list \<Rightarrow> go_error option \<times> 'f" where
  "DumpFramesPCM16 wr cl isClosed f sampleRate frames =
     (let (err, e1) = dump_loop (be_WriteSample pcm_Size pcm_CopyTo (fw_WriteRaw wr)) frames (NewFileWriter f sampleRate)
      in if err \<noteq> None then (err, dump_deferred wr cl e1)
         else let (err1, e2) = be_Close (fw_Close wr cl) e1
              in if err1 \<noteq> None then (err1, dump_deferred wr cl e2)
                 else let (err2, f1) = cl (bo_w (be_w e2)); e3 = e2\<lparr>be_w := (be_w e2)\<lparr>bo_w := f1\<rparr>\<rparr>
                      in (if err2 \<noteq> None \<and> \<not> isClosed (the err2) then err2 else None, dump_deferred wr cl e3))"

section \<open>A copy of what passes\<close>

text \<open>The name of the file, and the fan-out of \<open>DumpWriter\<close>; \<open>open_file\<close> is \<open>os.Create\<close> and then \<open>NewFileWriter\<close>
  at the rate.\<close>

definition dump_name :: "string \<Rightarrow> string \<Rightarrow> int \<Rightarrow> string" where
  "dump_name name ext rate = name @ ''_ar'' @ Itoa rate @ ''.'' @ ext"

definition DumpFile :: "(string \<Rightarrow> int \<Rightarrow> 'w option) \<Rightarrow> string \<Rightarrow> string \<Rightarrow> int \<Rightarrow> 'w option" where
  "DumpFile open_file name ext rate = open_file (dump_name name ext rate) rate"

definition DumpWriter :: "('w \<Rightarrow> int) \<Rightarrow> (string \<Rightarrow> int \<Rightarrow> 'w option) \<Rightarrow> string \<Rightarrow> string \<Rightarrow> 'w \<Rightarrow> 'w list option" where
  "DumpWriter rate open_file ext name w = do { f \<leftarrow> DumpFile open_file name ext (rate w); Some [w, f] }"

definition DumpFilePCM16 :: "(string \<Rightarrow> int \<Rightarrow> 'w option) \<Rightarrow> string \<Rightarrow> int \<Rightarrow> 'w option" where
  "DumpFilePCM16 open_file name rate = DumpFile open_file name ''s16le'' rate"

definition DumpWriterPCM16 :: "('w \<Rightarrow> int) \<Rightarrow> (string \<Rightarrow> int \<Rightarrow> 'w option) \<Rightarrow> string \<Rightarrow> 'w \<Rightarrow> 'w list option" where
  "DumpWriterPCM16 rate open_file name w = DumpWriter rate open_file ''s16le'' name w"

lemma DumpWriter_rate:
  "DumpWriter rate open_file ext name w = Some ws \<Longrightarrow> MultiWriter_SampleRate rate ws = rate w"
  by (auto simp: DumpWriter_def DumpFile_def MultiWriter_SampleRate_def split: bind_splits)

section \<open>What is stored\<close>

context byte_file
begin

lemma dump_loop_stored:
  "dump_loop (be_WriteSample pcm_Size pcm_CopyTo wr) frames e = (None, e1) \<Longrightarrow>
    content (be_w e1) = content (be_w e) @ pcm_bytes (concat frames)"
proof (induction frames arbitrary: e)
  case (Cons x xs)
  obtain err e2 where w: "be_WriteSample pcm_Size pcm_CopyTo wr x e = (err, e2)" by fastforce
  with Cons.prems have "err = None" "dump_loop (be_WriteSample pcm_Size pcm_CopyTo wr) xs e2 = (None, e1)" by (auto split: if_splits)
  with Cons.IH be_WriteSample_stored [of x e] w show ?case by simp
qed simp

lemma fw_Close_again:
  assumes "bo_buf b = []" "\<And>f. content (snd (cl f)) = content f"
  shows "content (bo_w (snd (fw_Close wr cl b))) = content (bo_w b)"
  using assms by (auto simp: fw_Close_def bufio_Flush_def split_beta)

end

lemma be_Close_parts: "fst (be_Close cl e) = fst (cl (be_w e))" "be_w (snd (be_Close cl e)) = snd (cl (be_w e))"
  by (simp_all add: be_Close_def split_beta)

lemma fw_Close_empty:
  "fst (fw_Close wr cl b) = None \<Longrightarrow> bo_buf (snd (fw_Close wr cl b)) = []"
  by (auto simp: fw_Close_def bufio_Flush_def split_beta Let_def split: if_splits)

text \<open>
  A dump that returns no error has stored the little-endian samples of all the frames, and the closes that
  follow do not change that.
\<close>

theorem DumpFramesPCM16_stores:
  assumes "\<And>p f. fst (wr p f) = None \<Longrightarrow> content (snd (wr p f)) = content f @ p" "\<And>f. content (snd (cl f)) = content f"
    "DumpFramesPCM16 wr cl isClosed f rate frames = (None, f')"
  shows "\<exists>bs. content f' = content f @ bs \<and> le16_samples bs = concat frames"
proof -
  have is_file: "byte_file wr content" by unfold_locales (rule assms(1))
  obtain err e1 where l: "dump_loop (be_WriteSample pcm_Size pcm_CopyTo (fw_WriteRaw wr)) frames (NewFileWriter f rate) = (err, e1)" by fastforce
  obtain err1 e2 where c: "be_Close (fw_Close wr cl) e1 = (err1, e2)" by fastforce
  obtain err2 f1 where c2: "cl (bo_w (be_w e2)) = (err2, f1)" by fastforce
  define e3 where "e3 = e2\<lparr>be_w := (be_w e2)\<lparr>bo_w := f1\<rparr>\<rparr>"
  have ok: "err = None" "err1 = None" "f' = dump_deferred wr cl e3"
    using assms(3) l c c2 by (auto simp: DumpFramesPCM16_def e3_def Let_def split: if_splits)
  have "byte_file.stored content (be_w e1) = byte_file.stored content (be_w (NewFileWriter f rate)) @ pcm_bytes (concat frames)"
    using byte_file.dump_loop_stored [OF byte_file.buffered_is_file [OF is_file]] l ok(1) by blast
  moreover have "byte_file.stored content (be_w (NewFileWriter f rate)) = content f"
    by (simp add: byte_file.stored_def [OF is_file] NewFileWriter_def EncodeBytes_def NewBytesWriter_def bufio_NewWriter_def)
  moreover have close: "fst (fw_Close wr cl (be_w e1)) = None" "be_w e2 = snd (fw_Close wr cl (be_w e1))"
    using c ok(2) be_Close_parts [of "fw_Close wr cl" e1] by simp_all
  ultimately have "content (bo_w (be_w e2)) = content f @ pcm_bytes (concat frames)"
    using byte_file.fw_Close_stored [OF is_file _ assms(2)] by simp
  moreover have "content f1 = content (bo_w (be_w e2))" using assms(2) [of "bo_w (be_w e2)"] c2 by simp
  moreover have "bo_buf (be_w e3) = []" "bo_w (be_w e3) = f1" using fw_Close_empty [OF close(1)] close(2) by (simp_all add: e3_def)
  ultimately have "content f' = content f @ pcm_bytes (concat frames)"
    using byte_file.fw_Close_again [OF is_file, of "be_w e3" cl] assms(2)
    by (simp add: ok(3) dump_deferred_def be_Close_parts)
  then show ?thesis using le16_samples_pcm by blast
qed

end
