(* ===== verification/Media_Audio.thy ===== *)
theory Media_Audio
  imports Codec_Types Codec_Writers G711
begin

text \<open>
  Audio codecs (\<open>audio.go\<close>): the object behind \<open>NewAudioCodecFunc\<close>, and the constructors the registered
  codecs pass to it (the \<open>init\<close> functions of \<open>g711\<close>, \<open>g722/g722.go\<close>, \<open>amrwb/amrwb.go\<close> and \<open>opus/codec.go\<close>).
\<close>

section \<open>Audio codecs\<close>

text \<open>
  The object behind \<open>NewAudioCodecFunc\<close>.  \<open>decode\<close> makes a frame writer of a PCM writer and \<open>encode\<close> the other
  way round, which may panic; the four kinds of writers are the type parameters.
\<close>

record ('pw, 'fw, 'fe, 'pe) audioCodec =
  auc_CodecInfo :: codec_info
  auc_decode :: "'pw \<Rightarrow> 'fw"
  auc_encode :: "'fe \<Rightarrow> 'pe option"

definition NewAudioCodecFunc ::
  "codec_info \<Rightarrow> ('pw \<Rightarrow> 'fw) \<Rightarrow> ('fe \<Rightarrow> 'pe option) \<Rightarrow> unit \<Rightarrow> ('pw, 'fw, 'fe, 'pe) audioCodec" where
  "NewAudioCodecFunc info0 decode encode =
     (let info = (if ci_RTPClockRate info0 = 0 then info0\<lparr>ci_RTPClockRate := cc_SampleRate (ci_Config info0)\<rparr> else info0)
      in (\<lambda>_. \<lparr>auc_CodecInfo = info, auc_decode = decode, auc_encode = encode\<rparr>))"

definition auc_Encode :: "('pw, 'fw, 'fe, 'pe) audioCodec \<Rightarrow> 'fe \<Rightarrow> 'pe option" where
  "auc_Encode c w = auc_encode c w"

definition auc_Decode :: "('pw, 'fw, 'fe, 'pe) audioCodec \<Rightarrow> 'pw \<Rightarrow> 'fw" where
  "auc_Decode c w = auc_decode c w"

definition auc_EncodeBytes :: "('pw, 'fw, 'w byteEncoder, 'pe) audioCodec \<Rightarrow> 'w \<Rightarrow> 'pe option" where
  "auc_EncodeBytes c w =
     (let bw = EncodeBytes w (cc_SampleRate (ci_Config (auc_CodecInfo c))) in auc_encode c bw)"

definition auc_DecodeBytes :: "('pw, 'fw, 'fe, 'pe) audioCodec \<Rightarrow> 'pw \<Rightarrow> 'fw" where
  "auc_DecodeBytes c w = (let pw = auc_decode c w in DecodeBytes pw)"

section \<open>The registered codecs\<close>

datatype g711_name = PCMU | PCMA

definition law_Support :: "g711_name \<Rightarrow> u8 \<Rightarrow> codec_config \<Rightarrow> codec_info option" where
  "law_Support l = (case l of PCMU \<Rightarrow> ulaw_Support | PCMA \<Rightarrow> alaw_Support)"

text \<open>
  What the registered functions return beside the accepted configuration: the constructor of the codec.
  \<open>rate\<close> and \<open>resample\<close> are the sample rate of a PCM writer and \<open>ResampleWriter\<close>.
\<close>

type_synonym ('w, 'b) g711_codec = "('w, (i16, 'w) law_writer, 'b byteEncoder, (u8, 'b byteEncoder) law_writer) audioCodec"

definition law_create :: "g711_name \<Rightarrow> u8 \<Rightarrow> ('w \<Rightarrow> int) \<Rightarrow> ('w \<Rightarrow> int \<Rightarrow> 'w) \<Rightarrow> codec_config \<Rightarrow> (unit \<Rightarrow> ('w, 'b) g711_codec) option" where
  "law_create l pt rate resample cc =
     (case law_Support l pt cc of None \<Rightarrow> None
      | Some info \<Rightarrow> Some (NewAudioCodecFunc info 
          (case l of PCMU \<Rightarrow> DecodeULaw rate resample | PCMA \<Rightarrow> law_NewDecoder rate resample)
          (case l of PCMU \<Rightarrow> EncodeULaw be_SampleRate | PCMA \<Rightarrow> law_NewEncoder be_SampleRate)))"

lemma law_create_same: "law_create l pt rate resample cc =
    map_option (\<lambda>info. NewAudioCodecFunc info (law_NewDecoder rate resample) (law_NewEncoder be_SampleRate)) (law_Support l pt cc)"
  by (cases l) (simp_all add: law_create_def split: option.splits)

text \<open>G.722: the writers may be dumped, then opening the file may panic.\<close>

definition g722_create :: "u8 \<Rightarrow> ('w \<Rightarrow> int) \<Rightarrow> ('w \<Rightarrow> int \<Rightarrow> 'w) \<Rightarrow> (bool \<Rightarrow> 'd) \<Rightarrow> (bool \<Rightarrow> 'e) \<Rightarrow> (string \<Rightarrow> 'w \<Rightarrow> 'w option) \<Rightarrow>
    (string \<Rightarrow> 'fw \<Rightarrow> 'fw option) \<Rightarrow> (string \<Rightarrow> 'b byteEncoder \<Rightarrow> 'b byteEncoder option) \<Rightarrow> (string \<Rightarrow> 'pw \<Rightarrow> 'pw option) \<Rightarrow>
    ((i16, 'd, 'w) g722_writer \<Rightarrow> 'fw) \<Rightarrow> ((u8, 'e, 'b byteEncoder) g722_writer \<Rightarrow> 'pw) \<Rightarrow> nat option \<Rightarrow> codec_config \<Rightarrow>
    (unit \<Rightarrow> ('w, 'fw option, 'b byteEncoder, 'pw) audioCodec) option" where
  "g722_create pt rate resample newDec newEnc dump_pcm dump_dec dump_bytes dump_enc mkD mkE toFile cc =
     (case g722_Support pt cc of None \<Rightarrow> None
      | Some info \<Rightarrow> Some (NewAudioCodecFunc info (g722_Decode rate resample newDec dump_pcm dump_dec mkD toFile)
          (g722_Encode be_SampleRate newEnc dump_bytes dump_enc mkE toFile)))"

text \<open>AMR-WB: the mode of the encoder is the greatest one offered; \<open>to_mode\<close> is the conversion to the library's type.\<close>

definition amrwb_mode :: "(int \<Rightarrow> 'm) \<Rightarrow> 'm \<Rightarrow> codec_params \<Rightarrow> 'm" where
  "amrwb_mode to_mode best ps =
     (let (v, ok) = params_Get ps ''mode-set''
      in case (if ok then amrwb_modes (Split v (CHR '','')) (-1) else Some (-1)) of None \<Rightarrow> best
         | Some maxMode \<Rightarrow> if maxMode \<ge> 0 then to_mode maxMode else best)"

definition amrwb_create :: "(int \<Rightarrow> 'm) \<Rightarrow> 'm \<Rightarrow> u8 \<Rightarrow> ('w \<Rightarrow> int) \<Rightarrow> ('w \<Rightarrow> int \<Rightarrow> 'w) \<Rightarrow> ('fmt \<Rightarrow> 'd) \<Rightarrow> ('fmt \<Rightarrow> 'm \<Rightarrow> 'e) \<Rightarrow> 'fmt \<Rightarrow>
    codec_config \<Rightarrow> (unit \<Rightarrow> ('w, ('d, 'w) amr_decoder, 'b byteEncoder, ('e, 'b byteEncoder) amr_encoder) audioCodec) option" where
  "amrwb_create to_mode best bestNum rate resample newDec newEnc format cc =
     (case amrwb_Support bestNum cc of None \<Rightarrow> None
      | Some info \<Rightarrow> let mode = amrwb_mode to_mode best (cc_Params cc)
          in Some (NewAudioCodecFunc info (\<lambda>w. amr_NewDecoder rate resample newDec w format)
               (\<lambda>w. amr_EncodeWith be_SampleRate newEnc w format mode)))"

text \<open>Opus: the audio is mono whatever was negotiated, and a writer the library refuses to make is nil (the inner \<open>None\<close>; the outer one is a panic).\<close>

definition opus_create :: "('w \<Rightarrow> int) \<Rightarrow> (int \<Rightarrow> int \<Rightarrow> go_error + 'd) \<Rightarrow> (int \<Rightarrow> int \<Rightarrow> go_error + 'e) \<Rightarrow>
    (opus_setting \<Rightarrow> 'e \<Rightarrow> go_error option \<times> 'e) \<Rightarrow> codec_config \<Rightarrow>
    (unit \<Rightarrow> ('w, ('d, 'w) opus_decoder option option, 'b byteEncoder, ('e, 'b byteEncoder) opus_encoder option) audioCodec) option" where
  "opus_create rate newDec newEnc setf cc =
     (case opus_Support cc of None \<Rightarrow> None
      | Some info \<Rightarrow> Some (NewAudioCodecFunc info
          (\<lambda>w. do { r \<leftarrow> opus_Decode rate newDec w 1; Some (case r of Inl _ \<Rightarrow> None | Inr dec \<Rightarrow> Some dec) })
          (\<lambda>w. do { r \<leftarrow> opus_Encode be_SampleRate newEnc setf w 1; Some (case r of Inl _ \<Rightarrow> None | Inr enc \<Rightarrow> Some enc) })))"

section \<open>What the constructors rely on\<close>

lemma law_Support_rate: "law_Support l pt cc = Some info \<Longrightarrow> cc_SampleRate (ci_Config info) = 8000"
  by (cases l) (auto simp: law_Support_def ulaw_Support_def alaw_Support_def mk_info_def Let_def split: if_splits)

lemma audioCodec_info:
  "auc_CodecInfo (NewAudioCodecFunc info dec enc ()) = Defaults info"
  "cc_SampleRate (ci_Config (Defaults info)) = cc_SampleRate (ci_Config info)"
  by (simp_all add: NewAudioCodecFunc_def Defaults_def)

lemma audioCodec_bytes:
  "auc_EncodeBytes (NewAudioCodecFunc info dec enc ()) w = enc (EncodeBytes w (cc_SampleRate (ci_Config info)))"
  "auc_DecodeBytes (NewAudioCodecFunc info dec enc ()) v = dec v"
  by (simp_all add: auc_EncodeBytes_def auc_DecodeBytes_def DecodeBytes_def NewAudioCodecFunc_def)

lemma be_SampleRate_EncodeBytes [simp]: "be_SampleRate (EncodeBytes w r) = r"
  by (simp add: be_SampleRate_def EncodeBytes_def)

text \<open>Dumping does not stop G.722 from opening if the dumps can be opened.\<close>

lemma g722_opens:
  "\<forall>name u. d1 name u \<noteq> None \<Longrightarrow> \<forall>name u. d2 name u \<noteq> None \<Longrightarrow>
    g722_Decode rate resample newD d1 d2 mk toFile v \<noteq> None"
  "\<forall>name u. d3 name u \<noteq> None \<Longrightarrow> \<forall>name u. d4 name u \<noteq> None \<Longrightarrow> be_rate w = 8000 \<or> be_rate w = 16000 \<Longrightarrow>
    g722_Encode be_rate newE d3 d4 mkE toFile w \<noteq> None"
  by (cases toFile; simp add: g722_Decode_def g722_Encode_def Let_def Option.bind_eq_None_conv del: not_None_eq)+

section \<open>Properties\<close>

text \<open>
  C24: the codecs open what they negotiate.  If a codec supports a configuration, its constructor makes a codec
  whose byte encoder opens without a panic and takes samples at the accepted rate: 8000 Hz for G.711, 16000 Hz
  for G.722 (whose RTP clock is 8000 Hz) and AMR-WB, 48000 Hz for Opus, whose encoder is mono with room for
  20 ms whatever number of channels was negotiated, and nil if the library refuses it.  The byte decoders of
  G.711 and AMR-WB work at the accepted rate and resample for the writer below; the one of G.722 does so too,
  but stays at 8000 Hz over a writer of 8000 Hz; the one of Opus does not resample: it is a mono decoder at
  the rate of the writer below, for rates from 0 to 2^32, with room for 120 ms, and nil if the library refuses
  that rate.  For G.722 the rates are stated with the dumping to files off; with it on, opening does not panic
  either as long as the dumps can be opened.  The hypothesis is that the resampler takes the rate it is made for.
\<close>

theorem created_codecs_open:
  assumes "\<And>v r. rate (resample v r) = r"
  shows "(\<forall>create. law_create l pt rate resample cc = Some create \<longrightarrow>
      (\<exists>e. auc_EncodeBytes (create ()) w = Some e \<and> law_SampleRate be_SampleRate e = 8000) \<and>
      law_SampleRate rate (auc_DecodeBytes (create ()) v) = 8000 \<and>
      Some (auc_CodecInfo (create ())) = map_option Defaults (law_Support l pt cc)) \<and>
    (\<forall>create. g722_create pt rate resample newD newE d1 d2 d3 d4 Some Some None cc = Some create \<longrightarrow>
      (\<exists>e. auc_EncodeBytes (create ()) w = Some (Some e) \<and> g722_SampleRate be_SampleRate e = 16000 \<and> \<not> g_8k e) \<and>
      (\<exists>d. auc_DecodeBytes (create ()) v = Some (Some d) \<and> g722_SampleRate rate d = (if rate v = 8000 then 8000 else 16000) \<and>
        g_8k d = (rate v = 8000)) \<and> ci_RTPClockRate (auc_CodecInfo (create ())) = 8000) \<and>
    (\<forall>toFile create. (\<forall>name u. d1 name u \<noteq> None) \<and> (\<forall>name u. d2 name u \<noteq> None) \<and> (\<forall>name u. d3 name u \<noteq> None) \<and>
      (\<forall>name u. d4 name u \<noteq> None) \<and> g722_create pt rate resample newD newE d1 d2 d3 d4 Some Some toFile cc = Some create \<longrightarrow>
      auc_EncodeBytes (create ()) w \<noteq> None \<and> auc_DecodeBytes (create ()) v \<noteq> None) \<and>
    (\<forall>create. amrwb_create to_mode best bn rate resample newA newB fmt cc = Some create \<longrightarrow>
      (\<exists>e. auc_EncodeBytes (create ()) w = Some e \<and> be_SampleRate (ae_w e) = amr_Encoder_SampleRate e) \<and>
      rate (ad_w (auc_DecodeBytes (create ()) v)) = amr_Decoder_SampleRate (auc_DecodeBytes (create ()) v)) \<and>
    (\<forall>create. opus_create rate newO newP setf cc = Some create \<longrightarrow>
      auc_EncodeBytes (create ()) w = Some (case newP 48000 1 of Inl _ \<Rightarrow> None
        | Inr enc \<Rightarrow> Some \<lparr>oe_w = EncodeBytes w 48000, oe_enc = enc, oe_room = 960\<rparr>) \<and>
      (0 \<le> rate v \<and> rate v < 2 ^ 32 \<longrightarrow> auc_DecodeBytes (create ()) v = Some (case newO (rate v) 1 of Inl _ \<Rightarrow> None
        | Inr dec \<Rightarrow> Some \<lparr>od_w = v, od_dec = dec, od_room = nat (rate v * 3 div 25), od_channels = 1,
            od_successiveErrorCount = 0\<rparr>)))"
proof (intro conjI allI impI, goal_cases)
  case (1 create)
  then obtain info where "law_Support l pt cc = Some info" "create = NewAudioCodecFunc info (law_NewDecoder rate resample) (law_NewEncoder be_SampleRate)"
    by (auto simp: law_create_same split: option.splits)
  then show ?case using law_Support_rate [of l pt cc info] by (simp add: audioCodec_bytes law_NewEncoder_def law_SampleRate_def)
next
  case (2 create)
  then show ?case using assms by (auto simp: law_create_same audioCodec_bytes law_NewDecoder_def law_SampleRate_def split: option.splits)
next
  case (3 create)
  then show ?case by (auto simp: law_create_same audioCodec_info split: option.splits)
next
  case (4 create)
  then show ?case
    by (auto simp: g722_create_def audioCodec_bytes g722_Encode_def g722_SampleRate_def g722_Support_def mk_info_def Let_def
        split: option.splits if_splits)
next
  case (5 create)
  then show ?case using assms
    by (auto simp: g722_create_def audioCodec_bytes g722_Decode_def g722_SampleRate_def Let_def split: option.splits)
next
  case (6 create)
  then show ?case
    by (auto simp: g722_create_def audioCodec_info Defaults_def g722_Support_def mk_info_def Let_def split: option.splits if_splits)
next
  case (7 toFile create)
  then obtain info where i: "g722_Support pt cc = Some info" "create = NewAudioCodecFunc info (g722_Decode rate resample newD d1 d2 Some toFile)
      (g722_Encode be_SampleRate newE d3 d4 Some toFile)" by (auto simp: g722_create_def split: option.splits)
  then have "cc_SampleRate (ci_Config info) = 16000"
    by (auto simp: g722_Support_def mk_info_def Let_def split: if_splits)
  with i(2) 7 show ?case by (simp add: audioCodec_bytes g722_opens(2) del: not_None_eq)
next
  case (8 toFile create)
  then obtain info where "create = NewAudioCodecFunc info (g722_Decode rate resample newD d1 d2 Some toFile)
      (g722_Encode be_SampleRate newE d3 d4 Some toFile)" by (auto simp: g722_create_def split: option.splits)
  with 8 show ?case by (simp add: audioCodec_bytes g722_opens(1) del: not_None_eq)
next
  case (9 create)
  then obtain info where i: "amrwb_Support bn cc = Some info" "create = NewAudioCodecFunc info (\<lambda>w. amr_NewDecoder rate resample newA w fmt)
      (\<lambda>w. amr_EncodeWith be_SampleRate newB w fmt (amrwb_mode to_mode best (cc_Params cc)))"
    by (auto simp: amrwb_create_def Let_def split: option.splits)
  then have "cc_SampleRate (ci_Config info) = 16000"
    using amrwb_Support_SomeD [of bn cc info] by (auto simp: amrwb_accepted_def mk_info_def)
  with i(2) show ?case by (simp add: audioCodec_bytes amr_EncodeWith_def amr_Encoder_SampleRate_def)
next
  case (10 create)
  then show ?case using assms
    by (auto simp: amrwb_create_def audioCodec_bytes amr_NewDecoder_def amr_Decoder_SampleRate_def Let_def split: option.splits)
next
  case (11 create)
  then show ?case
    by (auto simp: opus_create_def audioCodec_bytes opus_Support_def mk_info_def opus_Encode_def opus_EncodeWith_def opus_settings_def
        go_int64_id Let_def split: option.splits if_splits sum.splits)
next
  case (12 create)
  have room: "go_int64 (go_quot (go_int64 (rate v * 120000000)) 1000000000 * 1) = rate v * 3 div 25"
  proof -
    have "0 \<le> 3 * rate v div 25" "3 * rate v div 25 < 9223372036854775808" using 12(2) by (auto simp: pos_imp_zdiv_nonneg_iff)
    with 12(2) show ?thesis by (simp add: go_int64_id mult.commute)
  qed
  from 12 show ?case
    by (auto simp: opus_create_def audioCodec_bytes opus_Decode_def room [simplified] Let_def split: option.splits sum.splits)
qed

text \<open>A writer is its rate here.\<close>

theorem created_codecs_open_witness:
  "\<exists>create. law_create PCMU 0 (\<lambda>r. r) (\<lambda>_ r. r) no_config = Some create \<and>
    (\<exists>e. auc_EncodeBytes (create ()) () = Some e \<and> law_SampleRate be_SampleRate e = 8000) \<and>
    law_SampleRate (\<lambda>r. r) (auc_DecodeBytes (create ()) 48000) = 8000"
proof -
  obtain create :: "unit \<Rightarrow> (int, unit) g711_codec" where c: "law_create PCMU 0 (\<lambda>r. r) (\<lambda>_ r. r) no_config = Some create"
    by (simp add: law_create_same law_Support_def ulaw_Support_def no_config_def)
  have "\<And>v r :: int. (\<lambda>r. r) ((\<lambda>_ r. r) v r) = r" by simp
  from created_codecs_open [of "\<lambda>r. r" "\<lambda>_ r. r" PCMU 0 no_config "()" 48000, OF this, THEN conjunct1, THEN spec, THEN mp, OF c] c
  show ?thesis by blast
qed

end
