(* ===== verification/Media_Path.thy ===== *)
theory Media_Path
  imports Media_Audio Rtp_Mux Rtp_Jitter
begin

text \<open>
  The path of G.711 audio through the program: PCM frames into the encoder of
  the codec (\<open>g711\<close>), its bytes through \<open>EncodePCM\<close> (\<open>rtp/codecs.go\<close>) into the packets of a stream
  (\<open>rtp/rtp.go\<close>), packets in whatever order they arrive into the jitter handler (\<open>rtp/jitter.go\<close>), and what it
  forwards through \<open>DecodePCM\<close> to the decoder and on to a PCM writer.
\<close>

section \<open>Frames of the G.711 codecs\<close>

definition law_enc_write :: "g711_name \<Rightarrow> g711_tables \<Rightarrow> (bytes, 'w) write_fn \<Rightarrow> pcm16 \<Rightarrow> (u8, 'w) law_writer \<Rightarrow>
    (go_error option \<times> (u8, 'w) law_writer) option" where
  "law_enc_write l = (case l of PCMU \<Rightarrow> ULawEncoder_WriteSample | PCMA \<Rightarrow> ALawEncoder_WriteSample)"

definition law_dec_write :: "g711_name \<Rightarrow> g711_tables \<Rightarrow> (pcm16, 'w) write_fn \<Rightarrow> bytes \<Rightarrow> (i16, 'w) law_writer \<Rightarrow>
    (go_error option \<times> (i16, 'w) law_writer) option" where
  "law_dec_write l = (case l of PCMU \<Rightarrow> ULawDecoder_WriteSample | PCMA \<Rightarrow> ALawDecoder_WriteSample)"

definition law_frame_write :: "g711_name \<Rightarrow> (bytes, 'w) write_fn \<Rightarrow> (bytes, 'w byteEncoder) write_fn" where
  "law_frame_write l = (case l of PCMU \<Rightarrow> be_WriteSample ULaw_Size ULaw_CopyTo | PCMA \<Rightarrow> be_WriteSample law_Size law_CopyTo)"

section \<open>Sending\<close>

text \<open>A stream as a writer of bytes: the stream and the \<open>SeqWriter\<close> it belongs to.\<close>

type_synonym 'w raw_stream = "rtp_stream \<times> 'w SeqWriter"

definition raw_write :: "(rtp_out, 'w) write_fn \<Rightarrow> ns \<Rightarrow> (bytes, 'w raw_stream) write_fn" where
  "raw_write wr now data s = (let (err, st, sq) = Stream_WriteRaw wr data now (fst s) (snd s) in (err, (st, sq)))"

text \<open>
  A caller sets up a stream and the PCM writer on top of it: \<open>Inl\<close> is an error of \<open>EncodePCMWithCodec\<close>, the
  outer \<open>None\<close> a panic.
\<close>

type_synonym 'w pcm_sender = "(u8, 'w raw_stream byteEncoder) law_writer"

definition open_sender :: "g711_name \<Rightarrow> u8 \<Rightarrow> codec_config \<Rightarrow> u8 \<Rightarrow> int \<Rightarrow> u32 \<Rightarrow> 'w \<Rightarrow> (go_error + 'w pcm_sender) option" where
  "open_sender l pt cc typ clockRate ssrc w = do {
     s \<leftarrow> NewStream typ clockRate (NewSeqWriter w clockRate ssrc);
     case EncodePCMWithCodec (\<lambda>l. law_create l pt (\<lambda>_ :: unit. 0) (\<lambda>w _. w) cc) (\<lambda>create. Some (create ())) auc_EncodeBytes l s of
       Inl err \<Rightarrow> Some (Inl err)
     | Inr None \<Rightarrow> None
     | Inr (Some e) \<Rightarrow> Some (Inr e) }"

definition sender_WriteSample :: "g711_name \<Rightarrow> g711_tables \<Rightarrow> (rtp_out, 'w) write_fn \<Rightarrow> ns \<Rightarrow> pcm16 \<Rightarrow> 'w pcm_sender \<Rightarrow>
    (go_error option \<times> 'w pcm_sender) option" where
  "sender_WriteSample l T wr now = law_enc_write l T (law_frame_write l (raw_write wr now))"

text \<open>The frames are written one after the other, each at its own time, up to the first error.\<close>

fun send_frames :: "g711_name \<Rightarrow> g711_tables \<Rightarrow> (rtp_out, 'w) write_fn \<Rightarrow> (pcm16 \<times> ns) list \<Rightarrow> 'w pcm_sender \<Rightarrow>
    (go_error option \<times> 'w pcm_sender) option" where
  "send_frames l T wr [] e = Some (None, e)"
| "send_frames l T wr ((frame, now) # xs) e = do {
     (err, e1) \<leftarrow> sender_WriteSample l T wr now frame e;
     if err \<noteq> None then Some (err, e1) else send_frames l T wr xs e1 }"

text \<open>The packets of a call that keeps them all; nothing when there was a panic or an error.\<close>

definition sent_packets :: "g711_name \<Rightarrow> codec_config \<Rightarrow> u8 \<Rightarrow> u32 \<Rightarrow> (pcm16 \<times> ns) list \<Rightarrow> rtp_out list option" where
  "sent_packets l cc typ ssrc frames = do {
     T \<leftarrow> g711_init;
     e0 \<leftarrow> open_sender l typ cc typ 8000 ssrc [];
     (case e0 of Inl _ \<Rightarrow> None | Inr e1 \<Rightarrow> do {
        (err, e) \<leftarrow> send_frames l T Buffer_WriteRTP frames e1;
        if err \<noteq> None then None else Some (sq_w (snd (be_w (lw_w e)))) }) }"

section \<open>Receiving\<close>

text \<open>A packet on its way to the other side, and as the jitter handler hands it over.\<close>

definition wire :: "rtp_out \<Rightarrow> rtp_packet" where
  "wire p = \<lparr>pk_Marker = h_Marker (fst p), pk_Padding = False, pk_PayloadType = h_PayloadType (fst p),
     pk_SequenceNumber = h_SequenceNumber (fst p), pk_Timestamp = h_Timestamp (fst p), pk_SSRC = h_SSRC (fst p),
     pk_Payload = snd p\<rparr>"

definition unwire :: "rtp_packet \<Rightarrow> rtp_out" where
  "unwire p = (\<lparr>h_Version = 2, h_Marker = pk_Marker p, h_PayloadType = pk_PayloadType p,
     h_SequenceNumber = pk_SequenceNumber p, h_Timestamp = pk_Timestamp p, h_SSRC = pk_SSRC p\<rparr>, pk_Payload p)"

text \<open>The handler of \<open>DecodePCM\<close> on a writer at 8000 Hz that keeps its frames.\<close>

type_synonym pcm_receiver = "(i16, pcm16 list) law_writer"

definition open_receiver :: "g711_name \<Rightarrow> u8 \<Rightarrow> codec_config \<Rightarrow> pcm_receiver option" where
  "open_receiver l pt cc = do {
     create \<leftarrow> law_create l pt (\<lambda>_. 8000) (\<lambda>w _. w) cc;
     Some (auc_DecodeBytes (create () :: (pcm16 list, unit) g711_codec) []) }"

definition receiver_HandleRTP :: "g711_name \<Rightarrow> g711_tables \<Rightarrow> rtp_out \<Rightarrow> pcm_receiver \<Rightarrow> (go_error option \<times> pcm_receiver) option" where
  "receiver_HandleRTP l T = DecodePCM (\<lambda>l wr. bd_WriteRaw (law_dec_write l T wr)) l frameWriter_WriteSample"

fun handle_all :: "(rtp_out \<Rightarrow> 'h \<Rightarrow> (go_error option \<times> 'h) option) \<Rightarrow> rtp_packet list \<Rightarrow> 'h \<Rightarrow> (go_error option list \<times> 'h) option" where
  "handle_all hdl [] h = Some ([], h)"
| "handle_all hdl (p # ps) h = do {
     (err, h1) \<leftarrow> hdl (unwire p) h;
     (errs, h2) \<leftarrow> handle_all hdl ps h1;
     Some (err # errs, h2) }"

text \<open>The frames heard, given the calls the jitter handler makes; nothing when one panics or returns an error.\<close>

definition heard_frames :: "g711_name \<Rightarrow> codec_config \<Rightarrow> u8 \<Rightarrow> rtp_packet list \<Rightarrow> pcm16 list option" where
  "heard_frames l cc typ calls = do {
     T \<leftarrow> g711_init;
     h0 \<leftarrow> open_receiver l typ cc;
     (errs, h) \<leftarrow> handle_all (receiver_HandleRTP l T) calls h0;
     if list_all (\<lambda>err. err = None) errs then Some (lw_w h) else None }"

section \<open>The two laws together\<close>

definition law_lin :: "g711_name \<Rightarrow> u8 \<Rightarrow> int" where
  "law_lin l = (case l of PCMU \<Rightarrow> ulaw2linear | PCMA \<Rightarrow> alaw2linear)"

definition law_code :: "g711_name \<Rightarrow> g711_tables \<Rightarrow> i16 \<Rightarrow> u8" where
  "law_code l T x = (case l of PCMU \<Rightarrow> lin2ulaw T | PCMA \<Rightarrow> lin2alaw T) ! nat (drop_bit 2 (sint x + 32768))"

definition law_expand :: "g711_name \<Rightarrow> u8 \<Rightarrow> i16" where
  "law_expand l c = word_of_int (law_lin l c)"

definition tables_ok :: "g711_tables \<Rightarrow> bool" where
  "tables_ok T \<longleftrightarrow> ulaw.law_table (lin2ulaw T) \<and> alaw.law_table (lin2alaw T) \<and>
     ulaw2lin T = buildLinTable (replicate 256 0) ulaw2linear \<and> alaw2lin T = buildLinTable (replicate 256 0) alaw2linear"

lemma init_tables_ok: obtains T where "g711_init = Some T" "tables_ok T"
  by (rule g711_init_ok) (auto simp: tables_ok_def)

lemma tables_okD:
  assumes "tables_ok T"
  shows "ulaw.law_table (lin2ulaw T)" "alaw.law_table (lin2alaw T)"
    "ulaw2lin T = buildLinTable (replicate 256 0) ulaw2linear" "alaw2lin T = buildLinTable (replicate 256 0) alaw2linear"
  using assms by (simp_all add: tables_ok_def)

text \<open>Each writer passes exactly one frame on, coded, and its error.\<close>

lemma law_enc_write_eq:
  assumes "tables_ok T"
  shows "\<exists>buf. law_enc_write l T wr data d =
    Some (let (err, w1) = wr (map (law_code l T) data) (lw_w d) in (err, \<lparr>lw_w = w1, lw_buf = buf\<rparr>))"
proof (cases l)
  case PCMU
  then show ?thesis
    unfolding law_enc_write_def ULawEncoder_WriteSample_def
    by (simp only: g711_name.case) (rule law_WriteSample_eq, simp add: EncodeULawTo_eq [OF tables_okD [OF assms]] law_code_def)
next
  case PCMA
  then show ?thesis
    unfolding law_enc_write_def ALawEncoder_WriteSample_def
    by (simp only: g711_name.case) (rule law_WriteSample_eq, simp add: EncodeALawTo_eq [OF tables_okD [OF assms]] law_code_def)
qed

lemma law_dec_write_eq:
  assumes "tables_ok T"
  shows "\<exists>buf. law_dec_write l T wr data d =
    Some (let (err, w1) = wr (map (law_expand l) data) (lw_w d) in (err, \<lparr>lw_w = w1, lw_buf = buf\<rparr>))"
proof (cases l)
  case PCMU
  then show ?thesis
    unfolding law_dec_write_def ULawDecoder_WriteSample_def
    by (simp only: g711_name.case) (rule law_WriteSample_eq, simp add: DecodeULawTo_eq [OF tables_okD [OF assms]] law_expand_def law_lin_def)
next
  case PCMA
  then show ?thesis
    unfolding law_dec_write_def ALawDecoder_WriteSample_def
    by (simp only: g711_name.case) (rule law_WriteSample_eq, simp add: DecodeALawTo_eq [OF tables_okD [OF assms]] law_expand_def law_lin_def)
qed

lemma law_frame_write_eq:
  "\<exists>buf. law_frame_write l wr s e = (let (err, w1) = wr s (be_w e) in (err, e\<lparr>be_buf := buf, be_w := w1\<rparr>))"
  using ulaw_frame.be_WriteSample_frame alaw_frame.be_WriteSample_frame
  by (cases l) (simp_all only: law_frame_write_def g711_name.case)

lemma law_code_nearest:
  assumes "tables_ok T"
  shows "nearest (law_lin l) x (law_code l T x)"
  using ulaw.law_nearest [OF tables_okD(1) [OF assms] sint_range_i16] alaw.law_nearest [OF tables_okD(2) [OF assms] sint_range_i16]
  by (cases l) (simp_all add: nearest_def law_lin_def law_code_def)

lemma law_expand_exact: "sint (law_expand l c) = law_lin l c"
  by (cases l) (simp_all add: law_expand_def law_lin_def law_int16)

section \<open>The sending side\<close>

text \<open>Packets with the payloads \<open>bss\<close>, numbered from 0, of one SSRC and payload type.\<close>

definition numbered_frames :: "u8 \<Rightarrow> u32 \<Rightarrow> bytes list \<Rightarrow> rtp_out list \<Rightarrow> bool" where
  "numbered_frames typ ssrc bss ps \<longleftrightarrow> map snd ps = bss \<and>
     map (\<lambda>p. (h_SequenceNumber (fst p), h_SSRC (fst p))) ps = map (\<lambda>i. (of_nat i, ssrc)) [0..<length ps] \<and>
     list_all (\<lambda>p. h_PayloadType (fst p) = typ) ps"

lemma raw_write_buffer:
  assumes "\<not> st_manual st"
  shows "\<exists>h st1 sq1. raw_write Buffer_WriteRTP now data (st, sq) = (None, (st1, sq1)) \<and> \<not> st_manual st1 \<and>
    sq_w sq1 = sq_w sq @ [(h, data)] \<and> h_SequenceNumber h = h_SequenceNumber (sq_h sq) \<and> h_SSRC h = h_SSRC (sq_h sq) \<and>
    h_SequenceNumber (sq_h sq1) = h_SequenceNumber (sq_h sq) + 1 \<and> h_SSRC (sq_h sq1) = h_SSRC (sq_h sq) \<and>
    h_PayloadType h = st_typ st \<and> st_typ st1 = st_typ st"
  using assms by (simp add: raw_write_def Stream_WriteRaw_def WritePayload_def WritePayload_begin_def WritePayload_end_def WriteEvent_def Buffer_WriteRTP_def Let_def)

definition sender_ok :: "u8 \<Rightarrow> u32 \<Rightarrow> bytes list \<Rightarrow> rtp_out list pcm_sender \<Rightarrow> bool" where
  "sender_ok typ ssrc bss e \<longleftrightarrow> (case be_w (lw_w e) of (st, sq) \<Rightarrow> \<not> st_manual st \<and> st_typ st = typ \<and> numbered_frames typ ssrc bss (sq_w sq) \<and>
     h_SequenceNumber (sq_h sq) = of_nat (length bss) \<and> h_SSRC (sq_h sq) = ssrc)"

lemma sender_WriteSample_ok:
  assumes "tables_ok T" "sender_ok typ ssrc bss e"
  shows "\<exists>e1. sender_WriteSample l T Buffer_WriteRTP now frame e = Some (None, e1) \<and>
    sender_ok typ ssrc (bss @ [map (law_code l T) frame]) e1"
proof -
  let ?data = "map (law_code l T) frame"
  obtain st sq where b: "be_w (lw_w e) = (st, sq)" by fastforce
  with assms(2) have s: "\<not> st_manual st" "numbered_frames typ ssrc bss (sq_w sq)" "h_SequenceNumber (sq_h sq) = of_nat (length bss)"
    "h_SSRC (sq_h sq) = ssrc" "st_typ st = typ" by (simp_all add: sender_ok_def)
  from raw_write_buffer [OF s(1), of now ?data sq] obtain h st1 sq1 where
    w: "raw_write Buffer_WriteRTP now ?data (st, sq) = (None, (st1, sq1))" "\<not> st_manual st1" "sq_w sq1 = sq_w sq @ [(h, ?data)]"
      "h_SequenceNumber h = of_nat (length bss)" "h_SSRC h = ssrc" "h_SequenceNumber (sq_h sq1) = of_nat (length bss) + 1"
      "h_SSRC (sq_h sq1) = ssrc" "h_PayloadType h = typ" "st_typ st1 = typ" using s by auto
  have "length (sq_w sq) = length bss" using s(2) by (auto simp: numbered_frames_def)
  then have "numbered_frames typ ssrc (bss @ [?data]) (sq_w sq1)" using s(2) w by (simp add: numbered_frames_def)
  moreover obtain buf where "law_frame_write l (raw_write Buffer_WriteRTP now) ?data (lw_w e) =
      (None, (lw_w e)\<lparr>be_buf := buf, be_w := (st1, sq1)\<rparr>)"
    using law_frame_write_eq [of l "raw_write Buffer_WriteRTP now" ?data "lw_w e"] b w(1) by auto
  moreover obtain buf2 where "sender_WriteSample l T Buffer_WriteRTP now frame e =
      Some (let (err, w1) = law_frame_write l (raw_write Buffer_WriteRTP now) ?data (lw_w e) in (err, \<lparr>lw_w = w1, lw_buf = buf2\<rparr>))"
    using law_enc_write_eq [OF assms(1)] unfolding sender_WriteSample_def by blast
  ultimately show ?thesis using w(2,6,7,9) by (simp add: sender_ok_def add.commute)
qed

lemma send_frames_ok:
  assumes "tables_ok T"
  shows "sender_ok typ ssrc bss e \<Longrightarrow> \<exists>e1. send_frames l T Buffer_WriteRTP xs e = Some (None, e1) \<and>
    sender_ok typ ssrc (bss @ map (\<lambda>x. map (law_code l T) (fst x)) xs) e1"
proof (induction xs arbitrary: bss e)
  case (Cons x xs)
  obtain frame now where x: "x = (frame, now)" by (cases x)
  from sender_WriteSample_ok [OF assms Cons.prems, of l now frame] obtain e1 where
    e1: "sender_WriteSample l T Buffer_WriteRTP now frame e = Some (None, e1)" "sender_ok typ ssrc (bss @ [map (law_code l T) frame]) e1"
    by blast
  from Cons.IH [OF e1(2)] e1(1) x show ?case by simp
qed simp

lemma open_sender_ok:
  assumes "law_Support l pt cc = Some info"
  shows "\<exists>e. open_sender l pt cc typ 8000 ssrc [] = Some (Inr e) \<and> sender_ok typ ssrc [] e"
  using assms law_Support_rate [OF assms]
  by (simp add: open_sender_def NewStream_def NewSeqWriter_def EncodePCMWithCodec_def initCodec_def law_create_same EncodePCM_def
      auc_EncodeBytes_def NewAudioCodecFunc_def law_NewEncoder_def EncodeBytes_def be_SampleRate_def Let_def sender_ok_def numbered_frames_def)

lemma sent_packets_ok:
  assumes "law_Support l typ cc = Some info" "g711_init = Some T" "tables_ok T"
  shows "\<exists>ps. sent_packets l cc typ ssrc frames = Some ps \<and> numbered_frames typ ssrc (map (\<lambda>x. map (law_code l T) (fst x)) frames) ps"
proof -
  obtain e0 where e0: "open_sender l typ cc typ 8000 ssrc ([] :: rtp_out list) = Some (Inr e0)" "sender_ok typ ssrc [] e0"
    using open_sender_ok [OF assms(1)] by blast
  from send_frames_ok [OF assms(3) e0(2), of l frames] obtain e where
    e: "send_frames l T Buffer_WriteRTP frames e0 = Some (None, e)" "sender_ok typ ssrc (map (\<lambda>x. map (law_code l T) (fst x)) frames) e"
    by auto
  have "sent_packets l cc typ ssrc frames = Some (sq_w (snd (be_w (lw_w e))))"
    unfolding sent_packets_def assms(2) using e0(1) e(1) by simp
  with e(2) show ?thesis by (auto simp: sender_ok_def)
qed

section \<open>The receiving side\<close>

lemma wire_unwire [simp]: "snd (unwire p) = pk_Payload p"
  by (simp add: unwire_def)

lemma handle_all_ok:
  assumes "tables_ok T"
  shows "\<exists>h1. handle_all (receiver_HandleRTP l T) ps h = Some (replicate (length ps) None, h1) \<and>
    lw_w h1 = lw_w h @ map (\<lambda>p. map (law_expand l) (pk_Payload p)) ps"
proof (induction ps arbitrary: h)
  case (Cons p ps)
  obtain buf where "receiver_HandleRTP l T (unwire p) h =
      Some (None, \<lparr>lw_w = lw_w h @ [map (law_expand l) (pk_Payload p)], lw_buf = buf\<rparr>)"
    using law_dec_write_eq [OF assms, of l frameWriter_WriteSample "pk_Payload p" h]
    by (auto simp: receiver_HandleRTP_def DecodePCM_def HandlePayload_def rawHandler_HandleRTP_def bd_WriteRaw_def frameWriter_WriteSample_def)
  with Cons.IH [of "\<lparr>lw_w = lw_w h @ [map (law_expand l) (pk_Payload p)], lw_buf = buf\<rparr>"] show ?case by auto
qed simp

lemma heard_frames_ok:
  assumes "law_Support l typ cc = Some info"
  shows "heard_frames l cc typ calls = Some (map (\<lambda>p. map (law_expand l) (pk_Payload p)) calls)"
proof -
  obtain T where T: "g711_init = Some T" "tables_ok T" by (rule init_tables_ok)
  have h0: "open_receiver l typ cc = Some \<lparr>lw_w = [], lw_buf = []\<rparr>"
    using assms by (simp add: open_receiver_def law_create_same auc_DecodeBytes_def NewAudioCodecFunc_def law_NewDecoder_def DecodeBytes_def Let_def)
  obtain h where "handle_all (receiver_HandleRTP l T) calls \<lparr>lw_w = [], lw_buf = []\<rparr> = Some (replicate (length calls) None, h)"
    "lw_w h = map (\<lambda>p. map (law_expand l) (pk_Payload p)) calls"
    using handle_all_ok [OF T(2), of l calls "\<lparr>lw_w = [], lw_buf = []\<rparr>"] by auto
  with h0 show ?thesis unfolding heard_frames_def T(1) by (simp add: list_all_iff)
qed

section \<open>End to end\<close>

text \<open>What is heard of a sample: the expansion of one of the nearest codes; of a frame: the same, sample by sample.\<close>

definition sample_heard :: "g711_name \<Rightarrow> i16 \<Rightarrow> i16 \<Rightarrow> bool" where
  "sample_heard l x y \<longleftrightarrow> (\<exists>c. nearest (law_lin l) x c \<and> sint y = law_lin l c)"

definition frame_heard :: "g711_name \<Rightarrow> pcm16 \<Rightarrow> pcm16 \<Rightarrow> bool" where
  "frame_heard l = list_all2 (sample_heard l)"

lemma frame_heard_coded: "tables_ok T \<Longrightarrow> frame_heard l f (map (law_expand l) (map (law_code l T) f))"
  using law_code_nearest law_expand_exact
  by (auto simp: frame_heard_def list.rel_map sample_heard_def intro!: list.rel_refl_strong)

text \<open>The packets that arrive are packets that were sent.\<close>

definition arrivals :: "rtp_out list \<Rightarrow> jh_op list \<Rightarrow> bool" where
  "arrivals ps ops \<longleftrightarrow> list_all (\<lambda>x. case x of JhPacket pkt _ _ \<Rightarrow> pkt \<in> wire ` set ps | _ \<Rightarrow> True) ops"

lemma arrivals_pushes: "arrivals ps ops \<Longrightarrow> list_all (pushes_from (wire ` set ps)) (map jh_buf_op ops)"
  by (auto simp: arrivals_def list_all_iff split: jh_op.splits) (metis jh_buf_op.elims pushes_from.simps)

text \<open>Frames up to the range of a window of 3000 numbers are told apart by their sequence numbers.\<close>

lemma follows_less:
  assumes "follows (of_nat i) (of_nat j)" "i < 62536" "j < 62536"
  shows "i < j \<and> j - i < 3000 \<and> ahead (of_nat i) (of_nat j) = j - i"
proof (cases "i \<le> j")
  case True
  then have "(of_nat j :: u16) = of_nat i + of_nat (j - i)" by (simp flip: of_nat_add)
  then have "ahead (of_nat i) (of_nat j) = j - i" using assms(3) ahead_plus [of "j - i" "of_nat i"] by simp
  with assms(1) show ?thesis by (auto simp: follows_def)
next
  case False
  then have "(of_nat i :: u16) = of_nat j + of_nat (i - j)" by (simp flip: of_nat_add)
  then have "ahead (of_nat j) (of_nat i) = i - j" using assms(2) ahead_plus [of "i - j" "of_nat j"] by simp
  moreover have "(of_nat i :: u16) \<noteq> of_nat j" using assms(1) follows_neq by blast
  ultimately have "ahead (of_nat i) (of_nat j) = 65536 - (i - j)" using ahead_swap by metis
  with assms False show ?thesis by (simp add: follows_def)
qed

lemma follows_sorted:
  assumes "successively (\<lambda>i j. follows (of_nat i) (of_nat j)) is" "list_all (\<lambda>i. i < 62536) is"
  shows "sorted_wrt (<) is \<and> (is \<noteq> [] \<longrightarrow> hd is + gaps (map of_nat is) + length is = last is + 1)"
  using assms
proof (induction "is" rule: induct_list012)
  case (3 i j js)
  from 3 have f: "i < j \<and> j - i < 3000 \<and> ahead (of_nat i) (of_nat j) = j - i" using follows_less [of i j] by simp
  from 3 have IH: "sorted_wrt (<) (j # js)" "j + gaps (map of_nat (j # js)) + length (j # js) = last (j # js) + 1" by simp_all
  have "gaps (map of_nat (i # j # js)) = (j - i - 1) + gaps (map of_nat (j # js))" using f by simp
  with IH f show ?case by auto
qed auto

lemma numbered_nth:
  assumes "numbered_frames typ ssrc bss ps" "i < length ps"
  shows "snd (ps ! i) = bss ! i" "h_SequenceNumber (fst (ps ! i)) = of_nat i" "h_SSRC (fst (ps ! i)) = ssrc"
proof -
  have m: "map snd ps = bss" "map (\<lambda>p. (h_SequenceNumber (fst p), h_SSRC (fst p))) ps = map (\<lambda>i. (of_nat i, ssrc)) [0..<length ps]"
    using assms(1) by (simp_all add: numbered_frames_def)
  from arg_cong [OF m(2), of "\<lambda>xs. xs ! i"] assms(2)
  show "h_SequenceNumber (fst (ps ! i)) = of_nat i" "h_SSRC (fst (ps ! i)) = ssrc" by simp_all
  from m(1) assms(2) show "snd (ps ! i) = bss ! i" by auto
qed

lemma numbered_length: "numbered_frames typ ssrc bss ps \<Longrightarrow> length ps = length bss"
  unfolding numbered_frames_def by (metis length_map)

lemma short_call:
  assumes "numbered_frames typ ssrc bss ps" "length ps \<le> 3000" "arrivals ps ops" "WithSequenceRestartDetection \<notin> set opts"
  shows "one_stream ssrc (map jh_buf_op ops) (jb_NewBuffer audioDepacketizer latency opts t0)"
proof (rule audio.one_stream_short [OF audio.new_buffer_streaming [OF assms(4)] new_buffer_source _ arrivals_pushes [OF assms(3)]])
  have "h_SSRC (fst p) = ssrc \<and> unat (h_SequenceNumber (fst p)) < 3000" if p: "p \<in> set ps" for p
  proof -
    from p obtain i where "i < length ps" "p = ps ! i" by (auto simp: in_set_conv_nth)
    with numbered_nth [OF assms(1)] assms(2) show ?thesis by (simp add: unat_of_nat)
  qed
  then show "short_stream ssrc (wire ` set ps)" by (auto simp: short_stream_def wire_def)
qed

text \<open>The calls of the jitter handler are wired packets that were sent: their indices.\<close>

lemma sent_indices:
  assumes "numbered_frames typ ssrc bss ps" "list_all (\<lambda>p. p \<in> wire ` set ps) calls"
  obtains "is" where "list_all (\<lambda>i. i < length bss) is" "map pk_SequenceNumber calls = map of_nat is"
    "map pk_Payload calls = map (\<lambda>i. bss ! i) is"
proof -
  have "\<exists>i < length ps. p = wire (ps ! i)" if "p \<in> set calls" for p
    using that assms(2) by (fastforce simp: list_all_iff in_set_conv_nth)
  then obtain f where f: "\<And>p. p \<in> set calls \<Longrightarrow> f p < length ps \<and> p = wire (ps ! f p)" by metis
  have n: "pk_SequenceNumber (wire (ps ! i)) = of_nat i" "pk_Payload (wire (ps ! i)) = bss ! i" "i < length bss" if "i < length ps" for i
    using numbered_nth [OF assms(1) that] that numbered_length [OF assms(1)] by (simp_all add: wire_def)
  have "pk_SequenceNumber p = of_nat (f p)" "pk_Payload p = bss ! f p" "f p < length bss" if "p \<in> set calls" for p
    using n [of "f p"] f [OF that] by metis+
  then show ?thesis by (intro that [of "map f calls"]) (auto simp: list_all_iff)
qed

lemma end_to_end:
  assumes n: "numbered_frames typ ssrc bss ps" and a: "arrivals ps ops" and o: "WithSequenceRestartDetection \<notin> set opts"
    and s: "one_stream ssrc (map jh_buf_op ops) (jb_NewBuffer audioDepacketizer jitterMaxLatency opts t0)"
  shows "\<exists>es r is. jh_run nxt ops (HandleJitter opts t0) = Some (es, r) \<and> list_all (\<lambda>i. i < length bss) is \<and>
    map pk_Payload (jh_calls r) = map (\<lambda>i. bss ! i) is \<and> successively (\<lambda>i j. follows (of_nat i) (of_nat j)) is \<and>
    js_PacketsLost (jb_stats (jh_buf r)) = of_nat (gaps (map of_nat is))"
proof -
  let ?b0 = "jb_NewBuffer audioDepacketizer jitterMaxLatency opts t0"
  from audio.stream_in_order [OF o s] obtain b where b: "jb_run (map jh_buf_op ops) ?b0 = Some b"
    "successively follows (map ep_SN (delivered b))" "js_PacketsLost (jb_stats b) = of_nat (gaps (map ep_SN (delivered b)))" by blast
  have f: "forwarded (HandleJitter opts t0)" "jh_buf (HandleJitter opts t0) = ?b0"
    by (simp_all add: forwarded_def delivered_def HandleJitter_def jb_NewBuffer_simps)
  with jh_run_forwards [OF f(1), of ops b nxt] b(1) obtain es r where
    r: "jh_run nxt ops (HandleJitter opts t0) = Some (es, r)" "jh_buf r = b" "forwarded r" by auto
  have calls: "jh_calls r = map ep_Packet (delivered b)" using r(2,3) by (simp add: forwarded_def)
  have "from_set (wire ` set ps) b" by (rule jb_run_source [OF new_buffer_source arrivals_pushes [OF a] b(1)])
  then have "list_all (\<lambda>p. p \<in> wire ` set ps) (jh_calls r)" by (simp add: calls from_set_def list_all_iff)
  from sent_indices [OF n this] obtain "is" where i: "list_all (\<lambda>i. i < length bss) is"
    "map pk_SequenceNumber (jh_calls r) = map of_nat is" "map pk_Payload (jh_calls r) = map (\<lambda>i. bss ! i) is" by blast
  have "map ep_SN (delivered b) = map of_nat is" using i(2) by (simp add: calls o_def)
  with b(2,3) r i show ?thesis by (intro exI conjI) (auto simp: successively_map)
qed

lemma contiguous_upt: "contiguous (map of_nat [m..<n])"
proof (induction "n - m" arbitrary: m)
  case (Suc d)
  then have "[m..<n] = m # [Suc m..<n]" "contiguous (map of_nat [Suc m..<n])" by (simp_all add: upt_conv_Cons del: upt_Suc)
  then show ?case by (cases "Suc m < n") (auto simp: upt_conv_Cons add.commute simp del: upt_Suc)
qed simp

text \<open>The packets of a call arriving one after the other, at any times.\<close>

definition in_turn :: "rtp_out list \<Rightarrow> (ns \<times> ns) list \<Rightarrow> jh_op list" where
  "in_turn ps ts = map2 (\<lambda>p t. JhPacket (wire p) (fst t) (snd t)) ps ts"

lemma in_turn_run:
  assumes n: "numbered_frames typ ssrc bss ps" and o: "WithSequenceRestartDetection \<notin> set opts" and t: "length ts = length ps"
  shows "\<exists>es r. jh_run nxt (in_turn ps ts) (HandleJitter opts t0) = Some (es, r) \<and> jb_queue (jh_buf r) = [] \<and>
    map pk_Payload (jh_calls r) = bss \<and> js_PacketsLost (jb_stats (jh_buf r)) = 0"
proof -
  let ?b0 = "jb_NewBuffer audioDepacketizer jitterMaxLatency opts t0"
  define xs where "xs = map2 (\<lambda>p t. (wire p, t)) ps ts"
  have fst: "map fst xs = map wire ps" using t by (auto simp: xs_def split_beta o_def intro!: nth_equalityI)
  have buf: "map jh_buf_op (in_turn ps ts) = map (\<lambda>(p, a, n). PushOp p a n) xs"
    by (auto simp: in_turn_def xs_def split_beta)
  have sn: "map h_SequenceNumber (map fst ps) = map of_nat [0..<length ps]" "list_all (\<lambda>p. h_SSRC (fst p) = ssrc) ps"
    using numbered_nth [OF n] by (auto simp: list_all_length intro!: nth_equalityI)
  have "map (pk_SequenceNumber \<circ> fst) xs = map of_nat [0..<length ps]"
    using arg_cong [OF fst, of "map pk_SequenceNumber"] sn(1) by (simp add: o_def wire_def)
  then have c: "contiguous (map (pk_SequenceNumber \<circ> fst) xs)" using contiguous_upt [of 0 "length ps"] by simp
  have "list_all (\<lambda>p. \<not> pk_Padding p \<and> pk_SSRC p = ssrc) (map fst xs)"
    unfolding fst using sn(2) by (simp add: list_all_iff wire_def)
  then have "list_all (\<lambda>x. \<not> pk_Padding (fst x) \<and> pk_SSRC (fst x) = ssrc) xs" by (simp add: list_all_iff)
  from audio.new_buffer_in_order [OF o c this, of jitterMaxLatency t0] obtain b where
    b: "jb_run (map jh_buf_op (in_turn ps ts)) ?b0 = Some b" "jb_queue b = []"
    "map ep_Packet (delivered b) = map wire ps" "js_PacketsLost (jb_stats b) = 0"
    unfolding buf fst by blast
  have f: "forwarded (HandleJitter opts t0)" "jh_buf (HandleJitter opts t0) = ?b0"
    by (simp_all add: forwarded_def delivered_def HandleJitter_def jb_NewBuffer_simps)
  with jh_run_forwards [OF f(1), of "in_turn ps ts" b nxt] b(1) obtain es r where
    r: "jh_run nxt (in_turn ps ts) (HandleJitter opts t0) = Some (es, r)" "jh_buf r = b" "forwarded r" by auto
  have "map pk_Payload (jh_calls r) = bss"
    using b(3) r(2,3) n by (simp add: forwarded_def numbered_frames_def wire_def o_def)
  with r(1,2) b(2,4) show ?thesis by blast
qed

text \<open>A whole call whose packets arrive in turn.\<close>

lemma call_in_turn:
  assumes "law_Support l typ cc = Some info" "WithSequenceRestartDetection \<notin> set opts" "length ts = length frames"
  shows "\<exists>ps es r out. sent_packets l cc typ ssrc frames = Some ps \<and>
    list_all (\<lambda>p. h_PayloadType (fst p) = typ) ps \<and> jh_run nxt (in_turn ps ts) (HandleJitter opts t0) = Some (es, r) \<and> jb_queue (jh_buf r) = [] \<and>
    heard_frames l cc typ (jh_calls r) = Some out \<and> list_all2 (frame_heard l) (map fst frames) out \<and>
    js_PacketsLost (jb_stats (jh_buf r)) = 0"
proof -
  obtain T where T: "g711_init = Some T" "tables_ok T" by (rule init_tables_ok)
  define bss where "bss = map (\<lambda>x. map (law_code l T) (fst x)) frames"
  obtain ps where ps: "sent_packets l cc typ ssrc frames = Some ps" "numbered_frames typ ssrc bss ps"
    using sent_packets_ok [OF assms(1) T] unfolding bss_def by blast
  have "length ts = length ps" using numbered_length [OF ps(2)] assms(3) by (simp add: bss_def)
  from in_turn_run [OF ps(2) assms(2) this, of nxt t0] obtain es r where
    r: "jh_run nxt (in_turn ps ts) (HandleJitter opts t0) = Some (es, r)" "jb_queue (jh_buf r) = []"
      "map pk_Payload (jh_calls r) = bss" "js_PacketsLost (jb_stats (jh_buf r)) = 0" by blast
  have "heard_frames l cc typ (jh_calls r) = Some (map (map (law_expand l)) bss)"
    using heard_frames_ok [OF assms(1), of "jh_calls r"] arg_cong [OF r(3), of "map (map (law_expand l))"] by (simp add: o_def)
  moreover have "list_all2 (frame_heard l) (map fst frames) (map (map (law_expand l)) bss)"
    using frame_heard_coded [OF T(2)] by (auto simp: bss_def list.rel_map intro!: list.rel_refl_strong)
  moreover have "list_all (\<lambda>p. h_PayloadType (fst p) = typ) ps" using ps(2) by (simp add: numbered_frames_def)
  ultimately show ?thesis using ps(1) r by blast
qed

section \<open>Properties\<close>

text \<open>
  C1: a G.711 call end to end.  Whatever PCM frames are written to \<open>EncodePCM\<close> of either law at whatever times,
  each becomes one packet, without an error or a panic.  If any of these packets then arrive at a jitter
  handler in any order, with losses, duplicates, timer events and closes between them (none further
  than 3000 from the last one played, which calls of at most 3000 frames always are), what \<open>DecodePCM\<close> writes
  are frames of the call in the order of their numbers, each sample replaced by the value of a nearest
  code.  In a call of up to 62536 frames that is the order of the call, none is heard twice, and the frames
  heard and those counted as lost make up the stretch from the first to the last one heard.
\<close>

theorem g711_end_to_end:
  assumes "law_Support l typ cc = Some info" "WithSequenceRestartDetection \<notin> set opts"
  shows "\<exists>ps. sent_packets l cc typ ssrc frames = Some ps \<and> length ps = length frames \<and>
    (\<forall>ops. arrivals ps ops \<and> (length frames \<le> 3000 \<or>
        one_stream ssrc (map jh_buf_op ops) (jb_NewBuffer audioDepacketizer jitterMaxLatency opts t0)) \<longrightarrow>
      (\<exists>es r out is. jh_run nxt ops (HandleJitter opts t0) = Some (es, r) \<and> heard_frames l cc typ (jh_calls r) = Some out \<and>
        list_all2 (\<lambda>i f. i < length frames \<and> frame_heard l (fst (frames ! i)) f) is out \<and>
        successively (\<lambda>i j. follows (of_nat i) (of_nat j)) is \<and>
        (length frames \<le> 62536 \<longrightarrow> sorted_wrt (<) is \<and>
          (is \<noteq> [] \<longrightarrow> js_PacketsLost (jb_stats (jh_buf r)) = of_nat (last is + 1 - hd is - length is)))))"
proof -
  obtain T where T: "g711_init = Some T" "tables_ok T" by (rule init_tables_ok)
  define bss where "bss = map (\<lambda>x. map (law_code l T) (fst x)) frames"
  obtain ps where ps: "sent_packets l cc typ ssrc frames = Some ps" "numbered_frames typ ssrc bss ps"
    using sent_packets_ok [OF assms(1) T] unfolding bss_def by blast
  have len: "length ps = length frames" using numbered_length [OF ps(2)] by (simp add: bss_def)
  have "\<exists>es r out is. jh_run nxt ops (HandleJitter opts t0) = Some (es, r) \<and> heard_frames l cc typ (jh_calls r) = Some out \<and>
        list_all2 (\<lambda>i f. i < length frames \<and> frame_heard l (fst (frames ! i)) f) is out \<and>
        successively (\<lambda>i j. follows (of_nat i) (of_nat j)) is \<and>
        (length frames \<le> 62536 \<longrightarrow> sorted_wrt (<) is \<and>
          (is \<noteq> [] \<longrightarrow> js_PacketsLost (jb_stats (jh_buf r)) = of_nat (last is + 1 - hd is - length is)))"
    if a: "arrivals ps ops" and s: "length frames \<le> 3000 \<or>
        one_stream ssrc (map jh_buf_op ops) (jb_NewBuffer audioDepacketizer jitterMaxLatency opts t0)" for ops
  proof -
    have "one_stream ssrc (map jh_buf_op ops) (jb_NewBuffer audioDepacketizer jitterMaxLatency opts t0)"
      using s short_call [OF ps(2) _ a assms(2)] len by auto
    from end_to_end [OF ps(2) a assms(2) this, of nxt] obtain es r "is" where
      r: "jh_run nxt ops (HandleJitter opts t0) = Some (es, r)" "list_all (\<lambda>i. i < length frames) is"
        "map pk_Payload (jh_calls r) = map (\<lambda>i. bss ! i) is" "successively (\<lambda>i j. follows (of_nat i) (of_nat j)) is"
        "js_PacketsLost (jb_stats (jh_buf r)) = of_nat (gaps (map of_nat is))"
      by (auto simp: bss_def)
    define out where "out = map (\<lambda>i. map (law_expand l) (bss ! i)) is"
    have "heard_frames l cc typ (jh_calls r) = Some out"
      using heard_frames_ok [OF assms(1), of "jh_calls r"] arg_cong [OF r(3), of "map (map (law_expand l))"]
      by (simp add: out_def o_def)
    moreover have "list_all2 (\<lambda>i f. i < length frames \<and> frame_heard l (fst (frames ! i)) f) is out"
      using r(2) frame_heard_coded [OF T(2)]
      by (auto simp: out_def bss_def list.rel_map list_all_iff intro!: list.rel_refl_strong)
    moreover have "sorted_wrt (<) is \<and> (is \<noteq> [] \<longrightarrow> js_PacketsLost (jb_stats (jh_buf r)) = of_nat (last is + 1 - hd is - length is))"
      if "length frames \<le> 62536"
    proof -
      have "list_all (\<lambda>i. i < 62536) is" using r(2) that by (auto simp: list_all_iff)
      from follows_sorted [OF r(4) this] have g: "sorted_wrt (<) is" "is \<noteq> [] \<longrightarrow> last is + 1 - hd is - length is = gaps (map of_nat is)"
        by auto
      with r(5) show ?thesis by auto
    qed
    ultimately show ?thesis using r(1,4) by blast
  qed
  with ps(1) len show ?thesis by blast
qed

text \<open>Three frames; the second packet comes last, and the first one twice.\<close>

theorem g711_end_to_end_witness:
  "\<exists>ps es r out is. sent_packets PCMU no_config 0 77 [([100, - 3], 5), ([0], 25), ([32767, 1], 45)] = Some ps \<and> length ps = 3 \<and>
    jh_run (\<lambda>_ _. Some EOF) (map (\<lambda>p. JhPacket (wire p) 6 6) [ps ! 0, ps ! 2, ps ! 0, ps ! 1] @ [JhClose]) (HandleJitter [] 0) = Some (es, r) \<and>
    heard_frames PCMU no_config 0 (jh_calls r) = Some out \<and> sorted_wrt (<) is \<and>
    list_all2 (\<lambda>i f. frame_heard PCMU ([[100, - 3], [0], [32767, 1]] ! i) f) is out"
proof -
  let ?frames = "[([100, - 3], 5), ([0], 25), ([32767, 1], 45)] :: (pcm16 \<times> ns) list"
  let ?ops = "\<lambda>ps. map (\<lambda>p. JhPacket (wire p) 6 6) [ps ! 0, ps ! 2, ps ! 0, ps ! 1] @ [JhClose]"
  have "law_Support PCMU 0 no_config = Some (mk_info (ulaw_info 0) \<lparr>cc_SampleRate = 8000, cc_Channels = 0, cc_Params = []\<rparr>)"
    by (simp add: law_Support_def ulaw_Support_def no_config_def)
  from g711_end_to_end [OF this, of "[]" 77 ?frames 0 "\<lambda>_ _. Some EOF"] obtain ps where
    ps: "sent_packets PCMU no_config 0 77 ?frames = Some ps" "length ps = 3"
    and run: "arrivals ps (?ops ps) \<Longrightarrow> \<exists>es r out is. jh_run (\<lambda>_ _. Some EOF) (?ops ps) (HandleJitter [] 0) = Some (es, r) \<and>
      heard_frames PCMU no_config 0 (jh_calls r) = Some out \<and>
      list_all2 (\<lambda>i f. i < length ?frames \<and> frame_heard PCMU (fst (?frames ! i)) f) is out \<and> sorted_wrt (<) is" by fastforce
  have "arrivals ps (?ops ps)" using ps(2) by (simp add: arrivals_def)
  from run [OF this] obtain es r out "is" where r: "jh_run (\<lambda>_ _. Some EOF) (?ops ps) (HandleJitter [] 0) = Some (es, r)"
    "heard_frames PCMU no_config 0 (jh_calls r) = Some out"
    "list_all2 (\<lambda>i f. i < length ?frames \<and> frame_heard PCMU (fst (?frames ! i)) f) is out" "sorted_wrt (<) is" by blast
  have "fst (?frames ! i) = [[100, - 3], [0], [32767, 1]] ! i" if "i < length ?frames" for i
    using that by (auto simp: less_Suc_eq numeral_3_eq_3)
  then have "list_all2 (\<lambda>i f. frame_heard PCMU ([[100, - 3], [0], [32767, 1]] ! i) f) is out"
    using r(3) by (elim list.rel_mono_strong) metis
  with ps r show ?thesis by blast
qed

text \<open>
  A G.711 call without disorder is heard whole and at once.  When the packets of a call of any length,
  through any number of wrap-arounds of their numbers, arrive in turn, then whatever the times, every
  frame written to \<open>EncodePCM\<close> has come out of \<open>DecodePCM\<close> in its place, each sample the value of a nearest
  code, with nothing left in the jitter buffer and nothing counted as lost.
\<close>

theorem g711_in_order_lossless:
  assumes "law_Support l typ cc = Some info" "WithSequenceRestartDetection \<notin> set opts" "length ts = length frames"
  shows "\<exists>ps es r out. sent_packets l cc typ ssrc frames = Some ps \<and>
    jh_run nxt (in_turn ps ts) (HandleJitter opts t0) = Some (es, r) \<and> jb_queue (jh_buf r) = [] \<and>
    heard_frames l cc typ (jh_calls r) = Some out \<and> list_all2 (frame_heard l) (map fst frames) out \<and>
    js_PacketsLost (jb_stats (jh_buf r)) = 0"
  using call_in_turn [OF assms] by blast

theorem g711_in_order_lossless_witness:
  "\<exists>ps es r out. sent_packets PCMA no_config 8 77 [([100, - 3], 5), ([0, 32767], 25)] = Some ps \<and>
    jh_run (\<lambda>_ _. None) (in_turn ps [(6, 6), (30, 31)]) (HandleJitter [] 0) = Some (es, r) \<and>
    heard_frames PCMA no_config 8 (jh_calls r) = Some out \<and> list_all2 (frame_heard PCMA) [[100, - 3], [0, 32767]] out"
proof -
  have "law_Support PCMA 8 no_config = Some (mk_info (alaw_info 8) \<lparr>cc_SampleRate = 8000, cc_Channels = 0, cc_Params = []\<rparr>)"
    by (simp add: law_Support_def alaw_Support_def no_config_def)
  from g711_in_order_lossless [OF this, of "[]" "[(6, 6), (30, 31)]" "[([100, - 3], 5), ([0, 32767], 25)]" 77 "\<lambda>_ _. None" 0]
  show ?thesis by auto
qed

end
