(* ===== verification/Media_Res.thy ===== *)
theory Media_Res
  imports Tones Media_Frames
begin

text \<open>
  The embedded sounds (\<open>res/embed.go\<close>): reading an Ogg file into frames.  The Vorbis reader is a parameter:
  \<open>rd buf r\<close> for its \<open>Read\<close>, which gives the count, the error, the buffer after the call and the reader's state.
\<close>

type_synonym ('f, 'r) ogg_read = "'f list \<Rightarrow> 'r \<Rightarrow> (nat \<times> go_error option) \<times> 'f list \<times> 'r"

definition ogg_SampleRate :: int where "ogg_SampleRate = 48000"

definition ogg_sample :: "('f, 'z) go_float_scheme \<Rightarrow> 'f \<Rightarrow> i16" where
  "ogg_sample F x = fl_i16 F (fl_mul F x (fl_of_int F 0x7fff))"

text \<open>The loop over the reader: all samples; \<open>None\<close> is a panic, or a reader that never ends.\<close>

partial_function (option) ogg_loop :: "('f, 'z) go_float_scheme \<Rightarrow> ('f, 'r) ogg_read \<Rightarrow> 'f list \<Rightarrow> pcm16 \<Rightarrow> 'r \<Rightarrow> pcm16 option" where
  "ogg_loop F rd buf samples r =
     (let ((n, err), buf1, r1) = rd buf r
      in if length buf1 < n then None
         else let samples1 = (if n \<noteq> 0 then samples @ map (ogg_sample F) (take n buf1) else samples)
           in if err = Some EOF then Some samples1 else if err \<noteq> None then None else ogg_loop F rd buf1 samples1 r1)"

text \<open>The loop that cuts the frames; it does not end when frames of no samples are cut.\<close>

partial_function (option) ogg_frames :: "nat \<Rightarrow> pcm16 \<Rightarrow> pcm16 list \<Rightarrow> pcm16 list option" where
  "ogg_frames perFrame samples frames =
     (if samples = [] then Some frames
      else let cur = (if length samples > perFrame then take perFrame samples else samples)
        in ogg_frames perFrame (drop (length cur) samples) (frames @ [cur]))"

text \<open>\<open>new data\<close> is \<open>oggvorbis.NewReader\<close>, with the rate and the channels of the file.\<close>

definition ReadOggAudioFile :: "('f, 'z) go_float_scheme \<Rightarrow> (bytes \<Rightarrow> go_error + int \<times> int \<times> 'r) \<Rightarrow> ('f, 'r) ogg_read \<Rightarrow>
    bytes \<Rightarrow> int \<Rightarrow> int \<Rightarrow> pcm16 list option" where
  "ReadOggAudioFile F new rd data sampleRate channels =
     (let perFrame = go_quot sampleRate DefFramesPerSec
      in case new data of Inl _ \<Rightarrow> None
         | Inr (rate, chans, r) \<Rightarrow>
             if rate \<noteq> sampleRate \<or> chans \<noteq> channels \<or> perFrame < 0 then None
             else do {
               samples \<leftarrow> ogg_loop F rd (replicate (nat perFrame) (fl_of_int F 0)) [] r;
               ogg_frames (nat perFrame) samples []
             })"

section \<open>The interface of the library\<close>

text \<open>
  What is relied on: a read fills the front of the buffer with what comes next, something unless it is the
  end, and the end is \<open>EOF\<close>.  \<open>content\<close> is what the reader still has.
\<close>

definition ogg_contract :: "('f, 'r) ogg_read \<Rightarrow> ('r \<Rightarrow> 'f list) \<Rightarrow> bool" where
  "ogg_contract rd content \<longleftrightarrow>
     (\<forall>buf r. buf \<noteq> [] \<longrightarrow> (case rd buf r of ((n, err), buf1, r1) \<Rightarrow>
        length buf1 = length buf \<and> n \<le> length buf \<and> content r = take n buf1 @ content r1 \<and>
        (err = None \<and> 0 < n \<or> err = Some EOF \<and> content r1 = [])))"

lemma ogg_loop_reads:
  assumes "ogg_contract rd content"
  shows "buf \<noteq> [] \<Longrightarrow> ogg_loop F rd buf samples r = Some (samples @ map (ogg_sample F) (content r))"
proof (induction "length (content r)" arbitrary: buf samples r rule: less_induct)
  case less
  obtain n err buf1 r1 where rd: "rd buf r = ((n, err), buf1, r1)" by (metis prod.exhaust)
  from assms [unfolded ogg_contract_def, THEN spec, of buf, THEN spec, of r] less.prems rd
  have c: "length buf1 = length buf" "n \<le> length buf" "content r = take n buf1 @ content r1"
    "err = None \<and> 0 < n \<or> err = Some EOF \<and> content r1 = []" by auto
  show ?case
  proof (cases "err = None")
    case True
    with c have "length (content r1) < length (content r)" "buf1 \<noteq> []" using less.prems by auto
    then have "ogg_loop F rd buf1 (samples @ map (ogg_sample F) (take n buf1)) r1 =
        Some ((samples @ map (ogg_sample F) (take n buf1)) @ map (ogg_sample F) (content r1))" by (rule less.hyps)
    with True c rd show ?thesis by (subst ogg_loop.simps) auto
  next
    case False
    with c rd show ?thesis by (subst ogg_loop.simps) auto
  qed
qed

lemma ogg_frames_chunks: "0 < n \<Longrightarrow> ogg_frames n samples frames = Some (frames @ chunks n samples)"
proof (induction "length samples" arbitrary: samples frames rule: less_induct)
  case less
  show ?case
  proof (cases "samples = []")
    case True
    then show ?thesis by (subst ogg_frames.simps) simp
  next
    case False
    let ?cur = "if length samples > n then take n samples else samples"
    have cur: "?cur = take n samples" "drop (min (length samples) n) samples = drop n samples" by (auto simp: min_def)
    have "length (drop n samples) < length samples" using less.prems False by simp
    from less.hyps [OF this less.prems] have "ogg_frames n (drop n samples) (frames @ [take n samples]) =
        Some ((frames @ [take n samples]) @ chunks n (drop n samples))" .
    then show ?thesis using False less.prems by (subst ogg_frames.simps) (simp add: Let_def cur chunks_step del: if_split)
  qed
qed

section \<open>Properties\<close>

text \<open>
  Reading a file of the expected rate and channels gives all its samples, in frames of 20 ms of which only
  the last may be shorter, however long the pieces are that the library reads.
\<close>

theorem ReadOggAudioFile_frames:
  assumes "ogg_contract rd content" "new data = Inr (sampleRate, channels, r)" "50 \<le> sampleRate"
  shows "ReadOggAudioFile F new rd data sampleRate channels =
    Some (chunks (nat (sampleRate div 50)) (map (ogg_sample F) (content r)))"
proof -
  have q: "go_quot sampleRate DefFramesPerSec = sampleRate div 50" "0 < sampleRate div 50"
    using assms(3) by (simp_all add: go_quot_def DefFramesPerSec_def DefFrameDur_def)
  then have "replicate (nat (sampleRate div 50)) (fl_of_int F 0) \<noteq> []" by simp
  from ogg_loop_reads [OF assms(1) this, of F "[]" r] q ogg_frames_chunks [of "nat (sampleRate div 50)"] assms(2)
  show ?thesis by (simp add: ReadOggAudioFile_def Let_def)
qed

text \<open>A reader of a list in pieces of two, and floats that are integers.\<close>

definition pieces_read :: "(int, int list) ogg_read" where
  "pieces_read buf r = (let n = min 2 (min (length buf) (length r))
     in ((n, if length r \<le> n then Some EOF else None), take n r @ drop n buf, drop n r))"

definition int_float :: "int go_float" where
  "int_float = \<lparr>fl_of_int = \<lambda>_. 1, fl_add = (+), fl_sub = (-), fl_mul = (*), fl_div = (div), fl_int = \<lambda>x. x, fl_i16 = word_of_int,
     fl_sin = \<lambda>x. x, fl_pi = 3, fl_infnan = \<lambda>_. False\<rparr>"

lemma ReadOggAudioFile_frames_witness:
  "ReadOggAudioFile int_float (\<lambda>_. Inr (150, 1, [1, 2, 3, 4, 5])) pieces_read [] 150 1 = Some [[1, 2, 3], [4, 5]]"
proof -
  have "ogg_contract pieces_read (\<lambda>r. r)" by (auto simp: ogg_contract_def pieces_read_def Let_def)
  from ReadOggAudioFile_frames [OF this, where F = int_float and new = "\<lambda>_. Inr (150, 1, [1, 2, 3, 4, 5])" and data = "[]" and sampleRate = 150, OF refl]
  show ?thesis by (simp add: ogg_sample_def chunks.simps int_float_def)
qed

end
