(* ===== verification/Srtp_Session.thy ===== *)
theory Srtp_Session
  imports Srtp
begin

text \<open>
  Concurrent calls on an SRTP session (\<open>srtp/srtp.go\<close>): \<open>AcceptStream\<close> records a stream under the lock some time
  after the library has handed it out, and \<open>Close\<close> sweeps the record under the lock some time after it has
  closed the library's session.  One step is what happens between two points where another call can come in.
\<close>

section \<open>The steps\<close>

text \<open>
  \<open>sr_accepted\<close> are the streams handed out and not yet recorded, \<open>sr_closers\<close> counts the calls of \<open>Close\<close> that have
  closed the library's session and not yet swept, \<open>sr_closing\<close> are the streams swept and still to be closed,
  \<open>sr_closed\<close> the streams closed, in order.
\<close>

record 'r srtp_run =
  sr_session :: "'r srtp_session"
  sr_accepted :: "'r list"
  sr_closers :: nat
  sr_closing :: "'r list"
  sr_closed :: "'r list"

definition srtp_start :: "'r srtp_run" where
  "srtp_start = \<lparr>sr_session = \<lparr>ss_streams = []\<rparr>, sr_accepted = [], sr_closers = 0, sr_closing = [], sr_closed = []\<rparr>"

datatype 'r srtp_label = HandedOut 'r | Recorded 'r | SessionClosed | Swept | StreamClosed 'r

inductive srtp_step :: "'r srtp_run \<Rightarrow> 'r srtp_label \<Rightarrow> 'r srtp_run \<Rightarrow> bool" where
  hand_out: "srtp_step s (HandedOut r) (s\<lparr>sr_accepted := sr_accepted s @ [r]\<rparr>)"
| record_stream: "r \<in> set (sr_accepted s) \<Longrightarrow>
    srtp_step s (Recorded r) (s\<lparr>sr_accepted := remove1 r (sr_accepted s), sr_session := accept_append r (sr_session s)\<rparr>)"
| close_session: "srtp_step s SessionClosed (s\<lparr>sr_closers := sr_closers s + 1\<rparr>)"
| sweep: "sr_closers s = Suc n \<Longrightarrow> close_sweep (sr_session s) = (streams, c) \<Longrightarrow>
    srtp_step s Swept (s\<lparr>sr_closers := n, sr_session := c, sr_closing := sr_closing s @ streams\<rparr>)"
| close_stream: "sr_closing s = pre @ r # suf \<Longrightarrow>
    srtp_step s (StreamClosed r) (s\<lparr>sr_closing := pre @ suf, sr_closed := sr_closed s @ [r]\<rparr>)"

inductive srtp_steps :: "'r srtp_label list \<Rightarrow> 'r srtp_run \<Rightarrow> bool" where
  start: "srtp_steps [] srtp_start"
| step: "srtp_steps ls s \<Longrightarrow> srtp_step s l s' \<Longrightarrow> srtp_steps (ls @ [l]) s'"

inductive_cases srtp_stepE: "srtp_step s l s'"

lemma srtp_steps_by: "srtp_steps ls s \<Longrightarrow> srtp_step s l s1 \<Longrightarrow> s1 = s2 \<Longrightarrow> ks = ls @ [l] \<Longrightarrow> srtp_steps ks s2"
  by (simp add: srtp_steps.step)

text \<open>The calls of the model, when no other call comes in between, are such steps.\<close>

lemma AcceptStream_steps:
  assumes "AcceptStream lib_accept (sr_session s) st = (Inr (r, ssrc), c', st')" "srtp_steps ls s" "sr_accepted s = []"
  shows "srtp_steps (ls @ [HandedOut r, Recorded r]) (s\<lparr>sr_session := c'\<rparr>)"
proof -
  have c': "c' = accept_append r (sr_session s)" using assms(1) by (auto simp: AcceptStream_def split: sum.splits prod.splits)
  have "srtp_steps (ls @ [HandedOut r]) (s\<lparr>sr_accepted := [r]\<rparr>)"
    using step [OF assms(2) hand_out [of _ r]] assms(3) by simp
  from step [OF this record_stream [of r]] c' assms(3) show ?thesis by (cases s) simp
qed

lemma streams_closed_steps:
  "srtp_steps ls s \<Longrightarrow> sr_closing s = rs \<Longrightarrow>
    srtp_steps (ls @ map StreamClosed rs) (s\<lparr>sr_closing := [], sr_closed := sr_closed s @ rs\<rparr>)"
proof (induction rs arbitrary: ls s)
  case (Cons r rs)
  have "srtp_steps (ls @ [StreamClosed r]) (s\<lparr>sr_closing := rs, sr_closed := sr_closed s @ [r]\<rparr>)"
    using step [OF Cons.prems(1) close_stream [of s "[]" r rs]] Cons.prems(2) by simp
  from Cons.IH [OF this] show ?case by simp
next
  case Nil
  then show ?case by (cases s) simp
qed

lemma session_Close_steps:
  assumes "session_Close lib_close stream_close (sr_session s) st = (err, c', st')" "srtp_steps ls s" "sr_closers s = 0" "sr_closing s = []"
  shows "srtp_steps (ls @ [SessionClosed, Swept] @ map StreamClosed (ss_streams (sr_session s)))
      (s\<lparr>sr_session := c', sr_closed := sr_closed s @ ss_streams (sr_session s)\<rparr>)"
proof -
  have c': "close_sweep (sr_session s) = (ss_streams (sr_session s), c')"
    using assms(1) by (auto simp: session_Close_def close_sweep_def split: prod.splits)
  have "srtp_steps (ls @ [SessionClosed]) (s\<lparr>sr_closers := 1\<rparr>)"
    using step [OF assms(2) close_session] assms(3) by simp
  from step [OF this sweep [of _ 0 _ c']] c' assms(3,4)
  have "srtp_steps (ls @ [SessionClosed, Swept])
      (s\<lparr>sr_session := c', sr_closing := ss_streams (sr_session s)\<rparr>)" by (cases s) simp
  from streams_closed_steps [OF this] assms(4) show ?thesis by (cases s) simp
qed

section \<open>What becomes of the streams\<close>

fun recorded :: "'r srtp_label list \<Rightarrow> 'r list" where
  "recorded [] = []"
| "recorded (Recorded r # ls) = r # recorded ls"
| "recorded (_ # ls) = recorded ls"

fun handed_out :: "'r srtp_label list \<Rightarrow> 'r list" where
  "handed_out [] = []"
| "handed_out (HandedOut r # ls) = r # handed_out ls"
| "handed_out (_ # ls) = handed_out ls"

text \<open>What was recorded after the last sweep, and before it.\<close>

definition since_sweep :: "'r srtp_label list \<Rightarrow> 'r srtp_label list" where
  "since_sweep ls = rev (takeWhile (\<lambda>l. l \<noteq> Swept) (rev ls))"

definition until_sweep :: "'r srtp_label list \<Rightarrow> 'r srtp_label list" where
  "until_sweep ls = rev (dropWhile (\<lambda>l. l \<noteq> Swept) (rev ls))"

lemma recorded_append [simp]: "recorded (ls @ ks) = recorded ls @ recorded ks"
  by (induction ls rule: recorded.induct) simp_all

lemma handed_out_append [simp]: "handed_out (ls @ ks) = handed_out ls @ handed_out ks"
  by (induction ls rule: handed_out.induct) simp_all

lemma sweep_split: "until_sweep ls @ since_sweep ls = ls"
  by (metis rev_append rev_rev_ident since_sweep_def takeWhile_dropWhile_id until_sweep_def)

lemma sweep_snoc [simp]:
  "since_sweep (ls @ [l]) = (if l = Swept then [] else since_sweep ls @ [l])"
  "until_sweep (ls @ [l]) = (if l = Swept then ls @ [l] else until_sweep ls)"
  by (simp_all add: since_sweep_def until_sweep_def)

lemma srtp_account:
  "srtp_steps ls s \<Longrightarrow> ss_streams (sr_session s) = recorded (since_sweep ls) \<and>
    mset (sr_closing s @ sr_closed s) = mset (recorded (until_sweep ls)) \<and>
    mset (handed_out ls) = mset (sr_accepted s @ recorded ls)"
proof (induction rule: srtp_steps.induct)
  case start
  then show ?case by (simp add: srtp_start_def since_sweep_def until_sweep_def)
next
  case (step ls s l s')
  have all: "mset (recorded ls) = mset (recorded (until_sweep ls)) + mset (recorded (since_sweep ls))"
    by (metis mset_append recorded_append sweep_split)
  from step.hyps(2) step.IH all show ?case
    by (cases rule: srtp_stepE) (auto simp: accept_append_def close_sweep_def)
qed

section \<open>Properties\<close>

text \<open>
  C40: closing an SRTP session closes the streams recorded before it, each once.  In any interleaving of
  \<open>AcceptStream\<close> and \<open>Close\<close> calls on streams the library hands out once, no stream is closed twice; when no \<open>Close\<close>
  is at work, the streams closed are exactly those that \<open>AcceptStream\<close> recorded before the last sweep, and the
  streams the session still holds are those recorded after it.  So a stream handed out before the close and
  recorded after its sweep is returned to the caller and stays open until another \<open>Close\<close>.
\<close>

theorem srtp_Close_closes_recorded:
  assumes "srtp_steps ls s" "distinct (handed_out ls)"
  shows "distinct (sr_accepted s @ ss_streams (sr_session s) @ sr_closing s @ sr_closed s) \<and>
    (sr_closing s = [] \<longrightarrow> set (sr_closed s) = set (recorded (until_sweep ls)) \<and>
      set (recorded ls) - set (sr_closed s) = set (ss_streams (sr_session s))) \<and>
    ss_streams (sr_session s) = recorded (since_sweep ls)"
proof -
  note a = srtp_account [OF assms(1)]
  have rec: "mset (recorded ls) = mset (recorded (until_sweep ls)) + mset (recorded (since_sweep ls))"
    by (metis mset_append recorded_append sweep_split)
  have "mset (handed_out ls) = mset (sr_accepted s @ ss_streams (sr_session s) @ sr_closing s @ sr_closed s)"
    using a rec by (simp add: add.commute add.left_commute)
  with assms(2) have d: "distinct (sr_accepted s @ ss_streams (sr_session s) @ sr_closing s @ sr_closed s)"
    using mset_eq_imp_distinct_iff by blast
  have sets: "set (sr_closing s @ sr_closed s) = set (recorded (until_sweep ls))"
    "set (recorded ls) = set (recorded (until_sweep ls)) \<union> set (recorded (since_sweep ls))"
    using a by (blast dest: mset_eq_setD) (metis recorded_append set_append sweep_split)
  with d a show ?thesis by auto
qed

text \<open>The stream 7 is recorded after the sweep, and left open.\<close>

theorem srtp_Close_closes_recorded_witness:
  "\<exists>s :: nat srtp_run. srtp_steps [HandedOut 5, Recorded 5, HandedOut 7, SessionClosed, Swept, StreamClosed 5, Recorded 7] s \<and>
    sr_closing s = [] \<and> sr_closers s = 0 \<and> set (sr_closed s) = {5} \<and> ss_streams (sr_session s) = [7]"
proof -
  define ls :: "nat srtp_label list" where "ls = [HandedOut 5, Recorded 5, HandedOut 7, SessionClosed, Swept, StreamClosed 5, Recorded 7]"
  define s :: "nat srtp_run" where
    "s = \<lparr>sr_session = \<lparr>ss_streams = [7]\<rparr>, sr_accepted = [], sr_closers = 0, sr_closing = [], sr_closed = [5]\<rparr>"
  define st where "st streams acc k closing closed = (\<lparr>sr_session = \<lparr>ss_streams = streams\<rparr>, sr_accepted = acc,
    sr_closers = k, sr_closing = closing, sr_closed = closed\<rparr> :: nat srtp_run)" for streams acc k closing closed
  note defs = st_def accept_append_def close_sweep_def
  have "srtp_steps [] (st [] [] 0 [] [])" using srtp_steps.start by (simp add: srtp_start_def st_def)
  then have "srtp_steps [HandedOut 5] (st [] [5] 0 [] [])" by (rule srtp_steps_by [OF _ hand_out [of _ 5]]) (simp_all add: defs)
  then have "srtp_steps [HandedOut 5, Recorded 5] (st [5] [] 0 [] [])" by (rule srtp_steps_by [OF _ record_stream [of 5]]) (simp_all add: defs)
  then have "srtp_steps (take 3 ls) (st [5] [7] 0 [] [])" by (rule srtp_steps_by [OF _ hand_out [of _ 7]]) (simp_all add: defs ls_def)
  then have "srtp_steps (take 4 ls) (st [5] [7] 1 [] [])" by (rule srtp_steps_by [OF _ close_session]) (simp_all add: defs ls_def)
  then have "srtp_steps (take 5 ls) (st [] [7] 0 [5] [])" 
    by (rule srtp_steps_by [OF _ sweep [of _ 0 "[5]" "\<lparr>ss_streams = []\<rparr>"]]) (simp_all add: defs ls_def)
  then have "srtp_steps (take 6 ls) (st [] [7] 0 [] [5])" by (rule srtp_steps_by [OF _ close_stream [of _ "[]" 5 "[]"]]) (simp_all add: defs ls_def)
  then have "srtp_steps ls s" by (rule srtp_steps_by [OF _ record_stream [of 7]]) (simp_all add: defs ls_def s_def)
  moreover have "distinct (handed_out ls)" by (simp add: ls_def)
  ultimately show ?thesis using srtp_Close_closes_recorded [of ls s] by (auto simp: ls_def s_def)
qed

end
