(* ===== verification/Sdp_Call.thy ===== *)
theory Sdp_Call
  imports Sdp_Session Media_Path
begin

text \<open>
  From negotiation to audio: the codec two sides agree on by offer and answer (\<open>sdp/offer.go\<close>) opens on both of
  them (\<open>rtp/codecs.go\<close>), and the call is heard.
\<close>

section \<open>The negotiated configuration\<close>

definition law_codec :: "g711_name \<Rightarrow> u8 \<Rightarrow> codec_type" where
  "law_codec l = (case l of PCMU \<Rightarrow> ulaw_codec | PCMA \<Rightarrow> alaw_codec)"

text \<open>What a side passes on from the codec it has selected.\<close>

definition negotiated_config :: "audio_config \<Rightarrow> codec_config" where
  "negotiated_config a = ci_Config (si_Info (ac_Codec a))"

lemma law_codec_Supports: "codec_Supports (law_codec l pt) cc = map_option Defaults (law_Support l pt cc)"
  using NewCodec_registered(1,2) [of pt]
  by (cases l) (auto simp: law_codec_def ulaw_codec_def alaw_codec_def codec_of_def codec_Supports_def law_Support_def NewCodec_def
      split: if_splits)

lemma law_Support_again:
  "law_Support l pt cc = Some i \<Longrightarrow> \<exists>i'. law_Support l typ (ci_Config (Defaults i)) = Some i'"
  by (cases l) (auto simp: law_Support_def ulaw_Support_def alaw_Support_def mk_info_def Defaults_def Let_def split: if_splits)

lemma selected_supported:
  assumes "env_ok e" "OfferMediaWith e locals s1 port enc st = (Inr (own, m), st')"
    and "distinct (map si_Type (OfferCodecsWith e s1))"
    and "list_all (wire_profile key_len) (md_CryptoProfiles own)" "newdir ''sendrecv'' = Inr dir"
    and "ParseMediaWith e key_len newdir s2 m = Some (Inr d)" "SelectAudio d False = Inr a" "si_Codec (ac_Codec a) = Some t"
  shows "\<exists>cc. codec_Supports t cc = Some (si_Info (ac_Codec a))"
proof -
  note u = offer_understood(2) [where newdir = newdir, OF assms(1-5)]
  from offer_understood(1) [where newdir = newdir and ?s2.0 = s2, OF assms(1-5)] assms(6) have "md_Audio d = map (resolved e s2) (filter (shared e s2) (md_Audio own))" by fastforce
  with SelectAudio_in(1) [OF assms(7)] obtain c where c: "c \<in> set (md_Audio own)" "shared e s2 c" "ac_Codec a = resolved e s2 c"
    by auto
  with resolved_offered [OF assms(1), of s1 c s2] u assms(8) show ?thesis by (auto simp: shared_def)
qed

section \<open>Properties\<close>

text \<open>
  C2: a negotiated call is heard.  Let one side offer its codecs and the other parse the offer and select a G.711
  codec.  Then the offerer, parsing the answer, selects the same codec with the same payload type, and for both
  of them the codec opens: PCM frames written to \<open>EncodePCM\<close> of one are sent with the negotiated payload type, and
  when the packets arrive in turn at the jitter handler of the other, all frames come out of \<open>DecodePCM\<close>, in
  order, each sample the value of a nearest code.
\<close>

theorem negotiated_call_heard:
  assumes "env_ok e" "OfferMediaWith e locals s1 port enc st = (Inr (own, m), st')"
    and "distinct (map si_Type (OfferCodecsWith e s1))"
    and "list_all (wire_profile key_len) (md_CryptoProfiles own)" "newdir ''sendrecv'' = Inr dir"
    and "ParseMediaWith e key_len newdir s2 m = Some (Inr d)" "SelectAudio d False = Inr a"
    and "si_Codec (ac_Codec a) = Some (law_codec l pt)"
    and "WithSequenceRestartDetection \<notin> set opts" "length ts = length frames"
  shows "\<exists>d2 a2 ps es r out. ParseMediaWith e key_len newdir s1 (AnswerMedia port2 a None) = Some (Inr d2) \<and>
    SelectAudio d2 True = Inr a2 \<and> si_Type (ac_Codec a2) = si_Type (ac_Codec a) \<and>
    sent_packets l (negotiated_config a) (si_Type (ac_Codec a)) ssrc frames = Some ps \<and>
    list_all (\<lambda>p. h_PayloadType (fst p) = si_Type (ac_Codec a)) ps \<and>
    jh_run nxt (in_turn ps ts) (HandleJitter opts t0) = Some (es, r) \<and>
    heard_frames l (negotiated_config a2) (si_Type (ac_Codec a2)) (jh_calls r) = Some out \<and>
    list_all2 (frame_heard l) (map fst frames) out"
proof -
  obtain cc where "codec_Supports (law_codec l pt) cc = Some (si_Info (ac_Codec a))"
    using selected_supported [where newdir = newdir, OF assms(1-8)] by blast
  then obtain i where "law_Support l pt cc = Some i" "si_Info (ac_Codec a) = Defaults i" by (auto simp: law_codec_Supports)
  then obtain i' where i': "law_Support l (si_Type (ac_Codec a)) (negotiated_config a) = Some i'"
    using law_Support_again by (fastforce simp: negotiated_config_def)
  have "\<forall>port2 crypt. pred_option (wire_profile key_len) crypt \<longrightarrow>
      (\<exists>d2. ParseMediaWith e key_len newdir s1 (AnswerMedia port2 a crypt) = Some (Inr d2) \<and>
        md_CryptoProfiles d2 = (case crypt of None \<Rightarrow> [] | Some p \<Rightarrow> [p]) \<and> md_Direction d2 = dir \<and> SelectAudio d2 True = Inr a)"
    using media_agrees [where newdir = newdir and ?s2.0 = s2, OF assms(1-5)] assms(6,7) by simp
  then obtain d2 where "ParseMediaWith e key_len newdir s1 (AnswerMedia port2 a None) = Some (Inr d2)" "SelectAudio d2 True = Inr a"
    by (metis option.pred_inject(1))
  with call_in_turn [OF i' assms(9,10)] show ?thesis by blast
qed

text \<open>Two sides that only have mu-law.\<close>

definition call_env :: sdp_env where
  "call_env = \<lparr>se_globals = RegisterCodec (law_codec PCMU 0) codec_globals_init,
     se_byName = fold byName_onRegister [law_codec PCMU 0] (\<lambda>_. None), se_byType = codecByType_init\<rparr>"

lemma call_env_ok: "env_ok call_env"
  using ulaw.sdp_codec_axioms [of 0] by (simp add: env_ok_def call_env_def law_codec_def RegisterCodec_def codec_globals_init_def Let_def)

theorem negotiated_call_heard_witness:
  "\<exists>own m d a d2 a2 ps es r out. OfferMediaWith call_env (\<lambda>st. (Inl EOF, st)) None 5004 EncryptionNone () = (Inr (own, m), ()) \<and>
    ParseMediaWith call_env example_len (\<lambda>_. Inr 1) None m = Some (Inr d) \<and> SelectAudio d False = Inr a \<and>
    ParseMediaWith call_env example_len (\<lambda>_. Inr 1) None (AnswerMedia 6000 a None) = Some (Inr d2) \<and> SelectAudio d2 True = Inr a2 \<and>
    sent_packets PCMU (negotiated_config a) (si_Type (ac_Codec a)) 77 [([100, - 3], 5), ([0], 25)] = Some ps \<and>
    jh_run (\<lambda>_ _. None) (in_turn ps [(6, 6), (30, 31)]) (HandleJitter [] 0) = Some (es, r) \<and>
    heard_frames PCMU (negotiated_config a2) (si_Type (ac_Codec a2)) (jh_calls r) = Some out \<and>
    list_all2 (frame_heard PCMU) [[100, - 3], [0]] out"
proof -
  have "map si_kind (OfferCodecsWith call_env None) = [Audio]" by code_simp
  then obtain c where c: "OfferCodecsWith call_env None = [c]" "si_kind c = Audio" by (auto simp: map_eq_Cons_conv)
  then obtain own m where o: "OfferMediaWith call_env (\<lambda>st. (Inl EOF, st)) None 5004 EncryptionNone () = (Inr (own, m), ())"
    and own: "md_Audio own = [c]" "md_CryptoProfiles own = []" by (simp add: OfferMediaWith_def Let_def)
  have prems: "distinct (map si_Type (OfferCodecsWith call_env None))" "list_all (wire_profile example_len) (md_CryptoProfiles own)"
    "(\<lambda>_. Inr 1) ''sendrecv'' = Inr 1" by (simp_all add: c own)
  have "offered call_env None c" using OfferCodecsWith_offered [OF call_env_ok] c(1) by simp
  then have t: "si_Codec c = Some (law_codec PCMU 0)"
    by (auto simp: offered_def call_env_def RegisterCodec_def codec_globals_init_def)
  have "IsEnabled (se_sets call_env) (or_global None) (Some (law_codec PCMU 0))" by code_simp
  with t have sh: "shared call_env None c" by (simp add: shared_def)
  obtain d where d: "ParseMediaWith call_env example_len (\<lambda>_. Inr 1) None m = Some (Inr d)" "md_Audio d = [resolved call_env None c]"
    using offer_understood(1) [where newdir = "\<lambda>_. Inr 1" and ?s2.0 = None, OF call_env_ok o prems] own(1) sh by auto
  obtain a where a: "SelectAudio d False = Inr a" using SelectAudio_none [of d False] d(2) by (cases "SelectAudio d False") auto
  have "si_Codec (ac_Codec a) = Some (law_codec PCMU 0)"
    using SelectAudio_in(1) [OF a] d(2) resolved_offered [OF call_env_ok \<open>offered call_env None c\<close>, of None] sh t by (simp add: shared_def)
  from negotiated_call_heard [where newdir = "\<lambda>_. Inr 1", OF call_env_ok o prems d(1) a this, of "[]" "[(6, 6), (30, 31)]" "[([100, - 3], 5), ([0], 25)]" 6000 77 "\<lambda>_ _. None" 0]
  obtain d2 a2 ps es r out where "ParseMediaWith call_env example_len (\<lambda>_. Inr 1) None (AnswerMedia 6000 a None) = Some (Inr d2)"
    "SelectAudio d2 True = Inr a2" "si_Type (ac_Codec a2) = si_Type (ac_Codec a)"
    "sent_packets PCMU (negotiated_config a) (si_Type (ac_Codec a)) 77 [([100, - 3], 5), ([0], 25)] = Some ps"
    "jh_run (\<lambda>_ _. None) (in_turn ps [(6, 6), (30, 31)]) (HandleJitter [] 0) = Some (es, r)"
    "heard_frames PCMU (negotiated_config a2) (si_Type (ac_Codec a2)) (jh_calls r) = Some out"
    "list_all2 (frame_heard PCMU) [[100, - 3], [0]] out" by auto
  with o d(1) a show ?thesis by metis
qed

end
