(* ===== verification/Spec2Isabelle.thy ===== *)
theory Spec2Isabelle
  imports Mixer Rtp_Jitter Jitter_Vote Media_Bytes Media_Pipe Rtp_Mux Rtp_Listen Dtmf Sdp_Session Rtp_Session
    G711 Tones Resample Codec_Writers Media_Dump Media_Audio Media_Path Media_Res
    Srtp_Session Sdp_Call
begin

text \<open>
  A verification development for the LiveKit media SDK (the Go sources under \<open>src/\<close>).

  The program.  Audio moves through chains of writers, each of which passes frames on to the next one: from a
  network session through a jitter buffer and a decoder into a mixer, or from a source through an encoder and
  a sequence writer to the network.  SDP negotiation decides beforehand which codec, which telephone events and
  which keys the two sides use.  The parts below are modelled from the ring buffer up.

  Conventions (\<open>Media_Prelude\<close>).  A Go call that can panic is an \<open>option\<close>, \<open>None\<close> being the panic; a Go error is
  a value, \<open>None\<close> for nil; an integer whose width matters is a word, any other one a \<open>nat\<close> or \<open>int\<close>; times are
  \<open>int\<close>s of nanoseconds.  A downstream writer is the function its \<open>WriteSample\<close> is, from a frame and the writer's
  state to an error and the state after it.  Most results hold for any such function, errors included; those
  that are stated for a writer that records what it gets and never fails (\<open>frameWriter_WriteSample\<close>,
  \<open>Buffer_WriteRTP\<close>) name it.  A step is what runs under one lock: a call that takes a lock more than once is
  split where other calls can come in between (\<open>WritePayload_begin\<close> and \<open>WritePayload_end\<close>, the steps of \<open>Close\<close>
  and of the goroutine of the jitter buffer); the call as a whole is their composition with nothing in between.

  Buffers and mixing.
  \<^item> \<open>Ring_Buffer\<close> (\<open>ring/buffer.go\<close>): the buffer with its index arithmetic, refined to a bounded queue.
  \<^item> \<open>Mixer\<close> (\<open>mixer/mixer.go\<close>): inputs, one mixing step, the catch-up of the ticker, the output channel and the
    goroutine that writes it; the mixed frame is the clipped sum, and what is written is what was mixed, in order.

  The jitter buffer.
  \<^item> \<open>Seq_Number\<close>, \<open>Jitter_Packet\<close>, \<open>Jitter_Line\<close>, \<open>Jitter_Buffer\<close> (\<open>jitter/packet.go\<close>, \<open>lines.go\<close>, \<open>buffer.go\<close>): packets,
    16-bit order, the vote between sequence lines, every operation of the buffer, the steps of \<open>Close\<close> and of the
    goroutine that waits for the timer.  The linked list is a list.
  \<^item> \<open>Jitter_Invariant\<close>, \<open>Jitter_Queue\<close>, \<open>Jitter_Account\<close>, \<open>Jitter_Run\<close>: the invariant of the buffer, its preservation
    by every operation, and the accounts of all packets along any run.
  \<^item> \<open>Jitter_Order\<close>, \<open>Jitter_Source\<close>, \<open>Jitter_Vote\<close>: delivery in order for a stream within range, delivery without
    delay for a stream in order, where delivered packets come from, and the decisions of the vote.
  \<^item> \<open>Rtp_Jitter\<close> (\<open>rtp/jitter.go\<close>): the handler in front of another one.

  Frames, writers and files.
  \<^item> \<open>Media_Writers\<close>, \<open>Media_Frames\<close>, \<open>Media_Bytes\<close>, \<open>Media_Dump\<close> (\<open>media.go\<close>, \<open>pcm.go\<close>, \<open>buffers.go\<close>, \<open>gain.go\<close>, \<open>bytes.go\<close>,
    \<open>dump.go\<close>): switches and fan-out, full frames, gain, encoding to bytes, buffered files.
  \<^item> \<open>Media_Pipe\<close> (\<open>pipe.go\<close>): the pipe as a step relation over any number of concurrent calls.
  \<^item> \<open>Go_Float\<close>, \<open>Beep\<close>, \<open>Resample\<close> (\<open>resampler_beep.go\<close>, \<open>resample_beep.go\<close>, \<open>resample_soxr.go\<close>, \<open>resample.go\<close>,
    \<open>resample_nocgo.go\<close>): the interpolating resampler refined to interpolation over the whole source, and the wrapper of libsoxr.
  \<^item> \<open>G711\<close> (\<open>g711\<close>): expansion, the tables and their construction, the coders; one locale of companding laws,
    interpreted on A-law and mu-law, whose assumptions are checked by evaluation over all codes.
  \<^item> \<open>Codec_Writers\<close> (\<open>amrwb/amrwb.go\<close>, \<open>opus/opus.go\<close>, \<open>g722/g722.go\<close>, \<open>webm/writer.go\<close>): the writers around the codec
    libraries and the blocks of a WebM file.
  \<^item> \<open>Media_Audio\<close> (\<open>audio.go\<close> and the constructors in the \<open>init\<close> functions of the codec packages): a codec that
    negotiation accepted opens its encoders and decoders, at the accepted sample rate.
  \<^item> \<open>Tones\<close>, \<open>Dtmf\<close> (\<open>tones/tones.go\<close>, \<open>dtmf/dtmf.go\<close>): call progress tones and telephone events.
  \<^item> \<open>Media_Res\<close> (\<open>res/embed.go\<close>): an Ogg file cut into frames.

  RTP.
  \<^item> \<open>Rtp_Writer\<close> (\<open>rtp/rtp.go\<close>): sequence numbers and the 32-bit timeline of several streams, whose calls
    interleave at the lock of the \<open>SeqWriter\<close>.
  \<^item> \<open>Rtp_Mux\<close>, \<open>Rtp_Listen\<close> (\<open>rtp/mux.go\<close>, \<open>rtp/codecs.go\<close>, \<open>rtp/listen.go\<close>): dispatch by payload type, ports.
  \<^item> \<open>Rtp_Session\<close> (\<open>rtp/session.go\<close>): the accept loop, the readers and the closer of a session as a step relation.
  \<^item> \<open>Srtp\<close>, \<open>Srtp_Session\<close> (\<open>srtp/srtp.go\<close>): profiles, the wrapper that keeps the accepted streams, and the
    interleavings of accepting and closing as a step relation.

  All together.
  \<^item> \<open>Media_Path\<close>: a G.711 call from the PCM frames written on one side, through the encoder, the stream, the
    network in any order, the jitter handler and the decoder, to the PCM frames heard on the other.  Its own
    definitions only connect the models of the components, as a caller of the library does.
  \<^item> \<open>Sdp_Call\<close>: the same call, with the codec and the payload type that an offer and an answer settled on.

  Codecs and SDP.
  \<^item> \<open>Go_Strings\<close>, \<open>Base64\<close>: what the code uses of \<open>strings\<close>, \<open>strconv\<close> and \<open>encoding/base64\<close>, with their round trips.
  \<^item> \<open>Codec_Set\<close>, \<open>Codec_Types\<close> (\<open>codecs.go\<close> and the \<open>init\<close> functions of the codec packages): the registry, overlaid
    sets, and the registered codecs.  The locale \<open>sdp_codec\<close> is the contract SDP relies on; every registered codec
    is an interpretation of it.
  \<^item> \<open>Sdp_Crypto\<close>, \<open>Sdp_Media\<close>, \<open>Sdp_Lines\<close>, \<open>Sdp_Negotiate\<close>, \<open>Sdp_Session\<close> (\<open>sdp/offer.go\<close>, \<open>sdp/codecs.go\<close>,
    \<open>sdp/helpers.go\<close>): crypto attributes, media descriptions, parsing what was printed, and the agreement of the two
    sides after an offer and an answer.

  Interfaces.  \<open>sink\<close> and its extensions are writers whose calls can be observed (interpreted on writers that
  answer anything and on \<open>NewFrameWriter\<close>); \<open>byte_file\<close> is \<open>io.Writer\<close> (interpreted on a disk that may fail, and
  on the buffered writer itself); \<open>byte_frame\<close> is a frame type with its \<open>Size\<close> and \<open>CopyTo\<close> (interpreted on the
  samples of every codec); \<open>bounded_fifo\<close> is what the mixer needs of the ring buffer; \<open>jb_popping\<close> and
  its extensions \<open>jb_invariant\<close>, \<open>jb_calls\<close> and \<open>jb_stable\<close> are an invariant of the jitter buffer that popping, a restart of
  the stream, and closing and the goroutine keep, \<open>whole_packets\<close> a depacketizer without
  partitions; \<open>g711_law\<close> and \<open>sdp_codec\<close> are described above.

  Bounds and termination.  Loops are recursive functions with a measure.  The loops of the soxr wrapper, of the
  AMR-WB decoder and of the Ogg reader end only if the library makes progress; they are partial functions, and
  that they return is proved from that hypothesis.  No fuel is used.  Durations are unbounded except where the code multiplies them
  by frequencies or sample rates (tones, the frame of the mixer, the buffer of the Opus decoder), which is done
  at 64 bits; the sample rate of a switch is converted to 32 bits.  Computations on \<open>float64\<close> are written over a record of operations,
  so what is proved does not depend on rounding; conversions of \<open>float32\<close> out of range are a parameter.

  Parameters.  Code outside \<open>src/\<close> is an argument of the definitions that use it: the codec libraries, libsoxr, the
  WebM container, the Vorbis reader, \<open>pion/rtp\<close> parsing and printing, \<open>pion/srtp\<close>, address syntax, the network, the file system, the
  source of randomness, and the clock.

  Not modelled.  Most \<open>String\<close> methods, which describe a writer for logs, and the loggers; interfaces and names
  of types (\<open>processor.go\<close>); the constants of \<open>rtp/media.go\<close> that nothing here reads; the embedded files (\<open>res\<close>,
  \<open>res/testdata\<close>) and blank imports (\<open>all\<close>); the loss ratio of the jitter buffer's statistics; memory
  recycling of jitter packets.  Buffers that are reused between calls appear only where their contents can be
  seen.
\<close>

end
